(* ===== verification/Js_Prelude.thy ===== *)
theory Js_Prelude
  imports Complex_Main "HOL-Library.Finite_Map" "HOL-Library.Word" "HOL-Library.List_Lexorder"
    "HOL-Library.Multiset"
begin

unbundle bit_operations_syntax

text \<open>
  Shared vocabulary of the development: JavaScript strings, objects used as dictionaries,
  the numeric helpers of \<open>Math\<close>, and the algebra of state-based replication.

  \<^item> A JavaScript string is the list of its UTF-16 code units; \<open><\<close> on strings is the
    lexicographic order on code units, which is what the source's string comparison uses.
  \<^item> An object used as a dictionary (the source builds them without a prototype) is a finite
    map. \<open>Object.keys\<close>, \<open>Object.values\<close> and \<open>Object.entries\<close> visit the keys in ascending
    order here; the source's insertion order is not observable in the functions modelled,
    because each of them sorts its result or combines entries with an order-independent
    operation (where a function is sensitive to the order, its theory says so).
  \<^item> A number of the replicated state is a finite number: a rational. Counts, flags of
    arrays and the two clock fields are integers.
\<close>

section \<open>Strings\<close>

type_synonym code_unit = "16 word"
type_synonym jsstring = "code_unit list"
type_synonym number = rat

text \<open>A string literal of the source.\<close>

definition js :: "string \<Rightarrow> jsstring" where
  "js s = map (\<lambda>c. of_nat (of_char c)) s"

lemma js_simps [simp]:
  "js [] = []"
  "js (c # s) = of_nat (of_char c) # js s"
  "js (s @ t) = js s @ js t"
  "length (js s) = length s"
  by (simp_all add: js_def)

lemma of_char_less_65536 [simp]: "(of_char c :: nat) < 65536"
  by (rule order_less_le_trans [of _ 256]) (simp_all add: nat_of_char_less_256)

lemma of_char_code_unit_eq_iff:
  "(of_nat (of_char c) :: code_unit) = of_nat (of_char d) \<longleftrightarrow> c = d"
proof
  assume "(of_nat (of_char c) :: code_unit) = of_nat (of_char d)"
  then have "unat (of_nat (of_char c) :: code_unit) = unat (of_nat (of_char d) :: code_unit)"
    by simp
  then have "(of_char c :: nat) = of_char d"
    by (simp add: unat_of_nat take_bit_eq_mod)
  then show "c = d" by simp
qed simp

lemma js_inject [simp]: "js s = js t \<longleftrightarrow> s = t"
  by (auto simp: js_def of_char_code_unit_eq_iff inj_def intro: inj_map_eq_map [THEN iffD1])

text \<open>\<open>s.startsWith(p)\<close>, \<open>s.slice(0, n)\<close> is \<open>take n s\<close>, \<open>s.slice(n)\<close> is \<open>drop n s\<close>.\<close>

fun starts_with :: "'a list \<Rightarrow> 'a list \<Rightarrow> bool" where
  "starts_with s [] = True"
| "starts_with [] (p # ps) = False"
| "starts_with (c # s) (p # ps) = (c = p \<and> starts_with s ps)"

lemma starts_with_iff: "starts_with s p \<longleftrightarrow> (\<exists>t. s = p @ t)"
  by (induction s p rule: starts_with.induct) auto

lemma starts_with_append [simp]: "starts_with (p @ s) p"
  by (auto simp: starts_with_iff)

text \<open>
  \<open>trim()\<close> removes the characters of the classes WhiteSpace and LineTerminator, the ones
  \<open>\s\<close> matches in a regular expression.
\<close>

definition is_space :: "code_unit \<Rightarrow> bool" where
  "is_space c \<longleftrightarrow> c \<in> {9, 10, 11, 12, 13, 32, 160, 5760, 8232, 8233, 8239, 8287, 12288, 65279}
     \<or> 8192 \<le> c \<and> c \<le> 8202"

definition trim_start :: "jsstring \<Rightarrow> jsstring" where
  "trim_start s = dropWhile is_space s"

definition trim :: "jsstring \<Rightarrow> jsstring" where
  "trim s = rev (trim_start (rev (trim_start s)))"

text \<open>\<open>s.padStart(k, c)\<close> with a one-character filler, and \<open>n.toString(36)\<close>.\<close>

definition padStart :: "nat \<Rightarrow> code_unit \<Rightarrow> jsstring \<Rightarrow> jsstring" where
  "padStart k c s = replicate (k - length s) c @ s"

definition digit36 :: "nat \<Rightarrow> code_unit" where
  "digit36 d = (if d < 10 then of_nat (48 + d) else of_nat (87 + d))"

fun toString36 :: "nat \<Rightarrow> jsstring" where
  "toString36 n = (if n < 36 then [digit36 n] else toString36 (n div 36) @ [digit36 (n mod 36)])"

declare toString36.simps [simp del]

text \<open>\<open>String(n)\<close> of a natural number.\<close>

fun toString10 :: "nat \<Rightarrow> jsstring" where
  "toString10 n = (if n < 10 then [of_nat (48 + n)] else toString10 (n div 10) @ [of_nat (48 + n mod 10)])"

declare toString10.simps [simp del]

text \<open>
  \<open>Number.parseInt(s, 36)\<close>: leading white space is skipped, then an optional sign, then the
  longest run of digits of either case; no digit gives \<open>NaN\<close>, here \<open>None\<close>.
\<close>

definition digit36_value :: "code_unit \<Rightarrow> nat option" where
  "digit36_value c =
     (if 48 \<le> c \<and> c \<le> 57 then Some (unat c - 48)
      else if 97 \<le> c \<and> c \<le> 122 then Some (unat c - 87)
      else if 65 \<le> c \<and> c \<le> 90 then Some (unat c - 55)
      else None)"

fun digits36 :: "jsstring \<Rightarrow> nat list" where
  "digits36 [] = []"
| "digits36 (c # s) = (case digit36_value c of None \<Rightarrow> [] | Some d \<Rightarrow> d # digits36 s)"

definition parseInt36 :: "jsstring \<Rightarrow> int option" where
  "parseInt36 s =
     (let t = trim_start s;
          neg = (case t of c # _ \<Rightarrow> c = 45 | [] \<Rightarrow> False);
          u = (case t of c # r \<Rightarrow> (if c = 45 \<or> c = 43 then r else t) | [] \<Rightarrow> []);
          ds = digits36 u;
          v = foldl (\<lambda>acc d. 36 * acc + int d) 0 ds
      in if ds = [] then None else Some (if neg then - v else v))"

subsection \<open>Fixed-width base 36\<close>

text \<open>
  \<open>fixed36 k n\<close> is the \<open>k\<close>-digit form of \<open>n\<close>; string order on it is numeric order, and
  parsing reads the number back.
\<close>

lemma digit36_unat: "d < 36 \<Longrightarrow> unat (digit36 d) = (if d < 10 then 48 + d else 87 + d)"
  by (simp add: digit36_def unat_of_nat take_bit_eq_mod del: of_nat_add)

lemma digit36_less_iff: "d < 36 \<Longrightarrow> e < 36 \<Longrightarrow> digit36 d < digit36 e \<longleftrightarrow> d < e"
  by (auto simp: word_less_nat_alt digit36_unat)

lemma digit36_eq_iff: "d < 36 \<Longrightarrow> e < 36 \<Longrightarrow> digit36 d = digit36 e \<longleftrightarrow> d = e"
  by (metis digit36_less_iff less_irrefl linorder_neqE_nat)

lemma digit36_value_digit36: "d < 36 \<Longrightarrow> digit36_value (digit36 d) = Some d"
  by (auto simp: digit36_value_def word_le_nat_alt digit36_unat)

lemma digit36_base: "d < 36 \<Longrightarrow> 48 \<le> digit36 d \<and> digit36 d \<le> 57 \<or> 97 \<le> digit36 d \<and> digit36 d \<le> 122"
  by (auto simp: word_le_nat_alt digit36_unat)

fun fixed36 :: "nat \<Rightarrow> nat \<Rightarrow> jsstring" where
  "fixed36 0 n = []"
| "fixed36 (Suc k) n = fixed36 k (n div 36) @ [digit36 (n mod 36)]"

lemma length_fixed36 [simp]: "length (fixed36 k n) = k"
  by (induction k n rule: fixed36.induct) auto

lemma fixed36_zero: "fixed36 k 0 = replicate k 48"
  by (induction k) (auto simp: digit36_def replicate_append_same)

lemma padStart_toString36:
  "n < 36 ^ Suc k \<Longrightarrow> padStart (Suc k) 48 (toString36 n) = fixed36 (Suc k) n"
proof (induction k arbitrary: n)
  case 0
  then show ?case by (simp add: padStart_def toString36.simps)
next
  case (Suc k)
  show ?case
  proof (cases "n < 36")
    case True
    then have "n div 36 = 0" by simp
    with True show ?thesis
      by (simp add: padStart_def toString36.simps [of n] fixed36_zero digit36_def replicate_append_same
          del: fixed36.simps(2)) (simp add: fixed36_zero digit36_def replicate_append_same)
  next
    case False
    from Suc.prems have "n div 36 < 36 ^ Suc k"
      by (simp add: less_mult_imp_div_less)
    from Suc.IH [OF this] show ?thesis
      using False by (simp add: padStart_def toString36.simps [of n])
  qed
qed

lemma snoc_less_iff:
  "length xs = length ys \<Longrightarrow> xs @ [x] < ys @ [y] \<longleftrightarrow> xs < ys \<or> xs = ys \<and> (x::'a::linorder) < y"
  by (induction xs ys rule: list_induct2) auto

lemma append_less_iff:
  "length xs = length ys \<Longrightarrow> xs @ us < ys @ vs \<longleftrightarrow> xs < ys \<or> xs = ys \<and> us < (vs :: 'a::linorder list)"
  by (induction xs ys rule: list_induct2) auto

lemma fixed36_eq_iff:
  "n < 36 ^ k \<Longrightarrow> m < 36 ^ k \<Longrightarrow> fixed36 k n = fixed36 k m \<longleftrightarrow> n = m"
proof (induction k arbitrary: n m)
  case (Suc k)
  then have "fixed36 k (n div 36) = fixed36 k (m div 36) \<longleftrightarrow> n div 36 = m div 36"
    by (intro Suc.IH) (simp_all add: less_mult_imp_div_less mult.commute)
  then show ?case
    by (metis append1_eq_conv digit36_eq_iff div_mult_mod_eq fixed36.simps(2) mod_less_divisor
        zero_less_numeral)
qed simp

lemma base36_less_iff:
  fixes a b r s :: nat
  assumes "r < 36" "s < 36"
  shows "a * 36 + r < b * 36 + s \<longleftrightarrow> a < b \<or> a = b \<and> r < s"
  using assms by auto

lemma fixed36_less_iff:
  "n < 36 ^ k \<Longrightarrow> m < 36 ^ k \<Longrightarrow> fixed36 k n < fixed36 k m \<longleftrightarrow> n < m"
proof (induction k arbitrary: n m)
  case (Suc k)
  then have d: "n div 36 < 36 ^ k" "m div 36 < 36 ^ k"
    by (simp_all add: less_mult_imp_div_less mult.commute)
  have "n < m \<longleftrightarrow> n div 36 < m div 36 \<or> n div 36 = m div 36 \<and> n mod 36 < m mod 36"
    using base36_less_iff [of "n mod 36" "m mod 36" "n div 36" "m div 36"] by simp
  then show ?case
    using Suc.IH [OF d] fixed36_eq_iff [OF d] by (simp add: snoc_less_iff digit36_less_iff)
qed simp


lemma digits36_append:
  "list_all (\<lambda>c. digit36_value c \<noteq> None) s \<Longrightarrow> digits36 (s @ t) = digits36 s @ digits36 t"
  by (induction s) auto

lemma fixed36_digits: "list_all (\<lambda>c. digit36_value c \<noteq> None) (fixed36 k n)"
  by (induction k n rule: fixed36.induct) (auto simp: digit36_value_digit36)

lemma fixed36_value:
  "n < 36 ^ k \<Longrightarrow> foldl (\<lambda>acc d. 36 * acc + int d) 0 (digits36 (fixed36 k n)) = int n"
proof (induction k arbitrary: n)
  case (Suc k)
  from Suc.prems have "n div 36 < 36 ^ k"
    by (simp add: less_mult_imp_div_less mult.commute)
  from Suc.IH [OF this] show ?case
    by (simp add: digits36_append [OF fixed36_digits] digit36_value_digit36 zdiv_int zmod_int)
qed simp

lemma parseInt36_fixed36:
  assumes "n < 36 ^ k" "0 < k"
  shows "parseInt36 (fixed36 k n) = Some (int n)"
proof -
  obtain c s where cs: "fixed36 k n = c # s"
    using assms(2) by (cases "fixed36 k n") (auto dest: arg_cong [of _ _ length])
  have v: "digit36_value c \<noteq> None"
    using fixed36_digits [of k n] cs by simp
  then have c: "\<not> is_space c" "c \<noteq> 45" "c \<noteq> 43"
    by (auto simp: digit36_value_def is_space_def word_le_nat_alt split: if_splits)
  have "digits36 (c # s) \<noteq> []"
    using v by auto
  then show ?thesis
    using fixed36_value [OF assms(1)] c cs
    by (simp add: parseInt36_def trim_start_def Let_def)
qed

section \<open>Numbers\<close>

definition Math_floor :: "number \<Rightarrow> number" where
  "Math_floor x = of_int \<lfloor>x\<rfloor>"

lemma Math_floor_of_int [simp]: "Math_floor (of_int n) = of_int n"
  by (simp add: Math_floor_def)

lemma Math_floor_mono: "x \<le> y \<Longrightarrow> Math_floor x \<le> Math_floor y"
  by (simp add: Math_floor_def floor_mono)

lemma Math_floor_max: "Math_floor (max x y) = max (Math_floor x) (Math_floor y)"
  by (metis Math_floor_mono linorder_le_cases max.absorb1 max.absorb2)

lemma Math_floor_le [simp]: "Math_floor x \<le> x"
  by (simp add: Math_floor_def)

lemma Math_floor_idem [simp]: "Math_floor (Math_floor x) = Math_floor x"
  by (simp add: Math_floor_def)

lemma Math_floor_nonneg: "0 \<le> x \<Longrightarrow> 0 \<le> Math_floor x"
  by (simp add: Math_floor_def)

text \<open>\<open>Number.isSafeInteger\<close>.\<close>

definition isSafeInteger :: "number \<Rightarrow> bool" where
  "isSafeInteger x \<longleftrightarrow> Math_floor x = x \<and> \<bar>x\<bar> \<le> 9007199254740991"

section \<open>Objects as dictionaries\<close>

text \<open>\<open>Object.entries\<close>, \<open>Object.keys\<close> and \<open>Object.values\<close>.\<close>

abbreviation obj_entries :: "('k::linorder, 'v) fmap \<Rightarrow> ('k \<times> 'v) list" where
  "obj_entries \<equiv> sorted_list_of_fmap"

definition obj_keys :: "('k::linorder, 'v) fmap \<Rightarrow> 'k list" where
  "obj_keys m = sorted_list_of_fset (fmdom m)"

definition obj_values :: "('k::linorder, 'v) fmap \<Rightarrow> 'v list" where
  "obj_values m = map snd (obj_entries m)"

definition hasDictionaryKey :: "('k, 'v) fmap \<Rightarrow> 'k \<Rightarrow> bool" where
  "hasDictionaryKey m k \<longleftrightarrow> fmlookup m k \<noteq> None"

lemma hasDictionaryKey_fmdom: "hasDictionaryKey m k \<longleftrightarrow> k |\<in>| fmdom m"
  by (auto simp: hasDictionaryKey_def fmlookup_dom_iff)

lemma hasDictionaryKey_simps [simp]:
  "\<not> hasDictionaryKey fmempty k"
  "hasDictionaryKey (fmupd a v m) k \<longleftrightarrow> a = k \<or> hasDictionaryKey m k"
  by (auto simp: hasDictionaryKey_def)

lemma set_obj_keys [simp]: "set (obj_keys m) = fset (fmdom m)"
  by (simp add: obj_keys_def)

lemma distinct_obj_keys [simp]: "distinct (obj_keys m)"
  by (simp add: obj_keys_def sorted_list_of_fset.rep_eq)

lemma sorted_obj_keys [simp]: "sorted (obj_keys m)"
  by (simp add: obj_keys_def sorted_list_of_fset.rep_eq)

lemma set_obj_entries: "(k, v) \<in> set (obj_entries m) \<longleftrightarrow> fmlookup m k = Some v"
  by (auto simp: sorted_list_of_fmap_def fmlookup_dom_iff)

lemma map_fst_obj_entries [simp]: "map fst (obj_entries m) = obj_keys m"
  by (simp add: sorted_list_of_fmap_def obj_keys_def comp_def)

lemma obj_entries_empty [simp]: "obj_entries fmempty = []"
  by (simp add: sorted_list_of_fmap_def sorted_list_of_fset.rep_eq)

lemma obj_keys_empty [simp]: "obj_keys fmempty = []"
  by (simp add: obj_keys_def sorted_list_of_fset.rep_eq)

lemma obj_values_empty [simp]: "obj_values fmempty = []"
  by (simp add: obj_values_def)

lemma set_obj_values: "v \<in> set (obj_values m) \<longleftrightarrow> (\<exists>k. fmlookup m k = Some v)"
proof
  assume "v \<in> set (obj_values m)"
  then show "\<exists>k. fmlookup m k = Some v"
    by (auto simp: obj_values_def set_obj_entries)
next
  assume "\<exists>k. fmlookup m k = Some v"
  then obtain k where "(k, v) \<in> set (obj_entries m)"
    by (auto simp: set_obj_entries)
  then show "v \<in> set (obj_values m)"
    by (force simp: obj_values_def)
qed

lemma Bex_obj_values: "(\<exists>v \<in> set (obj_values m). P v) \<longleftrightarrow> (\<exists>k v. fmlookup m k = Some v \<and> P v)"
  unfolding Bex_def set_obj_values by blast

lemma Ball_obj_values: "(\<forall>v \<in> set (obj_values m). P v) \<longleftrightarrow> (\<forall>k v. fmlookup m k = Some v \<longrightarrow> P v)"
  unfolding Ball_def set_obj_values by blast

lemma image_obj_values: "x \<in> f ` set (obj_values m) \<longleftrightarrow> (\<exists>k v. fmlookup m k = Some v \<and> x = f v)"
  unfolding image_iff by (rule Bex_obj_values)

lemma Ball_obj_entries: "(\<forall>(k, v) \<in> set (obj_entries m). P k v) \<longleftrightarrow> (\<forall>k v. fmlookup m k = Some v \<longrightarrow> P k v)"
  by (fastforce simp: set_obj_entries)

lemma map_of_obj_entries [simp]: "map_of (obj_entries m) k = fmlookup m k"
  by (simp add: map_of_sorted_list)

text \<open>Evaluation of the listings on concrete dictionaries.\<close>

named_theorems obj_eval \<open>equations that list a dictionary built by updates\<close>

lemma obj_keys_upd [obj_eval]:
  "obj_keys (fmupd k v m) = insort k (remove1 k (obj_keys m))"
  by (simp add: obj_keys_def sorted_list_of_fset.rep_eq sorted_list_of_set_insert_remove
      sorted_list_of_set_remove)

lemma obj_entries_keys [obj_eval]:
  "obj_entries m = map (\<lambda>k. (k, the (fmlookup m k))) (obj_keys m)"
  by (simp add: sorted_list_of_fmap_def obj_keys_def)

lemma obj_values_keys [obj_eval]:
  "obj_values m = map (\<lambda>k. the (fmlookup m k)) (obj_keys m)"
  by (simp add: obj_values_def obj_entries_keys comp_def)

text \<open>
  The loop \<open>for (const key of keys) { ...; next[key] = value; }\<close> over a list of keys, where the
  body may skip a key (\<open>None\<close>).
\<close>

definition fm_build :: "('k \<Rightarrow> 'v option) \<Rightarrow> 'k list \<Rightarrow> ('k, 'v) fmap" where
  "fm_build f ks = fmap_of_list (List.map_filter (\<lambda>k. map_option (Pair k) (f k)) ks)"

lemma fmlookup_fm_build [simp]: "fmlookup (fm_build f ks) k = (if k \<in> set ks then f k else None)"
  unfolding fm_build_def fmlookup_of_list
  by (induction ks) (auto split: option.splits)

text \<open>
  The loop \<open>for (const key of new Set([...Object.keys(a), ...Object.keys(b)]))\<close> that combines the
  values two dictionaries hold under the key.
\<close>

definition fm_zip :: "('v option \<Rightarrow> 'w option \<Rightarrow> 'x option) \<Rightarrow> ('k::linorder, 'v) fmap
    \<Rightarrow> ('k, 'w) fmap \<Rightarrow> ('k, 'x) fmap" where
  "fm_zip g a b = fm_build (\<lambda>k. g (fmlookup a k) (fmlookup b k))
     (sorted_list_of_fset (fmdom a |\<union>| fmdom b))"

lemma fmlookup_fm_zip:
  "g None None = None \<Longrightarrow> fmlookup (fm_zip g a b) k = g (fmlookup a k) (fmlookup b k)"
  by (auto simp: fm_zip_def fmlookup_dom_iff)

abbreviation fm_join :: "('v \<Rightarrow> 'v \<Rightarrow> 'v) \<Rightarrow> ('k::linorder, 'v) fmap \<Rightarrow> ('k, 'v) fmap \<Rightarrow> ('k, 'v) fmap" where
  "fm_join f \<equiv> fm_zip (combine_options f)"

lemma fmlookup_fm_join [simp]:
  "fmlookup (fm_join f a b) k = combine_options f (fmlookup a k) (fmlookup b k)"
  by (simp add: fmlookup_fm_zip)

lemma fmdom_fm_join [simp]: "fmdom (fm_join f a b) = fmdom a |\<union>| fmdom b"
  by (auto simp: fset_eq_iff fmlookup_dom_iff combine_options_def split: option.splits)

lemma fmap_eqI: "(\<And>k. fmlookup a k = fmlookup b k) \<Longrightarrow> a = b"
  by (rule fmap_ext)

lemma fm_join_empty [simp]: "fm_join f fmempty m = m" "fm_join f m fmempty = m"
  by (auto intro: fmap_eqI)

lemma obj_keys_fmfilter: "obj_keys (fmfilter P m) = filter P (obj_keys m)"
  by (rule sorted_distinct_set_unique) (auto simp: sorted_filter [where f = "\<lambda>x. x", simplified])

lemma obj_entries_fmfilter: "obj_entries (fmfilter P m) = filter (\<lambda>(k, v). P k) (obj_entries m)"
proof -
  have "map (\<lambda>k. (k, the (fmlookup (fmfilter P m) k))) (filter P ks)
    = filter (\<lambda>(k, v). P k) (map (\<lambda>k. (k, the (fmlookup m k))) ks)" for ks
    by (induction ks) auto
  then show ?thesis by (simp add: obj_entries_keys obj_keys_fmfilter)
qed

section \<open>Sorting and slicing\<close>

text \<open>
  \<open>xs.sort(cmp)\<close> is stable; \<open>le a b\<close> is \<open>cmp(a, b) <= 0\<close>. The comparators of the source are
  chains \<open>c1 || c2 || ...\<close> of differences, where \<open>0\<close> passes on to the next.
\<close>

fun insort_by :: "('a \<Rightarrow> 'a \<Rightarrow> bool) \<Rightarrow> 'a \<Rightarrow> 'a list \<Rightarrow> 'a list" where
  "insort_by le x [] = [x]"
| "insort_by le x (y # ys) = (if le x y then x # y # ys else y # insort_by le x ys)"

definition sort_by :: "('a \<Rightarrow> 'a \<Rightarrow> bool) \<Rightarrow> 'a list \<Rightarrow> 'a list" where
  "sort_by le xs = foldr (insort_by le) xs []"

definition or_else :: "number \<Rightarrow> number \<Rightarrow> number" where
  "or_else c d = (if c \<noteq> 0 then c else d)"

lemma or_else_nonpos: "or_else c d \<le> 0 \<longleftrightarrow> c < 0 \<or> c = 0 \<and> d \<le> 0"
  by (auto simp: or_else_def)

lemma sort_by_simps [simp]: "sort_by le [] = []" "sort_by le (x # xs) = insort_by le x (sort_by le xs)"
  by (simp_all add: sort_by_def)

lemma mset_insort_by [simp]: "mset (insort_by le x ys) = add_mset x (mset ys)"
  by (induction ys) auto

lemma mset_sort_by [simp]: "mset (sort_by le xs) = mset xs"
  by (induction xs) auto

lemma set_sort_by [simp]: "set (sort_by le xs) = set xs"
  by (metis mset_sort_by set_mset_mset)

lemma length_sort_by [simp]: "length (sort_by le xs) = length xs"
  by (metis mset_sort_by size_mset)

lemma distinct_insort_by: "distinct (map f (insort_by le x ys)) \<longleftrightarrow> f x \<notin> f ` set ys \<and> distinct (map f ys)"
proof (induction ys)
  case (Cons y ys)
  have "set (insort_by le x ys) = insert x (set ys)"
    by (metis mset_insort_by set_mset_add_mset_insert set_mset_mset)
  with Cons show ?case by auto
qed simp

lemma distinct_sort_by [simp]: "distinct (map f (sort_by le xs)) \<longleftrightarrow> distinct (map f xs)"
  by (induction xs) (auto simp: distinct_insort_by)

lemma set_insort_by [simp]: "set (insort_by le x ys) = insert x (set ys)"
  by (induction ys) auto

text \<open>Total and transitive on the elements sorted, as the comparators are on distinct keys.\<close>

lemma sorted_insort_by:
  assumes "\<forall>x \<in> S. \<forall>y \<in> S. x \<noteq> y \<longrightarrow> le x y \<or> le y x"
    "\<forall>x \<in> S. \<forall>y \<in> S. \<forall>z \<in> S. le x y \<longrightarrow> le y z \<longrightarrow> le x z"
  shows "sorted_wrt le ys \<Longrightarrow> x \<in> S \<Longrightarrow> set ys \<subseteq> S \<Longrightarrow> x \<notin> set ys \<Longrightarrow> sorted_wrt le (insort_by le x ys)"
proof (induction ys)
  case (Cons y ys)
  have y: "y \<in> S" "x \<noteq> y" using Cons.prems by auto
  show ?case
  proof (cases "le x y")
    case True
    have "le x z" if "z \<in> set ys" for z
    proof (rule assms(2) [rule_format, of x y z])
      show "x \<in> S" "y \<in> S" "z \<in> S" "le x y" "le y z"
        using that True Cons.prems by auto
    qed
    with True Cons.prems show ?thesis by simp
  next
    case False
    then have "le y x" using y Cons.prems assms(1) by blast
    with False Cons show ?thesis by simp
  qed
qed simp

lemma sorted_sort_by:
  assumes "\<forall>x \<in> S. \<forall>y \<in> S. x \<noteq> y \<longrightarrow> le x y \<or> le y x"
    "\<forall>x \<in> S. \<forall>y \<in> S. \<forall>z \<in> S. le x y \<longrightarrow> le y z \<longrightarrow> le x z"
  shows "set xs \<subseteq> S \<Longrightarrow> distinct xs \<Longrightarrow> sorted_wrt le (sort_by le xs)"
proof (induction xs)
  case (Cons x xs)
  then show ?case
    by (simp add: sorted_insort_by [OF assms])
qed simp

text \<open>\<open>xs.slice(0, n)\<close>: a negative bound counts from the end.\<close>

definition slice0 :: "int \<Rightarrow> 'a list \<Rightarrow> 'a list" where
  "slice0 n xs = (if 0 \<le> n then take (nat n) xs else take (nat (int (length xs) + n)) xs)"

lemma length_slice0: "0 \<le> n \<Longrightarrow> int (length (slice0 n xs)) \<le> n"
  by (simp add: slice0_def)

lemma set_slice0: "set (slice0 n xs) \<subseteq> set xs"
  by (simp add: slice0_def set_take_subset)

section \<open>Values from outside\<close>

text \<open>
  A value produced by \<open>JSON.parse\<close>: an object is the list of its own entries. A numeral too
  large for a double parses to an infinity, which is \<open>JNonFinite\<close>.
\<close>

datatype json =
    JNull
  | JBool bool
  | JNumber number
  | JNonFinite
  | JString jsstring
  | JArray "json list"
  | JObject "(jsstring \<times> json) list"

text \<open>
  The functions of the host that the program relies on and whose tables or grammars are not part
  of it: \<open>String.prototype.toLowerCase\<close> (Unicode case tables), \<open>localeCompare\<close> (the collation of
  the host, here as the relation ``not after''), and the pair \<open>encodeURIComponent(JSON.stringify(v))\<close> and
  \<open>JSON.parse(decodeURIComponent(s))\<close>, the latter \<open>None\<close> where one of the two throws.
\<close>

record platform =
  pf_toLowerCase :: "jsstring \<Rightarrow> jsstring"
  pf_localeLe :: "jsstring \<Rightarrow> jsstring \<Rightarrow> bool"
  pf_encode :: "json \<Rightarrow> jsstring"
  pf_decode :: "jsstring \<Rightarrow> json option"

definition entries_of :: "json option \<Rightarrow> (jsstring \<times> json) list" where
  "entries_of v = (case v of Some (JObject es) \<Rightarrow> es | _ \<Rightarrow> [])"

text \<open>\<open>value.name\<close>: absent members read as \<open>undefined\<close>, here \<open>None\<close>.\<close>

definition member :: "json option \<Rightarrow> string \<Rightarrow> json option" where
  "member v name = map_of (entries_of v) (js name)"

lemma member_JObject [simp]: "member (Some (JObject es)) name = map_of es (js name)"
  by (simp add: member_def entries_of_def)

lemma entries_of_JObject [simp]: "entries_of (Some (JObject es)) = es"
  by (simp add: entries_of_def)

end
