(* ===== verification/Replication.thy ===== *)
theory Replication
  imports Js_Prelude
begin

text \<open>
  The algebra of state-based replication, as interfaces. \<open>crdt\<close> is a join on the well-formed
  states of one replicated value; \<open>keyed_crdt\<close> is a family of them, one per dictionary key, and
  gives a \<open>crdt\<close> on dictionaries. The consequences that the synchronisation protocol relies on
  (any order, any repetition and any grouping of deliveries give the same state) are proved
  once here, and reach the code's merge functions by interpretation.
\<close>

section \<open>A join on well-formed states\<close>

locale crdt =
  fixes ok :: "'a \<Rightarrow> bool"
    and join :: "'a \<Rightarrow> 'a \<Rightarrow> 'a"
  assumes ok_join: "ok a \<Longrightarrow> ok b \<Longrightarrow> ok (join a b)"
    and join_commute: "ok a \<Longrightarrow> ok b \<Longrightarrow> join a b = join b a"
    and join_assoc: "ok a \<Longrightarrow> ok b \<Longrightarrow> ok c \<Longrightarrow> join (join a b) c = join a (join b c)"
    and join_idem: "ok a \<Longrightarrow> join a a = a"
begin

text \<open>\<open>a\<close> is contained in \<open>b\<close>: merging it adds nothing.\<close>

definition contained :: "'a \<Rightarrow> 'a \<Rightarrow> bool" where
  "contained a b \<longleftrightarrow> join a b = b"

lemma contained_refl: "ok a \<Longrightarrow> contained a a"
  by (simp add: contained_def join_idem)

lemma contained_antisym: "ok a \<Longrightarrow> ok b \<Longrightarrow> contained a b \<Longrightarrow> contained b a \<Longrightarrow> a = b"
  by (metis contained_def join_commute)

lemma contained_trans: "ok a \<Longrightarrow> ok b \<Longrightarrow> ok c \<Longrightarrow> contained a b \<Longrightarrow> contained b c \<Longrightarrow> contained a c"
  by (metis contained_def join_assoc)

lemma contained_join1: "ok a \<Longrightarrow> ok b \<Longrightarrow> contained a (join a b)"
  by (metis contained_def join_assoc join_idem)

lemma contained_join2: "ok a \<Longrightarrow> ok b \<Longrightarrow> contained b (join a b)"
  by (metis contained_join1 join_commute)

lemma join_least: "ok a \<Longrightarrow> ok b \<Longrightarrow> ok c \<Longrightarrow> contained a c \<Longrightarrow> contained b c \<Longrightarrow> contained (join a b) c"
  by (metis contained_def join_assoc)

text \<open>Folding deliveries into a replica.\<close>

definition deliver :: "'a \<Rightarrow> 'a list \<Rightarrow> 'a" where
  "deliver a xs = foldl join a xs"

lemma deliver_simps [simp]:
  "deliver a [] = a"
  "deliver a (x # xs) = deliver (join a x) xs"
  by (simp_all add: deliver_def)

lemma ok_deliver: "ok a \<Longrightarrow> \<forall>x \<in> set xs. ok x \<Longrightarrow> ok (deliver a xs)"
  by (induction xs arbitrary: a) (auto simp: ok_join)

lemma deliver_upper:
  assumes "ok a" "\<forall>x \<in> set xs. ok x"
  shows "contained a (deliver a xs) \<and> (\<forall>x \<in> set xs. contained x (deliver a xs))"
  using assms
proof (induction xs arbitrary: a)
  case Nil
  then show ?case by (simp add: contained_refl)
next
  case (Cons x xs)
  let ?d = "deliver (join a x) xs"
  have j: "ok (join a x)" and d: "ok ?d"
    using Cons.prems by (auto intro!: ok_join ok_deliver)
  from Cons.IH [OF j] Cons.prems
  have up: "contained (join a x) ?d" "\<forall>y \<in> set xs. contained y ?d" by auto
  from Cons.prems have a: "ok a" and x: "ok x" by simp_all
  have "contained a ?d"
    by (rule contained_trans [OF a j d contained_join1 [OF a x] up(1)])
  moreover have "contained x ?d"
    by (rule contained_trans [OF x j d contained_join2 [OF a x] up(1)])
  ultimately show ?case using up(2) by simp
qed

lemma deliver_least:
  assumes "ok a" "\<forall>x \<in> set xs. ok x" "ok u" "contained a u" "\<forall>x \<in> set xs. contained x u"
  shows "contained (deliver a xs) u"
  using assms
  by (induction xs arbitrary: a) (auto simp: ok_join join_least)

text \<open>
  Convergence: replicas that start from the same state and receive the same set of states, in
  any order and any number of times each, end in the same state.
\<close>

lemma deliver_converges:
  assumes "ok a" "\<forall>x \<in> set xs. ok x" "set xs = set ys"
  shows "deliver a xs = deliver a ys"
proof (rule contained_antisym)
  show xs: "ok (deliver a xs)" and ys: "ok (deliver a ys)"
    using assms by (auto intro!: ok_deliver)
  have "contained a (deliver a xs) \<and> (\<forall>x \<in> set xs. contained x (deliver a xs))"
    and "contained a (deliver a ys) \<and> (\<forall>x \<in> set ys. contained x (deliver a ys))"
    using assms by (simp_all add: deliver_upper)
  then show "contained (deliver a xs) (deliver a ys)" and "contained (deliver a ys) (deliver a xs)"
    using assms xs ys by (simp_all add: deliver_least)
qed

text \<open>Merging what two replicas collected is collecting what both received.\<close>

lemma deliver_append: "deliver a (xs @ ys) = deliver (deliver a xs) ys"
  by (simp add: deliver_def)

lemma join_deliver:
  assumes "ok a" "\<forall>x \<in> set xs. ok x" "\<forall>y \<in> set ys. ok y"
  shows "join (deliver a xs) (deliver a ys) = deliver a (xs @ ys)"
proof (rule contained_antisym)
  have ok: "ok (deliver a xs)" "ok (deliver a ys)" "ok (deliver a (xs @ ys))"
    using assms by (auto intro!: ok_deliver)
  show "ok (join (deliver a xs) (deliver a ys))" "ok (deliver a (xs @ ys))"
    using ok by (auto intro: ok_join)
  have up: "contained a (deliver a (xs @ ys))" "\<forall>x \<in> set (xs @ ys). contained x (deliver a (xs @ ys))"
    using deliver_upper [of a "xs @ ys"] assms by auto
  show "contained (join (deliver a xs) (deliver a ys)) (deliver a (xs @ ys))"
    using ok up assms by (intro join_least deliver_least) auto
  have "contained a (join (deliver a xs) (deliver a ys))"
    "\<forall>x \<in> set (xs @ ys). contained x (join (deliver a xs) (deliver a ys))"
    using ok assms deliver_upper [of a xs] deliver_upper [of a ys]
    by (auto intro: contained_trans [OF _ _ ok_join] contained_join1 contained_join2)
  then show "contained (deliver a (xs @ ys)) (join (deliver a xs) (deliver a ys))"
    using ok assms by (intro deliver_least) (auto intro: ok_join)
qed

end

section \<open>Dictionaries of replicated values\<close>

locale keyed_crdt =
  fixes okk :: "'k::linorder \<Rightarrow> 'v \<Rightarrow> bool"
    and joink :: "'v \<Rightarrow> 'v \<Rightarrow> 'v"
  assumes okk_join: "okk k v \<Longrightarrow> okk k w \<Longrightarrow> okk k (joink v w)"
    and joink_commute: "okk k v \<Longrightarrow> okk k w \<Longrightarrow> joink v w = joink w v"
    and joink_assoc: "okk k u \<Longrightarrow> okk k v \<Longrightarrow> okk k w \<Longrightarrow> joink (joink u v) w = joink u (joink v w)"
    and joink_idem: "okk k v \<Longrightarrow> joink v v = v"

sublocale keyed_crdt \<subseteq> dict: crdt "fmpred okk" "fm_join joink"
proof
  fix a b c :: "('k, 'v) fmap"
  assume a: "fmpred okk a"
  show "fm_join joink a a = a"
  proof (rule fmap_eqI)
    fix k
    show "fmlookup (fm_join joink a a) k = fmlookup a k"
      using a by (cases "fmlookup a k") (auto intro: joink_idem dest: fmpredD)
  qed
  assume b: "fmpred okk b"
  show "fmpred okk (fm_join joink a b)"
    using a b by (auto simp: fmpred_iff combine_options_def intro: okk_join split: option.splits)
  show "fm_join joink a b = fm_join joink b a"
  proof (rule fmap_eqI)
    fix k
    show "fmlookup (fm_join joink a b) k = fmlookup (fm_join joink b a) k"
      using a b by (auto simp: combine_options_def intro: joink_commute dest: fmpredD split: option.splits)
  qed
  assume c: "fmpred okk c"
  show "fm_join joink (fm_join joink a b) c = fm_join joink a (fm_join joink b c)"
  proof (rule fmap_eqI)
    fix k
    show "fmlookup (fm_join joink (fm_join joink a b) c) k
      = fmlookup (fm_join joink a (fm_join joink b c)) k"
      using a b c
      by (auto simp: combine_options_def intro: joink_assoc dest: fmpredD split: option.splits)
  qed
qed

end
