(* ===== verification/Hlc.thy ===== *)
theory Hlc
  imports Js_Prelude
begin

text \<open>
  The hybrid logical clock of \<open>packages/voice-input-core/src/dictionary-sync/hlc.ts\<close>. A
  timestamp is a string with a fixed-width prefix, so that string order is time order: the
  lemmas relate the string operations (formatting, comparison, parsing back) to the clock
  fields, and the two clock operations to the order.
\<close>

section \<open>Constants, timestamps and clocks\<close>

definition WALL_RADIX_LENGTH :: nat where
  "WALL_RADIX_LENGTH = 10"

definition COUNTER_RADIX_LENGTH :: nat where
  "COUNTER_RADIX_LENGTH = 4"

definition COUNTER_MAX :: int where
  "COUNTER_MAX = 36 ^ COUNTER_RADIX_LENGTH - 1"

definition HLC_PREFIX_LENGTH :: nat where
  "HLC_PREFIX_LENGTH = WALL_RADIX_LENGTH + 1 + COUNTER_RADIX_LENGTH + 1"

lemmas hlc_constants = WALL_RADIX_LENGTH_def COUNTER_RADIX_LENGTH_def COUNTER_MAX_def
  HLC_PREFIX_LENGTH_def

type_synonym hlc_timestamp = jsstring

record hlc_clock =
  wallMs :: int
  counter :: int
  nodeId :: jsstring

datatype hlc_error = NodeIdRequired | NodeIdContainsDot

definition dot :: code_unit where
  "dot = 46"

definition createHlcClock :: "jsstring \<Rightarrow> number \<Rightarrow> hlc_error + hlc_clock" where
  "createHlcClock node wall =
     (let n = trim node
      in if n = [] then Inl NodeIdRequired
         else if dot \<in> set n then Inl NodeIdContainsDot
         else Inr \<lparr>wallMs = max 0 \<lfloor>wall\<rfloor>, counter = 0, nodeId = n\<rparr>)"

definition formatHlc :: "hlc_clock \<Rightarrow> hlc_timestamp" where
  "formatHlc c =
     (let wall = padStart WALL_RADIX_LENGTH 48 (toString36 (nat (max 0 (wallMs c))));
          cnt = padStart COUNTER_RADIX_LENGTH 48 (toString36 (nat (max 0 (counter c))))
      in wall @ [dot] @ cnt @ [dot] @ nodeId c)"

section \<open>Reading a timestamp\<close>

definition isBase36 :: "jsstring \<Rightarrow> bool" where
  "isBase36 seg \<longleftrightarrow> list_all (\<lambda>c. 48 \<le> c \<and> c \<le> 57 \<or> 97 \<le> c \<and> c \<le> 122) seg \<and> 0 < length seg"

definition isCanonicalHlc :: "jsstring \<Rightarrow> bool" where
  "isCanonicalHlc v =
     (let wallEnd = WALL_RADIX_LENGTH;
          counterEnd = wallEnd + 1 + COUNTER_RADIX_LENGTH
      in if length v < counterEnd + 2 then False
         else if v ! wallEnd \<noteq> dot \<or> v ! counterEnd \<noteq> dot then False
         else if \<not> isBase36 (take wallEnd v)
              \<or> \<not> isBase36 (take COUNTER_RADIX_LENGTH (drop (wallEnd + 1) v)) then False
         else (let node = drop (counterEnd + 1) v in 0 < length node \<and> dot \<notin> set node))"

definition hlcNodeId :: "hlc_timestamp \<Rightarrow> jsstring option" where
  "hlcNodeId stamp =
     (if \<not> isCanonicalHlc stamp then None
      else Some (drop (WALL_RADIX_LENGTH + 1 + COUNTER_RADIX_LENGTH + 1) stamp))"

definition hlcWallMs :: "hlc_timestamp \<Rightarrow> int" where
  "hlcWallMs stamp =
     (case parseInt36 (take WALL_RADIX_LENGTH stamp) of Some n \<Rightarrow> n | None \<Rightarrow> 0)"

definition readCounter :: "hlc_timestamp \<Rightarrow> int" where
  "readCounter stamp =
     (let start = WALL_RADIX_LENGTH + 1
      in case parseInt36 (take COUNTER_RADIX_LENGTH (drop start stamp)) of Some n \<Rightarrow> n | None \<Rightarrow> 0)"

section \<open>Order\<close>

definition compareHlc :: "hlc_timestamp \<Rightarrow> hlc_timestamp \<Rightarrow> int" where
  "compareHlc a b = (if a = b then 0 else if a < b then -1 else 1)"

definition maxHlc :: "hlc_timestamp \<Rightarrow> hlc_timestamp \<Rightarrow> hlc_timestamp" where
  "maxHlc a b = (if 0 \<le> compareHlc a b then a else b)"

definition minHlc :: "hlc_timestamp \<Rightarrow> hlc_timestamp \<Rightarrow> hlc_timestamp" where
  "minHlc a b = (if compareHlc a b \<le> 0 then a else b)"

lemma compareHlc_simps [simp]:
  "compareHlc a b = 0 \<longleftrightarrow> a = b"
  "0 < compareHlc a b \<longleftrightarrow> b < a"
  "compareHlc a b < 0 \<longleftrightarrow> a < b"
  "0 \<le> compareHlc a b \<longleftrightarrow> b \<le> a"
  "compareHlc a b \<le> 0 \<longleftrightarrow> a \<le> b"
  by (auto simp: compareHlc_def)

lemma maxHlc_max [simp]: "maxHlc a b = max a b"
  by (auto simp: maxHlc_def max_def)

lemma minHlc_min [simp]: "minHlc a b = min a b"
  by (auto simp: minHlc_def min_def)

section \<open>The clock operations\<close>

text \<open>
  \<open>tickHlc\<close> calls itself when the counter is exhausted; the recursive call starts from counter
  \<open>-1\<close>, which is what makes it end.
\<close>

function tickHlc :: "hlc_clock \<Rightarrow> number \<Rightarrow> hlc_clock \<times> hlc_timestamp" where
  "tickHlc c nowMs =
     (let now = max 0 \<lfloor>nowMs\<rfloor>;
          next = (if wallMs c < now then \<lparr>wallMs = now, counter = 0, nodeId = nodeId c\<rparr>
                  else \<lparr>wallMs = wallMs c, counter = counter c + 1, nodeId = nodeId c\<rparr>)
      in if COUNTER_MAX < counter next
         then tickHlc \<lparr>wallMs = wallMs c + 1, counter = -1, nodeId = nodeId c\<rparr> (of_int now)
         else (next, formatHlc next))"
  by pat_completeness auto
termination
  by (relation "measure (\<lambda>(c, n). nat (counter c + 1))")
    (auto simp: hlc_constants Let_def split: if_splits)

declare tickHlc.simps [simp del]

definition observeHlc :: "hlc_clock \<Rightarrow> hlc_timestamp \<Rightarrow> number \<Rightarrow> hlc_clock" where
  "observeHlc c remote nowMs =
     (let remoteWall = hlcWallMs remote;
          remoteCounter = readCounter remote;
          now = max 0 \<lfloor>nowMs\<rfloor>;
          wall = max (max (wallMs c) remoteWall) now
      in if wallMs c < wall \<and> remoteWall < wall
         then \<lparr>wallMs = wall, counter = 0, nodeId = nodeId c\<rparr>
         else (let cnt = (if wall = wallMs c \<and> wall = remoteWall then max (counter c) remoteCounter
                          else if wall = remoteWall then remoteCounter
                          else counter c)
               in \<lparr>wallMs = wall, counter = cnt, nodeId = nodeId c\<rparr>))"

section \<open>Timestamps and clock fields\<close>

text \<open>Clocks whose fields fit the fixed-width prefix.\<close>

definition hlc_fits :: "hlc_clock \<Rightarrow> bool" where
  "hlc_fits c \<longleftrightarrow> 0 \<le> wallMs c \<and> wallMs c < 36 ^ WALL_RADIX_LENGTH \<and> 0 \<le> counter c
     \<and> counter c \<le> COUNTER_MAX \<and> nodeId c \<noteq> [] \<and> dot \<notin> set (nodeId c)"

lemma hlc_fits_nat:
  assumes "hlc_fits c"
  shows "nat (wallMs c) < 36 ^ 10" "nat (counter c) < 36 ^ 4"
  using assms by (auto simp: hlc_fits_def hlc_constants nat_less_iff)

lemma formatHlc_fixed:
  assumes "hlc_fits c"
  shows "formatHlc c = fixed36 10 (nat (wallMs c)) @ [dot] @ fixed36 4 (nat (counter c)) @ [dot] @ nodeId c"
proof -
  from hlc_fits_nat [OF assms]
  have "padStart 10 48 (toString36 (nat (wallMs c))) = fixed36 10 (nat (wallMs c))"
    "padStart 4 48 (toString36 (nat (counter c))) = fixed36 4 (nat (counter c))"
    using padStart_toString36 [of "nat (wallMs c)" 9] padStart_toString36 [of "nat (counter c)" 3]
    by (simp_all del: fixed36.simps)
  then show ?thesis
    using assms by (simp add: formatHlc_def hlc_constants hlc_fits_def)
qed

lemma fixed36_base36: "isBase36 (fixed36 (Suc k) n)"
proof -
  have "list_all (\<lambda>c. 48 \<le> c \<and> c \<le> 57 \<or> 97 \<le> c \<and> c \<le> 122) (fixed36 k n)" for k n
    by (induction k n rule: fixed36.induct) (auto simp: digit36_base)
  then show ?thesis by (simp add: isBase36_def del: fixed36.simps)
qed

lemma formatHlc_canonical:
  assumes "hlc_fits c"
  shows "isCanonicalHlc (formatHlc c)"
  using assms fixed36_base36 [of 9] fixed36_base36 [of 3]
  by (auto simp: formatHlc_fixed isCanonicalHlc_def hlc_constants hlc_fits_def nth_append Let_def
      Suc_le_eq)

lemma formatHlc_reads:
  assumes "hlc_fits c"
  shows "hlcNodeId (formatHlc c) = Some (nodeId c)" "hlcWallMs (formatHlc c) = wallMs c"
    "readCounter (formatHlc c) = counter c"
proof -
  note b = hlc_fits_nat [OF assms]
  show "hlcNodeId (formatHlc c) = Some (nodeId c)"
    using formatHlc_canonical [OF assms] assms
    by (simp add: hlcNodeId_def formatHlc_fixed hlc_constants)
  show "hlcWallMs (formatHlc c) = wallMs c" "readCounter (formatHlc c) = counter c"
    using assms parseInt36_fixed36 [OF b(1)] parseInt36_fixed36 [OF b(2)]
    by (simp_all add: hlcWallMs_def readCounter_def formatHlc_fixed hlc_constants hlc_fits_def Let_def)
qed

lemma formatHlc_less_iff:
  assumes "hlc_fits a" "hlc_fits b"
  shows "formatHlc a < formatHlc b \<longleftrightarrow>
    wallMs a < wallMs b \<or> wallMs a = wallMs b \<and>
      (counter a < counter b \<or> counter a = counter b \<and> nodeId a < nodeId b)"
proof -
  note w = hlc_fits_nat(1) [OF assms(1)] hlc_fits_nat(1) [OF assms(2)]
  note n = hlc_fits_nat(2) [OF assms(1)] hlc_fits_nat(2) [OF assms(2)]
  have nonneg: "0 \<le> wallMs a" "0 \<le> wallMs b" "0 \<le> counter a" "0 \<le> counter b"
    using assms by (simp_all add: hlc_fits_def)
  show ?thesis
    using fixed36_less_iff [OF w] fixed36_eq_iff [OF w] fixed36_less_iff [OF n] fixed36_eq_iff [OF n] nonneg
    by (auto simp: formatHlc_fixed assms append_less_iff eq_nat_nat_iff)
qed

text \<open>The canonical timestamps are exactly the ones a clock that fits produces.\<close>

lemma base36_digit:
  "48 \<le> c \<and> c \<le> 57 \<or> 97 \<le> c \<and> c \<le> 122 \<Longrightarrow> \<exists>d < 36. c = digit36 d"
proof -
  assume c: "48 \<le> c \<and> c \<le> 57 \<or> 97 \<le> c \<and> c \<le> 122"
  define d where "d = (if c \<le> 57 then unat c - 48 else unat c - 87)"
  from c have "d < 36" "unat (digit36 d) = unat c"
    by (auto simp: d_def word_le_nat_alt digit36_unat)
  then show ?thesis by (metis word_unat_eq_iff)
qed

lemma base36_fixed:
  "list_all (\<lambda>c. 48 \<le> c \<and> c \<le> 57 \<or> 97 \<le> c \<and> c \<le> 122) s \<Longrightarrow>
    \<exists>n. n < 36 ^ length s \<and> s = fixed36 (length s) n"
proof (induction s rule: rev_induct)
  case (snoc c s)
  then obtain n where "n < 36 ^ length s" "s = fixed36 (length s) n" by auto
  moreover obtain d where "d < 36" "c = digit36 d"
    using snoc.prems base36_digit [of c] by auto
  ultimately have "n * 36 + d < 36 ^ length (s @ [c])" "s @ [c] = fixed36 (length (s @ [c])) (n * 36 + d)"
    by (simp_all add: mult.commute)
  then show ?case by blast
qed simp

lemma canonical_iff: "isCanonicalHlc s \<longleftrightarrow> (\<exists>c. hlc_fits c \<and> s = formatHlc c)"
proof
  assume s: "isCanonicalHlc s"
  let ?w = "take 10 s" and ?k = "take 4 (drop 11 s)" and ?n = "drop 16 s"
  from s have len: "17 \<le> length s" and dots: "s ! 10 = dot" "s ! 15 = dot"
    and b: "isBase36 ?w" "isBase36 ?k" and n: "?n \<noteq> []" "dot \<notin> set ?n"
    by (auto simp: isCanonicalHlc_def hlc_constants Let_def split: if_splits)
  from len have l: "length ?w = 10" "length ?k = 4" by simp_all
  obtain w where w: "w < 36 ^ 10" "?w = fixed36 10 w"
    using base36_fixed [of ?w] b(1) unfolding l isBase36_def by blast
  obtain k where k: "k < 36 ^ 4" "?k = fixed36 4 k"
    using base36_fixed [of ?k] b(2) unfolding l isBase36_def by blast
  let ?c = "\<lparr>wallMs = int w, counter = int k, nodeId = ?n\<rparr>"
  have fits: "hlc_fits ?c"
    using w k n by (simp add: hlc_fits_def hlc_constants)
  have "drop 11 s = ?k @ drop 11 s ! 4 # drop 5 (drop 11 s)"
    using id_take_nth_drop [of 4 "drop 11 s"] len by simp
  then have "s = ?w @ s ! 10 # ?k @ s ! 15 # ?n"
    using id_take_nth_drop [of 10 s] len by simp
  then have "s = formatHlc ?c"
    by (simp add: formatHlc_fixed [OF fits] dots w k)
  with fits show "\<exists>c. hlc_fits c \<and> s = formatHlc c" by blast
next
  assume "\<exists>c. hlc_fits c \<and> s = formatHlc c"
  then show "isCanonicalHlc s" by (auto simp: formatHlc_canonical)
qed

lemma tickHlc_unfold:
  assumes "counter c \<le> COUNTER_MAX"
  shows "tickHlc c n =
    (let now = max 0 \<lfloor>n\<rfloor>;
         next = (if wallMs c < now then \<lparr>wallMs = now, counter = 0, nodeId = nodeId c\<rparr>
                 else if counter c < COUNTER_MAX
                 then \<lparr>wallMs = wallMs c, counter = counter c + 1, nodeId = nodeId c\<rparr>
                 else \<lparr>wallMs = wallMs c + 1, counter = 0, nodeId = nodeId c\<rparr>)
     in (next, formatHlc next))"
  using assms
  by (simp add: tickHlc.simps [of c] tickHlc.simps [of "\<lparr>wallMs = _, counter = -1, nodeId = _\<rparr>"]
      Let_def hlc_constants)

text \<open>What one tick does to a clock that fits: the fields move forward lexicographically.\<close>

lemma tickHlc_forward:
  assumes "hlc_fits c" "wallMs c + 1 < 36 ^ WALL_RADIX_LENGTH" "\<lfloor>n\<rfloor> < 36 ^ WALL_RADIX_LENGTH"
  shows "hlc_fits (fst (tickHlc c n))" "snd (tickHlc c n) = formatHlc (fst (tickHlc c n))"
    "nodeId (fst (tickHlc c n)) = nodeId c" "formatHlc c < snd (tickHlc c n)"
    "wallMs (fst (tickHlc c n)) \<le> max (wallMs c + 1) \<lfloor>n\<rfloor>"
proof -
  show fits: "hlc_fits (fst (tickHlc c n))"
    and snd: "snd (tickHlc c n) = formatHlc (fst (tickHlc c n))"
    and node: "nodeId (fst (tickHlc c n)) = nodeId c"
    and "wallMs (fst (tickHlc c n)) \<le> max (wallMs c + 1) \<lfloor>n\<rfloor>"
    using assms by (auto simp: tickHlc_unfold hlc_fits_def Let_def hlc_constants max_def
        simp del: zero_le_floor floor_less_zero split: if_splits)
  have "wallMs c < wallMs (fst (tickHlc c n)) \<or>
      wallMs c = wallMs (fst (tickHlc c n)) \<and> counter c < counter (fst (tickHlc c n))"
    using assms(1) by (auto simp: tickHlc_unfold hlc_fits_def Let_def)
  then show "formatHlc c < snd (tickHlc c n)"
    unfolding snd by (auto simp: formatHlc_less_iff [OF assms(1) fits])
qed

text \<open>The stamps a device produces for a list of wall-clock readings.\<close>

fun tick_stamps :: "hlc_clock \<Rightarrow> number list \<Rightarrow> hlc_timestamp list" where
  "tick_stamps c [] = []"
| "tick_stamps c (n # ns) = (let (c', s) = tickHlc c n in s # tick_stamps c' ns)"

lemma tick_stamps_props:
  assumes "hlc_fits c" "wallMs c + int (length ns) < 36 ^ WALL_RADIX_LENGTH"
    "\<forall>n \<in> set ns. \<lfloor>n\<rfloor> + int (length ns) < 36 ^ WALL_RADIX_LENGTH"
  shows "sorted_wrt (<) (formatHlc c # tick_stamps c ns) \<and>
    (\<forall>s \<in> set (tick_stamps c ns). isCanonicalHlc s \<and> hlcNodeId s = Some (nodeId c))"
  using assms
proof (induction ns arbitrary: c)
  case (Cons n ns)
  obtain c' s where t: "tickHlc c n = (c', s)" by fastforce
  have "\<lfloor>n\<rfloor> < 36 ^ WALL_RADIX_LENGTH"
    using Cons.prems(3) by auto
  then have fwd: "hlc_fits c'" "s = formatHlc c'" "nodeId c' = nodeId c" "formatHlc c < s"
    "wallMs c' \<le> max (wallMs c + 1) \<lfloor>n\<rfloor>"
    using tickHlc_forward [of c n] Cons.prems(1,2) by (simp_all add: t)
  have "sorted_wrt (<) (formatHlc c' # tick_stamps c' ns) \<and>
    (\<forall>s \<in> set (tick_stamps c' ns). isCanonicalHlc s \<and> hlcNodeId s = Some (nodeId c'))"
    using Cons.prems fwd(5) by (intro Cons.IH fwd(1)) auto
  then show ?case
    using fwd formatHlc_canonical [OF fwd(1)] formatHlc_reads(1) [OF fwd(1)]
    by (auto simp: t intro: order.strict_trans)
qed simp

lemma observeHlc_fits:
  assumes "hlc_fits c" "isCanonicalHlc r" "\<lfloor>n\<rfloor> < 36 ^ WALL_RADIX_LENGTH"
  shows "hlc_fits (observeHlc c r n)" "nodeId (observeHlc c r n) = nodeId c"
    "wallMs (observeHlc c r n) = max (max (wallMs c) (hlcWallMs r)) (max 0 \<lfloor>n\<rfloor>)"
proof -
  from assms(2) obtain d where d: "hlc_fits d" "r = formatHlc d"
    by (auto simp: canonical_iff)
  show "hlc_fits (observeHlc c r n)"
    using assms(1,3) d(1) unfolding observeHlc_def Let_def d(2) formatHlc_reads [OF d(1)]
    by (auto simp: hlc_fits_def hlc_constants)
  show "nodeId (observeHlc c r n) = nodeId c"
    "wallMs (observeHlc c r n) = max (max (wallMs c) (hlcWallMs r)) (max 0 \<lfloor>n\<rfloor>)"
    by (auto simp: observeHlc_def Let_def)
qed

section \<open>Properties\<close>

text \<open>
  C5: Timestamps are faithful to the clock. For clocks whose fields fit the fixed-width prefix,
  the formatted timestamp passes \<open>isCanonicalHlc\<close>, the node id, the wall time and the counter
  are read back from it, and comparing two timestamps as strings (\<open>compareHlc\<close>) compares wall
  time, then counter, then node id.
\<close>

theorem hlc_format_roundtrip_and_order:
  assumes "hlc_fits a" "hlc_fits b"
  shows "isCanonicalHlc (formatHlc a) \<and> hlcNodeId (formatHlc a) = Some (nodeId a)
    \<and> hlcWallMs (formatHlc a) = wallMs a \<and> readCounter (formatHlc a) = counter a
    \<and> (compareHlc (formatHlc a) (formatHlc b) < 0 \<longleftrightarrow>
        wallMs a < wallMs b \<or> wallMs a = wallMs b \<and>
          (counter a < counter b \<or> counter a = counter b \<and> nodeId a < nodeId b))"
  using assms by (simp add: formatHlc_canonical formatHlc_reads formatHlc_less_iff)

text \<open>
  A device's timestamps never go back or repeat. Whatever wall-clock readings it sees (the
  system clock may be set back between events), the stamps \<open>tickHlc\<close> produces one after the
  other are strictly increasing in string order, all later than the clock's own stamp, canonical,
  and carry the device's node id.
\<close>

theorem hlc_ticks_strictly_increase:
  assumes "hlc_fits c" "wallMs c + int (length ns) < 36 ^ WALL_RADIX_LENGTH"
    "\<forall>n \<in> set ns. \<lfloor>n\<rfloor> + int (length ns) < 36 ^ WALL_RADIX_LENGTH"
  shows "sorted_wrt (<) (formatHlc c # tick_stamps c ns) \<and> distinct (tick_stamps c ns) \<and>
    (\<forall>s \<in> set (tick_stamps c ns). isCanonicalHlc s \<and> hlcNodeId s = Some (nodeId c))"
  using tick_stamps_props [OF assms] by (auto simp: strict_sorted_iff)

lemma observe_tick_later:
  assumes "hlc_fits c" "isCanonicalHlc r" "hlcWallMs r + 1 < 36 ^ WALL_RADIX_LENGTH"
    "wallMs c + 1 < 36 ^ WALL_RADIX_LENGTH" "\<lfloor>n\<rfloor> + 1 < 36 ^ WALL_RADIX_LENGTH"
    "\<lfloor>m\<rfloor> < 36 ^ WALL_RADIX_LENGTH"
  shows "r < snd (tickHlc (observeHlc c r n) m) \<and> formatHlc c < snd (tickHlc (observeHlc c r n) m)
    \<and> isCanonicalHlc (snd (tickHlc (observeHlc c r n) m))"
proof -
  let ?o = "observeHlc c r n"
  from assms(2) obtain d where d: "hlc_fits d" "r = formatHlc d"
    by (auto simp: canonical_iff)
  have o: "hlc_fits ?o" "nodeId ?o = nodeId c"
    and w: "wallMs ?o = max (max (wallMs c) (hlcWallMs r)) (max 0 \<lfloor>n\<rfloor>)"
    using observeHlc_fits [of c r n] assms by simp_all
  have "wallMs ?o + 1 < 36 ^ WALL_RADIX_LENGTH"
    using assms by (simp add: w hlc_constants)
  note fwd = tickHlc_forward [OF o(1) this assms(6)]
  let ?t = "fst (tickHlc ?o m)"
  have t: "wallMs ?o < wallMs ?t \<or> wallMs ?o = wallMs ?t \<and> counter ?o < counter ?t"
    using o(1) by (auto simp: tickHlc_unfold hlc_fits_def Let_def)
  have "wallMs d < wallMs ?o \<or> wallMs d = wallMs ?o \<and> counter d \<le> counter ?o"
    "wallMs c < wallMs ?o \<or> wallMs c = wallMs ?o \<and> counter c \<le> counter ?o"
    unfolding observeHlc_def Let_def d(2) formatHlc_reads [OF d(1)] by auto
  with t show ?thesis
    using fwd(1,2) formatHlc_canonical [OF fwd(1)] d assms(1)
    by (auto simp: formatHlc_less_iff)
qed

text \<open>
  Causality across devices. After \<open>observeHlc\<close> has taken a canonical remote timestamp in,
  the next timestamp this device produces is later than the remote one and later than
  everything the device produced before, whatever the two wall-clock readings were.
\<close>

theorem hlc_observe_then_tick_later:
  assumes "hlc_fits c" "isCanonicalHlc r" "hlcWallMs r + 1 < 36 ^ WALL_RADIX_LENGTH"
    "wallMs c + 1 < 36 ^ WALL_RADIX_LENGTH" "\<lfloor>n\<rfloor> + 1 < 36 ^ WALL_RADIX_LENGTH"
    "\<lfloor>m\<rfloor> < 36 ^ WALL_RADIX_LENGTH"
  shows "r < snd (tickHlc (observeHlc c r n) m) \<and> formatHlc c < snd (tickHlc (observeHlc c r n) m)
    \<and> isCanonicalHlc (snd (tickHlc (observeHlc c r n) m))"
  using assms by (rule observe_tick_later)

text \<open>The three theorems at concrete clocks and readings.\<close>

definition clock_a :: hlc_clock where
  "clock_a = \<lparr>wallMs = 1000, counter = 0, nodeId = js ''a''\<rparr>"

definition clock_b :: hlc_clock where
  "clock_b = \<lparr>wallMs = 1200, counter = 7, nodeId = js ''b''\<rparr>"

lemma clock_fits [simp]: "hlc_fits clock_a" "hlc_fits clock_b"
  by (simp_all add: clock_a_def clock_b_def hlc_fits_def hlc_constants dot_def)

lemma hlc_format_roundtrip_and_order_witness:
  "hlcWallMs (formatHlc clock_b) = 1200 \<and> compareHlc (formatHlc clock_a) (formatHlc clock_b) < 0"
  using hlc_format_roundtrip_and_order [OF clock_fits] hlc_format_roundtrip_and_order [OF clock_fits(2) clock_fits(1)]
  by (simp add: clock_a_def clock_b_def del: compareHlc_simps)

lemma hlc_ticks_strictly_increase_witness:
  "sorted_wrt (<) (formatHlc clock_a # tick_stamps clock_a [900, 1001, 5])"
  using hlc_ticks_strictly_increase [OF clock_fits(1), of "[900, 1001, 5]"]
  by (simp add: clock_a_def hlc_constants del: sorted_wrt.simps tick_stamps.simps)

lemma hlc_observe_then_tick_later_witness:
  "formatHlc clock_b < snd (tickHlc (observeHlc clock_a (formatHlc clock_b) 3) 2)"
  using hlc_observe_then_tick_later [of clock_a "formatHlc clock_b" 3 2]
  by (simp add: formatHlc_canonical formatHlc_reads) (simp add: clock_a_def clock_b_def hlc_constants)

lemma toString36_power: "toString36 (36 ^ k) = 49 # replicate k 48"
proof (induction k)
  case (Suc k)
  have "toString36 (36 ^ Suc k) = toString36 (36 ^ k) @ [48]"
    by (simp add: toString36.simps [of "36 * 36 ^ k"] digit36_def)
  with Suc show ?case by (simp add: replicate_append_same)
qed (simp add: toString36.simps digit36_def)

definition exhausted_stamp :: hlc_timestamp where
  "exhausted_stamp = js ''zzzzzzzzzz.zzzz.x''"

lemma fixed36_max: "fixed36 k (36 ^ k - 1) = replicate k 122"
proof (induction k)
  case (Suc k)
  obtain m :: nat where m: "36 ^ k = Suc m"
    by (metis gr0_implies_Suc zero_less_numeral zero_less_power)
  then have "(36 ^ Suc k - 1) = (36::nat) * m + 35" by simp
  then have "(36 ^ Suc k - 1) div 36 = (36::nat) ^ k - 1" "(36 ^ Suc k - 1) mod 36 = (35::nat)"
    using m by simp_all
  with Suc show ?case by (simp add: digit36_def replicate_append_same)
qed simp

definition exhausted_clock :: hlc_clock where
  "exhausted_clock = \<lparr>wallMs = 36 ^ WALL_RADIX_LENGTH - 1, counter = COUNTER_MAX, nodeId = js ''x''\<rparr>"

lemma exhausted_clock_fits: "hlc_fits exhausted_clock"
  by (simp add: exhausted_clock_def hlc_fits_def hlc_constants dot_def)

lemma exhausted_clock_stamp: "formatHlc exhausted_clock = exhausted_stamp"
proof -
  have "fixed36 10 (36 ^ 10 - 1) = replicate 10 122" "fixed36 4 (36 ^ 4 - 1) = replicate 4 122"
    by (rule fixed36_max)+
  moreover have "nat (wallMs exhausted_clock) = 36 ^ 10 - 1" "nat (counter exhausted_clock) = 36 ^ 4 - 1"
    "nodeId exhausted_clock = js ''x''"
    by (simp_all add: exhausted_clock_def hlc_constants)
  moreover have "exhausted_stamp = replicate 10 122 @ [dot] @ replicate 4 122 @ [dot] @ js ''x''"
    by (simp add: exhausted_stamp_def dot_def eval_nat_numeral)
  ultimately show ?thesis
    unfolding formatHlc_fixed [OF exhausted_clock_fits] by (simp only:)
qed

text \<open>
  The fixed width is not defended against a peer. There is a canonical timestamp (its wall
  field and its counter at their maxima) such that any device whose own clock is in range and
  observes it then produces a stamp that is not canonical and sorts before the one observed:
  the frames the device sends from then on are refused by \<open>isValidSyncState\<close> on every peer, and
  its edits lose every last-writer-wins comparison.
\<close>

theorem hlc_exhausted_remote_stamp:
  "isCanonicalHlc exhausted_stamp \<and>
   (\<forall>c n m. hlc_fits c \<longrightarrow> \<lfloor>n\<rfloor> < 36 ^ WALL_RADIX_LENGTH \<longrightarrow> \<lfloor>m\<rfloor> < 36 ^ WALL_RADIX_LENGTH \<longrightarrow>
     (let s = snd (tickHlc (observeHlc c exhausted_stamp n) m)
      in \<not> isCanonicalHlc s \<and> s < exhausted_stamp))"
proof (intro conjI allI impI)
  show "isCanonicalHlc exhausted_stamp"
    using formatHlc_canonical [OF exhausted_clock_fits] by (simp add: exhausted_clock_stamp)
  fix c and n m :: number
  assume c: "hlc_fits c" and n: "\<lfloor>n\<rfloor> < 36 ^ WALL_RADIX_LENGTH" and m: "\<lfloor>m\<rfloor> < 36 ^ WALL_RADIX_LENGTH"
  let ?o = "observeHlc c exhausted_stamp n"
  note reads = formatHlc_reads [OF exhausted_clock_fits, unfolded exhausted_clock_stamp]
  obtain f g where f: "\<lfloor>n\<rfloor> = f" and g: "\<lfloor>m\<rfloor> = g" by blast
  have o: "?o = \<lparr>wallMs = 36 ^ 10 - 1, counter = COUNTER_MAX, nodeId = nodeId c\<rparr>"
    using c n by (auto simp: f observeHlc_def Let_def reads exhausted_clock_def hlc_fits_def
        hlc_constants max_def)
  have "fst (tickHlc ?o m) = \<lparr>wallMs = 36 ^ 10, counter = 0, nodeId = nodeId c\<rparr>"
    "snd (tickHlc ?o m) = formatHlc (fst (tickHlc ?o m))"
    using m by (auto simp: g o tickHlc_unfold Let_def hlc_constants max_def)
  moreover have "padStart 4 48 (toString36 0) = replicate 4 48"
    using padStart_toString36 [of 0 3] fixed36_zero [of 4] by (simp del: fixed36.simps)
  ultimately have "snd (tickHlc ?o m) = (49 # replicate 10 48) @ [dot] @ replicate 4 48 @ [dot] @ nodeId c"
    using toString36_power [of 10] by (simp add: formatHlc_def hlc_constants padStart_def)
  moreover have "(49 # replicate 10 48) ! 10 = (48 :: code_unit)"
    by simp
  ultimately show "let s = snd (tickHlc ?o m) in \<not> isCanonicalHlc s \<and> s < exhausted_stamp"
    by (simp add: isCanonicalHlc_def hlc_constants exhausted_stamp_def dot_def nth_append)
qed

lemma hlc_exhausted_remote_stamp_witness:
  "\<not> isCanonicalHlc (snd (tickHlc (observeHlc clock_a exhausted_stamp 3) 2))"
  using hlc_exhausted_remote_stamp
  by (auto simp: Let_def hlc_constants dest!: spec [of _ clock_a] spec [of _ 3] spec [of _ 2])

end
