(* ===== verification/DictTypes.thy ===== *)
theory DictTypes
  imports Replication Hlc
begin

text \<open>
  The replicated state of the voice dictionary
  (\<open>packages/voice-input-core/src/dictionary-sync/types.ts\<close>): a term is a record of incarnations
  and tombstones, both keyed by incarnation tag; counts, aliases and the stage hang on the
  incarnation, so that a deletion takes them along. The lemmas are about the readings taken
  from a record: the incarnations alive and the counter totals.
\<close>

section \<open>Data\<close>

definition VOICE_DICTIONARY_SYNC_VERSION :: nat where
  "VOICE_DICTIONARY_SYNC_VERSION = 1"

type_synonym gcounter = "(jsstring, number) fmap"

text \<open>Both enumerations are monotone registers: the later constructor wins.\<close>

datatype stage = Candidate | Entry

datatype source = Automatic | Manual

record alias_state =
  al_text :: jsstring
  al_textStamp :: hlc_timestamp
  al_counters :: gcounter
  al_lastSeenAt :: number

record incarnation =
  in_tag :: hlc_timestamp
  in_text :: jsstring
  in_textStamp :: hlc_timestamp
  in_source :: source
  in_stage :: stage
  in_counters :: gcounter
  in_aliases :: "(jsstring, alias_state) fmap"
  in_createdAt :: number
  in_updatedAt :: number

record dict_record =
  rc_incarnations :: "(hlc_timestamp, incarnation) fmap"
  rc_tombstones :: "(hlc_timestamp, hlc_timestamp) fmap"

record suppression =
  su_text :: jsstring
  su_stamp :: hlc_timestamp

record sync_state =
  st_version :: nat
  st_mutationVector :: "(jsstring, hlc_timestamp) fmap option"
  st_records :: "(jsstring, dict_record) fmap"
  st_suppressed :: "(jsstring, suppression) fmap"

instantiation stage :: linorder
begin

definition less_eq_stage :: "stage \<Rightarrow> stage \<Rightarrow> bool" where
  "less_eq_stage a b \<longleftrightarrow> a = Candidate \<or> b = Entry"

definition less_stage :: "stage \<Rightarrow> stage \<Rightarrow> bool" where
  "less_stage a b \<longleftrightarrow> a = Candidate \<and> b = Entry"

instance
  by standard (auto simp: less_eq_stage_def less_stage_def intro: stage.exhaust)

end

instantiation source :: linorder
begin

definition less_eq_source :: "source \<Rightarrow> source \<Rightarrow> bool" where
  "less_eq_source a b \<longleftrightarrow> a = Automatic \<or> b = Manual"

definition less_source :: "source \<Rightarrow> source \<Rightarrow> bool" where
  "less_source a b \<longleftrightarrow> a = Automatic \<and> b = Manual"

instance
  by standard (auto simp: less_eq_source_def less_source_def intro: source.exhaust)

end

section \<open>Dictionary helpers\<close>

text \<open>
  The three helpers exist because objects with a prototype answer to keys such as
  \<open>constructor\<close>; a finite map has exactly its own keys.
\<close>

definition createDictionaryMap :: "(jsstring, 'v) fmap" where
  "createDictionaryMap = fmempty"

definition copyDictionaryMap :: "(jsstring, 'v) fmap option \<Rightarrow> (jsstring, 'v) fmap" where
  "copyDictionaryMap m = (case m of None \<Rightarrow> createDictionaryMap
     | Some d \<Rightarrow> fm_build (fmlookup d) (obj_keys d))"

definition withDictionaryKey :: "(jsstring, 'v) fmap option \<Rightarrow> jsstring \<Rightarrow> 'v \<Rightarrow> (jsstring, 'v) fmap" where
  "withDictionaryKey m k v = fmupd k v (copyDictionaryMap m)"

definition createEmptySyncState :: sync_state where
  "createEmptySyncState =
     \<lparr>st_version = VOICE_DICTIONARY_SYNC_VERSION, st_mutationVector = None,
      st_records = createDictionaryMap, st_suppressed = createDictionaryMap\<rparr>"

lemma copyDictionaryMap_simps [simp]:
  "copyDictionaryMap None = fmempty"
  "copyDictionaryMap (Some m) = m"
  by (auto simp: copyDictionaryMap_def createDictionaryMap_def fmlookup_dom_iff intro!: fmap_eqI)

lemma withDictionaryKey_simps [simp]:
  "withDictionaryKey None k v = fmupd k v fmempty"
  "withDictionaryKey (Some m) k v = fmupd k v m"
  by (simp_all add: withDictionaryKey_def)

section \<open>Readings\<close>

text \<open>The incarnations no tombstone covers, in tag order.\<close>

definition listLiveIncarnations :: "dict_record \<Rightarrow> incarnation list" where
  "listLiveIncarnations r =
     sort_key in_tag (filter (\<lambda>i. \<not> hasDictionaryKey (rc_tombstones r) (in_tag i))
       (obj_values (rc_incarnations r)))"

fun readCounterTotal_loop :: "number list \<Rightarrow> number \<Rightarrow> number" where
  "readCounterTotal_loop [] acc = acc"
| "readCounterTotal_loop (v # vs) acc =
     readCounterTotal_loop vs (if 0 < v then acc + Math_floor v else acc)"

definition readCounterTotal :: "gcounter \<Rightarrow> number" where
  "readCounterTotal counters = readCounterTotal_loop (obj_values counters) 0"

text \<open>\<open>live.reduce((sum, item) => sum + readCounterTotal(item.counters), 0)\<close>.\<close>

definition live_total :: "incarnation list \<Rightarrow> number" where
  "live_total live = foldl (\<lambda>acc i. acc + readCounterTotal (in_counters i)) 0 live"

section \<open>Lemmas on the readings\<close>

lemma set_listLiveIncarnations:
  "i \<in> set (listLiveIncarnations r) \<longleftrightarrow>
    (\<exists>k. fmlookup (rc_incarnations r) k = Some i) \<and> in_tag i |\<notin>| fmdom (rc_tombstones r)"
  by (auto simp: listLiveIncarnations_def set_obj_values hasDictionaryKey_fmdom)

lemma sorted_listLiveIncarnations: "sorted (map in_tag (listLiveIncarnations r))"
  by (simp add: listLiveIncarnations_def)

text \<open>One bucket of a counter, as it counts towards the total.\<close>

definition bucket :: "number \<Rightarrow> number" where
  "bucket v = (if 0 < v then Math_floor v else 0)"

lemma bucket_nonneg [simp]: "0 \<le> bucket v"
  by (simp add: bucket_def Math_floor_nonneg)

lemma bucket_mono: "v \<le> w \<Longrightarrow> bucket v \<le> bucket w"
  by (auto simp: bucket_def Math_floor_nonneg intro: Math_floor_mono)

lemma readCounterTotal_loop_sum: "readCounterTotal_loop vs t = t + sum_list (map bucket vs)"
  by (induction vs arbitrary: t) (simp_all add: bucket_def)

lemma readCounterTotal_sum_list:
  "readCounterTotal c = (\<Sum>k \<leftarrow> obj_keys c. bucket (the (fmlookup c k)))"
  by (simp add: readCounterTotal_def readCounterTotal_loop_sum obj_values_keys comp_def)

lemma readCounterTotal_sum:
  "readCounterTotal c = (\<Sum>k \<in> fset (fmdom c). bucket (the (fmlookup c k)))"
  by (simp add: readCounterTotal_sum_list sum_list_distinct_conv_sum_set)

text \<open>The bucket of a node in a counter, \<open>0\<close> when the node has none.\<close>

definition bucket_of :: "gcounter \<Rightarrow> jsstring \<Rightarrow> number" where
  "bucket_of c k = (case fmlookup c k of None \<Rightarrow> 0 | Some v \<Rightarrow> bucket v)"

lemma bucket_of_nonneg [simp]: "0 \<le> bucket_of c k"
  by (simp add: bucket_of_def split: option.split)

lemma readCounterTotal_superset:
  assumes "finite K" "fset (fmdom c) \<subseteq> K"
  shows "readCounterTotal c = (\<Sum>k \<in> K. bucket_of c k)"
proof -
  have "(\<Sum>k \<in> K. bucket_of c k) = (\<Sum>k \<in> fset (fmdom c). bucket_of c k)"
    using assms by (intro sum.mono_neutral_right) (auto simp: bucket_of_def)
  also have "\<dots> = readCounterTotal c"
    unfolding readCounterTotal_sum
    by (rule sum.cong) (auto simp: bucket_of_def fmlookup_dom_iff)
  finally show ?thesis by simp
qed

lemma readCounterTotal_nonneg [simp]: "0 \<le> readCounterTotal c"
  by (simp add: readCounterTotal_sum sum_nonneg)

lemma readCounterTotal_upd:
  "readCounterTotal (fmupd k v c) = readCounterTotal c - bucket_of c k + bucket v"
proof -
  let ?K = "insert k (fset (fmdom c))"
  have "readCounterTotal (fmupd k v c) = (\<Sum>j \<in> ?K. bucket_of (fmupd k v c) j)"
    by (rule readCounterTotal_superset) auto
  also have "\<dots> = bucket v + (\<Sum>j \<in> ?K - {k}. bucket_of c j)"
    by (subst sum.remove [of _ k]) (auto simp: bucket_of_def intro!: sum.cong split: if_splits)
  also have "(\<Sum>j \<in> ?K - {k}. bucket_of c j) = readCounterTotal c - bucket_of c k"
    by (subst readCounterTotal_superset [of ?K]) (auto simp: sum.remove [of ?K k])
  finally show ?thesis by simp
qed

lemma readCounterTotal_mono:
  assumes "\<And>k. bucket_of c k \<le> bucket_of d k"
  shows "readCounterTotal c \<le> readCounterTotal d"
proof -
  let ?K = "fset (fmdom c |\<union>| fmdom d)"
  have "readCounterTotal c = (\<Sum>k \<in> ?K. bucket_of c k)" "readCounterTotal d = (\<Sum>k \<in> ?K. bucket_of d k)"
    by (rule readCounterTotal_superset; simp)+
  with assms show ?thesis by (simp add: sum_mono)
qed

lemma live_total_sum: "live_total live = (\<Sum>i \<leftarrow> live. readCounterTotal (in_counters i))"
proof -
  have "foldl (\<lambda>acc i. acc + readCounterTotal (in_counters i)) t live
    = t + (\<Sum>i \<leftarrow> live. readCounterTotal (in_counters i))" for t
    by (induction live arbitrary: t) simp_all
  then show ?thesis by (simp add: live_total_def)
qed

end
