(* ===== verification/DictMerge.thy ===== *)
theory DictMerge
  imports DictTypes "HOL-Library.Product_Lexorder"
begin

text \<open>
  Merging two dictionary states (\<open>dictionary-sync/merge.ts\<close>). Each level of the state is an
  instance of the interface \<open>crdt\<close>: counters, aliases, incarnations, tombstones, records,
  suppressions and the whole state. The properties at the end are the algebraic laws the
  module's comment promises, the convergence they give, and what the version vector says.
\<close>

section \<open>The merge functions\<close>

definition normalizeCount :: "number option \<Rightarrow> number" where
  "normalizeCount value = (case value of None \<Rightarrow> 0 | Some v \<Rightarrow> if v \<le> 0 then 0 else Math_floor v)"

definition mergeCounters :: "gcounter \<Rightarrow> gcounter \<Rightarrow> gcounter" where
  "mergeCounters = fm_zip (\<lambda>l r.
     let left = normalizeCount l; right = normalizeCount r; value = max left right
     in if 0 < value then Some value else None)"

text \<open>A last-writer-wins register: the value and its stamp.\<close>

definition mergeLww :: "jsstring \<times> hlc_timestamp \<Rightarrow> jsstring \<times> hlc_timestamp \<Rightarrow> jsstring \<times> hlc_timestamp" where
  "mergeLww a b =
     (let order = compareHlc (snd a) (snd b)
      in if 0 < order then a
         else if order < 0 then b
         else if fst b \<le> fst a then a else b)"

definition mergeAliasState :: "alias_state \<Rightarrow> alias_state \<Rightarrow> alias_state" where
  "mergeAliasState a b =
     (let t = mergeLww (al_text a, al_textStamp a) (al_text b, al_textStamp b)
      in \<lparr>al_text = fst t, al_textStamp = snd t,
          al_counters = mergeCounters (al_counters a) (al_counters b),
          al_lastSeenAt = max (al_lastSeenAt a) (al_lastSeenAt b)\<rparr>)"

definition mergeAliases :: "(jsstring, alias_state) fmap \<Rightarrow> (jsstring, alias_state) fmap
    \<Rightarrow> (jsstring, alias_state) fmap" where
  "mergeAliases = fm_zip (\<lambda>l r. case (l, r) of
       (Some left, Some right) \<Rightarrow> Some (mergeAliasState left right)
     | (Some left, None) \<Rightarrow> Some left
     | (None, _) \<Rightarrow> r)"

definition mergeSource :: "source \<Rightarrow> source \<Rightarrow> source" where
  "mergeSource a b = (if a = Manual \<or> b = Manual then Manual else Automatic)"

definition mergeStage :: "stage \<Rightarrow> stage \<Rightarrow> stage" where
  "mergeStage a b = (if a = Entry \<or> b = Entry then Entry else Candidate)"

definition mergeIncarnation :: "incarnation \<Rightarrow> incarnation \<Rightarrow> incarnation" where
  "mergeIncarnation a b =
     (let t = mergeLww (in_text a, in_textStamp a) (in_text b, in_textStamp b)
      in \<lparr>in_tag = in_tag a, in_text = fst t, in_textStamp = snd t,
          in_source = mergeSource (in_source a) (in_source b),
          in_stage = mergeStage (in_stage a) (in_stage b),
          in_counters = mergeCounters (in_counters a) (in_counters b),
          in_aliases = mergeAliases (in_aliases a) (in_aliases b),
          in_createdAt = min (in_createdAt a) (in_createdAt b),
          in_updatedAt = max (in_updatedAt a) (in_updatedAt b)\<rparr>)"

text \<open>
  In \<open>left && right ? maxHlc(left, right) : (left ?? right)\<close> the operands are strings, and the
  empty string is falsy.
\<close>

definition mergeRecord :: "dict_record \<Rightarrow> dict_record \<Rightarrow> dict_record" where
  "mergeRecord a b =
     \<lparr>rc_incarnations = fm_zip (\<lambda>l r. case (l, r) of
          (Some left, Some right) \<Rightarrow> Some (mergeIncarnation left right)
        | (Some left, None) \<Rightarrow> Some left
        | (None, _) \<Rightarrow> r) (rc_incarnations a) (rc_incarnations b),
      rc_tombstones = fm_zip (\<lambda>l r. case (l, r) of
          (Some left, Some right) \<Rightarrow>
            if left \<noteq> [] \<and> right \<noteq> [] then Some (maxHlc left right) else Some left
        | (Some left, None) \<Rightarrow> Some left
        | (None, _) \<Rightarrow> r) (rc_tombstones a) (rc_tombstones b)\<rparr>"

definition mergeSuppression :: "suppression \<Rightarrow> suppression \<Rightarrow> suppression" where
  "mergeSuppression a b =
     (let order = compareHlc (su_stamp a) (su_stamp b);
          stamp = minHlc (su_stamp a) (su_stamp b);
          txt = (if order = 0 then (if su_text b \<le> su_text a then su_text a else su_text b)
                 else if order < 0 then su_text a else su_text b)
      in \<lparr>su_text = txt, su_stamp = stamp\<rparr>)"

text \<open>The loop that takes one vector's entries into the merged vector.\<close>

fun mergeVector_loop :: "(jsstring \<times> hlc_timestamp) list \<Rightarrow> (jsstring, hlc_timestamp) fmap
    \<Rightarrow> (jsstring, hlc_timestamp) fmap" where
  "mergeVector_loop [] vector = vector"
| "mergeVector_loop ((node, stamp) # es) vector =
     mergeVector_loop es (fmupd node
       (case fmlookup vector node of None \<Rightarrow> stamp | Some v \<Rightarrow> maxHlc v stamp) vector)"

definition mergeSyncStates :: "sync_state \<Rightarrow> sync_state \<Rightarrow> sync_state" where
  "mergeSyncStates a b =
     (if st_version a \<noteq> VOICE_DICTIONARY_SYNC_VERSION \<or> st_version b \<noteq> VOICE_DICTIONARY_SYNC_VERSION
      then (if st_version a = VOICE_DICTIONARY_SYNC_VERSION then a
            else if st_version b = VOICE_DICTIONARY_SYNC_VERSION then b
            else createEmptySyncState)
      else
        \<lparr>st_version = VOICE_DICTIONARY_SYNC_VERSION,
         st_mutationVector =
           (if st_mutationVector a \<noteq> None \<or> st_mutationVector b \<noteq> None
            then Some (foldl (\<lambda>vector input. mergeVector_loop
                   (case input of None \<Rightarrow> [] | Some m \<Rightarrow> obj_entries m) vector)
                 createDictionaryMap [st_mutationVector a, st_mutationVector b])
            else None),
         st_records = fm_zip (\<lambda>l r. case (l, r) of
             (Some left, Some right) \<Rightarrow> Some (mergeRecord left right)
           | (Some left, None) \<Rightarrow> Some left
           | (None, _) \<Rightarrow> r) (st_records a) (st_records b),
         st_suppressed = fm_zip (\<lambda>l r. case (l, r) of
             (Some left, Some right) \<Rightarrow> Some (mergeSuppression left right)
           | (Some left, None) \<Rightarrow> Some left
           | (None, _) \<Rightarrow> r) (st_suppressed a) (st_suppressed b)\<rparr>)"

definition mergeAllSyncStates :: "sync_state list \<Rightarrow> sync_state" where
  "mergeAllSyncStates states = foldl mergeSyncStates createEmptySyncState states"

section \<open>Version vectors\<close>

text \<open>The stamps a traversal of the state visits, in the order \<open>merge.ts\<close> visits them.\<close>

definition incarnation_stamps :: "incarnation \<Rightarrow> hlc_timestamp list" where
  "incarnation_stamps i = in_tag i # in_textStamp i # map al_textStamp (obj_values (in_aliases i))"

definition record_stamps :: "dict_record \<Rightarrow> hlc_timestamp list" where
  "record_stamps r = concat (map incarnation_stamps (obj_values (rc_incarnations r)))
     @ obj_values (rc_tombstones r)"

definition state_stamps :: "sync_state \<Rightarrow> hlc_timestamp list" where
  "state_stamps s = concat (map record_stamps (obj_values (st_records s)))
     @ map su_stamp (obj_values (st_suppressed s))
     @ (case st_mutationVector s of None \<Rightarrow> [] | Some m \<Rightarrow> obj_values m)"

definition observeStamp :: "(jsstring, hlc_timestamp) fmap \<Rightarrow> hlc_timestamp \<Rightarrow> (jsstring, hlc_timestamp) fmap" where
  "observeStamp vector stamp =
     (if stamp = [] then vector
      else case hlcNodeId stamp of
          None \<Rightarrow> vector
        | Some node \<Rightarrow>
            (if node = [] then vector
             else case fmlookup vector node of
                 None \<Rightarrow> fmupd node stamp vector
               | Some current \<Rightarrow>
                   if 0 < compareHlc stamp current then fmupd node stamp vector else vector))"

definition buildStateVersionVector :: "sync_state \<Rightarrow> (jsstring, hlc_timestamp) fmap" where
  "buildStateVersionVector s = foldl observeStamp fmempty (state_stamps s)"

definition versionVectorDominates :: "(jsstring, hlc_timestamp) fmap \<Rightarrow> (jsstring, hlc_timestamp) fmap \<Rightarrow> bool" where
  "versionVectorDominates a b = list_all (\<lambda>(node, stamp).
     case fmlookup a node of None \<Rightarrow> False | Some mine \<Rightarrow> \<not> compareHlc mine stamp < 0) (obj_entries b)"

definition findMaxHlc :: "sync_state \<Rightarrow> hlc_timestamp option" where
  "findMaxHlc s = foldl (\<lambda>acc stamp.
     if stamp = [] then acc
     else case acc of None \<Rightarrow> Some stamp | Some m \<Rightarrow> Some (maxHlc m stamp)) None (state_stamps s)"

section \<open>Each level is a join\<close>

lemma normalizeCount_bucket [simp]: "normalizeCount (fmlookup c k) = bucket_of c k"
  by (simp add: normalizeCount_def bucket_of_def bucket_def split: option.split)

lemma zero_or_pos_number: "(0::number) \<le> x \<Longrightarrow> \<not> 0 < x \<Longrightarrow> x = 0"
  by simp

lemma fmlookup_mergeCounters [simp]:
  "fmlookup (mergeCounters a b) k =
    (if 0 < max (bucket_of a k) (bucket_of b k) then Some (max (bucket_of a k) (bucket_of b k)) else None)"
  unfolding mergeCounters_def by (subst fmlookup_fm_zip) (simp_all add: normalizeCount_def Let_def flip: normalizeCount_bucket)

lemma Math_floor_bucket_of [simp]: "Math_floor (bucket_of c k) = bucket_of c k"
  by (simp add: bucket_of_def bucket_def Math_floor_def split: option.split)

lemma max_bucket_cases:
  "max (bucket_of a k) (bucket_of b k) = 0 \<or> 0 < max (bucket_of a k) (bucket_of b k)"
  using order.not_eq_order_implies_strict [of 0 "max (bucket_of a k) (bucket_of b k)"]
  by (auto simp: le_max_iff_disj)

lemma bucket_max_bucket_of [simp]:
  "0 < max (bucket_of a k) (bucket_of b k) \<Longrightarrow>
    bucket (max (bucket_of a k) (bucket_of b k)) = max (bucket_of a k) (bucket_of b k)"
  by (simp only: bucket_def Math_floor_max Math_floor_bucket_of if_True)

lemma bucket_of_mergeCounters [simp]:
  "bucket_of (mergeCounters a b) k = max (bucket_of a k) (bucket_of b k)"
  unfolding bucket_of_def [of "mergeCounters a b"] fmlookup_mergeCounters
  using max_bucket_cases [of a k b] bucket_max_bucket_of [of a k b]
  by (auto simp del: less_max_iff_disj bucket_max_bucket_of)

text \<open>Counters in normal form: every bucket a positive integer.\<close>

definition ok_counter :: "gcounter \<Rightarrow> bool" where
  "ok_counter = fmpred (\<lambda>_ v. 0 < v \<and> Math_floor v = v)"

lemma ok_counter_bucket_of: "ok_counter c \<Longrightarrow> fmlookup c k = Some v \<Longrightarrow> bucket_of c k = v \<and> 0 < v"
  by (auto simp: ok_counter_def bucket_of_def bucket_def dest!: fmpredD)

interpretation counters: crdt ok_counter mergeCounters
proof
  fix a b c :: gcounter
  show "ok_counter (mergeCounters a b)"
    by (auto simp: ok_counter_def fmpred_iff Math_floor_max split: if_splits)
  show "mergeCounters a b = mergeCounters b a"
    by (rule fmap_eqI) (simp add: max.commute)
  show "mergeCounters (mergeCounters a b) c = mergeCounters a (mergeCounters b c)"
    by (rule fmap_eqI) (simp add: max.assoc)
  assume a: "ok_counter a"
  show "mergeCounters a a = a"
  proof (rule fmap_eqI)
    fix k
    show "fmlookup (mergeCounters a a) k = fmlookup a k"
    proof (cases "fmlookup a k")
      case None
      then show ?thesis by (simp add: bucket_of_def)
    next
      case (Some v)
      with ok_counter_bucket_of [OF a Some] show ?thesis by simp
    qed
  qed
qed

lemma mergeLww_max: "mergeLww (v, s) (w, t) = prod.swap (max (s, v) (t, w))"
  by (auto simp: mergeLww_def Let_def max_def)

lemma mergeLww_swap: "mergeLww p q = prod.swap (max (prod.swap p) (prod.swap q))"
  by (cases p; cases q) (simp add: mergeLww_max)

lemma mergeLww_commute: "mergeLww p q = mergeLww q p"
  by (simp only: mergeLww_swap max.commute)

lemma mergeLww_assoc: "mergeLww (mergeLww p q) r = mergeLww p (mergeLww q r)"
  by (simp only: mergeLww_swap max.assoc swap_swap)

lemma mergeLww_idem [simp]: "mergeLww p p = p"
  by (simp add: mergeLww_swap)

lemma mergeSource_max: "mergeSource = max"
proof (intro ext)
  fix a b show "mergeSource a b = max a b"
    by (cases a; cases b) (simp_all add: mergeSource_def max_def less_eq_source_def)
qed

lemma mergeStage_max: "mergeStage = max"
proof (intro ext)
  fix a b show "mergeStage a b = max a b"
    by (cases a; cases b) (simp_all add: mergeStage_def max_def less_eq_stage_def)
qed

lemma mergeAliases_join: "mergeAliases = fm_join mergeAliasState"
  unfolding mergeAliases_def
  by (intro arg_cong [where f = fm_zip]) (auto simp: fun_eq_iff combine_options_def split: option.split)

definition ok_alias :: "alias_state \<Rightarrow> bool" where
  "ok_alias al \<longleftrightarrow> ok_counter (al_counters al)"

interpretation aliases: keyed_crdt "\<lambda>_ :: jsstring. ok_alias" mergeAliasState
proof
  fix u v w :: alias_state
  assume u: "ok_alias u"
  show "mergeAliasState u u = u"
    using u by (simp add: mergeAliasState_def ok_alias_def counters.join_idem)
  assume v: "ok_alias v"
  show "ok_alias (mergeAliasState u v)"
    using u v by (simp add: mergeAliasState_def ok_alias_def Let_def counters.ok_join)
  show "mergeAliasState u v = mergeAliasState v u"
    using u v unfolding ok_alias_def mergeAliasState_def
    by (simp add: counters.join_commute [of "al_counters u" "al_counters v"] max.commute [of "al_lastSeenAt u"]
        mergeLww_commute [of "(al_text u, al_textStamp u)"])
  assume w: "ok_alias w"
  show "mergeAliasState (mergeAliasState u v) w = mergeAliasState u (mergeAliasState v w)"
    using u v w by (simp add: mergeAliasState_def Let_def ok_alias_def counters.join_assoc max.assoc mergeLww_assoc)
qed

text \<open>Both branches of the \<open>left ?? right\<close> loops are the pointwise join.\<close>

lemma zip_or_join:
  "fm_zip (\<lambda>l r. case (l, r) of (Some left, Some right) \<Rightarrow> Some (f left right)
     | (Some left, None) \<Rightarrow> Some left | (None, _) \<Rightarrow> r) = fm_join f"
  by (intro arg_cong [where f = fm_zip]) (auto simp: fun_eq_iff combine_options_def split: option.split)

definition ok_incarnation :: "hlc_timestamp \<Rightarrow> incarnation \<Rightarrow> bool" where
  "ok_incarnation tag i \<longleftrightarrow> in_tag i = tag \<and> ok_counter (in_counters i) \<and> fmpred (\<lambda>_. ok_alias) (in_aliases i)"

interpretation incarnations: keyed_crdt ok_incarnation mergeIncarnation
proof
  fix k and u v w :: incarnation
  assume u: "ok_incarnation k u"
  show "mergeIncarnation u u = u"
    using u by (simp add: mergeIncarnation_def ok_incarnation_def counters.join_idem mergeAliases_join
        aliases.dict.join_idem mergeSource_max mergeStage_max)
  assume v: "ok_incarnation k v"
  show "ok_incarnation k (mergeIncarnation u v)"
    using u v by (simp add: mergeIncarnation_def ok_incarnation_def Let_def counters.ok_join mergeAliases_join
        aliases.dict.ok_join)
  show "mergeIncarnation u v = mergeIncarnation v u"
    using u v unfolding ok_incarnation_def mergeIncarnation_def mergeAliases_join mergeSource_max mergeStage_max
    by (simp add: counters.join_commute [of "in_counters u" "in_counters v"]
        aliases.dict.join_commute [of "in_aliases u" "in_aliases v"]
        max.commute [of "in_source u"] max.commute [of "in_stage u"]
        max.commute [of "in_updatedAt u"] min.commute [of "in_createdAt u"]
        mergeLww_commute [of "(in_text u, in_textStamp u)"])
  assume w: "ok_incarnation k w"
  show "mergeIncarnation (mergeIncarnation u v) w = mergeIncarnation u (mergeIncarnation v w)"
    using u v w by (simp add: mergeIncarnation_def Let_def ok_incarnation_def counters.join_assoc
        mergeAliases_join aliases.dict.join_assoc mergeSource_max mergeStage_max max.assoc min.assoc mergeLww_assoc)
qed

definition mergeTombstone :: "hlc_timestamp \<Rightarrow> hlc_timestamp \<Rightarrow> hlc_timestamp" where
  "mergeTombstone left right = (if left \<noteq> [] \<and> right \<noteq> [] then maxHlc left right else left)"

interpretation tombstones: keyed_crdt "\<lambda>_ :: hlc_timestamp. \<lambda>t. t \<noteq> []" mergeTombstone
  by unfold_locales (auto simp: mergeTombstone_def max_def)

lemma mergeRecord_join:
  "mergeRecord a b =
    \<lparr>rc_incarnations = fm_join mergeIncarnation (rc_incarnations a) (rc_incarnations b),
     rc_tombstones = fm_join mergeTombstone (rc_tombstones a) (rc_tombstones b)\<rparr>"
proof -
  have "(\<lambda>l r. case (l, r) of (Some left, Some right) \<Rightarrow>
            if left \<noteq> [] \<and> right \<noteq> [] then Some (maxHlc left right) else Some left
        | (Some left, None) \<Rightarrow> Some left | (None, _) \<Rightarrow> r) = combine_options mergeTombstone"
    by (auto simp: fun_eq_iff combine_options_def mergeTombstone_def split: option.split)
  then show ?thesis unfolding mergeRecord_def zip_or_join by simp
qed

definition ok_record :: "dict_record \<Rightarrow> bool" where
  "ok_record r \<longleftrightarrow> fmpred ok_incarnation (rc_incarnations r) \<and> fmpred (\<lambda>_ t. t \<noteq> []) (rc_tombstones r)"

interpretation records: keyed_crdt "\<lambda>_ :: jsstring. ok_record" mergeRecord
  by unfold_locales
    (auto simp: mergeRecord_join ok_record_def incarnations.dict.ok_join tombstones.dict.ok_join
      incarnations.dict.join_assoc tombstones.dict.join_assoc
      incarnations.dict.join_idem tombstones.dict.join_idem
      intro: incarnations.dict.join_commute tombstones.dict.join_commute)

lemma mergeSuppression_min:
  "mergeSuppression a b =
     (let s = min (su_stamp a) (su_stamp b) in
      \<lparr>su_text = (if su_stamp a < su_stamp b then su_text a else if su_stamp b < su_stamp a then su_text b
          else max (su_text a) (su_text b)), su_stamp = s\<rparr>)"
  by (auto simp: mergeSuppression_def Let_def max_def)

interpretation suppressions: keyed_crdt "\<lambda>_ :: jsstring. \<lambda>_. True" mergeSuppression
proof
  fix u v w :: suppression
  show "mergeSuppression u v = mergeSuppression v u"
    by (auto simp: mergeSuppression_min Let_def min_def max.commute)
  show "mergeSuppression (mergeSuppression u v) w = mergeSuppression u (mergeSuppression v w)"
    by (auto simp: mergeSuppression_min Let_def min_def max.assoc)
  show "mergeSuppression u u = u"
    by (simp add: mergeSuppression_min Let_def)
qed simp

interpretation vectors: keyed_crdt "\<lambda>_ :: jsstring. \<lambda>_ :: hlc_timestamp. True" maxHlc
proof
  fix u v w :: hlc_timestamp
  show "maxHlc u v = maxHlc v u" by (simp only: maxHlc_max max.commute)
  show "maxHlc (maxHlc u v) w = maxHlc u (maxHlc v w)" by (simp only: maxHlc_max max.assoc)
qed simp_all

lemma mergeVector_loop_lookup:
  "distinct (map fst es) \<Longrightarrow>
    fmlookup (mergeVector_loop es v) k = combine_options maxHlc (fmlookup v k) (map_of es k)"
proof (induction es v rule: mergeVector_loop.induct)
  case (2 node stamp es v)
  then have "map_of es node = None" by (simp add: map_of_eq_None_iff)
  with 2 show ?case
    by (auto simp: combine_options_def split: option.splits)
qed (simp add: combine_options_def split: option.split)

lemma mergeVector_loop_join [simp]: "mergeVector_loop (obj_entries m) v = fm_join maxHlc v m"
  by (rule fmap_eqI) (simp add: mergeVector_loop_lookup map_of_obj_entries)

text \<open>The optional vectors: absent only when both are.\<close>

definition mergeVectors :: "(jsstring, hlc_timestamp) fmap option \<Rightarrow> (jsstring, hlc_timestamp) fmap option
    \<Rightarrow> (jsstring, hlc_timestamp) fmap option" where
  "mergeVectors = combine_options (fm_join maxHlc)"

lemma fmpred_True [simp]: "fmpred (\<lambda>_ _. True) m"
  by (simp add: fmpred_iff)

lemma mergeVectors_commute: "mergeVectors a b = mergeVectors b a"
  unfolding mergeVectors_def
  by (cases a; cases b) (auto intro: vectors.dict.join_commute)

lemma mergeVectors_assoc: "mergeVectors (mergeVectors a b) c = mergeVectors a (mergeVectors b c)"
  unfolding mergeVectors_def
  by (cases a; cases b; cases c) (auto intro: vectors.dict.join_assoc)

lemma mergeVectors_idem [simp]: "mergeVectors a a = a"
  unfolding mergeVectors_def
  by (cases a) (auto intro: vectors.dict.join_idem)

lemma mergeSyncStates_join:
  assumes "st_version a = VOICE_DICTIONARY_SYNC_VERSION" "st_version b = VOICE_DICTIONARY_SYNC_VERSION"
  shows "mergeSyncStates a b =
    \<lparr>st_version = VOICE_DICTIONARY_SYNC_VERSION,
     st_mutationVector = mergeVectors (st_mutationVector a) (st_mutationVector b),
     st_records = fm_join mergeRecord (st_records a) (st_records b),
     st_suppressed = fm_join mergeSuppression (st_suppressed a) (st_suppressed b)\<rparr>"
  using assms unfolding mergeSyncStates_def zip_or_join
  by (auto simp: mergeVectors_def createDictionaryMap_def split: option.split)

definition ok_state :: "sync_state \<Rightarrow> bool" where
  "ok_state s \<longleftrightarrow> st_version s = VOICE_DICTIONARY_SYNC_VERSION \<and> fmpred (\<lambda>_. ok_record) (st_records s)"

interpretation states: crdt ok_state mergeSyncStates
  by unfold_locales
    (auto simp: mergeSyncStates_join ok_state_def records.dict.ok_join mergeVectors_assoc
      records.dict.join_assoc records.dict.join_idem suppressions.dict.join_assoc suppressions.dict.join_idem
      intro: records.dict.join_commute suppressions.dict.join_commute mergeVectors_commute)

section \<open>Stamps\<close>

lemma set_incarnation_stamps:
  "x \<in> set (incarnation_stamps i) \<longleftrightarrow>
    x = in_tag i \<or> x = in_textStamp i \<or> (\<exists>k al. fmlookup (in_aliases i) k = Some al \<and> x = al_textStamp al)"
  by (simp add: incarnation_stamps_def image_obj_values)

lemma set_record_stamps:
  "x \<in> set (record_stamps r) \<longleftrightarrow>
    (\<exists>k i. fmlookup (rc_incarnations r) k = Some i \<and> x \<in> set (incarnation_stamps i))
    \<or> (\<exists>k. fmlookup (rc_tombstones r) k = Some x)"
  by (simp add: record_stamps_def set_obj_values Bex_obj_values)

lemma set_state_stamps:
  "x \<in> set (state_stamps s) \<longleftrightarrow>
    (\<exists>k r. fmlookup (st_records s) k = Some r \<and> x \<in> set (record_stamps r))
    \<or> (\<exists>k u. fmlookup (st_suppressed s) k = Some u \<and> x = su_stamp u)
    \<or> (\<exists>m k. st_mutationVector s = Some m \<and> fmlookup m k = Some x)"
  by (auto simp: state_stamps_def set_obj_values image_obj_values Bex_obj_values split: option.splits)

lemma stamps_mergeIncarnation:
  "set (incarnation_stamps (mergeIncarnation a b)) \<subseteq> set (incarnation_stamps a) \<union> set (incarnation_stamps b)"
proof
  fix x assume "x \<in> set (incarnation_stamps (mergeIncarnation a b))"
  then consider "x = in_tag a" | "x = in_textStamp a \<or> x = in_textStamp b"
    | k al where "fmlookup (mergeAliases (in_aliases a) (in_aliases b)) k = Some al" "x = al_textStamp al"
    by (auto simp: set_incarnation_stamps mergeIncarnation_def mergeLww_def Let_def split: if_splits)
  then show "x \<in> set (incarnation_stamps a) \<union> set (incarnation_stamps b)"
  proof cases
    case 3
    then have "(\<exists>u. fmlookup (in_aliases a) k = Some u \<and> x = al_textStamp u)
        \<or> (\<exists>u. fmlookup (in_aliases b) k = Some u \<and> x = al_textStamp u)"
      by (auto simp: mergeAliases_join combine_options_def mergeAliasState_def mergeLww_def Let_def
          split: option.splits if_splits)
    then show ?thesis by (auto simp: set_incarnation_stamps)
  qed (auto simp: set_incarnation_stamps)
qed

lemma stamps_mergeRecord:
  "set (record_stamps (mergeRecord a b)) \<subseteq> set (record_stamps a) \<union> set (record_stamps b)"
proof
  fix x assume "x \<in> set (record_stamps (mergeRecord a b))"
  then consider k i where "fmlookup (fm_join mergeIncarnation (rc_incarnations a) (rc_incarnations b)) k = Some i"
      "x \<in> set (incarnation_stamps i)"
    | k where "fmlookup (fm_join mergeTombstone (rc_tombstones a) (rc_tombstones b)) k = Some x"
    by (auto simp: set_record_stamps mergeRecord_join)
  then show "x \<in> set (record_stamps a) \<union> set (record_stamps b)"
  proof cases
    case 1
    then show ?thesis
      using stamps_mergeIncarnation
      by (auto simp: set_record_stamps combine_options_def split: option.splits) blast
  next
    case 2
    then show ?thesis
      by (auto simp: set_record_stamps combine_options_def mergeTombstone_def max_def split: option.splits if_splits)
  qed
qed

lemma stamps_mergeSyncStates:
  assumes "ok_state a" "ok_state b"
  shows "set (state_stamps (mergeSyncStates a b)) \<subseteq> set (state_stamps a) \<union> set (state_stamps b)"
proof
  fix x assume "x \<in> set (state_stamps (mergeSyncStates a b))"
  then consider k r where "fmlookup (fm_join mergeRecord (st_records a) (st_records b)) k = Some r"
      "x \<in> set (record_stamps r)"
    | k u where "fmlookup (fm_join mergeSuppression (st_suppressed a) (st_suppressed b)) k = Some u" "x = su_stamp u"
    | m k where "mergeVectors (st_mutationVector a) (st_mutationVector b) = Some m" "fmlookup m k = Some x"
    using assms by (auto simp: set_state_stamps mergeSyncStates_join ok_state_def)
  then show "x \<in> set (state_stamps a) \<union> set (state_stamps b)"
  proof cases
    case 1
    then show ?thesis
      using stamps_mergeRecord
      by (auto simp: set_state_stamps combine_options_def split: option.splits) blast
  next
    case 2
    then have "(\<exists>u. fmlookup (st_suppressed a) k = Some u \<and> x = su_stamp u)
        \<or> (\<exists>u. fmlookup (st_suppressed b) k = Some u \<and> x = su_stamp u)"
      by (auto simp: combine_options_def mergeSuppression_min Let_def min_def split: option.splits)
    then show ?thesis by (auto simp: set_state_stamps)
  next
    case 3
    then show ?thesis
      by (auto simp: set_state_stamps mergeVectors_def combine_options_def max_def split: option.splits if_splits)
  qed
qed

lemma findMaxHlc_foldl:
  "foldl (\<lambda>acc stamp. if stamp = [] then acc
     else case acc of None \<Rightarrow> Some stamp | Some m \<Rightarrow> Some (maxHlc m stamp)) acc xs = r \<Longrightarrow>
   (\<forall>x \<in> set xs. x \<noteq> [] \<longrightarrow> (\<exists>m. r = Some m \<and> x \<le> m))
   \<and> (\<forall>m. acc = Some m \<longrightarrow> (\<exists>n. r = Some n \<and> m \<le> n))
   \<and> (\<forall>m. r = Some m \<longrightarrow> acc = Some m \<or> m \<in> set xs)"
proof (induction xs arbitrary: acc)
  case (Cons x xs)
  let ?acc = "if x = [] then acc else case acc of None \<Rightarrow> Some x | Some m \<Rightarrow> Some (maxHlc m x)"
  from Cons.prems have "foldl (\<lambda>acc stamp. if stamp = [] then acc
     else case acc of None \<Rightarrow> Some stamp | Some m \<Rightarrow> Some (maxHlc m stamp)) ?acc xs = r" by simp
  from Cons.IH [OF this] show ?case
    by (cases acc; cases "x = []") (auto simp: max_def split: if_splits)
qed auto

lemma findMaxHlc_max:
  "x \<in> set (state_stamps s) \<Longrightarrow> x \<noteq> [] \<Longrightarrow> \<exists>m. findMaxHlc s = Some m \<and> x \<le> m"
  "findMaxHlc s = Some m \<Longrightarrow> m \<in> set (state_stamps s)"
  using findMaxHlc_foldl [OF refl, where acc = None and xs = "state_stamps s"] by (auto simp: findMaxHlc_def)

text \<open>\<open>observeStamp\<close> keeps, for every node, the largest of its canonical stamps seen so far.\<close>

lemma observeStamp_lookup:
  "fmlookup (observeStamp v s) n =
     (if hlcNodeId s = Some n then (case fmlookup v n of None \<Rightarrow> Some s | Some c \<Rightarrow> Some (max c s))
      else fmlookup v n)"
proof (cases "hlcNodeId s")
  case None
  then show ?thesis by (simp add: observeStamp_def)
next
  case (Some m)
  then have "isCanonicalHlc s" "m = drop HLC_PREFIX_LENGTH s"
    by (auto simp: hlcNodeId_def HLC_PREFIX_LENGTH_def split: if_splits)
  then have "m \<noteq> []" "s \<noteq> []"
    by (auto simp: isCanonicalHlc_def hlc_constants Let_def split: if_splits)
  with Some show ?thesis
    by (auto simp: observeStamp_def max_def split: option.split)
qed

lemma observe_foldl:
  "fmlookup (foldl observeStamp v xs) n = Some t \<longleftrightarrow>
    (t \<in> {s \<in> set xs. hlcNodeId s = Some n} \<or> fmlookup v n = Some t)
    \<and> (\<forall>s \<in> set xs. hlcNodeId s = Some n \<longrightarrow> s \<le> t) \<and> (\<forall>c. fmlookup v n = Some c \<longrightarrow> c \<le> t)"
proof (induction xs arbitrary: v)
  case (Cons x xs)
  have "fmlookup (foldl observeStamp v (x # xs)) n = Some t \<longleftrightarrow>
    fmlookup (foldl observeStamp (observeStamp v x) xs) n = Some t" by simp
  also note Cons.IH
  finally show ?case
    by (cases "hlcNodeId x = Some n"; cases "fmlookup v n") (auto simp: observeStamp_lookup max_def)
qed auto

lemma vector_lookup:
  "fmlookup (buildStateVersionVector s) n = Some t \<longleftrightarrow>
    t \<in> set (state_stamps s) \<and> hlcNodeId t = Some n
    \<and> (\<forall>x \<in> set (state_stamps s). hlcNodeId x = Some n \<longrightarrow> x \<le> t)"
  unfolding buildStateVersionVector_def observe_foldl by auto

lemma vector_lookup_exists:
  assumes "x \<in> set (state_stamps s)" "hlcNodeId x = Some n"
  shows "\<exists>t. fmlookup (buildStateVersionVector s) n = Some t \<and> x \<le> t"
proof -
  let ?M = "{y \<in> set (state_stamps s). hlcNodeId y = Some n}"
  have "finite ?M" "x \<in> ?M" using assms by auto
  then have "Max ?M \<in> ?M" by (intro Max_in) auto
  moreover have "\<forall>y \<in> ?M. y \<le> Max ?M"
    using \<open>finite ?M\<close> by (intro ballI Max_ge)
  ultimately have "fmlookup (buildStateVersionVector s) n = Some (Max ?M)"
    by (auto simp: vector_lookup)
  moreover have "x \<le> Max ?M" using \<open>finite ?M\<close> \<open>x \<in> ?M\<close> by (rule Max_ge)
  ultimately show ?thesis by blast
qed

lemma versionVectorDominates_iff:
  "versionVectorDominates a b \<longleftrightarrow>
    (\<forall>n s. fmlookup b n = Some s \<longrightarrow> (\<exists>t. fmlookup a n = Some t \<and> s \<le> t))"
proof -
  have "versionVectorDominates a b \<longleftrightarrow> (\<forall>(n, s) \<in> set (obj_entries b).
      case fmlookup a n of None \<Rightarrow> False | Some t \<Rightarrow> s \<le> t)"
    unfolding versionVectorDominates_def list_all_iff by (simp only: compareHlc_simps not_less)
  also have "\<dots> \<longleftrightarrow> (\<forall>n s. fmlookup b n = Some s \<longrightarrow>
      (case fmlookup a n of None \<Rightarrow> False | Some t \<Rightarrow> s \<le> t))"
    by (auto simp: set_obj_entries)
  also have "\<dots> \<longleftrightarrow> (\<forall>n s. fmlookup b n = Some s \<longrightarrow> (\<exists>t. fmlookup a n = Some t \<and> s \<le> t))"
  proof -
    have "(case fmlookup a n of None \<Rightarrow> False | Some t \<Rightarrow> s \<le> t) \<longleftrightarrow> (\<exists>t. fmlookup a n = Some t \<and> s \<le> t)" for n s
      by (simp split: option.split)
    then show ?thesis by simp
  qed
  finally show ?thesis .
qed

section \<open>What merging guarantees\<close>

lemma createEmptySyncState_simps [simp]:
  "st_version createEmptySyncState = VOICE_DICTIONARY_SYNC_VERSION" "st_mutationVector createEmptySyncState = None"
  "st_records createEmptySyncState = fmempty" "st_suppressed createEmptySyncState = fmempty"
  by (simp_all add: createEmptySyncState_def createDictionaryMap_def)

lemma ok_createEmptySyncState [simp]: "ok_state createEmptySyncState"
  by (simp add: ok_state_def)

lemma mergeAllSyncStates_deliver: "mergeAllSyncStates xs = states.deliver createEmptySyncState xs"
  by (simp add: mergeAllSyncStates_def states.deliver_def)

lemma merge_record_lookup:
  assumes "ok_state a" "ok_state b" "fmlookup (st_records a) k = Some r" "fmlookup (st_records b) k = Some q"
  shows "fmlookup (st_records (mergeSyncStates a b)) k = Some (mergeRecord r q)"
  using assms by (simp add: mergeSyncStates_join ok_state_def)

lemma merge_incarnation_lookup:
  assumes "fmlookup (rc_incarnations r) t = Some i" "fmlookup (rc_incarnations q) t = Some j"
  shows "fmlookup (rc_incarnations (mergeRecord r q)) t = Some (mergeIncarnation i j)"
  using assms by (simp add: mergeRecord_join)

text \<open>Totals after a merge lie between the larger of the two and their sum.\<close>

lemma readCounterTotal_mergeCounters:
  "readCounterTotal a \<le> readCounterTotal (mergeCounters a b)"
  "readCounterTotal b \<le> readCounterTotal (mergeCounters a b)"
  "readCounterTotal (mergeCounters a b) \<le> readCounterTotal a + readCounterTotal b"
proof -
  show "readCounterTotal a \<le> readCounterTotal (mergeCounters a b)"
    "readCounterTotal b \<le> readCounterTotal (mergeCounters a b)"
    by (rule readCounterTotal_mono; simp)+
  let ?K = "fset (fmdom a |\<union>| fmdom b |\<union>| fmdom (mergeCounters a b))"
  have "readCounterTotal a = (\<Sum>k \<in> ?K. bucket_of a k)" "readCounterTotal b = (\<Sum>k \<in> ?K. bucket_of b k)"
    "readCounterTotal (mergeCounters a b) = (\<Sum>k \<in> ?K. max (bucket_of a k) (bucket_of b k))"
    by (subst readCounterTotal_superset [of ?K]; auto)+
  then show "readCounterTotal (mergeCounters a b) \<le> readCounterTotal a + readCounterTotal b"
    by (simp add: sum.distrib [symmetric] sum_mono max_def)
qed

text \<open>Two states of two devices, for the instances below.\<close>

definition sample_incarnation :: "jsstring \<Rightarrow> hlc_timestamp \<Rightarrow> jsstring \<Rightarrow> number \<Rightarrow> incarnation" where
  "sample_incarnation tag stamp node n =
     \<lparr>in_tag = tag, in_text = js ''lex'', in_textStamp = stamp, in_source = Automatic, in_stage = Candidate,
      in_counters = fmupd node n fmempty, in_aliases = fmempty, in_createdAt = 1, in_updatedAt = 1\<rparr>"

definition sample_record :: "jsstring \<Rightarrow> hlc_timestamp \<Rightarrow> jsstring \<Rightarrow> number \<Rightarrow> dict_record" where
  "sample_record tag stamp node n =
     \<lparr>rc_incarnations = fmupd tag (sample_incarnation tag stamp node n) fmempty, rc_tombstones = fmempty\<rparr>"

definition sample_state :: "jsstring \<Rightarrow> hlc_timestamp \<Rightarrow> jsstring \<Rightarrow> number \<Rightarrow> sync_state" where
  "sample_state tag stamp node n =
     \<lparr>st_version = 1, st_mutationVector = None,
      st_records = fmupd (js ''lex'') (sample_record tag stamp node n) fmempty,
      st_suppressed = fmempty\<rparr>"

lemma sample_lookups [simp]:
  "fmlookup (st_records (sample_state tag stamp node n)) (js ''lex'') = Some (sample_record tag stamp node n)"
  "fmlookup (rc_incarnations (sample_record tag stamp node n)) tag = Some (sample_incarnation tag stamp node n)"
  "in_counters (sample_incarnation tag stamp node n) = fmupd node n fmempty"
  by (simp_all add: sample_state_def sample_record_def sample_incarnation_def)

lemma ok_sample_state: "ok_state (sample_state tag stamp node (of_int (1 + int n)))"
proof -
  have "Math_floor (of_int (1 + int n)) = of_int (1 + int n)"
    by (rule Math_floor_of_int)
  moreover have "0 < (of_int (1 + int n) :: number)"
    unfolding of_int_0_less_iff by simp
  ultimately show ?thesis
    by (auto simp: sample_state_def sample_record_def sample_incarnation_def ok_state_def ok_record_def ok_incarnation_def
        ok_counter_def VOICE_DICTIONARY_SYNC_VERSION_def fmpred_iff simp del: of_int_add split: if_splits)
qed

lemma ok_sample_numeral [simp]: "ok_state (sample_state tag stamp node 3)" "ok_state (sample_state tag stamp node 5)"
  using ok_sample_state [of tag stamp node 2] ok_sample_state [of tag stamp node 4] by simp_all

text \<open>
  C1: The merge of dictionary states is commutative, associative and idempotent, and keeps states
  well formed, for all states whose counters are in normal form (every bucket a positive
  integer, which every operation and every merge produces) and whose incarnations carry the tag
  they are stored under.
\<close>

theorem merge_laws:
  assumes "ok_state a" "ok_state b" "ok_state c"
  shows "mergeSyncStates a b = mergeSyncStates b a
    \<and> mergeSyncStates (mergeSyncStates a b) c = mergeSyncStates a (mergeSyncStates b c)
    \<and> mergeSyncStates a a = a \<and> ok_state (mergeSyncStates a b)"
  by (intro conjI states.join_commute states.join_assoc states.join_idem states.ok_join assms)

lemma merge_laws_witness:
  "mergeSyncStates (sample_state [1] [1] [7] 3) (sample_state [2] [2] [8] 5)
    = mergeSyncStates (sample_state [2] [2] [8] 5) (sample_state [1] [1] [7] 3)"
  using merge_laws [of "sample_state [1] [1] [7] 3" "sample_state [2] [2] [8] 5" "sample_state [1] [1] [7] 3"]
  by simp

text \<open>
  C2: Convergence. Two replicas that start from the same state and merge in the same set of
  states end in the same state, whatever the order and however often each state is delivered;
  a replica that then receives the other's result does not change.
\<close>

theorem merge_converges:
  assumes "ok_state s" "\<forall>x \<in> set xs. ok_state x" "set xs = set ys"
  shows "foldl mergeSyncStates s xs = foldl mergeSyncStates s ys
    \<and> mergeAllSyncStates xs = mergeAllSyncStates ys
    \<and> mergeSyncStates (foldl mergeSyncStates s xs) (foldl mergeSyncStates s ys) = foldl mergeSyncStates s xs"
proof -
  have "states.deliver s xs = states.deliver s ys"
    "states.deliver createEmptySyncState xs = states.deliver createEmptySyncState ys"
    using assms by (auto intro!: states.deliver_converges)
  moreover have "ok_state (states.deliver s xs)"
    using assms by (intro states.ok_deliver) auto
  ultimately show ?thesis
    by (simp add: mergeAllSyncStates_deliver states.deliver_def states.join_idem)
qed

lemma merge_converges_witness:
  "mergeAllSyncStates [sample_state [1] [1] [7] 3, sample_state [2] [2] [8] 5, sample_state [1] [1] [7] 3]
    = mergeAllSyncStates [sample_state [2] [2] [8] 5, sample_state [1] [1] [7] 3]"
  using merge_converges [of createEmptySyncState
    "[sample_state [1] [1] [7] 3, sample_state [2] [2] [8] 5, sample_state [1] [1] [7] 3]"
    "[sample_state [2] [2] [8] 5, sample_state [1] [1] [7] 3]"]
  by (simp add: insert_commute)

text \<open>
  C3: Frequencies do not grow by synchronising. The total of an incarnation both sides hold is,
  after the merge, at least each side's total and at most their sum; merging either side in
  again leaves it as it is; and each node's bucket is the larger of the two.
\<close>

theorem merge_counts_bounded:
  assumes "ok_state a" "ok_state b" "fmlookup (st_records a) k = Some r" "fmlookup (st_records b) k = Some q"
    "fmlookup (rc_incarnations r) t = Some i" "fmlookup (rc_incarnations q) t = Some j"
  shows "\<exists>rq m. fmlookup (st_records (mergeSyncStates a b)) k = Some rq \<and> fmlookup (rc_incarnations rq) t = Some m
    \<and> (\<forall>n. bucket_of (in_counters m) n = max (bucket_of (in_counters i) n) (bucket_of (in_counters j) n))
    \<and> readCounterTotal (in_counters i) \<le> readCounterTotal (in_counters m)
    \<and> readCounterTotal (in_counters j) \<le> readCounterTotal (in_counters m)
    \<and> readCounterTotal (in_counters m) \<le> readCounterTotal (in_counters i) + readCounterTotal (in_counters j)
    \<and> mergeSyncStates (mergeSyncStates a b) b = mergeSyncStates a b"
proof -
  have "mergeSyncStates (mergeSyncStates a b) b = mergeSyncStates a b"
    using assms(1,2) by (simp add: states.join_assoc states.join_idem)
  then show ?thesis
    using merge_record_lookup [OF assms(1-4)] merge_incarnation_lookup [OF assms(5,6)]
    by (simp add: mergeIncarnation_def Let_def readCounterTotal_mergeCounters)
qed

lemma merge_counts_bounded_witness:
  "\<exists>rq m. fmlookup (st_records (mergeSyncStates (sample_state [1] [1] [7] 3) (sample_state [1] [1] [7] 5))) (js ''lex'')
      = Some rq \<and> fmlookup (rc_incarnations rq) [1] = Some m \<and> bucket_of (in_counters m) [7] = 5"
proof -
  have "bucket_of (fmupd [7] 3 fmempty) [7] = 3" "bucket_of (fmupd [7] 5 fmempty) [7] = 5"
    using Math_floor_of_int [of 3] Math_floor_of_int [of 5] by (simp_all add: bucket_of_def bucket_def)
  with merge_counts_bounded [OF ok_sample_numeral sample_lookups(1) sample_lookups(1) sample_lookups(2) sample_lookups(2),
      of "[1]" "[1]" "[7]" "[1]" "[7]"]
  show ?thesis by auto
qed

text \<open>
  C4: The version vector decides containment of stamps: \<open>a\<close>'s vector dominates \<open>b\<close>'s exactly
  when for every canonical stamp in \<open>b\<close> (tags, text stamps, tombstones, suppressions, the
  mutation vector) \<open>a\<close> holds one of the same node that is at least as late.
\<close>

theorem version_vector_dominance:
  "versionVectorDominates (buildStateVersionVector a) (buildStateVersionVector b) \<longleftrightarrow>
    (\<forall>x \<in> set (state_stamps b). \<forall>n. hlcNodeId x = Some n \<longrightarrow>
      (\<exists>y \<in> set (state_stamps a). hlcNodeId y = Some n \<and> x \<le> y))"
  (is "?dom \<longleftrightarrow> ?all")
proof
  assume d: ?dom
  show ?all
  proof (intro ballI allI impI)
    fix x n assume "x \<in> set (state_stamps b)" "hlcNodeId x = Some n"
    from vector_lookup_exists [OF this] obtain t where t: "fmlookup (buildStateVersionVector b) n = Some t" "x \<le> t"
      by blast
    with d obtain u where "fmlookup (buildStateVersionVector a) n = Some u" "t \<le> u"
      by (auto simp: versionVectorDominates_iff)
    with t show "\<exists>y \<in> set (state_stamps a). hlcNodeId y = Some n \<and> x \<le> y"
      by (auto simp: vector_lookup intro: order_trans)
  qed
next
  assume a: ?all
  show ?dom
    unfolding versionVectorDominates_iff
  proof (intro allI impI)
    fix n t assume "fmlookup (buildStateVersionVector b) n = Some t"
    then have "t \<in> set (state_stamps b)" "hlcNodeId t = Some n" by (auto simp: vector_lookup)
    with a obtain y where "y \<in> set (state_stamps a)" "hlcNodeId y = Some n" "t \<le> y" by blast
    with vector_lookup_exists [of y a n] show "\<exists>u. fmlookup (buildStateVersionVector a) n = Some u \<and> t \<le> u"
      by (blast intro: order_trans)
  qed
qed

lemma sample_stamps [simp]: "set (state_stamps (sample_state tag stamp node n)) = {tag, stamp}"
  by (auto simp: set_state_stamps set_record_stamps set_incarnation_stamps sample_state_def sample_record_def
      sample_incarnation_def split: if_splits)

lemma version_vector_dominance_witness:
  "versionVectorDominates (buildStateVersionVector (sample_state (formatHlc clock_a) (formatHlc clock_b) [7] 3))
      (buildStateVersionVector (sample_state (formatHlc clock_a) (formatHlc clock_a) [7] 3))
   \<and> \<not> versionVectorDominates (buildStateVersionVector (sample_state (formatHlc clock_a) (formatHlc clock_a) [7] 3))
      (buildStateVersionVector (sample_state (formatHlc clock_a) (formatHlc clock_b) [7] 3))"
  using version_vector_dominance [of "sample_state (formatHlc clock_a) (formatHlc clock_b) [7] 3"
      "sample_state (formatHlc clock_a) (formatHlc clock_a) [7] 3"]
    version_vector_dominance [of "sample_state (formatHlc clock_a) (formatHlc clock_a) [7] 3"
      "sample_state (formatHlc clock_a) (formatHlc clock_b) [7] 3"]
    formatHlc_reads [OF clock_fits(1)] formatHlc_reads [OF clock_fits(2)]
  by (simp add: clock_a_def clock_b_def)

text \<open>
  A merge invents no stamp, so the clock rule of the protocol is sound: after merging \<open>b\<close>
  into \<open>a\<close> and observing the largest stamp of the result, the next stamp the device produces is
  later than every stamp of both states, and canonical.
\<close>

theorem stamp_after_merge_later:
  assumes "ok_state a" "ok_state b"
    "\<forall>x \<in> set (state_stamps a) \<union> set (state_stamps b).
       isCanonicalHlc x \<and> hlcWallMs x + 1 < 36 ^ WALL_RADIX_LENGTH"
    "findMaxHlc (mergeSyncStates a b) = Some m"
    "hlc_fits c" "wallMs c + 1 < 36 ^ WALL_RADIX_LENGTH" "\<lfloor>now\<rfloor> + 1 < 36 ^ WALL_RADIX_LENGTH"
  shows "set (state_stamps (mergeSyncStates a b)) \<subseteq> set (state_stamps a) \<union> set (state_stamps b)
    \<and> (\<forall>x \<in> set (state_stamps (mergeSyncStates a b)). x < snd (tickHlc (observeHlc c m now) now))
    \<and> isCanonicalHlc (snd (tickHlc (observeHlc c m now) now))"
proof -
  note sub = stamps_mergeSyncStates [OF assms(1,2)]
  have m: "isCanonicalHlc m" "hlcWallMs m + 1 < 36 ^ WALL_RADIX_LENGTH"
    using findMaxHlc_max(2) [OF assms(4)] sub assms(3) by auto
  have "\<lfloor>now\<rfloor> < 36 ^ WALL_RADIX_LENGTH" using assms(7) by linarith
  note tick = observe_tick_later [OF assms(5) m assms(6,7) this]
  have "x \<le> m" if x: "x \<in> set (state_stamps (mergeSyncStates a b))" for x
  proof -
    have "\<not> isCanonicalHlc []" by (simp add: isCanonicalHlc_def)
    with x sub assms(3) have "x \<noteq> []" by blast
    with findMaxHlc_max(1) [OF x] assms(4) show ?thesis by auto
  qed
  with tick sub show ?thesis by (auto intro: le_less_trans)
qed

lemma stamp_after_merge_later_witness:
  "\<exists>m. findMaxHlc (mergeSyncStates (sample_state (formatHlc clock_a) (formatHlc clock_b) [7] 3) createEmptySyncState) = Some m
     \<and> isCanonicalHlc (snd (tickHlc (observeHlc clock_a m 3) 3))"
proof -
  let ?a = "sample_state (formatHlc clock_a) (formatHlc clock_b) [7] 3"
  let ?s = "mergeSyncStates ?a createEmptySyncState"
  have "?s = ?a"
    by (simp add: mergeSyncStates_join sample_state_def VOICE_DICTIONARY_SYNC_VERSION_def mergeVectors_def)
  moreover have "formatHlc clock_a \<noteq> []"
    using formatHlc_canonical [OF clock_fits(1)] by (auto simp: isCanonicalHlc_def)
  ultimately obtain m where "findMaxHlc ?s = Some m"
    using findMaxHlc_max(1) [of "formatHlc clock_a" ?a] by auto
  moreover have "state_stamps createEmptySyncState = []"
    by (simp add: state_stamps_def)
  moreover have "hlcWallMs (formatHlc clock_a) + 1 < 36 ^ WALL_RADIX_LENGTH"
    "hlcWallMs (formatHlc clock_b) + 1 < 36 ^ WALL_RADIX_LENGTH" "wallMs clock_a + 1 < 36 ^ WALL_RADIX_LENGTH"
    by (simp_all add: formatHlc_reads) (simp_all add: clock_a_def clock_b_def hlc_constants)
  ultimately show ?thesis
    using stamp_after_merge_later [of ?a createEmptySyncState m clock_a 3]
    by (auto simp: formatHlc_canonical hlc_constants)
qed

text \<open>
  Without a mutation vector the version vector of a merge is not the pointwise maximum of
  the two vectors, which the comment on \<open>buildStateVersionVector\<close> states: when a newer text stamp
  of one node overwrites an older one of another node, the older node disappears from the
  vector, and the merged state does not dominate the state that held it although that state is
  contained in it.
\<close>

theorem version_vector_not_pointwise_max:
  "let a = sample_state (formatHlc clock_a) (formatHlc clock_b) [7] 3;
       b = sample_state (formatHlc clock_a) (formatHlc \<lparr>wallMs = 1500, counter = 0, nodeId = js ''c''\<rparr>) [7] 3
   in ok_state a \<and> ok_state b \<and> mergeSyncStates a (mergeSyncStates a b) = mergeSyncStates a b
      \<and> \<not> versionVectorDominates (buildStateVersionVector (mergeSyncStates a b)) (buildStateVersionVector a)"
proof -
  let ?c = "\<lparr>wallMs = 1500, counter = 0, nodeId = js ''c''\<rparr>"
  have c: "hlc_fits ?c" by (simp add: hlc_fits_def hlc_constants dot_def)
  let ?a = "sample_state (formatHlc clock_a) (formatHlc clock_b) [7] 3"
  let ?b = "sample_state (formatHlc clock_a) (formatHlc ?c) [7] 3"
  have "formatHlc clock_b < formatHlc ?c"
    unfolding formatHlc_less_iff [OF clock_fits(2) c] by (simp add: clock_b_def)
  moreover have "mergeCounters (fmupd [7] 3 fmempty) (fmupd [7] 3 fmempty) = fmupd [7] 3 fmempty"
    using Math_floor_of_int [of 3] by (intro counters.join_idem) (auto simp: ok_counter_def fmpred_iff split: if_splits)
  ultimately have "mergeIncarnation (sample_incarnation (formatHlc clock_a) (formatHlc clock_b) [7] 3)
      (sample_incarnation (formatHlc clock_a) (formatHlc ?c) [7] 3)
      = sample_incarnation (formatHlc clock_a) (formatHlc ?c) [7] 3"
    by (auto simp: mergeIncarnation_def sample_incarnation_def mergeLww_max max_def mergeSource_def mergeStage_def
        mergeAliases_join)
  then have "mergeSyncStates ?a ?b = ?b"
    by (auto simp: mergeSyncStates_join sample_state_def sample_record_def VOICE_DICTIONARY_SYNC_VERSION_def mergeVectors_def
        mergeRecord_join combine_options_def intro!: fmap_eqI)
  moreover have "\<not> versionVectorDominates (buildStateVersionVector ?b) (buildStateVersionVector ?a)"
  proof
    assume d: "versionVectorDominates (buildStateVersionVector ?b) (buildStateVersionVector ?a)"
    have n: "hlcNodeId (formatHlc clock_b) = Some (js ''b'')"
      using formatHlc_reads [OF clock_fits(2)] by (simp add: clock_b_def)
    from vector_lookup_exists [of "formatHlc clock_b" ?a, OF _ n]
    obtain t where "fmlookup (buildStateVersionVector ?b) (js ''b'') = Some t"
      using d by (auto simp: versionVectorDominates_iff)
    then have "t \<in> {formatHlc clock_a, formatHlc ?c}" "hlcNodeId t = Some (js ''b'')"
      by (auto simp: vector_lookup)
    then show False
      using formatHlc_reads [OF clock_fits(1)] formatHlc_reads [OF c] by (auto simp: clock_a_def)
  qed
  ultimately show ?thesis
    by (simp add: Let_def)
qed

end
