(* ===== verification/DictText.thy ===== *)
theory DictText
  imports Js_Prelude
begin

text \<open>
  Normal form of a dictionary term and its merge key (\<open>dictionary-sync/text.ts\<close>). Lower-casing
  is \<open>String.prototype.toLowerCase\<close>, which needs the Unicode case tables: it is a field of the
  parameter \<open>pf\<close> of every definition that uses keys. The functions are modelled on strings; for a value of
  another type \<open>normalizeDictionaryTermText\<close> returns the empty string.
\<close>

section \<open>The functions\<close>

definition MAX_DICTIONARY_TERM_CHARS :: nat where
  "MAX_DICTIONARY_TERM_CHARS = 120"

text \<open>\<open>replace(/\r\n?/g, '\n')\<close>, \<open>split\<close> on a class of characters, \<open>replace(/\s+/g, ' ')\<close> and \<open>join\<close>.\<close>

fun newlines :: "jsstring \<Rightarrow> jsstring" where
  "newlines [] = []"
| "newlines (c # s) =
     (if c = 13 then 10 # (case s of [] \<Rightarrow> [] | d # t \<Rightarrow> if d = 10 then newlines t else newlines s)
      else c # newlines s)"

fun split_on :: "('a \<Rightarrow> bool) \<Rightarrow> 'a list \<Rightarrow> 'a list list" where
  "split_on p [] = [[]]"
| "split_on p (c # s) =
     (if p c then [] # split_on p s
      else (case split_on p s of [] \<Rightarrow> [[c]] | w # ws \<Rightarrow> (c # w) # ws))"

function collapse_spaces :: "jsstring \<Rightarrow> jsstring" where
  "collapse_spaces [] = []"
| "collapse_spaces (c # s) =
     (if is_space c then 32 # collapse_spaces (dropWhile is_space s) else c # collapse_spaces s)"
  by pat_completeness auto
termination
  by (relation "measure length") (auto simp: less_Suc_eq_le length_dropWhile_le)

fun join_with :: "'a \<Rightarrow> 'a list list \<Rightarrow> 'a list" where
  "join_with c [] = []"
| "join_with c [w] = w"
| "join_with c (w # ws) = w @ c # join_with c ws"

definition normalizeDictionaryTermText :: "jsstring \<Rightarrow> jsstring" where
  "normalizeDictionaryTermText value =
     trim (take MAX_DICTIONARY_TERM_CHARS (join_with 32 (filter (\<lambda>l. l \<noteq> [])
       (map (\<lambda>line. trim (collapse_spaces line)) (split_on (\<lambda>c. c = 10) (newlines value))))))"

definition dictionaryTermKey :: "platform \<Rightarrow> jsstring \<Rightarrow> jsstring" where
  "dictionaryTermKey pf text = pf_toLowerCase pf (normalizeDictionaryTermText text)"

section \<open>Words\<close>

text \<open>The specification: the words of a text are its maximal runs of characters that are not white space.\<close>

definition words_of :: "jsstring \<Rightarrow> jsstring list" where
  "words_of s = filter (\<lambda>w. w \<noteq> []) (split_on is_space s)"

lemma split_on_nonempty [simp]: "split_on p s \<noteq> []"
  by (induction s) (auto split: list.split)

lemma split_on_no: "\<forall>c \<in> set s. \<not> p c \<Longrightarrow> split_on p s = [s]"
  by (induction s) auto

lemma words_of_Nil [simp]: "words_of [] = []"
  by (simp add: words_of_def)

lemma words_of_space [simp]: "is_space c \<Longrightarrow> words_of (c # s) = words_of s"
  by (simp add: words_of_def)

lemma words_of_word:
  assumes "\<not> is_space c"
  shows "words_of (c # s) =
    (if s = [] \<or> is_space (hd s) then [c] # words_of s else (c # hd (words_of s)) # tl (words_of s))"
proof (cases s)
  case (Cons d t)
  obtain w ws where w: "split_on is_space t = w # ws"
    by (cases "split_on is_space t") auto
  show ?thesis
    using assms w Cons by (auto simp: words_of_def)
qed (use assms in \<open>simp add: words_of_def\<close>)

lemma words_of_nonempty: "s \<noteq> [] \<Longrightarrow> \<not> is_space (hd s) \<Longrightarrow> words_of s \<noteq> []"
  by (cases s) (auto simp: words_of_word)

lemma words_of_eq_Nil: "words_of s = [] \<longleftrightarrow> (\<forall>c \<in> set s. is_space c)"
proof (induction s)
  case (Cons c s)
  then show ?case by (cases "is_space c") (auto simp: words_of_word)
qed simp

lemma words_of_dropWhile [simp]: "words_of (dropWhile is_space s) = words_of s"
  by (induction s) auto

lemma words_of_words: "w \<in> set (words_of s) \<Longrightarrow> w \<noteq> [] \<and> (\<forall>c \<in> set w. \<not> is_space c)"
proof -
  have "\<forall>w \<in> set (split_on is_space s). \<forall>c \<in> set w. \<not> is_space c"
    by (induction s) (auto split: list.splits)
  then show "w \<in> set (words_of s) \<Longrightarrow> ?thesis" by (auto simp: words_of_def)
qed

lemma words_of_newlines [simp]: "words_of (newlines s) = words_of s"
proof (induction s rule: newlines.induct)
  case (2 c s)
  have sp: "is_space 13" "is_space 10" by (simp_all add: is_space_def)
  show ?case
  proof (cases "c = 13")
    case True
    with 2 sp show ?thesis by (cases s) auto
  next
    case False
    then have "newlines s = [] \<longleftrightarrow> s = []" "s \<noteq> [] \<Longrightarrow> is_space (hd (newlines s)) = is_space (hd s)"
      using sp by (cases s; auto)+
    with False 2 show ?thesis
      by (cases "is_space c") (auto simp: words_of_word)
  qed
qed simp

lemma words_of_lines: "concat (map words_of (split_on (\<lambda>c. c = 10) s)) = words_of s"
proof (induction s)
  case (Cons c s)
  obtain l ls where l: "split_on (\<lambda>c. c = 10) s = l # ls"
    by (cases "split_on (\<lambda>c. c = 10) s") auto
  show ?case
  proof (cases "c = 10")
    case True
    then show ?thesis using Cons by (simp add: is_space_def)
  next
    case False
    have hd: "l \<noteq> [] \<Longrightarrow> s \<noteq> [] \<and> hd s = hd l" "l = [] \<Longrightarrow> s = [] \<or> hd s = 10"
      using l by (cases s; auto split: if_splits list.splits)+
    have "words_of (c # l) @ concat (map words_of ls) = words_of (c # s)"
    proof (cases "is_space c")
      case True
      then show ?thesis using Cons l by simp
    next
      case False
      have "is_space 10" by (simp add: is_space_def)
      moreover have "words_of l @ concat (map words_of ls) = words_of s"
        using Cons l by simp
      then have "words_of l \<noteq> [] \<Longrightarrow> hd (words_of s) = hd (words_of l)
          \<and> tl (words_of s) = tl (words_of l) @ concat (map words_of ls)"
        by (metis hd_append2 tl_append2)
      ultimately show ?thesis
        using False hd Cons l words_of_nonempty [of l]
        by (cases "l = []") (auto simp: words_of_word)
    qed
    with False l show ?thesis by simp
  qed
qed simp

lemma join_with_Cons: "join_with c (w # ws) = w @ (if ws = [] then [] else c # join_with c ws)"
  by (cases ws) auto

lemma join_with_append:
  "us \<noteq> [] \<Longrightarrow> vs \<noteq> [] \<Longrightarrow> join_with c (us @ vs) = join_with c us @ c # join_with c vs"
  by (induction us) (auto simp: join_with_Cons)

lemma join_with_eq_Nil: "[] \<notin> set ws \<Longrightarrow> join_with c ws = [] \<longleftrightarrow> ws = []"
  by (cases ws) (auto simp: join_with_Cons)

lemma join_with_concat:
  assumes "\<forall>ws \<in> set wss. [] \<notin> set ws"
  shows "join_with c (filter (\<lambda>l. l \<noteq> []) (map (join_with c) wss)) = join_with c (concat wss)"
  using assms
proof (induction wss)
  case (Cons ws wss)
  let ?J = "filter (\<lambda>l. l \<noteq> []) (map (join_with c) wss)"
  have J: "?J = [] \<longleftrightarrow> concat wss = []"
    using Cons.prems by (auto simp: filter_empty_conv join_with_eq_Nil)
  have IH: "join_with c ?J = join_with c (concat wss)" using Cons by simp
  show ?case
  proof (cases "ws = [] \<or> concat wss = []")
    case True
    with Cons.prems IH J show ?thesis by (auto simp: join_with_eq_Nil simp del: concat_eq_Nil_conv filter_map)
  next
    case False
    with Cons.prems IH J show ?thesis
      by (auto simp: join_with_eq_Nil join_with_Cons join_with_append simp del: concat_eq_Nil_conv filter_map)
  qed
qed simp

lemma hd_last_join:
  assumes "ws \<noteq> []" "\<forall>w \<in> set ws. w \<noteq> [] \<and> (\<forall>c \<in> set w. \<not> is_space c)"
  shows "join_with 32 ws \<noteq> [] \<and> \<not> is_space (hd (join_with 32 ws)) \<and> \<not> is_space (last (join_with 32 ws))"
  using assms
proof (induction ws)
  case (Cons w ws)
  then show ?case by (cases "ws = []") (auto simp: join_with_Cons)
qed simp

lemma trim_sandwich:
  assumes "\<forall>c \<in> set a. is_space c" "\<forall>c \<in> set b. is_space c"
    "x = [] \<or> \<not> is_space (hd x) \<and> \<not> is_space (last x)"
  shows "trim (a @ x @ b) = x"
proof (cases "x = []")
  case True
  then have "\<forall>c \<in> set (a @ x @ b). is_space c" using assms by auto
  then have "trim_start (a @ x @ b) = []"
    unfolding trim_start_def dropWhile_eq_Nil_conv .
  moreover have "trim_start [] = []" by (simp add: trim_start_def)
  ultimately show ?thesis using True unfolding trim_def by (simp only: rev.simps)
next
  case False
  then have "trim_start (a @ x @ b) = x @ b"
    using assms by (cases x) (auto simp: trim_start_def dropWhile_append2)
  moreover have "dropWhile is_space (rev x) = rev x"
    using assms False by (cases x rule: rev_cases) auto
  then have "trim_start (rev b @ rev x) = rev x"
    using assms(2) unfolding trim_start_def by (subst dropWhile_append2) auto
  ultimately show ?thesis by (simp add: trim_def)
qed

lemma collapse_spaces_words:
  "collapse_spaces s = (if s \<noteq> [] \<and> is_space (hd s) then [32] else []) @ join_with 32 (words_of s)
     @ (if words_of s \<noteq> [] \<and> is_space (last s) then [32] else [])"
proof (induction s rule: collapse_spaces.induct)
  case (2 c s)
  show ?case
  proof (cases "is_space c")
    case True
    let ?t = "dropWhile is_space s"
    show ?thesis
    proof (cases "?t = []")
      case True
      then have "words_of s = []" using words_of_dropWhile [of s] by (simp only: words_of_Nil)
      with True \<open>is_space c\<close> show ?thesis by (simp del: dropWhile_eq_Nil_conv)
    next
      case False
      have "last s = last (takeWhile is_space s @ ?t)" by simp
      then have "last s = last ?t" using False by (simp only: last_append) simp
      moreover have "\<not> is_space (hd ?t)" using False by (rule hd_dropWhile)
      moreover have "s \<noteq> []" using False by auto
      ultimately show ?thesis using 2(1) [OF True] False True by simp
    qed
  next
    case False
    note IH = 2(2) [OF False]
    show ?thesis
    proof (cases "s = [] \<or> words_of s = []")
      case True
      moreover have "words_of s = [] \<Longrightarrow> s \<noteq> [] \<Longrightarrow> is_space (hd s) \<and> is_space (last s)"
        by (simp add: words_of_eq_Nil)
      ultimately show ?thesis using IH False by (auto simp: words_of_word)
    next
      case F: False
      then have "words_of (c # s) = (if is_space (hd s) then [c] # words_of s else (c # hd (words_of s)) # tl (words_of s))"
        using False by (simp add: words_of_word)
      moreover obtain w ws where "words_of s = w # ws" using F by (cases "words_of s") auto
      ultimately show ?thesis using IH False F by (simp add: join_with_Cons)
    qed
  qed
qed simp

lemma trim_collapse_words: "trim (collapse_spaces s) = join_with 32 (words_of s)"
proof -
  have "join_with 32 (words_of s) = [] \<or>
    \<not> is_space (hd (join_with 32 (words_of s))) \<and> \<not> is_space (last (join_with 32 (words_of s)))"
    using hd_last_join [of "words_of s"] words_of_words [of _ s] by (cases "words_of s = []") auto
  moreover have "is_space 32" by (simp add: is_space_def)
  ultimately show ?thesis
    unfolding collapse_spaces_words by (intro trim_sandwich) auto
qed

lemma normalize_words:
  "normalizeDictionaryTermText s = trim (take MAX_DICTIONARY_TERM_CHARS (join_with 32 (words_of s)))"
proof -
  have "map (\<lambda>line. trim (collapse_spaces line)) (split_on (\<lambda>c. c = 10) (newlines s))
    = map (join_with 32) (map words_of (split_on (\<lambda>c. c = 10) (newlines s)))"
    by (simp add: trim_collapse_words)
  moreover have "\<forall>ws \<in> set (map words_of (split_on (\<lambda>c. c = 10) (newlines s))). [] \<notin> set ws"
    using words_of_words by auto
  ultimately show ?thesis
    unfolding normalizeDictionaryTermText_def by (simp only: join_with_concat words_of_lines words_of_newlines)
qed

section \<open>Single-spaced texts\<close>

text \<open>White space only as single blanks: what normalisation leaves, and what it does not touch.\<close>

fun single_spaced :: "jsstring \<Rightarrow> bool" where
  "single_spaced [] = True"
| "single_spaced (c # s) = ((is_space c \<longrightarrow> c = 32 \<and> (s = [] \<or> \<not> is_space (hd s))) \<and> single_spaced s)"

lemma single_spaced_collapse: "single_spaced (collapse_spaces s)"
proof (induction s rule: collapse_spaces.induct)
  case (2 c s)
  have hd: "s \<noteq> [] \<Longrightarrow> is_space (hd (collapse_spaces s)) \<longleftrightarrow> is_space (hd s)" for s
    by (cases s) (auto simp: is_space_def)
  have n: "collapse_spaces s = [] \<longleftrightarrow> s = []" for s
    by (cases s) auto
  show ?case
  proof (cases "is_space c")
    case True
    let ?t = "dropWhile is_space s"
    have "?t = [] \<or> \<not> is_space (hd (collapse_spaces ?t))"
      using hd [of ?t] hd_dropWhile [of is_space s] by auto
    with True 2 n [of ?t] show ?thesis by (simp add: is_space_def [of 32])
  qed (use 2 in auto)
qed simp

lemma single_spaced_collapse_id: "single_spaced s \<Longrightarrow> collapse_spaces s = s"
proof (induction s rule: collapse_spaces.induct)
  case (2 c s)
  then have "is_space c \<Longrightarrow> dropWhile is_space s = s"
    by (cases s) auto
  with 2 show ?case by auto
qed simp

lemma single_spaced_take: "single_spaced s \<Longrightarrow> single_spaced (take n s)"
proof (induction s arbitrary: n)
  case (Cons c s)
  then show ?case by (cases n) (auto simp: hd_take)
qed simp

lemma single_spaced_append: "single_spaced (s @ t) \<Longrightarrow> single_spaced s \<and> single_spaced t"
  by (induction s) (auto split: if_splits simp: hd_append)

lemma trim_parts: "\<exists>a b. s = a @ trim s @ b \<and> (\<forall>c \<in> set a. is_space c) \<and> (\<forall>c \<in> set b. is_space c)"
proof -
  let ?u = "trim_start s"
  have "s = takeWhile is_space s @ ?u" by (simp add: trim_start_def)
  moreover have "rev ?u = takeWhile is_space (rev ?u) @ trim_start (rev ?u)" by (simp add: trim_start_def)
  then have "?u = trim s @ rev (takeWhile is_space (rev ?u))"
    unfolding trim_def by (metis rev_append rev_rev_ident)
  ultimately show ?thesis
    by (metis set_rev set_takeWhileD)
qed

lemma trim_ends: "trim s = [] \<or> \<not> is_space (hd (trim s)) \<and> \<not> is_space (last (trim s))"
proof (cases "trim s = []")
  case False
  let ?u = "trim_start s"
  have "rev (trim s) \<noteq> []" using False by simp
  then have "\<not> is_space (hd (rev (trim s)))"
    unfolding trim_def rev_rev_ident trim_start_def by (rule hd_dropWhile)
  then have l: "\<not> is_space (last (trim s))" by (simp add: hd_rev)
  have "?u = trim s @ rev (takeWhile is_space (rev ?u))"
    unfolding trim_def by (metis rev_append rev_rev_ident takeWhile_dropWhile_id trim_start_def)
  then have "hd ?u = hd (trim s)" "?u \<noteq> []" using False by (metis hd_append2, auto)
  then have "\<not> is_space (hd (trim s))" using hd_dropWhile [of is_space s] by (simp add: trim_start_def)
  with l show ?thesis by simp
qed simp

lemma trim_id: "s = [] \<or> \<not> is_space (hd s) \<and> \<not> is_space (last s) \<Longrightarrow> trim s = s"
  using trim_sandwich [of "[]" "[]" s] by simp

lemma single_spaced_trim: "single_spaced s \<Longrightarrow> single_spaced (trim s)"
  using trim_parts [of s] single_spaced_append by metis

lemma length_trim: "length (trim s) \<le> length s"
  using trim_parts [of s] by (metis le_add1 le_add2 length_append order_trans)

lemma normalize_shape:
  "single_spaced (normalizeDictionaryTermText s)" "length (normalizeDictionaryTermText s) \<le> 120"
  "normalizeDictionaryTermText s = [] \<or>
    \<not> is_space (hd (normalizeDictionaryTermText s)) \<and> \<not> is_space (last (normalizeDictionaryTermText s))"
proof -
  have "single_spaced (join_with 32 (words_of s))"
    using single_spaced_trim [OF single_spaced_collapse [of s]] by (simp add: trim_collapse_words)
  then show "single_spaced (normalizeDictionaryTermText s)"
    unfolding normalize_words by (intro single_spaced_trim single_spaced_take)
  show "length (normalizeDictionaryTermText s) \<le> 120"
    unfolding normalize_words MAX_DICTIONARY_TERM_CHARS_def by (rule order_trans [OF length_trim]) simp
  show "normalizeDictionaryTermText s = [] \<or>
    \<not> is_space (hd (normalizeDictionaryTermText s)) \<and> \<not> is_space (last (normalizeDictionaryTermText s))"
    unfolding normalize_words by (rule trim_ends)
qed

lemma normalize_fixed:
  assumes "single_spaced s" "length s \<le> 120" "s = [] \<or> \<not> is_space (hd s) \<and> \<not> is_space (last s)"
  shows "normalizeDictionaryTermText s = s"
proof -
  have "join_with 32 (words_of s) = s"
    using trim_collapse_words [of s] by (simp add: single_spaced_collapse_id [OF assms(1)] trim_id [OF assms(3)])
  then show ?thesis
    unfolding normalize_words using assms by (simp add: MAX_DICTIONARY_TERM_CHARS_def trim_id)
qed

lemma normalize_idem [simp]:
  "normalizeDictionaryTermText (normalizeDictionaryTermText s) = normalizeDictionaryTermText s"
  using normalize_shape by (intro normalize_fixed)

lemma normalize_Nil [simp]: "normalizeDictionaryTermText [] = []"
  by (simp add: normalize_fixed)

text \<open>
  C6: The normal form of a term is what the line-by-line code computes of its words: the words
  joined by single blanks, cut at 120 code units, with the blank a cut may leave removed. So two
  texts with the same words have the same normal form; a normal form is at most 120 long,
  has white space only as single inner blanks, and is its own normal form.
\<close>

theorem normalize_is_words_joined:
  "normalizeDictionaryTermText s = trim (take 120 (join_with 32 (words_of s)))
   \<and> normalizeDictionaryTermText (normalizeDictionaryTermText s) = normalizeDictionaryTermText s
   \<and> length (normalizeDictionaryTermText s) \<le> 120 \<and> single_spaced (normalizeDictionaryTermText s)
   \<and> trim (normalizeDictionaryTermText s) = normalizeDictionaryTermText s"
  using normalize_shape [of s] by (simp add: normalize_words MAX_DICTIONARY_TERM_CHARS_def flip: normalize_words)
    (metis MAX_DICTIONARY_TERM_CHARS_def normalize_words trim_id)

end
