(* ===== verification/DictAlias.thy ===== *)
theory DictAlias
  imports DictMerge DictText
begin

text \<open>
  Aliases (the misrecognised spellings of a term) across deletions and renames:
  the deterministic tag of a moved incarnation (\<open>move-tag.ts\<close>), the hidden removal markers that
  record how much of an alias's counters had been seen when it was deleted
  (\<open>alias-removal.ts\<close>), and the resolver that follows a chain of renames back to the
  tombstoned incarnations whose alias edits still count (\<open>moved-aliases.ts\<close>).
\<close>

section \<open>Moved tags\<close>

definition fold36 :: "jsstring \<Rightarrow> jsstring" where
  "fold36 input =
     (let hash = foldl (\<lambda>hash c. (hash XOR ucast c) * 0x01000193) (0x811c9dc5 :: 32 word) input
      in padStart 7 48 (toString36 (unat hash)))"

definition deriveMoveTag :: "hlc_timestamp \<Rightarrow> jsstring \<Rightarrow> hlc_timestamp" where
  "deriveMoveTag sourceTag targetKey =
     (let prefix = take HLC_PREFIX_LENGTH sourceTag
      in prefix @ js ''mv'' @ fold36 (sourceTag @ [0] @ targetKey))"

section \<open>Removal markers\<close>

definition ALIAS_REMOVAL_KEY_PREFIX :: jsstring where
  "ALIAS_REMOVAL_KEY_PREFIX = 0 # js ''cindy-alias-removal-v1:''"

record alias_removal_marker =
  mk_aliasKey :: jsstring
  mk_counterNodeId :: jsstring
  mk_removedCount :: number

record alias_removal_state =
  rm_floor :: gcounter
  rm_latestStamp :: hlc_timestamp

definition isAliasRemovalMarkerKey :: "jsstring \<Rightarrow> bool" where
  "isAliasRemovalMarkerKey aliasKey = starts_with aliasKey ALIAS_REMOVAL_KEY_PREFIX"

definition createAliasRemovalMarker :: "platform \<Rightarrow> hlc_timestamp \<Rightarrow> alias_removal_marker \<Rightarrow> jsstring \<times> alias_state" where
  "createAliasRemovalMarker pf stamp marker =
     (let payload = pf_encode pf (JArray [JNumber 1, JString (mk_aliasKey marker), JString (mk_counterNodeId marker)])
      in (ALIAS_REMOVAL_KEY_PREFIX @ payload,
          \<lparr>al_text = [], al_textStamp = stamp, al_counters = createDictionaryMap,
           al_lastSeenAt = mk_removedCount marker\<rparr>))"

definition parseAliasRemovalMarker :: "platform \<Rightarrow> jsstring \<Rightarrow> alias_state \<Rightarrow> alias_removal_marker option" where
  "parseAliasRemovalMarker pf aliasKey al =
     (if \<not> isAliasRemovalMarkerKey aliasKey then None
      else case pf_decode pf (drop (length ALIAS_REMOVAL_KEY_PREFIX) aliasKey) of
          Some (JArray [one, removed, node]) \<Rightarrow>
            if one \<noteq> JNumber 1 then None
            else (case (removed, node) of
                (JString removedAliasKey, JString counterNodeId) \<Rightarrow>
                  if removedAliasKey = [] \<or> isAliasRemovalMarkerKey removedAliasKey then None
                  else if counterNodeId = [] then None
                  else if \<not> isSafeInteger (al_lastSeenAt al) \<or> al_lastSeenAt al \<le> 0 then None
                  else if list_ex (\<lambda>count. 0 < count) (obj_values (al_counters al)) then None
                  else Some \<lparr>mk_aliasKey = removedAliasKey, mk_counterNodeId = counterNodeId,
                             mk_removedCount = al_lastSeenAt al\<rparr>
              | _ \<Rightarrow> None)
        | _ \<Rightarrow> None)"

text \<open>One step of the loop in \<open>indexAliasRemovalMarkers\<close>.\<close>

definition index_marker :: "platform \<Rightarrow> (jsstring, alias_removal_state) fmap \<Rightarrow> jsstring \<times> alias_state
    \<Rightarrow> (jsstring, alias_removal_state) fmap" where
  "index_marker pf index entry =
     (case entry of (aliasKey, al) \<Rightarrow>
       (case parseAliasRemovalMarker pf aliasKey al of
          None \<Rightarrow> index
        | Some marker \<Rightarrow>
            (let removal = (case fmlookup index (mk_aliasKey marker) of
                   None \<Rightarrow> \<lparr>rm_floor = createDictionaryMap, rm_latestStamp = al_textStamp al\<rparr>
                 | Some r \<Rightarrow> r);
                 node = mk_counterNodeId marker;
                 seen = (case fmlookup (rm_floor removal) node of None \<Rightarrow> 0 | Some v \<Rightarrow> v)
             in fmupd (mk_aliasKey marker)
                  \<lparr>rm_floor = fmupd node (max seen (mk_removedCount marker)) (rm_floor removal),
                   rm_latestStamp = (if 0 < compareHlc (al_textStamp al) (rm_latestStamp removal)
                                     then al_textStamp al else rm_latestStamp removal)\<rparr> index)))"

definition indexAliasRemovalMarkers :: "platform \<Rightarrow> (jsstring, alias_state) fmap \<Rightarrow> (jsstring, alias_removal_state) fmap" where
  "indexAliasRemovalMarkers pf aliases = foldl (index_marker pf) fmempty (obj_entries aliases)"

text \<open>\<open>floor?.[nodeId] ?? 0\<close>.\<close>

definition floor_at :: "gcounter option \<Rightarrow> jsstring \<Rightarrow> number" where
  "floor_at fl node = (case fl of None \<Rightarrow> 0 | Some m \<Rightarrow> (case fmlookup m node of None \<Rightarrow> 0 | Some v \<Rightarrow> v))"

definition readAliasVisibleCount :: "gcounter \<Rightarrow> gcounter option \<Rightarrow> number" where
  "readAliasVisibleCount counters removalFloor =
     foldl (\<lambda>t (node, value). if value \<le> 0 then t
                              else t + max 0 (Math_floor value - floor_at removalFloor node))
       0 (obj_entries counters)"

definition readAliasStateVisibleCount :: "alias_state \<Rightarrow> alias_removal_state option \<Rightarrow> number" where
  "readAliasStateVisibleCount al removal =
     (let count = readAliasVisibleCount (al_counters al) (map_option rm_floor removal)
      in if 0 < count then count
         else case removal of None \<Rightarrow> count
            | Some r \<Rightarrow> if 0 < compareHlc (al_textStamp al) (rm_latestStamp r) then 1 else 0)"

text \<open>
  \<open>gcExpiredRemovedAliases\<close>. The caller tells by object identity whether anything was collected;
  here that is the second component.
\<close>

definition latest_removals :: "platform \<Rightarrow> (jsstring, alias_state) fmap \<Rightarrow> (jsstring, int) fmap" where
  "latest_removals pf aliases = foldl (\<lambda>latest (aliasKey, al).
     case parseAliasRemovalMarker pf aliasKey al of
       None \<Rightarrow> latest
     | Some marker \<Rightarrow>
         (let seen = (case fmlookup latest (mk_aliasKey marker) of None \<Rightarrow> 0 | Some v \<Rightarrow> v)
          in fmupd (mk_aliasKey marker) (max seen (hlcWallMs (al_textStamp al))) latest))
     fmempty (obj_entries aliases)"

definition expired_aliases :: "platform \<Rightarrow> (jsstring, alias_state) fmap \<Rightarrow> number \<Rightarrow> jsstring list" where
  "expired_aliases pf aliases thresholdMs =
     (let floors = indexAliasRemovalMarkers pf aliases
      in map fst (filter (\<lambda>(aliasKey, removalMs).
           \<not> (case fmlookup aliases aliasKey of None \<Rightarrow> False
               | Some al \<Rightarrow> 0 < readAliasStateVisibleCount al (fmlookup floors aliasKey))
           \<and> of_int removalMs < thresholdMs) (obj_entries (latest_removals pf aliases))))"

text \<open>\<open>marker?.aliasKey ?? aliasKey\<close>: the alias an entry of the map belongs to.\<close>

definition removed_alias_of :: "platform \<Rightarrow> jsstring \<Rightarrow> alias_state \<Rightarrow> jsstring" where
  "removed_alias_of pf aliasKey al =
     (case parseAliasRemovalMarker pf aliasKey al of None \<Rightarrow> aliasKey | Some marker \<Rightarrow> mk_aliasKey marker)"

definition gcExpiredRemovedAliases :: "platform \<Rightarrow> (jsstring, alias_state) fmap \<Rightarrow> number
    \<Rightarrow> (jsstring, alias_state) fmap \<times> bool" where
  "gcExpiredRemovedAliases pf aliases thresholdMs =
     (let expired = expired_aliases pf aliases thresholdMs
      in if expired = [] then (aliases, False)
         else (fmfilter (\<lambda>aliasKey. removed_alias_of pf aliasKey (the (fmlookup aliases aliasKey)) \<notin> set expired) aliases,
               True))"

section \<open>Renamed incarnations\<close>

record alias_ancestor =
  an_recordKey :: jsstring
  an_tag :: hlc_timestamp
  an_incarnation :: incarnation

text \<open>The tombstoned incarnations of the state, and those among them with a given prefix.\<close>

definition tombstoned_ancestors :: "sync_state \<Rightarrow> alias_ancestor list" where
  "tombstoned_ancestors s =
     concat (map (\<lambda>(recordKey, r).
       map (\<lambda>(tag, i). \<lparr>an_recordKey = recordKey, an_tag = tag, an_incarnation = i\<rparr>)
         (filter (\<lambda>(tag, i). hasDictionaryKey (rc_tombstones r) tag) (obj_entries (rc_incarnations r))))
       (obj_entries (st_records s)))"

definition ancestors_by_prefix :: "alias_ancestor list \<Rightarrow> hlc_timestamp \<Rightarrow> alias_ancestor list" where
  "ancestors_by_prefix ancestors prefix = filter (\<lambda>a. take HLC_PREFIX_LENGTH (an_tag a) = prefix) ancestors"

definition moved_mergeCounters :: "gcounter \<Rightarrow> gcounter \<Rightarrow> gcounter" where
  "moved_mergeCounters = fm_zip (\<lambda>l r.
     let value = max (normalizeCount l) (normalizeCount r)
     in if 0 < value then Some value else None)"

definition mergeAliasMaps :: "(jsstring, alias_state) fmap \<Rightarrow> (jsstring, alias_state) fmap
    \<Rightarrow> (jsstring, alias_state) fmap" where
  "mergeAliasMaps = fm_zip (\<lambda>l r. case (l, r) of
       (Some left, Some right) \<Rightarrow>
         (let textOrder = compareHlc (al_textStamp left) (al_textStamp right);
              textFromLeft = (0 < textOrder \<or> textOrder = 0 \<and> al_text right \<le> al_text left)
          in Some \<lparr>al_text = (if textFromLeft then al_text left else al_text right),
                   al_textStamp = (if textFromLeft then al_textStamp left else al_textStamp right),
                   al_counters = moved_mergeCounters (al_counters left) (al_counters right),
                   al_lastSeenAt = max (al_lastSeenAt left) (al_lastSeenAt right)\<rparr>)
     | (Some left, None) \<Rightarrow> Some left
     | (None, _) \<Rightarrow> r)"

type_synonym alias_memo = "(jsstring \<times> hlc_timestamp, (jsstring, alias_state) fmap) fmap"

text \<open>
  The recursion of \<open>resolve\<close>. An incarnation object is identified by where it is stored, its
  record key and its tag; \<open>visiting\<close> is the set of incarnations under way and \<open>memo\<close> the
  cache, both threaded through the calls. Every level of the recursion adds an ancestor to
  \<open>visiting\<close>, so the depth is bounded by the number of ancestors, which is the fuel.
\<close>

fun resolve_moved :: "nat \<Rightarrow> alias_ancestor list \<Rightarrow> (jsstring \<times> hlc_timestamp) set \<Rightarrow> jsstring \<Rightarrow> incarnation
    \<Rightarrow> alias_memo \<Rightarrow> (jsstring, alias_state) fmap \<times> alias_memo" where
  "resolve_moved 0 ancestors visiting recordKey i memo = (in_aliases i, memo)"
| "resolve_moved (Suc fuel) ancestors visiting recordKey i memo =
     (case fmlookup memo (recordKey, in_tag i) of
        Some cached \<Rightarrow> (cached, memo)
      | None \<Rightarrow>
          if (recordKey, in_tag i) \<in> visiting then (in_aliases i, memo)
          else
            (let (aliases, memo') = foldl (\<lambda>(aliases, memo) ancestor.
                   if (an_recordKey ancestor, an_tag ancestor) = (recordKey, in_tag i) then (aliases, memo)
                   else if deriveMoveTag (an_tag ancestor) recordKey \<noteq> in_tag i then (aliases, memo)
                   else (let (theirs, memo') = resolve_moved fuel ancestors (insert (recordKey, in_tag i) visiting)
                               (an_recordKey ancestor) (an_incarnation ancestor) memo
                         in (mergeAliasMaps aliases theirs, memo')))
                 (in_aliases i, memo) (ancestors_by_prefix ancestors (take HLC_PREFIX_LENGTH (in_tag i)))
             in (aliases, fmupd (recordKey, in_tag i) aliases memo')))"

text \<open>A resolver made by \<open>createMovedAliasResolver\<close> and called on the incarnations of one record in turn.\<close>

definition resolver_fuel :: "alias_ancestor list \<Rightarrow> nat" where
  "resolver_fuel ancestors = length ancestors + 2"

fun resolve_list :: "alias_ancestor list \<Rightarrow> jsstring \<Rightarrow> incarnation list \<Rightarrow> alias_memo
    \<Rightarrow> (jsstring, alias_state) fmap list \<times> alias_memo" where
  "resolve_list ancestors recordKey [] memo = ([], memo)"
| "resolve_list ancestors recordKey (i # is) memo =
     (let (aliases, memo') = resolve_moved (resolver_fuel ancestors) ancestors {} recordKey i memo;
          (rest, memo'') = resolve_list ancestors recordKey is memo'
      in (aliases # rest, memo''))"

text \<open>\<open>incarnations.map((i) => ({ ...i, aliases: resolve(key, i) }))\<close> with a fresh resolver.\<close>

definition with_moved_aliases :: "sync_state \<Rightarrow> jsstring \<Rightarrow> incarnation list \<Rightarrow> incarnation list" where
  "with_moved_aliases s recordKey is =
     map2 (\<lambda>i aliases. i\<lparr>in_aliases := aliases\<rparr>) is
       (fst (resolve_list (tombstoned_ancestors s) recordKey is fmempty))"

section \<open>Lemmas on markers\<close>

lemma starts_with_prefix_key [simp]: "isAliasRemovalMarkerKey (ALIAS_REMOVAL_KEY_PREFIX @ payload)"
  by (simp add: isAliasRemovalMarkerKey_def)

lemma parse_marker_key: "parseAliasRemovalMarker pf ak al = Some m \<Longrightarrow> isAliasRemovalMarkerKey ak"
  by (simp add: parseAliasRemovalMarker_def split: if_splits)

lemma parse_not_marker_key [simp]: "\<not> isAliasRemovalMarkerKey ak \<Longrightarrow> parseAliasRemovalMarker pf ak al = None"
  by (simp add: parseAliasRemovalMarker_def)

text \<open>What a parsed marker depends on: the key, the count and whether a bucket is positive.\<close>

lemma parse_marker_split:
  "parseAliasRemovalMarker pf ak al = Some m \<longleftrightarrow>
     parseAliasRemovalMarker pf ak \<lparr>al_text = [], al_textStamp = [], al_counters = fmempty, al_lastSeenAt = 1\<rparr>
       = Some (m\<lparr>mk_removedCount := 1\<rparr>)
     \<and> isSafeInteger (al_lastSeenAt al) \<and> 0 < al_lastSeenAt al
     \<and> (\<forall>k v. fmlookup (al_counters al) k = Some v \<longrightarrow> v \<le> 0) \<and> mk_removedCount m = al_lastSeenAt al"
proof -
  have one: "isSafeInteger 1" by (simp add: isSafeInteger_def Math_floor_def)
  have ex: "list_ex (\<lambda>count. 0 < count) (obj_values (al_counters al)) \<longleftrightarrow>
    \<not> (\<forall>k v. fmlookup (al_counters al) k = Some v \<longrightarrow> v \<le> 0)"
    by (auto simp: list_ex_iff Bex_obj_values not_le)
  show ?thesis
    by (cases m) (auto simp: parseAliasRemovalMarker_def ex one not_less split: option.splits json.splits list.splits if_splits)
qed

text \<open>The alias entries whose marker names the alias \<open>k\<close>.\<close>

definition marks :: "platform \<Rightarrow> jsstring \<Rightarrow> jsstring \<times> alias_state \<Rightarrow> bool" where
  "marks pf k entry = (case entry of (ak, al) \<Rightarrow>
     (case parseAliasRemovalMarker pf ak al of None \<Rightarrow> False | Some m \<Rightarrow> mk_aliasKey m = k))"

lemma index_marker_other: "\<not> marks pf k e \<Longrightarrow> fmlookup (index_marker pf idx e) k = fmlookup idx k"
  by (auto simp: marks_def index_marker_def Let_def split: prod.splits option.splits)

lemma index_marker_same:
  "fmlookup idx k = fmlookup idx' k \<Longrightarrow> marks pf k e \<Longrightarrow>
    fmlookup (index_marker pf idx e) k = fmlookup (index_marker pf idx' e) k"
  by (auto simp: marks_def index_marker_def Let_def split: prod.splits option.splits)

lemma index_lookup_filter_gen:
  "fmlookup idx k = fmlookup idx' k \<Longrightarrow>
    fmlookup (foldl (index_marker pf) idx es) k = fmlookup (foldl (index_marker pf) idx' (filter (marks pf k) es)) k"
proof (induction es arbitrary: idx idx')
  case (Cons e es)
  then show ?case
    using index_marker_other [of pf k e idx] index_marker_same [of idx k idx' pf e] by (cases "marks pf k e") simp_all
qed simp

lemma index_lookup_filter:
  "fmlookup (indexAliasRemovalMarkers pf aliases) k =
    fmlookup (foldl (index_marker pf) fmempty (filter (marks pf k) (obj_entries aliases))) k"
  unfolding indexAliasRemovalMarkers_def by (rule index_lookup_filter_gen) simp

text \<open>The floor of alias \<open>k\<close> at a node, and the latest removal, as bounds over the markers.\<close>

abbreviation floor_of :: "platform \<Rightarrow> (jsstring, alias_state) fmap \<Rightarrow> jsstring \<Rightarrow> jsstring \<Rightarrow> number" where
  "floor_of pf aliases k \<equiv> floor_at (map_option rm_floor (fmlookup (indexAliasRemovalMarkers pf aliases) k))"

lemma floor_at_None [simp]: "floor_at None n = 0"
  by (simp add: floor_at_def)

lemma floor_index_foldl:
  "floor_at (map_option rm_floor (fmlookup (foldl (index_marker pf) idx es) k)) n \<le> x \<longleftrightarrow>
     floor_at (map_option rm_floor (fmlookup idx k)) n \<le> x \<and>
     (\<forall>(ak, al) \<in> set es. \<forall>m. parseAliasRemovalMarker pf ak al = Some m \<longrightarrow> mk_aliasKey m = k \<longrightarrow>
        mk_counterNodeId m = n \<longrightarrow> mk_removedCount m \<le> x)"
proof (induction es arbitrary: idx)
  case (Cons e es)
  obtain ak al where e: "e = (ak, al)" by (cases e)
  have "floor_at (map_option rm_floor (fmlookup (index_marker pf idx e) k)) n \<le> x \<longleftrightarrow>
     floor_at (map_option rm_floor (fmlookup idx k)) n \<le> x \<and>
     (\<forall>m. parseAliasRemovalMarker pf ak al = Some m \<longrightarrow> mk_aliasKey m = k \<longrightarrow>
        mk_counterNodeId m = n \<longrightarrow> mk_removedCount m \<le> x)"
    by (cases "parseAliasRemovalMarker pf ak al")
      (auto simp: e index_marker_def Let_def floor_at_def createDictionaryMap_def split: option.splits)
  with Cons show ?case by (simp add: e)
qed simp

lemma floor_of_le:
  "floor_of pf aliases k n \<le> x \<longleftrightarrow> 0 \<le> x \<and>
     (\<forall>ak al m. fmlookup aliases ak = Some al \<longrightarrow> parseAliasRemovalMarker pf ak al = Some m \<longrightarrow>
        mk_aliasKey m = k \<longrightarrow> mk_counterNodeId m = n \<longrightarrow> mk_removedCount m \<le> x)"
  unfolding indexAliasRemovalMarkers_def floor_index_foldl Ball_obj_entries by simp

lemma floor_of_nonneg [simp]: "0 \<le> floor_of pf aliases k n"
  using floor_of_le [of pf aliases k n "floor_of pf aliases k n"] by simp

lemma latest_index_foldl:
  "(case fmlookup (foldl (index_marker pf) idx es) k of None \<Rightarrow> True | Some r \<Rightarrow> rm_latestStamp r \<le> x) \<longleftrightarrow>
     (case fmlookup idx k of None \<Rightarrow> True | Some r \<Rightarrow> rm_latestStamp r \<le> x) \<and>
     (\<forall>(ak, al) \<in> set es. marks pf k (ak, al) \<longrightarrow> al_textStamp al \<le> x)"
proof (induction es arbitrary: idx)
  case (Cons e es)
  obtain ak al where e: "e = (ak, al)" by (cases e)
  have "(case fmlookup (index_marker pf idx e) k of None \<Rightarrow> True | Some r \<Rightarrow> rm_latestStamp r \<le> x) \<longleftrightarrow>
     (case fmlookup idx k of None \<Rightarrow> True | Some r \<Rightarrow> rm_latestStamp r \<le> x) \<and> (marks pf k (ak, al) \<longrightarrow> al_textStamp al \<le> x)"
    by (cases "parseAliasRemovalMarker pf ak al")
      (auto simp: e index_marker_def marks_def Let_def split: option.splits)
  with Cons show ?case by (simp add: e)
qed simp

lemma latest_removal_le:
  "(case fmlookup (indexAliasRemovalMarkers pf aliases) k of None \<Rightarrow> True | Some r \<Rightarrow> rm_latestStamp r \<le> x) \<longleftrightarrow>
     (\<forall>ak al. fmlookup aliases ak = Some al \<longrightarrow> marks pf k (ak, al) \<longrightarrow> al_textStamp al \<le> x)"
  unfolding indexAliasRemovalMarkers_def latest_index_foldl Ball_obj_entries by simp

lemma index_None_iff_gen:
  "fmlookup (foldl (index_marker pf) idx es) k = None \<longleftrightarrow> fmlookup idx k = None \<and> (\<forall>e \<in> set es. \<not> marks pf k e)"
proof (induction es arbitrary: idx)
  case (Cons e es)
  have "fmlookup (index_marker pf idx e) k = None \<longleftrightarrow> fmlookup idx k = None \<and> \<not> marks pf k e"
    by (auto simp: index_marker_def marks_def Let_def split: prod.splits option.splits)
  with Cons show ?case by auto
qed simp

lemma index_None_iff:
  "fmlookup (indexAliasRemovalMarkers pf aliases) k = None \<longleftrightarrow>
    (\<forall>ak al. fmlookup aliases ak = Some al \<longrightarrow> \<not> marks pf k (ak, al))"
  unfolding indexAliasRemovalMarkers_def index_None_iff_gen by (auto simp: set_obj_entries)

section \<open>Visible counts\<close>

lemma readAliasVisibleCount_sum:
  assumes "finite K" "fset (fmdom c) \<subseteq> K" "\<And>n. 0 \<le> floor_at fl n"
  shows "readAliasVisibleCount c fl = (\<Sum>n \<in> K. max 0 (bucket_of c n - floor_at fl n))"
proof -
  let ?g = "\<lambda>(n, v). if v \<le> 0 then 0 else max 0 (Math_floor v - floor_at fl n)"
  have "foldl (\<lambda>t (n, v). if v \<le> 0 then t else t + max 0 (Math_floor v - floor_at fl n)) t es
    = t + sum_list (map ?g es)" for t es
    by (induction es arbitrary: t) (auto simp: add.assoc)
  then have "readAliasVisibleCount c fl = (\<Sum>e \<leftarrow> obj_entries c. ?g e)"
    by (simp add: readAliasVisibleCount_def)
  also have "\<dots> = (\<Sum>n \<in> fset (fmdom c). ?g (n, the (fmlookup c n)))"
    by (simp add: obj_entries_keys comp_def sum_list_distinct_conv_sum_set)
  also have "\<dots> = (\<Sum>n \<in> fset (fmdom c). max 0 (bucket_of c n - floor_at fl n))"
    using assms(3) by (intro sum.cong) (auto simp: bucket_of_def bucket_def fmlookup_dom_iff)
  also have "\<dots> = (\<Sum>n \<in> K. max 0 (bucket_of c n - floor_at fl n))"
    using assms by (intro sum.mono_neutral_left) (auto simp: bucket_of_def fmlookup_dom_iff split: option.splits)
  finally show ?thesis .
qed

lemma readAliasVisibleCount_nonneg:
  assumes "\<And>n. 0 \<le> floor_at fl n"
  shows "0 \<le> readAliasVisibleCount c fl"
  unfolding readAliasVisibleCount_sum [OF finite_fset order_refl assms] by (intro sum_nonneg) simp

lemma readAliasVisibleCount_zero:
  assumes "\<And>n. 0 \<le> floor_at fl n"
  shows "readAliasVisibleCount c fl = 0 \<longleftrightarrow> (\<forall>n. bucket_of c n \<le> floor_at fl n)"
proof -
  have "readAliasVisibleCount c fl = 0 \<longleftrightarrow> (\<forall>n \<in> fset (fmdom c). bucket_of c n \<le> floor_at fl n)"
    unfolding readAliasVisibleCount_sum [OF finite_fset order_refl assms]
    by (subst sum_nonneg_eq_0_iff) (auto simp: max_def)
  also have "\<dots> \<longleftrightarrow> (\<forall>n. bucket_of c n \<le> floor_at fl n)"
    using assms by (auto simp: bucket_of_def fmlookup_dom_iff split: option.splits)
  finally show ?thesis .
qed

lemma readAliasStateVisibleCount_zero:
  "readAliasStateVisibleCount al (fmlookup (indexAliasRemovalMarkers pf aliases) k) = 0 \<longleftrightarrow>
     (\<forall>n. bucket_of (al_counters al) n \<le> floor_of pf aliases k n)
     \<and> (case fmlookup (indexAliasRemovalMarkers pf aliases) k of None \<Rightarrow> True
        | Some r \<Rightarrow> al_textStamp al \<le> rm_latestStamp r)"
proof -
  let ?r = "fmlookup (indexAliasRemovalMarkers pf aliases) k"
  have "0 \<le> readAliasVisibleCount (al_counters al) (map_option rm_floor ?r)"
    by (rule readAliasVisibleCount_nonneg) simp
  moreover have "readAliasVisibleCount (al_counters al) (map_option rm_floor ?r) = 0 \<longleftrightarrow>
      (\<forall>n. bucket_of (al_counters al) n \<le> floor_of pf aliases k n)"
    by (rule readAliasVisibleCount_zero) simp
  ultimately show ?thesis
    by (cases ?r) (auto simp: readAliasStateVisibleCount_def Let_def order.order_iff_strict)
qed

lemma readAliasStateVisibleCount_nonneg [simp]:
  "0 \<le> readAliasStateVisibleCount al (fmlookup (indexAliasRemovalMarkers pf aliases) k)"
proof -
  let ?r = "fmlookup (indexAliasRemovalMarkers pf aliases) k"
  have "0 \<le> readAliasVisibleCount (al_counters al) (map_option rm_floor ?r)"
    by (rule readAliasVisibleCount_nonneg) simp
  then show ?thesis
    by (cases ?r) (auto simp: readAliasStateVisibleCount_def Let_def)
qed

section \<open>Markers under merging\<close>

text \<open>Every entry under a marker key is a marker, as \<open>createAliasRemovalMarker\<close> makes them.\<close>

definition clean_markers :: "platform \<Rightarrow> (jsstring, alias_state) fmap \<Rightarrow> bool" where
  "clean_markers pf aliases = fmpred (\<lambda>ak al. isAliasRemovalMarkerKey ak \<longrightarrow> parseAliasRemovalMarker pf ak al \<noteq> None) aliases"

lemma isSafeInteger_max: "isSafeInteger x \<Longrightarrow> isSafeInteger y \<Longrightarrow> isSafeInteger (max x y)"
  by (auto simp: isSafeInteger_def max_def)

lemma bucket_of_nonpos: "(\<forall>k v. fmlookup c k = Some v \<longrightarrow> v \<le> 0) \<Longrightarrow> bucket_of c n = 0"
  by (fastforce simp: bucket_of_def bucket_def split: option.split)

lemma parse_merge:
  assumes "parseAliasRemovalMarker pf ak x = Some m" "parseAliasRemovalMarker pf ak y = Some l"
  shows "parseAliasRemovalMarker pf ak (mergeAliasState x y)
      = Some (m\<lparr>mk_removedCount := max (mk_removedCount m) (mk_removedCount l)\<rparr>)"
    and "mk_aliasKey l = mk_aliasKey m" "mk_counterNodeId l = mk_counterNodeId m"
proof -
  note x = assms(1) [unfolded parse_marker_split [of pf ak x]] and y = assms(2) [unfolded parse_marker_split [of pf ak y]]
  have e: "l\<lparr>mk_removedCount := 1\<rparr> = m\<lparr>mk_removedCount := 1\<rparr>" using x y by auto
  then show "mk_aliasKey l = mk_aliasKey m" "mk_counterNodeId l = mk_counterNodeId m"
    by (metis alias_removal_marker.select_convs(1) alias_removal_marker.surjective alias_removal_marker.update_convs(3),
        metis alias_removal_marker.select_convs(2) alias_removal_marker.surjective alias_removal_marker.update_convs(3))
  have z: "bucket_of (al_counters x) n = 0" "bucket_of (al_counters y) n = 0" for n
    using x y by (auto intro: bucket_of_nonpos)
  show "parseAliasRemovalMarker pf ak (mergeAliasState x y)
      = Some (m\<lparr>mk_removedCount := max (mk_removedCount m) (mk_removedCount l)\<rparr>)"
    unfolding parse_marker_split [of pf ak "mergeAliasState x y"]
    using x y by (simp add: mergeAliasState_def Let_def isSafeInteger_max z less_max_iff_disj)
qed

text \<open>The cases of one key of the merged map.\<close>

lemma mergeAliases_cases:
  assumes "clean_markers pf a" "clean_markers pf b"
  obtains "fmlookup (mergeAliases a b) ak = fmlookup a ak" "fmlookup b ak = None"
  | "fmlookup (mergeAliases a b) ak = fmlookup b ak" "fmlookup a ak = None"
  | x y where "fmlookup a ak = Some x" "fmlookup b ak = Some y"
      "fmlookup (mergeAliases a b) ak = Some (mergeAliasState x y)" "\<not> isAliasRemovalMarkerKey ak"
  | x y l r where "fmlookup a ak = Some x" "fmlookup b ak = Some y"
      "fmlookup (mergeAliases a b) ak = Some (mergeAliasState x y)"
      "parseAliasRemovalMarker pf ak x = Some l" "parseAliasRemovalMarker pf ak y = Some r"
      "parseAliasRemovalMarker pf ak (mergeAliasState x y)
        = Some (l\<lparr>mk_removedCount := max (mk_removedCount l) (mk_removedCount r)\<rparr>)"
      "mk_aliasKey r = mk_aliasKey l" "mk_counterNodeId r = mk_counterNodeId l"
proof (cases "fmlookup a ak = None \<or> fmlookup b ak = None")
  case True
  then have "fmlookup (mergeAliases a b) ak = fmlookup a ak \<and> fmlookup b ak = None
      \<or> fmlookup (mergeAliases a b) ak = fmlookup b ak \<and> fmlookup a ak = None"
    by (auto simp: mergeAliases_join combine_options_def split: option.splits)
  then show thesis by (elim disjE conjE) (erule (1) that(1), erule (1) that(2))
next
  case False
  then obtain x y where xy: "fmlookup a ak = Some x" "fmlookup b ak = Some y" by auto
  then have m: "fmlookup (mergeAliases a b) ak = Some (mergeAliasState x y)"
    by (simp add: mergeAliases_join)
  show thesis
  proof (cases "isAliasRemovalMarkerKey ak")
    case True
    with assms xy obtain l r where lr: "parseAliasRemovalMarker pf ak x = Some l" "parseAliasRemovalMarker pf ak y = Some r"
      by (fastforce simp: clean_markers_def dest: fmpredD)
    show thesis by (rule that(4) [OF xy m lr parse_merge [OF lr]])
  qed (rule that(3) [OF xy m])
qed

lemma al_textStamp_merge [simp]: "al_textStamp (mergeAliasState x y) = max (al_textStamp x) (al_textStamp y)"
  by (auto simp: mergeAliasState_def mergeLww_def Let_def max_def)

lemma al_counters_merge [simp]: "al_counters (mergeAliasState x y) = mergeCounters (al_counters x) (al_counters y)"
  by (simp add: mergeAliasState_def Let_def)

lemma floor_of_mergeAliases:
  assumes "clean_markers pf a" "clean_markers pf b"
  shows "floor_of pf (mergeAliases a b) k n = max (floor_of pf a k n) (floor_of pf b k n)"
proof -
  let ?Q = "\<lambda>x aliases ak. \<forall>al m. fmlookup aliases ak = Some al \<longrightarrow> parseAliasRemovalMarker pf ak al = Some m \<longrightarrow>
      mk_aliasKey m = k \<longrightarrow> mk_counterNodeId m = n \<longrightarrow> mk_removedCount m \<le> x"
  have "?Q x (mergeAliases a b) ak \<longleftrightarrow> ?Q x a ak \<and> ?Q x b ak" for x ak
    by (rule mergeAliases_cases [OF assms, of ak]) auto
  then have "floor_of pf (mergeAliases a b) k n \<le> x \<longleftrightarrow> max (floor_of pf a k n) (floor_of pf b k n) \<le> x" for x
    unfolding floor_of_le max.bounded_iff by blast
  then show ?thesis by (metis order.antisym order_refl)
qed

lemma latest_removal_merge_le:
  assumes "clean_markers pf a" "clean_markers pf b"
  shows "(case fmlookup (indexAliasRemovalMarkers pf (mergeAliases a b)) k of None \<Rightarrow> True | Some r \<Rightarrow> rm_latestStamp r \<le> x) \<longleftrightarrow>
    (case fmlookup (indexAliasRemovalMarkers pf a) k of None \<Rightarrow> True | Some r \<Rightarrow> rm_latestStamp r \<le> x) \<and>
    (case fmlookup (indexAliasRemovalMarkers pf b) k of None \<Rightarrow> True | Some r \<Rightarrow> rm_latestStamp r \<le> x)"
proof -
  let ?R = "\<lambda>aliases ak. \<forall>al. fmlookup aliases ak = Some al \<longrightarrow> marks pf k (ak, al) \<longrightarrow> al_textStamp al \<le> x"
  have "?R (mergeAliases a b) ak \<longleftrightarrow> ?R a ak \<and> ?R b ak" for ak
    by (rule mergeAliases_cases [OF assms, of ak]) (auto simp: marks_def)
  then show ?thesis unfolding latest_removal_le by blast
qed

lemma index_merge_None:
  assumes "clean_markers pf a" "clean_markers pf b"
  shows "fmlookup (indexAliasRemovalMarkers pf (mergeAliases a b)) k = None \<longleftrightarrow>
    fmlookup (indexAliasRemovalMarkers pf a) k = None \<and> fmlookup (indexAliasRemovalMarkers pf b) k = None"
proof -
  let ?R = "\<lambda>aliases ak. \<forall>al. fmlookup aliases ak = Some al \<longrightarrow> \<not> marks pf k (ak, al)"
  have "?R (mergeAliases a b) ak \<longleftrightarrow> ?R a ak \<and> ?R b ak" for ak
    by (rule mergeAliases_cases [OF assms, of ak]) (auto simp: marks_def)
  then show ?thesis unfolding index_None_iff by blast
qed

text \<open>Stamp of the latest removal of \<open>k\<close>, the least string when there is none.\<close>

definition latest_removal :: "platform \<Rightarrow> (jsstring, alias_state) fmap \<Rightarrow> jsstring \<Rightarrow> hlc_timestamp" where
  "latest_removal pf aliases k =
     (case fmlookup (indexAliasRemovalMarkers pf aliases) k of None \<Rightarrow> [] | Some r \<Rightarrow> rm_latestStamp r)"

lemma latest_removal_merge:
  assumes "clean_markers pf a" "clean_markers pf b"
  shows "latest_removal pf (mergeAliases a b) k = max (latest_removal pf a k) (latest_removal pf b k)"
proof -
  have le: "latest_removal pf c k \<le> x \<longleftrightarrow>
      (case fmlookup (indexAliasRemovalMarkers pf c) k of None \<Rightarrow> True | Some r \<Rightarrow> rm_latestStamp r \<le> x)" for c x
    by (simp add: latest_removal_def split: option.split)
  have "latest_removal pf (mergeAliases a b) k \<le> x \<longleftrightarrow> max (latest_removal pf a k) (latest_removal pf b k) \<le> x" for x
    unfolding max.bounded_iff le by (rule latest_removal_merge_le [OF assms])
  then show ?thesis by (metis order.antisym order_refl)
qed

text \<open>The alias \<open>k\<close> as a reader of the map sees it.\<close>

definition visible_count :: "platform \<Rightarrow> (jsstring, alias_state) fmap \<Rightarrow> jsstring \<Rightarrow> number" where
  "visible_count pf aliases k = (case fmlookup aliases k of None \<Rightarrow> 0
     | Some al \<Rightarrow> readAliasStateVisibleCount al (fmlookup (indexAliasRemovalMarkers pf aliases) k))"

lemma visible_count_nonneg [simp]: "0 \<le> visible_count pf aliases k"
  by (simp add: visible_count_def split: option.split)

lemma visible_count_zero:
  "fmlookup aliases k = Some al \<Longrightarrow> visible_count pf aliases k = 0 \<longleftrightarrow>
    (\<forall>n. bucket_of (al_counters al) n \<le> floor_of pf aliases k n)
    \<and> (fmlookup (indexAliasRemovalMarkers pf aliases) k = None \<or> al_textStamp al \<le> latest_removal pf aliases k)"
  by (auto simp: visible_count_def readAliasStateVisibleCount_zero latest_removal_def split: option.split)

lemma visible_count_merge_zero:
  assumes "clean_markers pf a" "clean_markers pf b" "fmlookup a k = Some x" "fmlookup b k = Some y"
  shows "visible_count pf (mergeAliases a b) k = 0 \<longleftrightarrow>
    (\<forall>n. max (bucket_of (al_counters x) n) (bucket_of (al_counters y) n) \<le> max (floor_of pf a k n) (floor_of pf b k n))
    \<and> (fmlookup (indexAliasRemovalMarkers pf a) k = None \<and> fmlookup (indexAliasRemovalMarkers pf b) k = None
       \<or> max (al_textStamp x) (al_textStamp y) \<le> max (latest_removal pf a k) (latest_removal pf b k))"
proof -
  have "fmlookup (mergeAliases a b) k = Some (mergeAliasState x y)"
    using assms by (simp add: mergeAliases_join)
  from visible_count_zero [OF this, of pf] show ?thesis
    by (simp only: floor_of_mergeAliases [OF assms(1,2)] latest_removal_merge [OF assms(1,2)]
        index_merge_None [OF assms(1,2)] al_counters_merge al_textStamp_merge bucket_of_mergeCounters)
qed

section \<open>Collecting removed aliases\<close>

lemma latest_removals_lookup_gen:
  "fmlookup (foldl (\<lambda>latest (aliasKey, al).
     case parseAliasRemovalMarker pf aliasKey al of
       None \<Rightarrow> latest
     | Some marker \<Rightarrow>
         (let seen = (case fmlookup latest (mk_aliasKey marker) of None \<Rightarrow> 0 | Some v \<Rightarrow> v)
          in fmupd (mk_aliasKey marker) (max seen (hlcWallMs (al_textStamp al))) latest)) acc es) k = None
   \<longleftrightarrow> fmlookup acc k = None \<and> (\<forall>e \<in> set es. \<not> marks pf k e)"
proof (induction es arbitrary: acc)
  case (Cons e es)
  obtain ak al where e: "e = (ak, al)" by (cases e)
  show ?case
    by (cases "parseAliasRemovalMarker pf ak al") (auto simp: e Cons.IH marks_def Let_def)
qed simp

lemma expired_aliases_marked:
  "k \<in> set (expired_aliases pf aliases t) \<Longrightarrow> visible_count pf aliases k = 0
    \<and> (\<exists>ak al. fmlookup aliases ak = Some al \<and> marks pf k (ak, al))"
proof -
  assume k: "k \<in> set (expired_aliases pf aliases t)"
  then have "fmlookup (latest_removals pf aliases) k \<noteq> None"
    by (auto simp: expired_aliases_def Let_def set_obj_entries)
  then obtain e where "e \<in> set (obj_entries aliases)" "marks pf k e"
    unfolding latest_removals_def latest_removals_lookup_gen by auto
  then have "\<exists>ak al. fmlookup aliases ak = Some al \<and> marks pf k (ak, al)"
    using set_obj_entries [of "fst e" "snd e" aliases] by (metis prod.collapse)
  moreover have "\<not> 0 < visible_count pf aliases k"
    using k by (auto simp: expired_aliases_def Let_def visible_count_def split: option.splits)
  then have "visible_count pf aliases k = 0"
    using visible_count_nonneg [of pf aliases k] by linarith
  ultimately show ?thesis by blast
qed

lemma marks_not_marker_key: "marks pf k (ak, al) \<Longrightarrow> \<not> isAliasRemovalMarkerKey k \<and> isAliasRemovalMarkerKey ak"
  by (auto simp: marks_def parseAliasRemovalMarker_def split: option.splits json.splits list.splits if_splits)

lemma removed_alias_of_marks:
  "\<not> isAliasRemovalMarkerKey k \<Longrightarrow> removed_alias_of pf ak al = k \<longleftrightarrow> marks pf k (ak, al) \<or> ak = k"
  by (cases "isAliasRemovalMarkerKey ak")
    (auto simp: removed_alias_of_def marks_def split: option.splits dest: parse_marker_key)

text \<open>An alias that is kept keeps its entry and all its markers.\<close>

lemma gc_index_kept:
  assumes "k \<notin> set (expired_aliases pf aliases t)"
  shows "fmlookup (indexAliasRemovalMarkers pf (fst (gcExpiredRemovedAliases pf aliases t))) k
    = fmlookup (indexAliasRemovalMarkers pf aliases) k"
proof (cases "expired_aliases pf aliases t = []")
  case False
  let ?E = "set (expired_aliases pf aliases t)"
  let ?P = "\<lambda>ak. removed_alias_of pf ak (the (fmlookup aliases ak)) \<notin> ?E"
  have "filter (marks pf k) (filter (\<lambda>(ak, v). ?P ak) (obj_entries aliases)) = filter (marks pf k) (obj_entries aliases)"
    unfolding filter_filter
  proof (rule filter_cong [OF refl])
    fix e assume "e \<in> set (obj_entries aliases)"
    then have e': "fmlookup aliases (fst e) = Some (snd e)"
      using set_obj_entries [of "fst e" "snd e" aliases] by simp
    obtain ak al where "e = (ak, al)" by (cases e)
    with e' have e: "e = (ak, al)" "fmlookup aliases ak = Some al" by simp_all
    have "marks pf k e \<Longrightarrow> removed_alias_of pf ak al = k"
      using e removed_alias_of_marks [of k pf ak al] marks_not_marker_key [of pf k ak al] by simp
    with assms e show "(case e of (ak, v) \<Rightarrow> ?P ak) \<and> marks pf k e \<longleftrightarrow> marks pf k e" by auto
  qed
  then show ?thesis
    using False unfolding index_lookup_filter by (simp add: gcExpiredRemovedAliases_def Let_def obj_entries_fmfilter)
qed (simp add: gcExpiredRemovedAliases_def)

lemma gc_visible_count:
  assumes "\<not> isAliasRemovalMarkerKey k"
  shows "visible_count pf (fst (gcExpiredRemovedAliases pf aliases t)) k = visible_count pf aliases k"
proof (cases "k \<in> set (expired_aliases pf aliases t)")
  case True
  have "removed_alias_of pf k al = k" for al
    using assms by (simp add: removed_alias_of_def)
  with True have "fmlookup (fst (gcExpiredRemovedAliases pf aliases t)) k = None"
    by (auto simp: gcExpiredRemovedAliases_def Let_def)
  with expired_aliases_marked [OF True] show ?thesis by (simp add: visible_count_def)
next
  case False
  have "removed_alias_of pf k al = k" for al
    using assms by (simp add: removed_alias_of_def)
  with False have "fmlookup (fst (gcExpiredRemovedAliases pf aliases t)) k = fmlookup aliases k"
    by (simp add: gcExpiredRemovedAliases_def Let_def)
  with gc_index_kept [OF False] show ?thesis by (simp only: visible_count_def)
qed

section \<open>Resolving moved aliases\<close>

text \<open>The merge written out in \<open>moved-aliases.ts\<close> is the one of \<open>merge.ts\<close>.\<close>

lemma mergeAliasMaps_eq: "mergeAliasMaps = mergeAliases"
proof -
  have c: "moved_mergeCounters = mergeCounters"
    by (simp add: moved_mergeCounters_def mergeCounters_def Let_def)
  have "(let textOrder = compareHlc (al_textStamp left) (al_textStamp right);
              textFromLeft = (0 < textOrder \<or> textOrder = 0 \<and> al_text right \<le> al_text left)
          in \<lparr>al_text = (if textFromLeft then al_text left else al_text right),
              al_textStamp = (if textFromLeft then al_textStamp left else al_textStamp right),
              al_counters = mergeCounters (al_counters left) (al_counters right),
              al_lastSeenAt = max (al_lastSeenAt left) (al_lastSeenAt right)\<rparr>) = mergeAliasState left right" for left right
    by (auto simp: mergeAliasState_def mergeLww_def Let_def)
  then show ?thesis
    unfolding mergeAliasMaps_def mergeAliases_def c by (simp add: Let_def cong: option.case_cong)
qed

text \<open>The body of the loop over the ancestors, for a recursive call \<open>rec\<close>.\<close>

definition resolve_step :: "(jsstring \<Rightarrow> incarnation \<Rightarrow> alias_memo \<Rightarrow> (jsstring, alias_state) fmap \<times> alias_memo)
    \<Rightarrow> jsstring \<Rightarrow> incarnation \<Rightarrow> (jsstring, alias_state) fmap \<times> alias_memo \<Rightarrow> alias_ancestor
    \<Rightarrow> (jsstring, alias_state) fmap \<times> alias_memo" where
  "resolve_step rec recordKey i acc ancestor =
     (if (an_recordKey ancestor, an_tag ancestor) = (recordKey, in_tag i) then acc
      else if deriveMoveTag (an_tag ancestor) recordKey \<noteq> in_tag i then acc
      else (let (theirs, memo') = rec (an_recordKey ancestor) (an_incarnation ancestor) (snd acc)
            in (mergeAliasMaps (fst acc) theirs, memo')))"

lemma resolve_moved_Suc:
  "resolve_moved (Suc fuel) ancestors visiting recordKey i memo =
     (case fmlookup memo (recordKey, in_tag i) of
        Some cached \<Rightarrow> (cached, memo)
      | None \<Rightarrow>
          if (recordKey, in_tag i) \<in> visiting then (in_aliases i, memo)
          else
            (let (aliases, memo') = foldl
                   (resolve_step (resolve_moved fuel ancestors (insert (recordKey, in_tag i) visiting)) recordKey i)
                   (in_aliases i, memo) (ancestors_by_prefix ancestors (take HLC_PREFIX_LENGTH (in_tag i)))
             in (aliases, fmupd (recordKey, in_tag i) aliases memo')))"
proof -
  have "(\<lambda>(aliases, memo) ancestor.
                   if (an_recordKey ancestor, an_tag ancestor) = (recordKey, in_tag i) then (aliases, memo)
                   else if deriveMoveTag (an_tag ancestor) recordKey \<noteq> in_tag i then (aliases, memo)
                   else (let (theirs, memo') = resolve_moved fuel ancestors (insert (recordKey, in_tag i) visiting)
                               (an_recordKey ancestor) (an_incarnation ancestor) memo
                         in (mergeAliasMaps aliases theirs, memo')))
    = resolve_step (resolve_moved fuel ancestors (insert (recordKey, in_tag i) visiting)) recordKey i"
    by (auto simp: fun_eq_iff resolve_step_def split: prod.split)
  then show ?thesis by (simp only: resolve_moved.simps)
qed

lemma set_ancestors_by_prefix: "set (ancestors_by_prefix ancestors p) \<subseteq> set ancestors"
  by (auto simp: ancestors_by_prefix_def)

text \<open>Where the ancestors' own calls look: their record key and tag.\<close>

definition ancestor_positions :: "alias_ancestor list \<Rightarrow> (jsstring \<times> hlc_timestamp) set" where
  "ancestor_positions ancestors = (\<lambda>a. (an_recordKey a, in_tag (an_incarnation a))) ` set ancestors"

lemma finite_ancestor_positions [simp]: "finite (ancestor_positions ancestors)"
  by (simp add: ancestor_positions_def)

lemma card_ancestor_positions: "card (ancestor_positions ancestors) \<le> length ancestors"
  unfolding ancestor_positions_def by (rule order_trans [OF card_image_le card_length]) simp

text \<open>Fuel beyond the number of incarnations not yet visited does not matter.\<close>

lemma resolve_moved_fuel_Suc:
  "card (insert (recordKey, in_tag i) (ancestor_positions ancestors) - visiting) < fuel \<Longrightarrow>
    resolve_moved (Suc fuel) ancestors visiting recordKey i memo = resolve_moved fuel ancestors visiting recordKey i memo"
proof (induction fuel arbitrary: visiting recordKey i memo)
  case (Suc fuel)
  let ?p = "(recordKey, in_tag i)" and ?P = "ancestor_positions ancestors"
  show ?case
  proof (cases "fmlookup memo ?p = None \<and> ?p \<notin> visiting")
    case False
    then show ?thesis by (auto simp only: resolve_moved_Suc split: option.split if_split)
  next
    case True
    let ?V = "insert ?p visiting" and ?as = "ancestors_by_prefix ancestors (take HLC_PREFIX_LENGTH (in_tag i))"
    have "resolve_step (resolve_moved (Suc fuel) ancestors ?V) recordKey i acc a
        = resolve_step (resolve_moved fuel ancestors ?V) recordKey i acc a" if "a \<in> set ?as" for acc a
    proof -
      have "(an_recordKey a, in_tag (an_incarnation a)) \<in> ?P"
        using that set_ancestors_by_prefix by (fastforce simp: ancestor_positions_def)
      then have "insert (an_recordKey a, in_tag (an_incarnation a)) ?P - ?V \<subset> insert ?p ?P - visiting"
        using True by blast
      then have "card (insert (an_recordKey a, in_tag (an_incarnation a)) ?P - ?V) < card (insert ?p ?P - visiting)"
        by (intro psubset_card_mono) simp_all
      with Suc.prems have "resolve_moved (Suc fuel) ancestors ?V (an_recordKey a) (an_incarnation a) m
          = resolve_moved fuel ancestors ?V (an_recordKey a) (an_incarnation a) m" for m
        by (intro Suc.IH) simp
      then show ?thesis by (simp add: resolve_step_def)
    qed
    then have "foldl (resolve_step (resolve_moved (Suc fuel) ancestors ?V) recordKey i) acc ?as
      = foldl (resolve_step (resolve_moved fuel ancestors ?V) recordKey i) acc ?as" for acc
      by (intro foldl_cong) auto
    then show ?thesis by (simp only: resolve_moved_Suc)
  qed
qed simp

text \<open>The incarnation a position of the state holds.\<close>

definition stored :: "sync_state \<Rightarrow> jsstring \<Rightarrow> incarnation \<Rightarrow> bool" where
  "stored s k i \<longleftrightarrow> (\<exists>r. fmlookup (st_records s) k = Some r \<and> fmlookup (rc_incarnations r) (in_tag i) = Some i)"

definition ok_aliases :: "(jsstring, alias_state) fmap \<Rightarrow> bool" where
  "ok_aliases = fmpred (\<lambda>_. ok_alias)"

definition memo_ok :: "sync_state \<Rightarrow> alias_memo \<Rightarrow> bool" where
  "memo_ok s memo \<longleftrightarrow> (\<forall>k t m. fmlookup memo (k, t) = Some m \<longrightarrow> ok_aliases m \<and>
     (\<forall>i. stored s k i \<and> in_tag i = t \<longrightarrow> aliases.dict.contained (in_aliases i) m))"

lemma stored_ok_aliases: "ok_state s \<Longrightarrow> stored s k i \<Longrightarrow> ok_aliases (in_aliases i)"
  by (auto simp: stored_def ok_state_def ok_record_def ok_incarnation_def ok_aliases_def dest!: fmpredD)

lemma stored_unique: "stored s k i \<Longrightarrow> stored s k j \<Longrightarrow> in_tag i = in_tag j \<Longrightarrow> i = j"
  by (auto simp: stored_def)

lemma tombstoned_ancestors_stored:
  assumes "ok_state s" "a \<in> set (tombstoned_ancestors s)"
  shows "stored s (an_recordKey a) (an_incarnation a) \<and> an_tag a = in_tag (an_incarnation a)"
proof -
  obtain e f where e: "e \<in> set (obj_entries (st_records s))" "f \<in> set (obj_entries (rc_incarnations (snd e)))"
    "a = \<lparr>an_recordKey = fst e, an_tag = fst f, an_incarnation = snd f\<rparr>"
    using assms(2) by (auto simp: tombstoned_ancestors_def split_beta)
  then have l: "fmlookup (st_records s) (fst e) = Some (snd e)" "fmlookup (rc_incarnations (snd e)) (fst f) = Some (snd f)"
    using set_obj_entries [of "fst e" "snd e"] set_obj_entries [of "fst f" "snd f"] by simp_all
  with assms(1) have "in_tag (snd f) = fst f"
    by (auto simp: ok_state_def ok_record_def ok_incarnation_def dest!: fmpredD)
  with e l show ?thesis by (auto simp: stored_def)
qed

lemma resolve_moved_sound:
  assumes "ok_state s" "\<forall>a \<in> set ancestors. stored s (an_recordKey a) (an_incarnation a)"
  shows "stored s recordKey i \<Longrightarrow> memo_ok s memo \<Longrightarrow>
    ok_aliases (fst (resolve_moved fuel ancestors visiting recordKey i memo))
    \<and> aliases.dict.contained (in_aliases i) (fst (resolve_moved fuel ancestors visiting recordKey i memo))
    \<and> memo_ok s (snd (resolve_moved fuel ancestors visiting recordKey i memo))"
proof (induction fuel arbitrary: visiting recordKey i memo)
  case 0
  then show ?case
    using stored_ok_aliases [OF assms(1)] by (auto simp: ok_aliases_def intro: aliases.dict.contained_refl)
next
  case (Suc fuel)
  let ?rec = "resolve_moved fuel ancestors (insert (recordKey, in_tag i) visiting)"
  note own = stored_ok_aliases [OF assms(1) Suc.prems(1)]
  have refl: "aliases.dict.contained (in_aliases i) (in_aliases i)"
    using own unfolding ok_aliases_def by (rule aliases.dict.contained_refl)
  let ?ok = "\<lambda>acc. ok_aliases (fst acc) \<and> aliases.dict.contained (in_aliases i) (fst acc) \<and> memo_ok s (snd acc)"
  have step: "?ok (resolve_step ?rec recordKey i acc a)" if "?ok acc" "a \<in> set ancestors" for acc a
  proof -
    have st: "stored s (an_recordKey a) (an_incarnation a)" using assms(2) that(2) by blast
    have "memo_ok s (snd acc)" using that by blast
    from Suc.IH [OF st this, of "insert (recordKey, in_tag i) visiting"]
    obtain theirs memo' where r: "?rec (an_recordKey a) (an_incarnation a) (snd acc) = (theirs, memo')"
      "ok_aliases theirs" "memo_ok s memo'" by (metis prod.collapse)
    have "ok_aliases (mergeAliases (fst acc) theirs)"
      using that r unfolding mergeAliases_join ok_aliases_def by (intro aliases.dict.ok_join) auto
    moreover have "aliases.dict.contained (in_aliases i) (mergeAliases (fst acc) theirs)"
      using that r own unfolding mergeAliases_join ok_aliases_def
      by (blast intro: aliases.dict.contained_trans aliases.dict.contained_join1 aliases.dict.ok_join)
    ultimately show ?thesis using r that(1) by (simp add: resolve_step_def mergeAliasMaps_eq)
  qed
  have "?ok (foldl (resolve_step ?rec recordKey i) acc as)" if "?ok acc" "set as \<subseteq> set ancestors" for acc as
    using that by (induction as arbitrary: acc) (use step in auto)
  from this [OF _ set_ancestors_by_prefix, of "(in_aliases i, memo)" "take HLC_PREFIX_LENGTH (in_tag i)"]
  obtain m memo' where f: "foldl (resolve_step ?rec recordKey i) (in_aliases i, memo)
      (ancestors_by_prefix ancestors (take HLC_PREFIX_LENGTH (in_tag i))) = (m, memo')"
    and m: "ok_aliases m" "aliases.dict.contained (in_aliases i) m" "memo_ok s memo'"
    using own refl Suc.prems(2) by (metis fst_conv prod.collapse snd_conv)
  have "j = i" if "stored s recordKey j" "in_tag j = in_tag i" for j
    using stored_unique [OF that(1) Suc.prems(1) that(2)] .
  then have "memo_ok s (fmupd (recordKey, in_tag i) m memo')"
    using m by (auto simp: memo_ok_def)
  with m f own refl Suc.prems show ?case
    unfolding resolve_moved_Suc by (auto simp: memo_ok_def split: option.split)
qed

lemma resolve_list_length [simp]: "length (fst (resolve_list ancestors k is memo)) = length is"
  by (induction "is" arbitrary: memo) (simp_all add: Let_def split_beta)

lemma resolve_list_sound:
  assumes "ok_state s" "\<forall>i \<in> set is. stored s k i" "memo_ok s memo"
  shows "list_all2 (\<lambda>i m. ok_aliases m \<and> aliases.dict.contained (in_aliases i) m) is
      (fst (resolve_list (tombstoned_ancestors s) k is memo))
    \<and> memo_ok s (snd (resolve_list (tombstoned_ancestors s) k is memo))"
  using assms(2,3)
proof (induction "is" arbitrary: memo)
  case (Cons i "is")
  let ?as = "tombstoned_ancestors s"
  have "\<forall>a \<in> set ?as. stored s (an_recordKey a) (an_incarnation a)"
    using tombstoned_ancestors_stored [OF assms(1)] by blast
  from resolve_moved_sound [OF assms(1) this, of k i memo "resolver_fuel ?as" "{}"] Cons
  show ?case by (simp add: Let_def split_beta)
qed simp

lemma memo_ok_empty [simp]: "memo_ok s fmempty"
  by (simp add: memo_ok_def)

section \<open>What the alias machinery guarantees\<close>

text \<open>
  The documented behaviour of the host's codec on the payloads used here: parsing what
  \<open>JSON.stringify\<close> and \<open>encodeURIComponent\<close> made of \<open>[1, a, n]\<close> gives the array back.
\<close>

definition codec_ok :: "platform \<Rightarrow> bool" where
  "codec_ok pf \<longleftrightarrow> (\<forall>a n. pf_decode pf (pf_encode pf (JArray [JNumber 1, JString a, JString n]))
     = Some (JArray [JNumber 1, JString a, JString n]))"

text \<open>A small host for the instances: ASCII case, code-unit order, and a length-prefixed codec.\<close>

definition ascii_lower :: "jsstring \<Rightarrow> jsstring" where
  "ascii_lower s = map (\<lambda>c. if 65 \<le> c \<and> c \<le> 90 then c + 32 else c) s"

definition sample_encode :: "json \<Rightarrow> jsstring" where
  "sample_encode v = (case v of JArray [one, JString a, JString n] \<Rightarrow> replicate (length a) 1 @ [0] @ a @ n | _ \<Rightarrow> [])"

definition sample_decode :: "jsstring \<Rightarrow> json option" where
  "sample_decode s =
     (let k = length (takeWhile (\<lambda>c. c = 1) s); r = drop (Suc k) s
      in Some (JArray [JNumber 1, JString (take k r), JString (drop k r)]))"

definition sample_platform :: platform where
  "sample_platform = \<lparr>pf_toLowerCase = ascii_lower, pf_localeLe = (\<le>), pf_encode = sample_encode, pf_decode = sample_decode\<rparr>"

lemma sample_codec_ok [simp]: "codec_ok sample_platform"
  by (auto simp: codec_ok_def sample_platform_def sample_encode_def sample_decode_def takeWhile_append Let_def)

text \<open>
  A removal marker reads back what it was made from: for an ordinary alias, a node id and a
  positive count, \<open>parseAliasRemovalMarker\<close> of the key and entry made by \<open>createAliasRemovalMarker\<close>
  gives the alias, the node and the count; the key is recognised as a marker key; and markers
  for different aliases or nodes have different keys.
\<close>

theorem alias_marker_roundtrip:
  assumes "codec_ok pf" "mk_aliasKey m \<noteq> []" "\<not> isAliasRemovalMarkerKey (mk_aliasKey m)"
    "mk_counterNodeId m \<noteq> []" "isSafeInteger (mk_removedCount m)" "0 < mk_removedCount m"
  shows "(case createAliasRemovalMarker pf stamp m of (key, al) \<Rightarrow>
      parseAliasRemovalMarker pf key al = Some m \<and> isAliasRemovalMarkerKey key \<and> al_textStamp al = stamp)
    \<and> (fst (createAliasRemovalMarker pf stamp m) = fst (createAliasRemovalMarker pf stamp' l) \<longleftrightarrow>
        mk_aliasKey l = mk_aliasKey m \<and> mk_counterNodeId l = mk_counterNodeId m)"
proof -
  have "pf_encode pf (JArray [JNumber 1, JString (mk_aliasKey m), JString (mk_counterNodeId m)])
      = pf_encode pf (JArray [JNumber 1, JString (mk_aliasKey l), JString (mk_counterNodeId l)]) \<longleftrightarrow>
      mk_aliasKey l = mk_aliasKey m \<and> mk_counterNodeId l = mk_counterNodeId m"
    using assms(1) unfolding codec_ok_def by (metis json.inject(3,4) list.inject option.inject)
  moreover have "drop (length ALIAS_REMOVAL_KEY_PREFIX) (ALIAS_REMOVAL_KEY_PREFIX @ s) = s" for s
    by simp
  ultimately show ?thesis
    using assms by (simp add: createAliasRemovalMarker_def parseAliasRemovalMarker_def codec_ok_def createDictionaryMap_def
        not_le)
qed

lemma alias_marker_roundtrip_witness:
  "parseAliasRemovalMarker sample_platform
     (fst (createAliasRemovalMarker sample_platform [5] \<lparr>mk_aliasKey = [97], mk_counterNodeId = [98], mk_removedCount = 3\<rparr>))
     (snd (createAliasRemovalMarker sample_platform [5] \<lparr>mk_aliasKey = [97], mk_counterNodeId = [98], mk_removedCount = 3\<rparr>))
   = Some \<lparr>mk_aliasKey = [97], mk_counterNodeId = [98], mk_removedCount = 3\<rparr>"
proof -
  have "\<not> isAliasRemovalMarkerKey [97]" by (simp add: isAliasRemovalMarkerKey_def ALIAS_REMOVAL_KEY_PREFIX_def)
  moreover have "isSafeInteger 3" using Math_floor_of_int [of 3] by (simp add: isSafeInteger_def)
  ultimately show ?thesis
    using alias_marker_roundtrip [OF sample_codec_ok,
      of "\<lparr>mk_aliasKey = [97], mk_counterNodeId = [98], mk_removedCount = 3\<rparr>" "[5]"]
    by (simp add: split_beta)
qed

text \<open>An alias with three observations, all of them seen by its deletion, and an old copy of it.\<close>

definition sample_marker :: alias_removal_marker where
  "sample_marker = \<lparr>mk_aliasKey = [97], mk_counterNodeId = [98], mk_removedCount = 3\<rparr>"

definition sample_alias :: "number \<Rightarrow> hlc_timestamp \<Rightarrow> alias_state" where
  "sample_alias n stamp = \<lparr>al_text = [97], al_textStamp = stamp, al_counters = fmupd [98] n fmempty, al_lastSeenAt = 1\<rparr>"

definition sample_deleted :: "(jsstring, alias_state) fmap" where
  "sample_deleted =
     fmupd (fst (createAliasRemovalMarker sample_platform [5] sample_marker))
       (snd (createAliasRemovalMarker sample_platform [5] sample_marker))
     (fmupd [97] (sample_alias 3 [4]) fmempty)"

lemma sample_key_plain: "\<not> isAliasRemovalMarkerKey [97]"
  by (simp add: isAliasRemovalMarkerKey_def ALIAS_REMOVAL_KEY_PREFIX_def)

lemma sample_marker_key: "fst (createAliasRemovalMarker sample_platform [5] sample_marker) < [97]"
  "fst (createAliasRemovalMarker sample_platform [5] sample_marker) \<noteq> [97]"
  by (simp_all add: createAliasRemovalMarker_def ALIAS_REMOVAL_KEY_PREFIX_def)

lemma sample_marker_parse:
  "parseAliasRemovalMarker sample_platform (fst (createAliasRemovalMarker sample_platform [5] sample_marker))
     (snd (createAliasRemovalMarker sample_platform [5] sample_marker)) = Some sample_marker"
proof -
  have "isSafeInteger 3" using Math_floor_of_int [of 3] by (simp add: isSafeInteger_def)
  then show ?thesis
    using sample_codec_ok sample_key_plain
    by (simp add: createAliasRemovalMarker_def parseAliasRemovalMarker_def codec_ok_def createDictionaryMap_def
        sample_marker_def not_le)
qed

lemma sample_deleted_index:
  "fmlookup (indexAliasRemovalMarkers sample_platform sample_deleted) [97]
     = Some \<lparr>rm_floor = fmupd [98] 3 fmempty, rm_latestStamp = [5]\<rparr>"
  using sample_marker_key sample_marker_parse sample_key_plain
  by (simp add: indexAliasRemovalMarkers_def sample_deleted_def obj_eval index_marker_def createDictionaryMap_def
      sample_marker_def createAliasRemovalMarker_def Let_def)

lemma sample_deleted_clean: "clean_markers sample_platform sample_deleted"
  "clean_markers sample_platform (fmupd [97] (sample_alias n s) fmempty)"
  using sample_marker_parse sample_key_plain
  by (auto simp: clean_markers_def sample_deleted_def fmpred_iff split: if_splits)

lemma sample_lookups_deleted: "fmlookup sample_deleted [97] = Some (sample_alias 3 [4])"
  using sample_marker_key by (simp add: sample_deleted_def)

lemma bucket_of_single: "Math_floor v = v \<Longrightarrow> 0 < v \<Longrightarrow> bucket_of (fmupd k v fmempty) n = (if n = k then v else 0)"
  by (simp add: bucket_of_def bucket_def)

lemma Math_floor_numeral [simp]: "Math_floor (numeral k) = numeral k"
  using Math_floor_of_int [of "numeral k"] by simp

lemma sample_deleted_invisible: "visible_count sample_platform sample_deleted [97] = 0"
  unfolding visible_count_zero [OF sample_lookups_deleted]
  using sample_deleted_index by (simp add: latest_removal_def floor_at_def sample_alias_def bucket_of_single)

text \<open>
  A deleted alias stays deleted when an old copy comes back, and evidence the deletion had not
  seen is not lost. Let \<open>a\<close> hold removal markers for the alias \<open>k\<close> and \<open>b\<close> be any other copy. If \<open>b\<close>'s
  buckets of the alias do not exceed the floors \<open>a\<close> recorded and its text is not newer than the
  removal, the alias is invisible in the merge if it was invisible in \<open>a\<close>; and if some bucket of
  either copy exceeds both floors, the alias is visible in the merge.
\<close>

theorem deleted_alias_after_merge:
  assumes "clean_markers pf a" "clean_markers pf b" "fmlookup a k = Some x" "fmlookup b k = Some y"
    "fmlookup (indexAliasRemovalMarkers pf a) k = Some r"
  shows "(visible_count pf a k = 0 \<and> (\<forall>n. bucket_of (al_counters y) n \<le> floor_of pf a k n)
      \<and> al_textStamp y \<le> rm_latestStamp r \<longrightarrow> visible_count pf (mergeAliases a b) k = 0)
    \<and> ((\<exists>n. max (floor_of pf a k n) (floor_of pf b k n) < max (bucket_of (al_counters x) n) (bucket_of (al_counters y) n))
      \<longrightarrow> 0 < visible_count pf (mergeAliases a b) k)"
proof (intro conjI impI; (elim conjE exE)?)
  assume v: "visible_count pf a k = 0" and y: "\<forall>n. bucket_of (al_counters y) n \<le> floor_of pf a k n"
    and t: "al_textStamp y \<le> rm_latestStamp r"
  from v have x: "bucket_of (al_counters x) n \<le> floor_of pf a k n" "al_textStamp x \<le> rm_latestStamp r" for n
    using assms(5) by (simp_all add: visible_count_zero [OF assms(3)] latest_removal_def)
  have "bucket_of (al_counters y) n \<le> floor_of pf a k n" for n using y ..
  with x t show "visible_count pf (mergeAliases a b) k = 0"
    using assms(5) unfolding visible_count_merge_zero [OF assms(1-4)] by (simp add: latest_removal_def le_max_iff_disj)
next
  fix n assume "max (floor_of pf a k n) (floor_of pf b k n) < max (bucket_of (al_counters x) n) (bucket_of (al_counters y) n)"
  then have "visible_count pf (mergeAliases a b) k \<noteq> 0"
    unfolding visible_count_merge_zero [OF assms(1-4)] by (meson not_le)
  then show "0 < visible_count pf (mergeAliases a b) k"
    using visible_count_nonneg [of pf "mergeAliases a b" k] by linarith
qed

lemma deleted_alias_after_merge_witness:
  "visible_count sample_platform (mergeAliases sample_deleted (fmupd [97] (sample_alias 2 [3]) fmempty)) [97] = 0
   \<and> 0 < visible_count sample_platform (mergeAliases sample_deleted (fmupd [97] (sample_alias 4 [3]) fmempty)) [97]"
proof -
  have f: "floor_of sample_platform sample_deleted [97] n = (if n = [98] then 3 else 0)" for n
    by (simp add: sample_deleted_index floor_at_def)
  have "fmlookup (indexAliasRemovalMarkers sample_platform (fmupd [97] (sample_alias 4 [3]) fmempty)) [97] = None"
    using sample_key_plain by (auto simp: index_None_iff dest: marks_not_marker_key split: if_splits)
  then have g: "floor_of sample_platform (fmupd [97] (sample_alias 4 [3]) fmempty) [97] n = 0" for n
    by simp
  have "fmlookup (fmupd [97] (sample_alias v s) fmempty) [97] = Some (sample_alias v s)" for v s
    by simp
  note th = deleted_alias_after_merge [OF sample_deleted_clean(1) sample_deleted_clean(2) sample_lookups_deleted this
      sample_deleted_index]
  have c: "bucket_of (al_counters (sample_alias 2 [3])) n = (if n = [98] then 2 else 0)"
    "bucket_of (al_counters (sample_alias 4 [3])) n = (if n = [98] then 4 else 0)" for n
    by (simp_all add: sample_alias_def bucket_of_single)
  have "\<forall>n. bucket_of (al_counters (sample_alias 2 [3])) n \<le> floor_of sample_platform sample_deleted [97] n"
    by (simp only: c f) simp
  moreover have "al_textStamp (sample_alias 2 [3]) \<le> rm_latestStamp \<lparr>rm_floor = fmupd [98] 3 fmempty, rm_latestStamp = [5]\<rparr>"
    by (simp add: sample_alias_def)
  moreover have "max (floor_of sample_platform sample_deleted [97] [98])
      (floor_of sample_platform (fmupd [97] (sample_alias 4 [3]) fmempty) [97] [98])
    < max (bucket_of (al_counters (sample_alias 3 [4])) [98]) (bucket_of (al_counters (sample_alias 4 [3])) [98])"
    by (simp only: c f g) simp
  ultimately show ?thesis
    using th [of 2 "[3]"] th [of 4 "[3]"] sample_deleted_invisible by blast
qed

text \<open>
  Collecting expired removals never changes what is shown: for every alias the count a reader
  sees after \<open>gcExpiredRemovedAliases\<close> is the count seen before, whatever the threshold.
\<close>

theorem alias_gc_keeps_visible_counts:
  assumes "\<not> isAliasRemovalMarkerKey k"
  shows "visible_count pf (fst (gcExpiredRemovedAliases pf aliases t)) k = visible_count pf aliases k"
  using assms by (rule gc_visible_count)

lemma alias_gc_keeps_visible_counts_witness:
  "visible_count sample_platform (fst (gcExpiredRemovedAliases sample_platform sample_deleted 100)) [97] = 0"
  using alias_gc_keeps_visible_counts [OF sample_key_plain, of sample_platform sample_deleted 100]
  by (simp add: sample_deleted_invisible)

text \<open>
  C7: Following the renames terminates with any larger fuel and the same result (the fuel used is
  enough), and loses nothing: on a well-formed state the resolved aliases of a stored incarnation
  are well formed and contain the incarnation's own aliases.
\<close>

theorem moved_aliases_resolve:
  assumes "ok_state s" "stored s k i" "resolver_fuel (tombstoned_ancestors s) \<le> fuel"
  shows "resolve_moved fuel (tombstoned_ancestors s) {} k i fmempty
      = resolve_moved (resolver_fuel (tombstoned_ancestors s)) (tombstoned_ancestors s) {} k i fmempty
    \<and> (let m = fst (resolve_moved (resolver_fuel (tombstoned_ancestors s)) (tombstoned_ancestors s) {} k i fmempty)
       in ok_aliases m \<and> mergeAliases (in_aliases i) m = m)"
proof -
  let ?as = "tombstoned_ancestors s"
  have "card (insert (k, in_tag i) (ancestor_positions ?as) - {}) \<le> Suc (length ?as)"
    using card_ancestor_positions [of ?as] card_insert_le_m1 [of "Suc (length ?as)"]
    by (simp add: card_insert_if)
  then have "resolve_moved (n + resolver_fuel ?as) ?as {} k i fmempty = resolve_moved (resolver_fuel ?as) ?as {} k i fmempty" for n
    by (induction n) (simp_all add: resolver_fuel_def resolve_moved_fuel_Suc del: resolve_moved.simps)
  from this [of "fuel - resolver_fuel ?as"] assms(3)
  have "resolve_moved fuel ?as {} k i fmempty = resolve_moved (resolver_fuel ?as) ?as {} k i fmempty" by simp
  moreover have "\<forall>a \<in> set ?as. stored s (an_recordKey a) (an_incarnation a)"
    using tombstoned_ancestors_stored [OF assms(1)] by blast
  from resolve_moved_sound [OF assms(1) this assms(2) memo_ok_empty]
  have "ok_aliases (fst (resolve_moved (resolver_fuel ?as) ?as {} k i fmempty))
    \<and> aliases.dict.contained (in_aliases i) (fst (resolve_moved (resolver_fuel ?as) ?as {} k i fmempty))"
    by blast
  ultimately show ?thesis
    by (simp add: Let_def aliases.dict.contained_def mergeAliases_join)
qed

lemma moved_aliases_resolve_witness:
  "ok_aliases (fst (resolve_moved 9 (tombstoned_ancestors (sample_state [1] [1] [7] 3)) {} (js ''lex'')
     (sample_incarnation [1] [1] [7] 3) fmempty))"
proof -
  have "stored (sample_state [1] [1] [7] 3) (js ''lex'') (sample_incarnation [1] [1] [7] 3)"
    by (simp add: stored_def sample_state_def sample_record_def sample_incarnation_def)
  moreover have "tombstoned_ancestors (sample_state [1] [1] [7] 3) = []"
    by (simp add: tombstoned_ancestors_def sample_state_def sample_record_def obj_eval)
  ultimately show ?thesis
    using moved_aliases_resolve [of "sample_state [1] [1] [7] 3" "js ''lex''" "sample_incarnation [1] [1] [7] 3" 9]
    by (simp add: resolver_fuel_def Let_def)
qed

end
