(* ===== verification/DictMaterialize.thy ===== *)
theory DictMaterialize
  imports DictAlias
begin

text \<open>
  Materialising the replicated state into what the settings page and the recogniser use
  (\<open>dictionary-sync/materialize.ts\<close>): the entries, the candidates and the suppressed texts, each
  sorted and cut at a limit the same way on every device.
\<close>

section \<open>Data\<close>

record materialize_limits =
  maxEntries :: int
  maxCandidates :: int
  maxAliases :: int

definition DEFAULT_MATERIALIZE_LIMITS :: materialize_limits where
  "DEFAULT_MATERIALIZE_LIMITS = \<lparr>maxEntries = 1000, maxCandidates = 200, maxAliases = 8\<rparr>"

record materialized_alias =
  ma_text :: jsstring
  ma_count :: number
  ma_lastSeenAt :: number

record materialized_entry =
  me_id :: jsstring
  me_text :: jsstring
  me_source :: source
  me_frequency :: number
  me_aliases :: "materialized_alias list"
  me_createdAt :: number
  me_updatedAt :: number

record materialized_candidate =
  mc_text :: jsstring
  mc_evidenceCount :: number
  mc_aliases :: "materialized_alias list"
  mc_createdAt :: number
  mc_updatedAt :: number

record materialized_dictionary =
  md_entries :: "materialized_entry list"
  md_candidates :: "materialized_candidate list"
  md_suppressedTexts :: "jsstring list"

definition MATERIALIZED_ID_PREFIX :: jsstring where
  "MATERIALIZED_ID_PREFIX = js ''dict-sync-''"

definition materializedEntryId :: "jsstring \<Rightarrow> jsstring" where
  "materializedEntryId termKey = MATERIALIZED_ID_PREFIX @ termKey"

section \<open>One record\<close>

text \<open>The callers pass a non-empty list.\<close>

definition pickDisplayText :: "incarnation list \<Rightarrow> jsstring" where
  "pickDisplayText live = (case live of [] \<Rightarrow> [] | first # _ \<Rightarrow>
     in_text (foldl (\<lambda>best item.
       (let order = compareHlc (in_textStamp item) (in_textStamp best)
        in if 0 < order then item
           else if order < 0 then best
           else if in_tag best < in_tag item then item else best)) first live))"

record alias_total =
  to_text :: jsstring
  to_textStamp :: hlc_timestamp
  to_count :: number
  to_lastSeenAt :: number

text \<open>The inner loop over the aliases of one incarnation, adding up into the totals by alias key.\<close>

definition add_alias_totals :: "platform \<Rightarrow> (jsstring, alias_total) fmap \<Rightarrow> (jsstring, alias_state) fmap
    \<Rightarrow> (jsstring, alias_total) fmap" where
  "add_alias_totals pf totals aliases =
     (let removalIndex = indexAliasRemovalMarkers pf aliases
      in foldl (\<lambda>totals (aliasKey, al).
           if isAliasRemovalMarkerKey aliasKey then totals
           else (let count = readAliasStateVisibleCount al (fmlookup removalIndex aliasKey)
                 in if count = 0 then totals
                    else case fmlookup totals aliasKey of
                        None \<Rightarrow> fmupd aliasKey \<lparr>to_text = al_text al, to_textStamp = al_textStamp al,
                                  to_count = count, to_lastSeenAt = al_lastSeenAt al\<rparr> totals
                      | Some existing \<Rightarrow>
                          (let newerText = (0 < compareHlc (al_textStamp al) (to_textStamp existing))
                           in fmupd aliasKey
                                \<lparr>to_text = (if newerText then al_text al else to_text existing),
                                 to_textStamp = (if newerText then al_textStamp al else to_textStamp existing),
                                 to_count = to_count existing + count,
                                 to_lastSeenAt = max (to_lastSeenAt existing) (al_lastSeenAt al)\<rparr> totals)))
         totals (obj_entries aliases))"

definition mergeLiveAliases :: "platform \<Rightarrow> alias_ancestor list \<Rightarrow> jsstring \<Rightarrow> incarnation list \<Rightarrow> int \<Rightarrow> alias_memo
    \<Rightarrow> materialized_alias list \<times> alias_memo" where
  "mergeLiveAliases pf ancestors recordKey live maxA memo =
     (let (resolved, memo') = resolve_list ancestors recordKey live memo;
          totals = foldl (add_alias_totals pf) fmempty resolved;
          sorted = sort_by (\<lambda>(keyA, a) (keyB, b).
            or_else (to_count b - to_count a)
              (or_else (to_lastSeenAt b - to_lastSeenAt a) (if keyA < keyB then -1 else 1)) \<le> 0)
            (filter (\<lambda>(_, al). 0 < to_count al) (obj_entries totals))
      in (map (\<lambda>(_, al). \<lparr>ma_text = to_text al, ma_count = to_count al, ma_lastSeenAt = to_lastSeenAt al\<rparr>)
            (slice0 maxA sorted), memo'))"

section \<open>Sorting and capping\<close>

text \<open>Items carry their record key in the first component; \<open>stripKey\<close> is the second projection.\<close>

definition byWeight :: "('a \<Rightarrow> number) \<Rightarrow> ('a \<Rightarrow> number) \<Rightarrow> jsstring \<times> 'a \<Rightarrow> jsstring \<times> 'a \<Rightarrow> number" where
  "byWeight readWeight updatedAt a b =
     or_else (readWeight (snd b) - readWeight (snd a))
       (or_else (updatedAt (snd b) - updatedAt (snd a)) (if fst a < fst b then -1 else 1))"

definition sortAndCap :: "('a \<Rightarrow> number) \<Rightarrow> (jsstring \<times> 'a) list \<Rightarrow> ('a \<Rightarrow> number) \<Rightarrow> int \<Rightarrow> ('a \<Rightarrow> number)
    \<Rightarrow> (jsstring \<times> 'a) list" where
  "sortAndCap updatedAt items readWeight limit readRank =
     (let capped = max 0 limit;
          ordered = sort_by (\<lambda>a b. byWeight readWeight updatedAt a b \<le> 0) items
      in if int (length ordered) \<le> capped then ordered
         else (let survivors = map fst (slice0 capped (sort_by (\<lambda>a b.
                     or_else (readRank (snd b) - readRank (snd a)) (byWeight readWeight updatedAt a b) \<le> 0) ordered))
               in filter (\<lambda>item. fst item \<in> set survivors) ordered))"

section \<open>The state\<close>

text \<open>One iteration of the loop over the records.\<close>

definition materialize_step :: "platform \<Rightarrow> sync_state \<Rightarrow> materialize_limits
    \<Rightarrow> (jsstring \<times> materialized_entry) list \<times> (jsstring \<times> materialized_candidate) list \<times> alias_memo
    \<Rightarrow> jsstring \<times> dict_record
    \<Rightarrow> (jsstring \<times> materialized_entry) list \<times> (jsstring \<times> materialized_candidate) list \<times> alias_memo" where
  "materialize_step pf s limits acc kr =
     (case (acc, kr) of ((entries, candidates, memo), (key, r)) \<Rightarrow>
       (let live = listLiveIncarnations r
        in if live = [] then acc
           else
             (let src = (if list_ex (\<lambda>item. in_source item = Manual) live then Manual else Automatic)
              in if src = Automatic \<and> hasDictionaryKey (st_suppressed s) key then acc
                 else
                   (let stg = (if list_ex (\<lambda>item. in_stage item = Entry) live then Entry else Candidate);
                        n = max 1 (live_total live);
                        text = pickDisplayText live;
                        (aliases, memo') = mergeLiveAliases pf (tombstoned_ancestors s) key live (maxAliases limits) memo;
                        created = foldl (\<lambda>m item. min m (in_createdAt item)) (in_createdAt (hd live)) live;
                        updated = foldl (\<lambda>m item. max m (in_updatedAt item)) (in_updatedAt (hd live)) live
                    in if stg = Entry
                       then (entries @ [(key, \<lparr>me_id = materializedEntryId key, me_text = text, me_source = src,
                              me_frequency = n, me_aliases = aliases, me_createdAt = created, me_updatedAt = updated\<rparr>)],
                             candidates, memo')
                       else (entries, candidates @ [(key, \<lparr>mc_text = text, mc_evidenceCount = n, mc_aliases = aliases,
                              mc_createdAt = created, mc_updatedAt = updated\<rparr>)], memo')))))"

definition materializeDictionary :: "platform \<Rightarrow> sync_state \<Rightarrow> materialize_limits \<Rightarrow> materialized_dictionary" where
  "materializeDictionary pf s limits =
     (let (entries, candidates, _) = foldl (materialize_step pf s limits) ([], [], fmempty) (obj_entries (st_records s))
      in \<lparr>md_entries = map snd (sortAndCap me_updatedAt entries me_frequency (maxEntries limits)
            (\<lambda>item. if me_source item = Manual then 1 else 0)),
          md_candidates = map snd (sortAndCap mc_updatedAt candidates mc_evidenceCount (maxCandidates limits) (\<lambda>_. 0)),
          md_suppressedTexts = map (\<lambda>key. su_text (the (fmlookup (st_suppressed s) key)))
            (sort (obj_keys (st_suppressed s)))\<rparr>)"

section \<open>Lemmas\<close>

text \<open>What the loop over the records collects: one keyed item per visible record.\<close>

definition visible_record :: "sync_state \<Rightarrow> jsstring \<Rightarrow> dict_record \<Rightarrow> bool" where
  "visible_record s key r \<longleftrightarrow> listLiveIncarnations r \<noteq> []
     \<and> ((\<exists>i \<in> set (listLiveIncarnations r). in_source i = Manual) \<or> fmlookup (st_suppressed s) key = None)"

definition entry_record :: "dict_record \<Rightarrow> bool" where
  "entry_record r \<longleftrightarrow> (\<exists>i \<in> set (listLiveIncarnations r). in_stage i = Entry)"

text \<open>What an entry says of its record.\<close>

definition shows_entry :: "sync_state \<Rightarrow> jsstring \<times> materialized_entry \<Rightarrow> bool" where
  "shows_entry s ke \<longleftrightarrow> (\<exists>r. fmlookup (st_records s) (fst ke) = Some r \<and> visible_record s (fst ke) r \<and> entry_record r
     \<and> me_id (snd ke) = materializedEntryId (fst ke)
     \<and> me_frequency (snd ke) = max 1 (live_total (listLiveIncarnations r))
     \<and> (me_source (snd ke) = Manual \<longleftrightarrow> (\<exists>i \<in> set (listLiveIncarnations r). in_source i = Manual))
     \<and> me_text (snd ke) = pickDisplayText (listLiveIncarnations r))"

definition shows_candidate :: "sync_state \<Rightarrow> jsstring \<times> materialized_candidate \<Rightarrow> bool" where
  "shows_candidate s ke \<longleftrightarrow> (\<exists>r. fmlookup (st_records s) (fst ke) = Some r \<and> visible_record s (fst ke) r \<and> \<not> entry_record r
     \<and> mc_evidenceCount (snd ke) = max 1 (live_total (listLiveIncarnations r))
     \<and> mc_text (snd ke) = pickDisplayText (listLiveIncarnations r))"

lemma materialize_step_cases:
  assumes "fmlookup (st_records s) key = Some r"
  obtains e where "visible_record s key r" "entry_record r" "shows_entry s (key, e)"
      "fst (materialize_step pf s limits acc (key, r)) = fst acc @ [(key, e)]"
      "fst (snd (materialize_step pf s limits acc (key, r))) = fst (snd acc)"
  | c where "visible_record s key r" "\<not> entry_record r" "shows_candidate s (key, c)"
      "fst (materialize_step pf s limits acc (key, r)) = fst acc"
      "fst (snd (materialize_step pf s limits acc (key, r))) = fst (snd acc) @ [(key, c)]"
  | "\<not> visible_record s key r" "materialize_step pf s limits acc (key, r) = acc"
proof -
  obtain es cs memo where acc: "acc = (es, cs, memo)" by (cases acc)
  let ?live = "listLiveIncarnations r"
  obtain as memo' where m: "mergeLiveAliases pf (tombstoned_ancestors s) key ?live (maxAliases limits) memo = (as, memo')"
    by (cases "mergeLiveAliases pf (tombstoned_ancestors s) key ?live (maxAliases limits) memo")
  have vis: "visible_record s key r \<longleftrightarrow> ?live \<noteq> [] \<and> \<not> (\<not> list_ex (\<lambda>item. in_source item = Manual) ?live
      \<and> hasDictionaryKey (st_suppressed s) key)"
    by (auto simp: visible_record_def list_ex_iff hasDictionaryKey_def)
  have ent: "entry_record r \<longleftrightarrow> list_ex (\<lambda>item. in_stage item = Entry) ?live"
    by (auto simp: entry_record_def list_ex_iff)
  let ?src = "if list_ex (\<lambda>item. in_source item = Manual) ?live then Manual else Automatic"
  let ?created = "foldl (\<lambda>m item. min m (in_createdAt item)) (in_createdAt (hd ?live)) ?live"
  let ?updated = "foldl (\<lambda>m item. max m (in_updatedAt item)) (in_updatedAt (hd ?live)) ?live"
  let ?e = "\<lparr>me_id = materializedEntryId key, me_text = pickDisplayText ?live, me_source = ?src,
      me_frequency = max 1 (live_total ?live), me_aliases = as, me_createdAt = ?created, me_updatedAt = ?updated\<rparr>"
  let ?c = "\<lparr>mc_text = pickDisplayText ?live, mc_evidenceCount = max 1 (live_total ?live), mc_aliases = as,
      mc_createdAt = ?created, mc_updatedAt = ?updated\<rparr>"
  have src: "?src = Automatic \<longleftrightarrow> \<not> list_ex (\<lambda>item. in_source item = Manual) ?live" by simp
  show thesis
  proof (cases "visible_record s key r")
    case False
    then have "?live = [] \<or> ?src = Automatic \<and> hasDictionaryKey (st_suppressed s) key"
      unfolding vis src by blast
    then have "materialize_step pf s limits acc (key, r) = acc"
      unfolding materialize_step_def acc prod.case Let_def by (elim disjE) (simp_all only: if_True if_cancel simp_thms)
    with False show thesis by (rule that(3))
  next
    case True
    then have v: "?live \<noteq> []" "\<not> (?src = Automatic \<and> hasDictionaryKey (st_suppressed s) key)"
      unfolding vis src by blast+
    have step: "materialize_step pf s limits acc (key, r) = (if entry_record r then (es @ [(key, ?e)], cs, memo')
        else (es, cs @ [(key, ?c)], memo'))"
      unfolding materialize_step_def acc prod.case Let_def m ent if_not_P [OF v(1)] if_not_P [OF v(2)]
      by simp
    have "?src = Manual \<longleftrightarrow> (\<exists>i \<in> set ?live. in_source i = Manual)"
      by (simp add: list_ex_iff)
    then have "entry_record r \<Longrightarrow> shows_entry s (key, ?e)"
      using assms True by (simp only: shows_entry_def) simp
    moreover have "\<not> entry_record r \<Longrightarrow> shows_candidate s (key, ?c)"
      using assms True by (simp add: shows_candidate_def)
    ultimately show thesis
      using that(1) [OF True, of ?e] that(2) [OF True, of ?c] step by (cases "entry_record r") (simp_all add: acc)
  qed
qed

lemma materialize_loop:
  assumes "\<forall>(k, r) \<in> set krs. fmlookup (st_records s) k = Some r" "distinct (map fst krs)"
  shows "\<exists>es cs memo'. foldl (materialize_step pf s limits) (es0, cs0, memo) krs = (es0 @ es, cs0 @ cs, memo')
    \<and> list_all (shows_entry s) es \<and> list_all (shows_candidate s) cs
    \<and> map fst es = filter (\<lambda>k. \<exists>r. (k, r) \<in> set krs \<and> visible_record s k r \<and> entry_record r) (map fst krs)
    \<and> map fst cs = filter (\<lambda>k. \<exists>r. (k, r) \<in> set krs \<and> visible_record s k r \<and> \<not> entry_record r) (map fst krs)"
  using assms
proof (induction krs arbitrary: es0 cs0 memo)
  case (Cons kr krs)
  obtain key r where kr: "kr = (key, r)" by (cases kr)
  have l: "fmlookup (st_records s) key = Some r" and ne: "key \<notin> fst ` set krs"
    using Cons.prems kr by auto
  have ne': "(key, q) \<notin> set krs" for q using ne by (auto simp: image_iff)
  have flt: "filter (\<lambda>k. \<exists>q. (k, q) \<in> set ((key, r) # krs) \<and> P k q) (map fst krs)
      = filter (\<lambda>k. \<exists>q. (k, q) \<in> set krs \<and> P k q) (map fst krs)" for P
    using ne by (intro filter_cong) auto
  have hd: "(\<exists>q. (key, q) \<in> set ((key, r) # krs) \<and> P key q) \<longleftrightarrow> P key r" for P
    using ne by force
  obtain es1 cs1 memo1 where st: "materialize_step pf s limits (es0, cs0, memo) (key, r) = (es1, cs1, memo1)"
    by (cases "materialize_step pf s limits (es0, cs0, memo) (key, r)")
  have IH: "\<exists>es cs memo'. foldl (materialize_step pf s limits) (es1, cs1, memo1) krs = (es1 @ es, cs1 @ cs, memo')
    \<and> list_all (shows_entry s) es \<and> list_all (shows_candidate s) cs
    \<and> map fst es = filter (\<lambda>k. \<exists>r. (k, r) \<in> set krs \<and> visible_record s k r \<and> entry_record r) (map fst krs)
    \<and> map fst cs = filter (\<lambda>k. \<exists>r. (k, r) \<in> set krs \<and> visible_record s k r \<and> \<not> entry_record r) (map fst krs)"
    using Cons.prems by (intro Cons.IH) auto
  then obtain es cs memo' where r: "foldl (materialize_step pf s limits) (es1, cs1, memo1) krs = (es1 @ es, cs1 @ cs, memo')"
    "list_all (shows_entry s) es" "list_all (shows_candidate s) cs"
    "map fst es = filter (\<lambda>k. \<exists>r. (k, r) \<in> set krs \<and> visible_record s k r \<and> entry_record r) (map fst krs)"
    "map fst cs = filter (\<lambda>k. \<exists>r. (k, r) \<in> set krs \<and> visible_record s k r \<and> \<not> entry_record r) (map fst krs)"
    by blast
  have m: "map fst (kr # krs) = key # map fst krs" by (simp add: kr)
  from l show ?case
  proof (cases rule: materialize_step_cases [of s key r pf limits "(es0, cs0, memo)"])
    case (1 e)
    then show ?thesis
      using r st ne' unfolding m unfolding kr filter.simps flt hd
      by (intro exI [of _ "(key, e) # es"] exI [of _ cs] exI [of _ memo']) auto
  next
    case (2 c)
    then show ?thesis
      using r st ne' unfolding m unfolding kr filter.simps flt hd
      by (intro exI [of _ es] exI [of _ "(key, c) # cs"] exI [of _ memo']) auto
  next
    case 3
    then show ?thesis
      using r st ne' unfolding m unfolding kr filter.simps flt hd
      by (intro exI [of _ es] exI [of _ cs] exI [of _ memo']) auto
  qed
qed simp

section \<open>Lemmas on sorting and capping\<close>

lemma byWeight_le:
  "byWeight w u a b \<le> 0 \<longleftrightarrow> w (snd b) < w (snd a) \<or> w (snd b) = w (snd a) \<and>
    (u (snd b) < u (snd a) \<or> u (snd b) = u (snd a) \<and> fst a < fst b)"
  by (auto simp: byWeight_def or_else_nonpos)

definition byRank :: "('a \<Rightarrow> number) \<Rightarrow> ('a \<Rightarrow> number) \<Rightarrow> ('a \<Rightarrow> number) \<Rightarrow> jsstring \<times> 'a \<Rightarrow> jsstring \<times> 'a \<Rightarrow> bool" where
  "byRank rank w u a b \<longleftrightarrow> or_else (rank (snd b) - rank (snd a)) (byWeight w u a b) \<le> 0"

lemma byRank_le:
  "byRank rank w u a b \<longleftrightarrow> rank (snd b) < rank (snd a) \<or> rank (snd b) = rank (snd a) \<and> byWeight w u a b \<le> 0"
  by (auto simp: byRank_def or_else_nonpos)

lemma distinct_keys_eq: "distinct (map fst items) \<Longrightarrow> x \<in> set items \<Longrightarrow> y \<in> set items \<Longrightarrow> fst x = fst y \<Longrightarrow> x = y"
  by (metis eq_key_imp_eq_value prod.collapse)

lemma byWeight_total: "fst a \<noteq> fst b \<Longrightarrow> byWeight w u a b \<le> 0 \<or> byWeight w u b a \<le> 0"
  unfolding byWeight_le by (metis linorder_neqE)

lemma byWeight_trans: "byWeight w u a b \<le> 0 \<Longrightarrow> byWeight w u b c \<le> 0 \<Longrightarrow> byWeight w u a c \<le> 0"
  unfolding byWeight_le by (elim disjE conjE) simp_all

lemma byRank_total: "fst a \<noteq> fst b \<Longrightarrow> byRank rank w u a b \<or> byRank rank w u b a"
  unfolding byRank_le using byWeight_total by (metis linorder_neqE)

lemma byRank_trans: "byRank rank w u a b \<Longrightarrow> byRank rank w u b c \<Longrightarrow> byRank rank w u a c"
  unfolding byRank_le using byWeight_trans by (elim disjE conjE) (simp_all, blast)

lemma sorted_byWeight:
  assumes "distinct (map fst items)"
  shows "sorted_wrt (\<lambda>a b. byWeight w u a b \<le> 0) (sort_by (\<lambda>a b. byWeight w u a b \<le> 0) items)"
proof (rule sorted_sort_by [of "set items"])
  show "\<forall>x \<in> set items. \<forall>y \<in> set items. x \<noteq> y \<longrightarrow> byWeight w u x y \<le> 0 \<or> byWeight w u y x \<le> 0"
    using distinct_keys_eq [OF assms] byWeight_total by blast
  show "distinct items" using assms by (simp add: distinct_map)
qed (use byWeight_trans in blast)+

lemma sorted_byRank:
  assumes "distinct (map fst items)"
  shows "sorted_wrt (byRank rank w u) (sort_by (byRank rank w u) items)"
proof (rule sorted_sort_by [of "set items"])
  show "\<forall>x \<in> set items. \<forall>y \<in> set items. x \<noteq> y \<longrightarrow> byRank rank w u x y \<or> byRank rank w u y x"
    using distinct_keys_eq [OF assms] byRank_total by blast
  show "distinct items" using assms by (simp add: distinct_map)
qed (use byRank_trans in blast)+

lemma take_drop_sorted:
  "sorted_wrt le xs \<Longrightarrow> x \<in> set (take n xs) \<Longrightarrow> y \<in> set (drop n xs) \<Longrightarrow> le x y"
  by (metis append_take_drop_id sorted_wrt_append)

lemma sortAndCap_spec:
  assumes "distinct (map fst items)"
  shows "set (sortAndCap u items w limit rank) \<subseteq> set items"
    and "distinct (map fst (sortAndCap u items w limit rank))"
    and "sorted_wrt (\<lambda>a b. byWeight w u a b \<le> 0) (sortAndCap u items w limit rank)"
    and "length (sortAndCap u items w limit rank) = min (length items) (nat (max 0 limit))"
    and "\<And>x y. x \<in> set (sortAndCap u items w limit rank) \<Longrightarrow> y \<in> set items - set (sortAndCap u items w limit rank)
      \<Longrightarrow> byRank rank w u x y"
proof -
  let ?o = "sort_by (\<lambda>a b. byWeight w u a b \<le> 0) items"
  let ?r = "sort_by (byRank rank w u) ?o"
  let ?n = "nat (max 0 limit)"
  let ?top = "take ?n ?r"
  have d: "distinct (map fst ?o)" "distinct (map fst ?r)" using assms by simp_all
  have sets: "set ?o = set items" "set ?r = set items" by simp_all
  show "set (sortAndCap u items w limit rank) \<subseteq> set items"
    by (auto simp: sortAndCap_def Let_def)
  show "distinct (map fst (sortAndCap u items w limit rank))"
    using d by (auto simp: sortAndCap_def Let_def distinct_map_filter)
  show "sorted_wrt (\<lambda>a b. byWeight w u a b \<le> 0) (sortAndCap u items w limit rank)"
    using sorted_byWeight [OF assms, of w u] by (auto simp: sortAndCap_def Let_def intro: sorted_wrt_filter)
  have cap: "sortAndCap u items w limit rank = filter (\<lambda>item. fst item \<in> fst ` set ?top) ?o"
    if "\<not> length items \<le> ?n"
    using that by (simp add: sortAndCap_def Let_def byRank_def [abs_def] slice0_def)
  have key: "fst x \<in> fst ` set ?top \<longleftrightarrow> x \<in> set ?top" if x: "x \<in> set items" for x
  proof
    assume "fst x \<in> fst ` set ?top"
    then obtain y where y: "y \<in> set ?top" "fst x = fst y" by auto
    then have "y \<in> set items" using sets(2) in_set_takeD by metis
    with distinct_keys_eq [OF assms x] y show "x \<in> set ?top" by metis
  qed simp
  have kept: "set (sortAndCap u items w limit rank) = set ?top" if "\<not> length items \<le> ?n"
    unfolding cap [OF that] using key sets by (auto dest: in_set_takeD)
  show "length (sortAndCap u items w limit rank) = min (length items) ?n"
  proof (cases "length items \<le> ?n")
    case True
    then show ?thesis by (auto simp: sortAndCap_def Let_def)
  next
    case False
    have "distinct (sortAndCap u items w limit rank)"
      using d(1) unfolding cap [OF False] by (simp add: distinct_map)
    then have "length (sortAndCap u items w limit rank) = card (set ?top)"
      using kept [OF False] by (metis distinct_card)
    also have "\<dots> = length ?top" using d(2) by (intro distinct_card distinct_take) (simp add: distinct_map)
    finally show ?thesis using False by simp
  qed
  fix x y assume x: "x \<in> set (sortAndCap u items w limit rank)"
    and y: "y \<in> set items - set (sortAndCap u items w limit rank)"
  have f: "\<not> length items \<le> ?n"
  proof
    assume "length items \<le> ?n"
    then have "set (sortAndCap u items w limit rank) = set items"
      by (auto simp: sortAndCap_def Let_def)
    with y show False by simp
  qed
  have "y \<in> set (drop ?n ?r)"
    using y kept [OF f] sets(2) by (metis DiffE Un_iff append_take_drop_id set_append)
  with x kept [OF f] sorted_byRank [OF d(1), of rank w u] show "byRank rank w u x y"
    by (intro take_drop_sorted [of "byRank rank w u" ?r]) auto
qed

section \<open>Instances\<close>

text \<open>Two manual terms, of which the limits leave room for one.\<close>

definition manual_incarnation :: "hlc_timestamp \<Rightarrow> number \<Rightarrow> incarnation" where
  "manual_incarnation tag n = (sample_incarnation tag tag [7] n)\<lparr>in_source := Manual, in_stage := Entry\<rparr>"

definition manual_record :: "hlc_timestamp \<Rightarrow> number \<Rightarrow> dict_record" where
  "manual_record tag n = \<lparr>rc_incarnations = fmupd tag (manual_incarnation tag n) fmempty, rc_tombstones = fmempty\<rparr>"

definition two_terms :: sync_state where
  "two_terms = createEmptySyncState\<lparr>st_records := fmupd [97] (manual_record [1] 3) (fmupd [98] (manual_record [2] 5) fmempty)\<rparr>"

definition one_entry :: materialize_limits where
  "one_entry = DEFAULT_MATERIALIZE_LIMITS\<lparr>maxEntries := 1\<rparr>"

lemma live_manual_record: "listLiveIncarnations (manual_record tag n) = [manual_incarnation tag n]"
  by (simp add: listLiveIncarnations_def manual_record_def obj_eval)

lemma live_total_manual: "live_total [manual_incarnation tag (numeral v)] = numeral v"
  by (simp add: live_total_def manual_incarnation_def readCounterTotal_def obj_eval)

lemma ancestors_two_terms: "tombstoned_ancestors two_terms = []"
  by (simp add: two_terms_def tombstoned_ancestors_def obj_eval manual_record_def)


lemma no_aliases: 
  "fmlookup memo (k, tag) = None \<Longrightarrow>
    mergeLiveAliases pf [] k [manual_incarnation tag n] m memo
      = ([], fmupd (k, tag) fmempty memo)"
  by (simp add: mergeLiveAliases_def resolver_fuel_def numeral_2_eq_2 ancestors_by_prefix_def manual_incarnation_def
    sample_incarnation_def add_alias_totals_def slice0_def)

lemma manual_fields [simp]: "in_source (manual_incarnation tag n) = Manual" "in_stage (manual_incarnation tag n) = Entry"
  by (simp_all add: manual_incarnation_def)

lemma records_two_terms: "st_records two_terms = fmupd [97] (manual_record [1] 3) (fmupd [98] (manual_record [2] 5) fmempty)"
  by (simp add: two_terms_def)

lemma entries_two_terms:
  "map me_id (md_entries (materializeDictionary sample_platform two_terms one_entry)) = [materializedEntryId [98]]"
  by (simp add: materializeDictionary_def records_two_terms ancestors_two_terms obj_eval materialize_step_def
        live_manual_record no_aliases live_total_manual sortAndCap_def one_entry_def DEFAULT_MATERIALIZE_LIMITS_def
        byWeight_def or_else_def slice0_def)

section \<open>What materialising guarantees\<close>

text \<open>The records that are shown as entries, limits aside.\<close>

definition entry_keys :: "sync_state \<Rightarrow> jsstring set" where
  "entry_keys s = {k. \<exists>r. fmlookup (st_records s) k = Some r \<and> visible_record s k r \<and> entry_record r}"

lemma materialize_entries:
  obtains es where "md_entries (materializeDictionary pf s limits)
      = map snd (sortAndCap me_updatedAt es me_frequency (maxEntries limits) (\<lambda>item. if me_source item = Manual then 1 else 0))"
    "distinct (map fst es)" "list_all (shows_entry s) es" "fst ` set es = entry_keys s"
proof -
  have ok: "\<forall>(k, r) \<in> set (obj_entries (st_records s)). fmlookup (st_records s) k = Some r"
    unfolding Ball_obj_entries by simp
  have d: "distinct (map fst (obj_entries (st_records s)))" by simp
  from materialize_loop [OF ok d, of pf limits "[]" "[]" fmempty] obtain es cs memo' where
    l: "foldl (materialize_step pf s limits) ([], [], fmempty) (obj_entries (st_records s)) = (es, cs, memo')"
    "list_all (shows_entry s) es"
    "map fst es = filter (\<lambda>k. \<exists>r. (k, r) \<in> set (obj_entries (st_records s)) \<and> visible_record s k r \<and> entry_record r)
       (map fst (obj_entries (st_records s)))" by auto
  have "distinct (map fst es)" unfolding l(3) by (rule distinct_filter [OF d])
  moreover have "fst ` set es = entry_keys s"
  proof -
    have "fst ` set es = set (map fst es)" by simp
    also have "\<dots> = entry_keys s"
      unfolding l(3) by (auto simp: entry_keys_def set_obj_entries fmlookup_dom_iff)
    finally show ?thesis .
  qed
  ultimately show thesis using that l by (simp add: materializeDictionary_def)
qed

text \<open>
  What the settings page shows. Each materialised entry belongs to exactly one record that has
  a live incarnation and is not suppressed (a suppressed record counts only with a live manual
  incarnation), its frequency is the total over the live incarnations (at least one), its id
  derives from the record key, and its text is the last-written one; the list is sorted by
  frequency, then by last update, then by key; it has as many entries as there are such
  records, up to the limit.
\<close>

theorem materialized_entries_correct:
  "\<exists>items. md_entries (materializeDictionary pf s limits) = map snd items
    \<and> distinct (map fst items) \<and> list_all (shows_entry s) items \<and> fst ` set items \<subseteq> entry_keys s
    \<and> sorted_wrt (\<lambda>a b. byWeight me_frequency me_updatedAt a b \<le> 0) items
    \<and> length items = min (card (entry_keys s)) (nat (max 0 (maxEntries limits)))"
proof -
  obtain es where es: "md_entries (materializeDictionary pf s limits)
      = map snd (sortAndCap me_updatedAt es me_frequency (maxEntries limits) (\<lambda>item. if me_source item = Manual then 1 else 0))"
    "distinct (map fst es)" "list_all (shows_entry s) es" "fst ` set es = entry_keys s"
    by (rule materialize_entries)
  let ?items = "sortAndCap me_updatedAt es me_frequency (maxEntries limits) (\<lambda>item. if me_source item = Manual then 1 else 0)"
  note spec = sortAndCap_spec [OF es(2), where u = me_updatedAt and w = me_frequency and limit = "maxEntries limits"
      and rank = "\<lambda>item. if me_source item = Manual then 1 else 0"]
  have "length es = card (entry_keys s)"
    using es(2,4) by (metis distinct_card length_map set_map)
  moreover have "list_all (shows_entry s) ?items"
    using es(3) spec(1) by (auto simp: list_all_iff)
  moreover have "fst ` set ?items \<subseteq> entry_keys s"
    using es(4) spec(1) by blast
  ultimately show ?thesis using es(1) spec(2-4) by metis
qed

text \<open>
  The limit never hides a manual term behind an automatic one: if some record the user added
  by hand is left out, every entry shown is manual, and shown with at least its frequency.
\<close>

theorem manual_terms_survive_limit:
  assumes "k \<in> entry_keys s" "fmlookup (st_records s) k = Some r" "i \<in> set (listLiveIncarnations r)" "in_source i = Manual"
    "materializedEntryId k \<notin> me_id ` set (md_entries (materializeDictionary pf s limits))"
    "e \<in> set (md_entries (materializeDictionary pf s limits))"
  shows "me_source e = Manual \<and> max 1 (live_total (listLiveIncarnations r)) \<le> me_frequency e"
proof -
  obtain es where es: "md_entries (materializeDictionary pf s limits)
      = map snd (sortAndCap me_updatedAt es me_frequency (maxEntries limits) (\<lambda>item. if me_source item = Manual then 1 else 0))"
    "distinct (map fst es)" "list_all (shows_entry s) es" "fst ` set es = entry_keys s"
    by (rule materialize_entries)
  let ?rank = "\<lambda>item. if me_source item = Manual then 1 else (0::number)"
  let ?items = "sortAndCap me_updatedAt es me_frequency (maxEntries limits) ?rank"
  note spec = sortAndCap_spec [OF es(2), where u = me_updatedAt and w = me_frequency and limit = "maxEntries limits"
      and rank = ?rank]
  have "k \<in> fst ` set es" using assms(1) es(4) by simp
  then obtain ke where ke: "ke \<in> set es" "fst ke = k" by (metis imageE)
  from ke es(3) assms(2) have m: "me_source (snd ke) = Manual" "me_id (snd ke) = materializedEntryId k"
    "me_frequency (snd ke) = max 1 (live_total (listLiveIncarnations r))"
    using assms(3,4) by (auto simp: list_all_iff shows_entry_def)
  from assms(5) es(1) m(2) have "ke \<notin> set ?items" by (metis image_eqI list.set_map)
  moreover obtain ke' where ke': "ke' \<in> set ?items" "snd ke' = e" using assms(6) es(1) by auto
  ultimately have "byRank ?rank me_frequency me_updatedAt ke' ke" using ke spec(5) by blast
  with m ke' show ?thesis by (auto simp: byRank_le byWeight_le split: if_splits)
qed

lemma manual_terms_survive_limit_witness:
  "\<exists>e \<in> set (md_entries (materializeDictionary sample_platform two_terms one_entry)).
     me_source e = Manual \<and> 3 \<le> me_frequency e"
proof -
  let ?es = "md_entries (materializeDictionary sample_platform two_terms one_entry)"
  from entries_two_terms obtain e where e: "?es = [e]" "me_id e = materializedEntryId [98]" by auto
  have "[97] \<in> entry_keys two_terms"
    by (auto simp: entry_keys_def records_two_terms visible_record_def entry_record_def live_manual_record)
  from manual_terms_survive_limit [OF this, of "manual_record [1] 3" "manual_incarnation [1] 3" sample_platform one_entry e] e
  show ?thesis
    by (simp add: records_two_terms live_manual_record live_total_manual materializedEntryId_def)
qed

text \<open>
  Suppressing an automatic term hides it on every device: a suppressed record without a live
  manual incarnation yields no entry.
\<close>

theorem suppressed_terms_hidden:
  assumes "fmlookup (st_suppressed s) k = Some u" "fmlookup (st_records s) k = Some r"
    "\<forall>i \<in> set (listLiveIncarnations r). in_source i = Automatic"
  shows "materializedEntryId k \<notin> me_id ` set (md_entries (materializeDictionary pf s limits))"
proof
  assume "materializedEntryId k \<in> me_id ` set (md_entries (materializeDictionary pf s limits))"
  then obtain e where e: "e \<in> set (md_entries (materializeDictionary pf s limits))" "me_id e = materializedEntryId k"
    by auto
  obtain es where es: "md_entries (materializeDictionary pf s limits)
      = map snd (sortAndCap me_updatedAt es me_frequency (maxEntries limits) (\<lambda>item. if me_source item = Manual then 1 else 0))"
    "distinct (map fst es)" "list_all (shows_entry s) es" "fst ` set es = entry_keys s"
    by (rule materialize_entries)
  from e(1) es(1) sortAndCap_spec(1) [OF es(2)] obtain ke where "ke \<in> set es" "snd ke = e" by fastforce
  then have "shows_entry s ke" using es(3) by (auto simp: list_all_iff)
  moreover from this have "fst ke = k"
    using e(2) \<open>snd ke = e\<close> by (auto simp: shows_entry_def materializedEntryId_def)
  ultimately have "shows_entry s ke" "fst ke = k" .
  with assms show False by (auto simp: shows_entry_def visible_record_def)
qed

lemma suppressed_terms_hidden_witness:
  "materializedEntryId (js ''lex'') \<notin> me_id ` set (md_entries (materializeDictionary sample_platform
     (sample_state [1] [1] [7] 3\<lparr>st_suppressed := fmupd (js ''lex'') \<lparr>su_text = [], su_stamp = [2]\<rparr> fmempty\<rparr>)
     DEFAULT_MATERIALIZE_LIMITS))"
  by (rule suppressed_terms_hidden [of _ _ "\<lparr>su_text = [], su_stamp = [2]\<rparr>" "sample_record [1] [1] [7] 3"])
    (auto simp: sample_state_def set_listLiveIncarnations sample_record_def sample_incarnation_def split: if_splits)

end
