(* ===== verification/DictMutate.thy ===== *)
theory DictMutate
  imports DictMaterialize
begin

text \<open>
  The local operations on the replicated dictionary (\<open>dictionary-sync/mutate.ts\<close>): learning,
  seeding, promotion, manual addition, deletion, renaming, alias editing, pruning and tombstone
  collection. Every operation takes the state and the device's clock and returns the new state,
  the new clock and whether anything changed.
\<close>

section \<open>Shared steps\<close>

type_synonym mutation_result = "sync_state \<times> hlc_clock \<times> bool"

definition DICTIONARY_CANDIDATE_PROMOTION_COUNT :: number where
  "DICTIONARY_CANDIDATE_PROMOTION_COUNT = 2"

definition putRecord :: "sync_state \<Rightarrow> jsstring \<Rightarrow> dict_record \<Rightarrow> hlc_clock option \<Rightarrow> sync_state" where
  "putRecord s key r mutationClock =
     (let next = s\<lparr>st_records := withDictionaryKey (Some (st_records s)) key r\<rparr>
      in case mutationClock of
           None \<Rightarrow> next
         | Some c \<Rightarrow> next\<lparr>st_mutationVector := Some (withDictionaryKey (st_mutationVector s) (nodeId c) (formatHlc c))\<rparr>)"

definition buildAliases :: "platform \<Rightarrow> (jsstring, alias_state) fmap \<Rightarrow> jsstring list \<Rightarrow> jsstring \<Rightarrow> hlc_timestamp
    \<Rightarrow> number \<Rightarrow> (jsstring, alias_state) fmap" where
  "buildAliases pf current aliasTexts node stamp nowMs =
     (if aliasTexts = [] then current
      else foldl (\<lambda>next aliasText.
        (let aliasKey = dictionaryTermKey pf aliasText
         in if aliasKey = [] then next
            else fmupd aliasKey
              (case fmlookup next aliasKey of
                 Some existing \<Rightarrow>
                   \<lparr>al_text = aliasText, al_textStamp = stamp,
                    al_counters = fmupd node
                      ((case fmlookup (al_counters existing) node of None \<Rightarrow> 0 | Some v \<Rightarrow> v) + 1) (al_counters existing),
                    al_lastSeenAt = max (al_lastSeenAt existing) nowMs\<rparr>
               | None \<Rightarrow>
                   \<lparr>al_text = aliasText, al_textStamp = stamp, al_counters = fmupd node 1 fmempty, al_lastSeenAt = nowMs\<rparr>)
              next))
        (copyDictionaryMap (Some current)) aliasTexts)"

fun normalizeAliasTexts_loop :: "platform \<Rightarrow> jsstring \<Rightarrow> jsstring list \<Rightarrow> jsstring set \<Rightarrow> jsstring list" where
  "normalizeAliasTexts_loop pf termKey [] seen = []"
| "normalizeAliasTexts_loop pf termKey (raw # rest) seen =
     (let text = normalizeDictionaryTermText raw; key = dictionaryTermKey pf text
      in if key = [] \<or> key = termKey \<or> isAliasRemovalMarkerKey key \<or> key \<in> seen
         then normalizeAliasTexts_loop pf termKey rest seen
         else text # normalizeAliasTexts_loop pf termKey rest (insert key seen))"

definition normalizeAliasTexts :: "platform \<Rightarrow> jsstring list option \<Rightarrow> jsstring \<Rightarrow> jsstring list" where
  "normalizeAliasTexts pf aliases termKey =
     (case aliases of None \<Rightarrow> [] | Some raws \<Rightarrow> normalizeAliasTexts_loop pf termKey raws {})"

definition createIncarnation :: "platform \<Rightarrow> hlc_timestamp \<Rightarrow> jsstring \<Rightarrow> source \<Rightarrow> stage \<Rightarrow> jsstring \<Rightarrow> jsstring list
    \<Rightarrow> number \<Rightarrow> incarnation" where
  "createIncarnation pf tag text src stg node aliasTexts nowMs =
     \<lparr>in_tag = tag, in_text = text, in_textStamp = tag, in_source = src, in_stage = stg,
      in_counters = fmupd node 1 fmempty,
      in_aliases = buildAliases pf fmempty aliasTexts node tag nowMs,
      in_createdAt = nowMs, in_updatedAt = nowMs\<rparr>"

definition bumpIncarnation :: "platform \<Rightarrow> incarnation \<Rightarrow> jsstring \<Rightarrow> stage \<Rightarrow> jsstring list \<Rightarrow> hlc_timestamp \<Rightarrow> number
    \<Rightarrow> incarnation" where
  "bumpIncarnation pf i node stg aliasTexts stamp nowMs =
     i\<lparr>in_stage := (if in_stage i = Entry \<or> stg = Entry then Entry else Candidate),
       in_counters := fmupd node ((case fmlookup (in_counters i) node of None \<Rightarrow> 0 | Some v \<Rightarrow> v) + 1)
         (copyDictionaryMap (Some (in_counters i))),
       in_aliases := buildAliases pf (in_aliases i) aliasTexts node stamp nowMs,
       in_updatedAt := max (in_updatedAt i) nowMs\<rparr>"

text \<open>\<open>state.records[key]\<close>, its live incarnations, and its two fields where it may be absent.\<close>

definition live_at :: "sync_state \<Rightarrow> jsstring \<Rightarrow> incarnation list" where
  "live_at s key = (case fmlookup (st_records s) key of None \<Rightarrow> [] | Some r \<Rightarrow> listLiveIncarnations r)"

definition tombstones_at :: "sync_state \<Rightarrow> jsstring \<Rightarrow> (hlc_timestamp, hlc_timestamp) fmap" where
  "tombstones_at s key = (case fmlookup (st_records s) key of None \<Rightarrow> fmempty | Some r \<Rightarrow> rc_tombstones r)"

definition incarnations_at :: "sync_state \<Rightarrow> jsstring \<Rightarrow> (hlc_timestamp, incarnation) fmap" where
  "incarnations_at s key = (case fmlookup (st_records s) key of None \<Rightarrow> fmempty | Some r \<Rightarrow> rc_incarnations r)"

section \<open>Learning\<close>

record learning_event =
  le_text :: jsstring
  le_aliases :: "jsstring list option"
  le_stage :: stage
  le_nowMs :: number

definition recordLearningEvent :: "platform \<Rightarrow> sync_state \<Rightarrow> hlc_clock \<Rightarrow> learning_event \<Rightarrow> mutation_result" where
  "recordLearningEvent pf s c input =
     (let text = normalizeDictionaryTermText (le_text input);
          key = dictionaryTermKey pf text
      in if key = [] then (s, c, False)
         else (let live = live_at s key
               in if hasDictionaryKey (st_suppressed s) key \<and> \<not> list_ex (\<lambda>item. in_source item = Manual) live
                  then (s, c, False)
                  else (let aliasTexts = normalizeAliasTexts pf (le_aliases input) key;
                            (clock, stamp) = tickHlc c (le_nowMs input)
                        in case live of
                             [] \<Rightarrow>
                               (putRecord s key
                                  \<lparr>rc_incarnations = fmupd stamp
                                     (createIncarnation pf stamp text Automatic (le_stage input) (nodeId c) aliasTexts
                                        (le_nowMs input)) fmempty,
                                   rc_tombstones = tombstones_at s key\<rparr> None, clock, True)
                           | target # _ \<Rightarrow>
                               (let targetAliases = hd (fst (resolve_list (tombstoned_ancestors s) key [target] fmempty));
                                    nextCount = live_total live + 1
                                in (putRecord s key
                                      \<lparr>rc_incarnations = fmupd (in_tag target)
                                         (bumpIncarnation pf (target\<lparr>in_aliases := targetAliases\<rparr>) (nodeId c)
                                            (if DICTIONARY_CANDIDATE_PROMOTION_COUNT \<le> nextCount then Entry else le_stage input)
                                            aliasTexts stamp (le_nowMs input)) (incarnations_at s key),
                                       rc_tombstones = tombstones_at s key\<rparr> (Some clock), clock, True)))))"

definition promoteTermToEntry :: "sync_state \<Rightarrow> hlc_clock \<Rightarrow> jsstring \<Rightarrow> number \<Rightarrow> mutation_result" where
  "promoteTermToEntry s c termKey nowMs =
     (case fmlookup (st_records s) termKey of
        None \<Rightarrow> (s, c, False)
      | Some r \<Rightarrow>
          (let live = listLiveIncarnations r
           in if live = [] \<or> list_all (\<lambda>item. in_stage item = Entry) live then (s, c, False)
              else (let (clock, stamp) = tickHlc c nowMs;
                        incs = foldl (\<lambda>incs i. if in_stage i = Entry then incs
                            else fmupd (in_tag i) (i\<lparr>in_stage := Entry, in_updatedAt := nowMs\<rparr>) incs)
                          (rc_incarnations r) live
                    in (putRecord s termKey (r\<lparr>rc_incarnations := incs\<rparr>) (Some clock), clock, True))))"

text \<open>The loop reads the records of the state it was given and writes into the accumulated one.\<close>

definition promote_step :: "sync_state \<Rightarrow> number \<Rightarrow> sync_state \<times> hlc_clock \<times> bool \<Rightarrow> jsstring \<times> dict_record
    \<Rightarrow> sync_state \<times> hlc_clock \<times> bool" where
  "promote_step s nowMs acc kr =
     (case (acc, kr) of ((nextS, nextC, changed), (key, r)) \<Rightarrow>
       (let live = listLiveIncarnations r
        in if hasDictionaryKey (st_suppressed s) key \<or> list_ex (\<lambda>item. in_stage item = Entry) live then acc
           else if live_total live < DICTIONARY_CANDIDATE_PROMOTION_COUNT then acc
           else (let (s', c', ch) = promoteTermToEntry nextS nextC key
                       (foldl max nowMs (map in_updatedAt live))
                 in (s', c', changed \<or> ch))))"

definition promoteEligibleDictionaryCandidates :: "sync_state \<Rightarrow> hlc_clock \<Rightarrow> number \<Rightarrow> mutation_result" where
  "promoteEligibleDictionaryCandidates s c nowMs =
     foldl (promote_step s nowMs) (s, c, False) (obj_entries (st_records s))"

section \<open>Seeding\<close>

record seed_term =
  se_allowTombstonedRevival :: bool
  se_text :: jsstring
  se_source :: source
  se_stage :: stage
  se_count :: number
  se_aliases :: "(jsstring \<times> number option) list"
  se_nowMs :: number

definition seed_aliases :: "platform \<Rightarrow> jsstring \<Rightarrow> jsstring \<Rightarrow> hlc_timestamp \<Rightarrow> number \<Rightarrow> (jsstring \<times> number option) list
    \<Rightarrow> (jsstring, alias_state) fmap" where
  "seed_aliases pf key node stamp nowMs inputs = foldl (\<lambda>aliases (rawText, cnt).
     (let aliasText = normalizeDictionaryTermText rawText;
          aliasKey = dictionaryTermKey pf aliasText
      in if aliasKey = [] \<or> aliasKey = key \<or> hasDictionaryKey aliases aliasKey then aliases
         else fmupd aliasKey
           \<lparr>al_text = aliasText, al_textStamp = stamp,
            al_counters = withDictionaryKey None node (max 1 (Math_floor (case cnt of None \<Rightarrow> 1 | Some v \<Rightarrow> v))),
            al_lastSeenAt = nowMs\<rparr> aliases))
     createDictionaryMap inputs"

definition seedTerm :: "platform \<Rightarrow> sync_state \<Rightarrow> hlc_clock \<Rightarrow> seed_term \<Rightarrow> mutation_result" where
  "seedTerm pf s c input =
     (let text = normalizeDictionaryTermText (se_text input);
          key = dictionaryTermKey pf text
      in if key = [] then (s, c, False)
         else if live_at s key \<noteq> [] then (s, c, False)
         else if fmlookup (st_records s) key \<noteq> None \<and> \<not> se_allowTombstonedRevival input then (s, c, False)
         else if se_source input = Automatic \<and> hasDictionaryKey (st_suppressed s) key then (s, c, False)
         else
           (let (clock, stamp) = tickHlc c (se_nowMs input);
                cnt = max 1 (Math_floor (se_count input));
                i = createIncarnation pf stamp text (se_source input) (se_stage input) (nodeId c) [] (se_nowMs input);
                i' = i\<lparr>in_counters := withDictionaryKey None (nodeId c) cnt,
                       in_aliases := seed_aliases pf key (nodeId c) stamp (se_nowMs input) (se_aliases input)\<rparr>
            in (putRecord s key \<lparr>rc_incarnations = fmupd stamp i' (incarnations_at s key),
                                 rc_tombstones = tombstones_at s key\<rparr> None, clock, True)))"

section \<open>Adding and deleting\<close>

definition addManualEntry :: "platform \<Rightarrow> sync_state \<Rightarrow> hlc_clock \<Rightarrow> jsstring \<Rightarrow> number \<Rightarrow> mutation_result" where
  "addManualEntry pf s c rawText nowMs =
     (let text = normalizeDictionaryTermText rawText;
          key = dictionaryTermKey pf text
      in if key = [] then (s, c, False)
         else if list_ex (\<lambda>item. in_source item = Manual \<and> in_stage item = Entry) (live_at s key) then (s, c, False)
         else (let (clock, stamp) = tickHlc c nowMs
               in (putRecord s key
                     \<lparr>rc_incarnations = fmupd stamp (createIncarnation pf stamp text Manual Entry (nodeId c) [] nowMs)
                        (incarnations_at s key),
                      rc_tombstones = tombstones_at s key\<rparr> None, clock, True)))"

definition delete_step :: "platform \<Rightarrow> number \<Rightarrow> bool \<Rightarrow> mutation_result \<Rightarrow> jsstring \<Rightarrow> mutation_result" where
  "delete_step pf nowMs suppressAutomatic acc rawKey =
     (case acc of (s, c, changed) \<Rightarrow>
       (let key = dictionaryTermKey pf rawKey
        in case (if key \<noteq> [] then fmlookup (st_records s) key else None) of
             None \<Rightarrow> acc
           | Some r \<Rightarrow>
               (let live = listLiveIncarnations r
                in if live = [] then acc
                   else (let (clock, stamp) = tickHlc c nowMs;
                             tombs = foldl (\<lambda>ts i. fmupd (in_tag i) stamp ts) (rc_tombstones r) live;
                             isAutomatic = (\<not> list_ex (\<lambda>item. in_source item = Manual) live);
                             s' = putRecord s key (r\<lparr>rc_tombstones := tombs\<rparr>) None;
                             s'' = (if suppressAutomatic \<and> isAutomatic \<and> \<not> hasDictionaryKey (st_suppressed s') key
                                    then s'\<lparr>st_suppressed := withDictionaryKey (Some (st_suppressed s')) key
                                           \<lparr>su_text = pickDisplayText live, su_stamp = stamp\<rparr>\<rparr>
                                    else s')
                         in (s'', clock, True)))))"

definition deleteTerms :: "platform \<Rightarrow> sync_state \<Rightarrow> hlc_clock \<Rightarrow> jsstring list \<Rightarrow> number \<Rightarrow> bool \<Rightarrow> mutation_result" where
  "deleteTerms pf s c termKeys nowMs suppressAutomatic =
     foldl (delete_step pf nowMs suppressAutomatic) (s, c, False) termKeys"

section \<open>Renaming\<close>

definition renameTerm :: "platform \<Rightarrow> sync_state \<Rightarrow> hlc_clock \<Rightarrow> jsstring \<Rightarrow> jsstring \<Rightarrow> number \<Rightarrow> mutation_result" where
  "renameTerm pf s c termKey rawNext nowMs =
     (let fromKey = dictionaryTermKey pf termKey;
          nextText = normalizeDictionaryTermText rawNext;
          toKey = dictionaryTermKey pf nextText
      in if fromKey = [] \<or> toKey = [] then (s, c, False)
         else (let live = with_moved_aliases s fromKey (live_at s fromKey)
               in if live = [] then (s, c, False)
                  else if fromKey \<noteq> toKey then
                    (let (clock, stamp) = tickHlc c nowMs;
                         moved = foldl (\<lambda>m i.
                           (let movedTag = deriveMoveTag (in_tag i) toKey
                            in fmupd movedTag (i\<lparr>in_tag := movedTag, in_text := nextText, in_textStamp := stamp,
                                 in_source := Manual, in_stage := Entry, in_updatedAt := nowMs\<rparr>) m)) createDictionaryMap live;
                         (s', c', _) = deleteTerms pf s clock [fromKey] nowMs False
                     in (putRecord s' toKey \<lparr>rc_incarnations = incarnations_at s' toKey ++\<^sub>f moved,
                                             rc_tombstones = tombstones_at s' toKey\<rparr> None, c', True))
                  else if list_all (\<lambda>item. in_text item = nextText \<and> in_source item = Manual) live then (s, c, False)
                  else
                    (let (clock, stamp) = tickHlc c nowMs;
                         incs = foldl (\<lambda>m i. fmupd (in_tag i) (i\<lparr>in_text := nextText, in_textStamp := stamp,
                             in_source := Manual, in_updatedAt := max (in_updatedAt i) nowMs\<rparr>) m)
                           (incarnations_at s fromKey) live
                     in (putRecord s fromKey \<lparr>rc_incarnations = incs, rc_tombstones = tombstones_at s fromKey\<rparr> None,
                         clock, True))))"

section \<open>Editing aliases\<close>

text \<open>\<open>new Map(aliasTexts.map((text) => [dictionaryTermKey(text), text]))\<close>.\<close>

definition desired_aliases :: "platform \<Rightarrow> jsstring list \<Rightarrow> (jsstring, jsstring) fmap" where
  "desired_aliases pf aliasTexts = foldl (\<lambda>m text. fmupd (dictionaryTermKey pf text) text m) fmempty aliasTexts"

text \<open>The visible aliases across the live incarnations, with the text last written.\<close>

definition current_step :: "platform \<Rightarrow> (jsstring, jsstring \<times> hlc_timestamp) fmap \<Rightarrow> incarnation
    \<Rightarrow> (jsstring, jsstring \<times> hlc_timestamp) fmap" where
  "current_step pf current i =
     (let removalIndex = indexAliasRemovalMarkers pf (in_aliases i)
      in foldl (\<lambda>current (aliasKey, al).
           if isAliasRemovalMarkerKey aliasKey then current
           else if readAliasStateVisibleCount al (fmlookup removalIndex aliasKey) = 0 then current
           else case fmlookup current aliasKey of
               None \<Rightarrow> fmupd aliasKey (al_text al, al_textStamp al) current
             | Some existing \<Rightarrow>
                 if 0 < compareHlc (al_textStamp al) (snd existing)
                 then fmupd aliasKey (al_text al, al_textStamp al) current else current)
         current (obj_entries (in_aliases i)))"

text \<open>Removing one alias: a marker for every bucket above its floor, or a refreshed one.\<close>

definition put_marker :: "platform \<Rightarrow> hlc_timestamp \<Rightarrow> jsstring \<Rightarrow> jsstring \<Rightarrow> number \<Rightarrow> (jsstring, alias_state) fmap
    \<Rightarrow> (jsstring, alias_state) fmap" where
  "put_marker pf stamp aliasKey node n aliases =
     (let (k, v) = createAliasRemovalMarker pf stamp
            \<lparr>mk_aliasKey = aliasKey, mk_counterNodeId = node, mk_removedCount = n\<rparr>
      in fmupd k v aliases)"

definition remove_alias :: "platform \<Rightarrow> hlc_timestamp \<Rightarrow> jsstring \<Rightarrow> alias_state \<Rightarrow> alias_removal_state option
    \<Rightarrow> (jsstring, alias_state) fmap \<Rightarrow> (jsstring, alias_state) fmap" where
  "remove_alias pf stamp aliasKey existing removal aliases =
     (let fl = map_option rm_floor removal;
          counterVisibleCount = readAliasVisibleCount (al_counters existing) fl;
          marked = foldl (\<lambda>aliases (node, rawCount).
              (let removedCount = Math_floor rawCount
               in if removedCount \<le> floor_at fl node then aliases
                  else put_marker pf stamp aliasKey node removedCount aliases))
            aliases (obj_entries (al_counters existing))
      in if counterVisibleCount = 0
         then (case sort_by (\<lambda>a b. pf_localeLe pf (fst a) (fst b))
                      (filter (\<lambda>(_, rawCount). 0 < Math_floor rawCount) (obj_entries (al_counters existing))) of
                 [] \<Rightarrow> marked
               | (node, rawCount) # _ \<Rightarrow> put_marker pf stamp aliasKey node (Math_floor rawCount) marked)
         else marked)"

definition edit_alias :: "platform \<Rightarrow> hlc_timestamp \<Rightarrow> (jsstring, jsstring) fmap \<Rightarrow> (jsstring, alias_removal_state) fmap
    \<Rightarrow> (jsstring, alias_state) fmap \<Rightarrow> jsstring \<times> alias_state \<Rightarrow> (jsstring, alias_state) fmap" where
  "edit_alias pf stamp desired floors aliases entry =
     (case entry of (aliasKey, existing) \<Rightarrow>
       if isAliasRemovalMarkerKey aliasKey then aliases
       else case fmlookup desired aliasKey of
           Some desiredText \<Rightarrow>
             if al_text existing \<noteq> desiredText
             then fmupd aliasKey (existing\<lparr>al_text := desiredText, al_textStamp := stamp\<rparr>) aliases else aliases
         | None \<Rightarrow>
             (let removal = fmlookup floors aliasKey
              in if readAliasStateVisibleCount existing removal = 0 then aliases
                 else remove_alias pf stamp aliasKey existing removal aliases))"

definition add_desired :: "jsstring \<Rightarrow> hlc_timestamp \<Rightarrow> number \<Rightarrow> (jsstring, jsstring \<times> hlc_timestamp) fmap
    \<Rightarrow> (jsstring, alias_removal_state) fmap \<Rightarrow> (jsstring, alias_state) fmap \<Rightarrow> jsstring \<times> jsstring
    \<Rightarrow> (jsstring, alias_state) fmap" where
  "add_desired node stamp nowMs current floors aliases entry =
     (case entry of (aliasKey, text) \<Rightarrow>
       if fmlookup current aliasKey \<noteq> None then aliases
       else
         (let existing = fmlookup aliases aliasKey;
              counters = copyDictionaryMap (map_option al_counters existing);
              mine = (case fmlookup counters node of None \<Rightarrow> 0 | Some v \<Rightarrow> v);
              counters' = fmupd node (max mine (floor_at (map_option rm_floor (fmlookup floors aliasKey)) node) + 1) counters
          in fmupd aliasKey
               \<lparr>al_text = text, al_textStamp = stamp, al_counters = counters',
                al_lastSeenAt = max (case existing of None \<Rightarrow> 0 | Some al \<Rightarrow> al_lastSeenAt al) nowMs\<rparr> aliases))"

definition replaceTermAliases :: "platform \<Rightarrow> sync_state \<Rightarrow> hlc_clock \<Rightarrow> jsstring \<Rightarrow> jsstring option \<Rightarrow> jsstring list \<Rightarrow> number
    \<Rightarrow> mutation_result" where
  "replaceTermAliases pf s c termKey primaryText aliasInputs nowMs =
     (let key = dictionaryTermKey pf termKey;
          live = with_moved_aliases s key (live_at s key)
      in if key = [] \<or> live = [] then (s, c, False)
         else
           (let primaryKey = dictionaryTermKey pf (case primaryText of None \<Rightarrow> termKey | Some p \<Rightarrow> p);
                aliasTexts = normalizeAliasTexts pf (Some aliasInputs) primaryKey;
                desired = desired_aliases pf aliasTexts;
                current = foldl (current_step pf) fmempty live;
                unchanged = (length (obj_keys current) = length (obj_keys desired)
                  \<and> list_all (\<lambda>(aliasKey, text). map_option fst (fmlookup current aliasKey) = Some text) (obj_entries desired)
                  \<and> list_all (\<lambda>i. in_source i = Manual \<and> in_stage i = Entry) live)
            in if unchanged then (s, c, False)
               else
                 (let (clock, stamp) = tickHlc c nowMs;
                      primaryTag = in_tag (hd (sort_by (\<lambda>a b. pf_localeLe pf (in_tag a) (in_tag b)) live));
                      incs = foldl (\<lambda>m i.
                        (let floors = indexAliasRemovalMarkers pf (in_aliases i);
                             edited = foldl (edit_alias pf stamp desired floors)
                               (copyDictionaryMap (Some (in_aliases i))) (obj_entries (in_aliases i));
                             aliases = (if in_tag i = primaryTag
                               then foldl (add_desired (nodeId c) stamp nowMs current floors) edited (obj_entries desired)
                               else edited)
                         in fmupd (in_tag i) (i\<lparr>in_source := Manual, in_stage := Entry, in_aliases := aliases,
                              in_updatedAt := max (in_updatedAt i) nowMs\<rparr>) m)) (incarnations_at s key) live
                  in (putRecord s key \<lparr>rc_incarnations = incs, rc_tombstones = tombstones_at s key\<rparr> (Some clock),
                      clock, True))))"

section \<open>Reading ids back, pruning and collecting\<close>

definition termKeyFromMaterializedId :: "platform \<Rightarrow> sync_state \<Rightarrow> jsstring \<Rightarrow> materialize_limits \<Rightarrow> jsstring option" where
  "termKeyFromMaterializedId pf s entryId limits =
     (let trimmed = trim entryId
      in if trimmed = [] then None
         else if starts_with trimmed MATERIALIZED_ID_PREFIX
         then (let key = drop (length MATERIALIZED_ID_PREFIX) trimmed
               in if hasDictionaryKey (st_records s) key then Some key else None)
         else map_option (\<lambda>e. dictionaryTermKey pf (me_text e))
           (find (\<lambda>e. me_id e = trimmed) (md_entries (materializeDictionary pf s limits))))"

definition DEFAULT_TOMBSTONE_TTL_MS :: number where
  "DEFAULT_TOMBSTONE_TTL_MS = 180 * 24 * 60 * 60 * 1000"

definition MAX_AUTOMATIC_CANDIDATE_RECORDS :: int where
  "MAX_AUTOMATIC_CANDIDATE_RECORDS = 2000"

definition weak_candidates :: "sync_state \<Rightarrow> (jsstring \<times> number) list" where
  "weak_candidates s = map (\<lambda>(key, r). (key, live_total (listLiveIncarnations r)))
     (filter (\<lambda>(key, r). listLiveIncarnations r \<noteq> []
        \<and> \<not> list_ex (\<lambda>item. in_stage item = Entry \<or> in_source item = Manual) (listLiveIncarnations r))
        (obj_entries (st_records s)))"

definition pruneWeakAutomaticCandidates :: "platform \<Rightarrow> sync_state \<Rightarrow> hlc_clock \<Rightarrow> int \<Rightarrow> number \<Rightarrow> mutation_result" where
  "pruneWeakAutomaticCandidates pf s c maxRecords nowMs =
     (let limit = max 0 maxRecords;
          candidates = weak_candidates s
      in if int (length candidates) \<le> limit then (s, c, False)
         else
           (let doomed = map fst (slice0 (int (length candidates) - limit)
                  (sort_by (\<lambda>a b. or_else (snd a - snd b) (if fst a < fst b then -1 else 1) \<le> 0) candidates))
            in deleteTerms pf s c doomed nowMs False))"

text \<open>The tags of a record whose tombstone has expired.\<close>

definition expired_tag :: "number \<Rightarrow> dict_record \<Rightarrow> hlc_timestamp \<Rightarrow> bool" where
  "expired_tag threshold r tag = (case fmlookup (rc_tombstones r) tag of None \<Rightarrow> False
     | Some stamp \<Rightarrow> of_int (hlcWallMs stamp) < threshold)"

text \<open>One record of the collection loop: the record that is kept, if any, whether anything expired, the memo.\<close>

definition gc_record :: "platform \<Rightarrow> sync_state \<Rightarrow> number \<Rightarrow> jsstring \<Rightarrow> dict_record \<Rightarrow> alias_memo
    \<Rightarrow> dict_record option \<times> bool \<times> alias_memo" where
  "gc_record pf s threshold key r memo =
     (let expired = expired_tag threshold r;
          tombstones = fmfilter (\<lambda>tag. \<not> expired tag) (rc_tombstones r);
          kept = filter (\<lambda>(tag, i). \<not> expired tag) (obj_entries (rc_incarnations r));
          (resolved, memo') = resolve_list (tombstoned_ancestors s) key (map snd kept) memo;
          collected = map (\<lambda>aliases. gcExpiredRemovedAliases pf aliases threshold) resolved;
          incs = fmap_of_list (map2 (\<lambda>(tag, i) gc. (tag, i\<lparr>in_aliases := fst gc\<rparr>)) kept collected);
          changed = (list_ex expired (obj_keys (rc_tombstones r)) \<or> list_ex snd collected)
      in ((if obj_keys incs \<noteq> [] \<or> obj_keys tombstones \<noteq> []
           then Some \<lparr>rc_incarnations = incs, rc_tombstones = tombstones\<rparr> else None), changed, memo'))"

definition gc_step :: "platform \<Rightarrow> sync_state \<Rightarrow> number
    \<Rightarrow> (jsstring, dict_record) fmap \<times> bool \<times> alias_memo \<Rightarrow> jsstring \<times> dict_record
    \<Rightarrow> (jsstring, dict_record) fmap \<times> bool \<times> alias_memo" where
  "gc_step pf s threshold acc kr =
     (case (acc, kr) of ((records, changed, memo), (key, r)) \<Rightarrow>
       (let (r', ch, memo') = gc_record pf s threshold key r memo
        in ((case r' of None \<Rightarrow> records | Some q \<Rightarrow> fmupd key q records), changed \<or> ch, memo')))"

definition has_expired_state :: "sync_state \<Rightarrow> number \<Rightarrow> bool" where
  "has_expired_state s threshold = list_ex (\<lambda>r.
     list_ex (\<lambda>stamp. of_int (hlcWallMs stamp) < threshold) (obj_values (rc_tombstones r))
     \<or> list_ex (\<lambda>i. list_ex (\<lambda>(aliasKey, al). isAliasRemovalMarkerKey aliasKey
           \<and> of_int (hlcWallMs (al_textStamp al)) < threshold) (obj_entries (in_aliases i)))
         (obj_values (rc_incarnations r)))
     (obj_values (st_records s))"

definition gcTombstones :: "platform \<Rightarrow> sync_state \<Rightarrow> number \<Rightarrow> number \<Rightarrow> sync_state" where
  "gcTombstones pf s nowMs ttlMs =
     (let threshold = nowMs - ttlMs
      in if \<not> has_expired_state s threshold then s
         else (let (records, changed, _) = foldl (gc_step pf s threshold) (createDictionaryMap, False, fmempty)
                       (obj_entries (st_records s))
               in if changed then s\<lparr>st_records := records\<rparr> else s))"

end
