(* ===== verification/DictMutateLemmas.thy ===== *)
theory DictMutateLemmas
  imports DictMutate
begin

text \<open>
  Lemmas on the operations of \<open>DictMutate\<close>: the live incarnations and totals of an updated
  record, and that every operation keeps states well formed.
\<close>

section \<open>Live incarnations of a record\<close>

definition live_tags :: "dict_record \<Rightarrow> hlc_timestamp set" where
  "live_tags r = fset (fmdom (rc_incarnations r)) - fset (fmdom (rc_tombstones r))"

definition tag_total :: "(hlc_timestamp, incarnation) fmap \<Rightarrow> hlc_timestamp \<Rightarrow> number" where
  "tag_total incs t = (case fmlookup incs t of None \<Rightarrow> 0 | Some i \<Rightarrow> readCounterTotal (in_counters i))"

lemma finite_live_tags [simp]: "finite (live_tags r)"
  by (simp add: live_tags_def)

lemma ok_record_lookup: "ok_record r \<Longrightarrow> fmlookup (rc_incarnations r) t = Some i \<Longrightarrow> ok_incarnation t i"
  by (auto simp: ok_record_def dest: fmpredD)

lemma ok_record_tag: "ok_record r \<Longrightarrow> fmlookup (rc_incarnations r) t = Some i \<Longrightarrow> in_tag i = t"
  by (auto simp: ok_incarnation_def dest: ok_record_lookup)

lemma in_live:
  "ok_record r \<Longrightarrow> i \<in> set (listLiveIncarnations r) \<longleftrightarrow>
    fmlookup (rc_incarnations r) (in_tag i) = Some i \<and> fmlookup (rc_tombstones r) (in_tag i) = None"
  by (auto simp: set_listLiveIncarnations fmlookup_dom_iff dest: ok_record_tag)

lemma live_tags_image: "ok_record r \<Longrightarrow> in_tag ` set (listLiveIncarnations r) = live_tags r"
proof (intro set_eqI iffI)
  fix t assume r: "ok_record r" "t \<in> live_tags r"
  then obtain i where "fmlookup (rc_incarnations r) t = Some i" "fmlookup (rc_tombstones r) t = None"
    by (auto simp: live_tags_def fmlookup_dom_iff)
  with r have "i \<in> set (listLiveIncarnations r)" "in_tag i = t"
    by (auto simp: in_live dest: ok_record_tag)
  then show "t \<in> in_tag ` set (listLiveIncarnations r)" by blast
qed (auto simp: in_live live_tags_def fmlookup_dom_iff)

lemma live_empty_iff: "ok_record r \<Longrightarrow> listLiveIncarnations r = [] \<longleftrightarrow> live_tags r = {}"
  using live_tags_image [of r] by auto

lemma obj_values_tags:
  assumes "ok_record r"
  shows "map in_tag (obj_values (rc_incarnations r)) = obj_keys (rc_incarnations r)"
  unfolding obj_values_keys map_map comp_def
  by (rule map_idI) (use assms in \<open>auto simp: fmlookup_dom_iff dest: ok_record_tag\<close>)

lemma distinct_live_tags:
  assumes "ok_record r"
  shows "distinct (map in_tag (listLiveIncarnations r))"
proof -
  have "distinct (map in_tag (obj_values (rc_incarnations r)))"
    using obj_values_tags [OF assms] by simp
  then have "distinct (map in_tag (filter P (obj_values (rc_incarnations r))))" for P
    by (rule distinct_map_filter)
  then show ?thesis
    unfolding listLiveIncarnations_def
    by (metis (no_types) mset_map mset_sort mset_eq_imp_distinct_iff)
qed

lemma live_total_tags:
  assumes "ok_record r"
  shows "live_total (listLiveIncarnations r) = (\<Sum>t \<in> live_tags r. tag_total (rc_incarnations r) t)"
proof -
  let ?l = "listLiveIncarnations r"
  have "live_total ?l = (\<Sum>i \<leftarrow> ?l. tag_total (rc_incarnations r) (in_tag i))"
    unfolding live_total_sum
    using in_live [OF assms] by (intro arg_cong [where f = sum_list] map_cong) (auto simp: tag_total_def)
  also have "\<dots> = (\<Sum>t \<leftarrow> map in_tag ?l. tag_total (rc_incarnations r) t)"
    by (simp add: comp_def)
  also have "\<dots> = (\<Sum>t \<in> live_tags r. tag_total (rc_incarnations r) t)"
    using distinct_live_tags [OF assms] live_tags_image [OF assms]
    by (simp only: sum_list_distinct_conv_sum_set set_map)
  finally show ?thesis .
qed

lemma tag_total_nonneg [simp]: "0 \<le> tag_total incs t"
  by (simp add: tag_total_def split: option.split)

text \<open>Records of a state by key, absent ones empty.\<close>

definition record_at :: "sync_state \<Rightarrow> jsstring \<Rightarrow> dict_record" where
  "record_at s k = \<lparr>rc_incarnations = incarnations_at s k, rc_tombstones = tombstones_at s k\<rparr>"

definition total_at :: "sync_state \<Rightarrow> jsstring \<Rightarrow> number" where
  "total_at s k = live_total (live_at s k)"

lemma listLive_empty [simp]: "listLiveIncarnations \<lparr>rc_incarnations = fmempty, rc_tombstones = ts\<rparr> = []"
  by (simp add: listLiveIncarnations_def)

lemma record_at_lookup [simp]: "fmlookup (st_records s) k = Some r \<Longrightarrow> record_at s k = r"
  by (simp add: record_at_def incarnations_at_def tombstones_at_def)

lemma live_at_record_at: "live_at s k = listLiveIncarnations (record_at s k)"
  by (cases "fmlookup (st_records s) k")
    (simp_all add: live_at_def, simp add: record_at_def incarnations_at_def)

lemma record_at_simps [simp]: "rc_incarnations (record_at s k) = incarnations_at s k" "rc_tombstones (record_at s k) = tombstones_at s k"
  by (simp_all add: record_at_def)

lemma ok_record_at: "ok_state s \<Longrightarrow> ok_record (record_at s k)"
  by (cases "fmlookup (st_records s) k")
    (auto simp: record_at_def incarnations_at_def tombstones_at_def ok_state_def ok_record_def dest: fmpredD)

lemma record_at_putRecord [simp]: "record_at (putRecord s k r m) k' = (if k' = k then r else record_at s k')"
  by (cases m) (auto simp: putRecord_def record_at_def incarnations_at_def tombstones_at_def Let_def)

lemma incarnations_at_putRecord [simp]:
  "incarnations_at (putRecord s k r m) k' = (if k' = k then rc_incarnations r else incarnations_at s k')"
  by (metis record_at_putRecord record_at_simps(1))

lemma tombstones_at_putRecord [simp]:
  "tombstones_at (putRecord s k r m) k' = (if k' = k then rc_tombstones r else tombstones_at s k')"
  by (metis record_at_putRecord record_at_simps(2))

lemma live_at_putRecord [simp]:
  "live_at (putRecord s k r m) k' = (if k' = k then listLiveIncarnations r else live_at s k')"
  by (simp add: live_at_record_at)

lemma suppressed_putRecord [simp]: "st_suppressed (putRecord s k r m) = st_suppressed s"
  by (cases m) (simp_all add: putRecord_def Let_def)

lemma version_putRecord [simp]: "st_version (putRecord s k r m) = st_version s"
  by (cases m) (simp_all add: putRecord_def Let_def)

lemma records_putRecord [simp]: "st_records (putRecord s k r m) = fmupd k r (st_records s)"
  by (cases m) (simp_all add: putRecord_def Let_def)

lemma ok_putRecord: "ok_state s \<Longrightarrow> ok_record r \<Longrightarrow> ok_state (putRecord s k r m)"
  by (auto simp: ok_state_def fmpred_iff split: if_splits)

lemma total_at_tags:
  "ok_state s \<Longrightarrow> total_at s k = (\<Sum>t \<in> live_tags (record_at s k). tag_total (incarnations_at s k) t)"
  unfolding total_at_def live_at_record_at by (simp add: live_total_tags ok_record_at)

section \<open>Well-formedness\<close>

lemma tickHlc_format:
  "snd (tickHlc c n) = formatHlc (fst (tickHlc c n)) \<and> nodeId (fst (tickHlc c n)) = nodeId c"
proof (induction c n rule: tickHlc.induct)
  case (1 c n)
  then show ?case by (subst (1 2 3) tickHlc.simps) (auto simp: Let_def)
qed

lemma formatHlc_nonempty [simp]: "formatHlc c \<noteq> []"
  by (simp add: formatHlc_def Let_def)

lemma stamp_nonempty [simp]: "snd (tickHlc c n) \<noteq> []"
  by (simp add: tickHlc_format)

lemma ok_counter_empty [simp]: "ok_counter fmempty"
  by (simp add: ok_counter_def)

lemma ok_counter_upd: "ok_counter c \<Longrightarrow> 0 < v \<Longrightarrow> Math_floor v = v \<Longrightarrow> ok_counter (fmupd k v c)"
  by (auto simp: ok_counter_def fmpred_iff split: if_splits)

lemma Math_floor_add1: "Math_floor v = v \<Longrightarrow> Math_floor (v + 1) = v + 1"
  by (simp add: Math_floor_def)

lemma ok_counter_bump:
  "ok_counter c \<Longrightarrow> ok_counter (fmupd k ((case fmlookup c k of None \<Rightarrow> 0 | Some v \<Rightarrow> v) + 1) c)"
  by (rule ok_counter_upd)
    (auto simp: ok_counter_def Math_floor_add1 Math_floor_def split: option.split dest!: fmpredD)

lemma ok_counter_single: "0 < v \<Longrightarrow> Math_floor v = v \<Longrightarrow> ok_counter (fmupd k v fmempty)"
  by (rule ok_counter_upd) auto

lemma ok_counter_one [simp]: "ok_counter (fmupd k 1 fmempty)"
  by (rule ok_counter_single) (auto simp: Math_floor_def)

lemma ok_aliases_empty [simp]: "ok_aliases fmempty"
  by (simp add: ok_aliases_def)

lemma ok_aliases_upd: "ok_aliases m \<Longrightarrow> ok_counter (al_counters al) \<Longrightarrow> ok_aliases (fmupd k al m)"
  by (auto simp: ok_aliases_def ok_alias_def fmpred_iff split: if_splits)

lemma ok_aliases_lookup: "ok_aliases m \<Longrightarrow> fmlookup m k = Some al \<Longrightarrow> ok_counter (al_counters al)"
  by (auto simp: ok_aliases_def ok_alias_def dest: fmpredD)

lemma foldl_invariant: "P a \<Longrightarrow> (\<And>a x. P a \<Longrightarrow> x \<in> set xs \<Longrightarrow> P (f a x)) \<Longrightarrow> P (foldl f a xs)"
  by (induction xs arbitrary: a) auto

lemma ok_buildAliases:
  assumes "ok_aliases m"
  shows "ok_aliases (buildAliases pf m texts node stamp now)"
proof -
  have "ok_aliases (foldl (\<lambda>next aliasText.
        (let aliasKey = dictionaryTermKey pf aliasText
         in if aliasKey = [] then next
            else fmupd aliasKey
              (case fmlookup next aliasKey of
                 Some existing \<Rightarrow>
                   \<lparr>al_text = aliasText, al_textStamp = stamp,
                    al_counters = fmupd node
                      ((case fmlookup (al_counters existing) node of None \<Rightarrow> 0 | Some v \<Rightarrow> v) + 1) (al_counters existing),
                    al_lastSeenAt = max (al_lastSeenAt existing) now\<rparr>
               | None \<Rightarrow>
                   \<lparr>al_text = aliasText, al_textStamp = stamp, al_counters = fmupd node 1 fmempty, al_lastSeenAt = now\<rparr>)
              next)) m texts)"
    (is "ok_aliases (foldl ?f m texts)")
  proof (rule foldl_invariant [where P = ok_aliases])
    fix a x assume a: "ok_aliases a"
    show "ok_aliases (?f a x)"
      using ok_aliases_lookup [OF a, of "dictionaryTermKey pf x"]
      by (cases "fmlookup a (dictionaryTermKey pf x)") (auto simp: Let_def a intro!: ok_aliases_upd ok_counter_bump)
  qed (rule assms)
  with assms show ?thesis by (simp add: buildAliases_def)
qed

lemma ok_incarnation_iff:
  "ok_incarnation t i \<longleftrightarrow> in_tag i = t \<and> ok_counter (in_counters i) \<and> ok_aliases (in_aliases i)"
  by (simp add: ok_incarnation_def ok_aliases_def)

lemma ok_createIncarnation: "ok_incarnation t (createIncarnation pf t text src stg node texts now)"
  by (simp add: ok_incarnation_iff createIncarnation_def ok_buildAliases)

lemma ok_bumpIncarnation:
  "ok_incarnation t i \<Longrightarrow> ok_incarnation t (bumpIncarnation pf i node stg texts stamp now)"
  by (simp add: ok_incarnation_iff bumpIncarnation_def ok_buildAliases ok_counter_bump)

lemma ok_record_parts:
  "ok_record \<lparr>rc_incarnations = incs, rc_tombstones = ts\<rparr> \<longleftrightarrow> fmpred ok_incarnation incs \<and> fmpred (\<lambda>_ t. t \<noteq> []) ts"
  by (simp add: ok_record_def)

lemma ok_parts_at:
  "ok_state s \<Longrightarrow> fmpred ok_incarnation (incarnations_at s k)" "ok_state s \<Longrightarrow> fmpred (\<lambda>_ t. t \<noteq> []) (tombstones_at s k)"
  using ok_record_at [of s k] by (simp_all add: ok_record_def)

lemma fmpred_upd: "fmpred P m \<Longrightarrow> P k v \<Longrightarrow> fmpred P (fmupd k v m)"
  by (auto simp: fmpred_iff split: if_splits)

lemma stored_live: "ok_state s \<Longrightarrow> i \<in> set (live_at s k) \<Longrightarrow> stored s k i"
  using in_live [of "record_at s k" i] ok_record_at [of s k]
  by (cases "fmlookup (st_records s) k") (auto simp: live_at_def stored_def)

lemma live_ok_incarnation: "ok_state s \<Longrightarrow> i \<in> set (live_at s k) \<Longrightarrow> ok_incarnation (in_tag i) i"
  using in_live [of "record_at s k" i] ok_record_at [of s k] ok_record_lookup [of "record_at s k" "in_tag i" i]
  by (simp add: live_at_record_at)

text \<open>Live incarnations with the aliases of their rename chain.\<close>

lemma with_moved_aliases_props:
  assumes "ok_state s" "\<forall>i \<in> set is. stored s k i"
  shows "map in_tag (with_moved_aliases s k is) = map in_tag is"
    and "map in_counters (with_moved_aliases s k is) = map in_counters is"
    and "length (with_moved_aliases s k is) = length is"
    and "\<forall>j \<in> set (with_moved_aliases s k is). ok_aliases (in_aliases j) \<and> (\<exists>i \<in> set is. j = i\<lparr>in_aliases := in_aliases j\<rparr>)"
proof -
  let ?as = "fst (resolve_list (tombstoned_ancestors s) k is fmempty)"
  have l: "length ?as = length is" by simp
  show "map in_tag (with_moved_aliases s k is) = map in_tag is"
    "map in_counters (with_moved_aliases s k is) = map in_counters is"
    unfolding with_moved_aliases_def using l by (simp_all add: map2_map_map [symmetric] list_eq_iff_nth_eq)
  show "length (with_moved_aliases s k is) = length is"
    by (simp add: with_moved_aliases_def)
  from resolve_list_sound [OF assms memo_ok_empty]
  have "list_all2 (\<lambda>i m. ok_aliases m) is ?as" by (auto elim: list_all2_mono)
  then show "\<forall>j \<in> set (with_moved_aliases s k is). ok_aliases (in_aliases j) \<and> (\<exists>i \<in> set is. j = i\<lparr>in_aliases := in_aliases j\<rparr>)"
    unfolding with_moved_aliases_def by (auto simp: list_all2_conv_all_nth set_zip)
qed

lemma with_moved_live:
  assumes "ok_state s" "j \<in> set (with_moved_aliases s k (live_at s k))"
  shows "ok_incarnation (in_tag j) j"
proof -
  have "\<forall>i \<in> set (live_at s k). stored s k i" using stored_live [OF assms(1)] by blast
  from with_moved_aliases_props(4) [OF assms(1) this] assms(2)
  obtain i where "i \<in> set (live_at s k)" "j = i\<lparr>in_aliases := in_aliases j\<rparr>" "ok_aliases (in_aliases j)" by blast
  with live_ok_incarnation [OF assms(1), of i k] show ?thesis
    by (metis incarnation.select_convs incarnation.surjective incarnation.update_convs(7) ok_incarnation_iff)
qed

section \<open>Every operation keeps states well formed\<close>

lemma ok_put:
  "ok_state s \<Longrightarrow> fmpred ok_incarnation incs \<Longrightarrow> fmpred (\<lambda>_ t. t \<noteq> []) ts \<Longrightarrow>
    ok_state (putRecord s k \<lparr>rc_incarnations = incs, rc_tombstones = ts\<rparr> m)"
  by (rule ok_putRecord) (simp_all add: ok_record_parts)

lemma ok_recordLearningEvent:
  assumes "ok_state s"
  shows "ok_state (fst (recordLearningEvent pf s c e))"
proof -
  let ?key = "dictionaryTermKey pf (normalizeDictionaryTermText (le_text e))"
  obtain clock stamp where t: "tickHlc c (le_nowMs e) = (clock, stamp)" by (cases "tickHlc c (le_nowMs e)")
  show ?thesis
  proof (cases "live_at s ?key")
    case Nil
    then show ?thesis
      using assms t by (auto simp: recordLearningEvent_def Let_def ok_parts_at
          intro!: ok_put fmpred_upd ok_createIncarnation)
  next
    case (Cons target rest)
    then have target: "target \<in> set (live_at s ?key)" by simp
    have "\<forall>i \<in> set [target]. stored s ?key i" using stored_live [OF assms target] by simp
    from resolve_list_sound [OF assms this memo_ok_empty]
    have "ok_aliases (hd (fst (resolve_list (tombstoned_ancestors s) ?key [target] fmempty)))"
      by (cases "fst (resolve_list (tombstoned_ancestors s) ?key [target] fmempty)") auto
    then have "ok_incarnation (in_tag target)
        (target\<lparr>in_aliases := hd (fst (resolve_list (tombstoned_ancestors s) ?key [target] fmempty))\<rparr>)"
      using live_ok_incarnation [OF assms target] by (simp add: ok_incarnation_iff)
    with Cons t assms show ?thesis
      by (auto simp: recordLearningEvent_def Let_def ok_parts_at simp del: resolve_list.simps
          intro!: ok_put fmpred_upd ok_bumpIncarnation)
  qed
qed

lemma promote_incs_ok:
  assumes "fmpred ok_incarnation incs" "\<forall>i \<in> set live. ok_incarnation (in_tag i) i"
  shows "fmpred ok_incarnation (foldl (\<lambda>incs i. if in_stage i = Entry then incs
     else fmupd (in_tag i) (i\<lparr>in_stage := Entry, in_updatedAt := now\<rparr>) incs) incs live)"
  by (rule foldl_invariant [where P = "fmpred ok_incarnation"])
    (use assms in \<open>auto simp: ok_incarnation_iff intro!: fmpred_upd\<close>)

lemma ok_promoteTermToEntry:
  assumes "ok_state s"
  shows "ok_state (fst (promoteTermToEntry s c k now))"
proof (cases "fmlookup (st_records s) k")
  case (Some r)
  obtain clock stamp where t: "tickHlc c now = (clock, stamp)" by (cases "tickHlc c now")
  have r: "ok_record r" using assms Some by (auto simp: ok_state_def dest: fmpredD)
  have "\<forall>i \<in> set (listLiveIncarnations r). ok_incarnation (in_tag i) i"
    using in_live [OF r] ok_record_lookup [OF r] by blast
  with r assms show ?thesis
    by (auto simp: promoteTermToEntry_def Some t Let_def ok_record_def intro!: ok_putRecord promote_incs_ok)
qed (use assms in \<open>simp add: promoteTermToEntry_def\<close>)

lemma ok_promote_step:
  assumes "ok_state (fst a)"
  shows "ok_state (fst (promote_step s now a x))"
proof -
  obtain s' c' ch k r where e: "a = (s', c', ch)" "x = (k, r)" by (cases a; cases x)
  show ?thesis
    using assms ok_promoteTermToEntry [of s' c' k "foldl max now (map in_updatedAt (listLiveIncarnations r))"]
    by (simp add: e promote_step_def Let_def split_beta)
qed

lemma ok_promoteEligible:
  assumes "ok_state s"
  shows "ok_state (fst (promoteEligibleDictionaryCandidates s c now))"
  unfolding promoteEligibleDictionaryCandidates_def
  by (rule foldl_invariant [where P = "\<lambda>a. ok_state (fst a)"]) (use assms ok_promote_step in auto)

lemma Math_floor_max1: "Math_floor (max 1 (Math_floor v)) = max 1 (Math_floor v)"
  using Math_floor_of_int [of 1] by (simp add: Math_floor_max)

lemma ok_counter_max1 [simp]: "ok_counter (fmupd k (max 1 (Math_floor v)) fmempty)"
  by (rule ok_counter_single) (simp_all add: Math_floor_max1 less_max_iff_disj)

lemma ok_seed_aliases: "ok_aliases (seed_aliases pf key node stamp now inputs)"
  unfolding seed_aliases_def
  by (rule foldl_invariant [where P = ok_aliases])
    (auto simp: createDictionaryMap_def Let_def split: prod.split intro!: ok_aliases_upd)

lemma ok_seedTerm:
  assumes "ok_state s"
  shows "ok_state (fst (seedTerm pf s c input))"
proof -
  obtain clock stamp where t: "tickHlc c (se_nowMs input) = (clock, stamp)" by (cases "tickHlc c (se_nowMs input)")
  show ?thesis
    using assms by (auto simp: seedTerm_def Let_def t ok_parts_at ok_incarnation_iff ok_seed_aliases createIncarnation_def
        intro!: ok_put fmpred_upd)
qed

lemma ok_addManualEntry:
  assumes "ok_state s"
  shows "ok_state (fst (addManualEntry pf s c text now))"
proof -
  obtain clock stamp where t: "tickHlc c now = (clock, stamp)" by (cases "tickHlc c now")
  show ?thesis
    using assms by (auto simp: addManualEntry_def Let_def t ok_parts_at intro!: ok_put fmpred_upd ok_createIncarnation)
qed

lemma fmpred_foldl_upd:
  "fmpred P m \<Longrightarrow> (\<And>i. i \<in> set is \<Longrightarrow> P (f i) (g i)) \<Longrightarrow> fmpred P (foldl (\<lambda>m i. fmupd (f i) (g i) m) m is)"
  by (rule foldl_invariant [where P = "fmpred P"]) (auto intro: fmpred_upd)

lemma ok_delete_step:
  assumes "ok_state (fst a)"
  shows "ok_state (fst (delete_step pf now suppress a rawKey))"
proof -
  obtain s c ch where a: "a = (s, c, ch)" by (cases a)
  let ?key = "dictionaryTermKey pf rawKey"
  show ?thesis
  proof (cases "?key \<noteq> [] \<and> live_at s ?key \<noteq> []")
    case True
    then obtain r where r: "fmlookup (st_records s) ?key = Some r" "listLiveIncarnations r \<noteq> []"
      by (auto simp: live_at_def split: option.splits)
    obtain clock stamp where t: "tickHlc c now = (clock, stamp)" by (cases "tickHlc c now")
    then have "stamp \<noteq> []" using stamp_nonempty [of c now] by simp
    have or: "ok_record r" using assms a r(1) by (auto simp: ok_state_def dest: fmpredD)
    let ?r = "r\<lparr>rc_tombstones := foldl (\<lambda>ts i. fmupd (in_tag i) stamp ts) (rc_tombstones r) (listLiveIncarnations r)\<rparr>"
    have "ok_record ?r"
      using or \<open>stamp \<noteq> []\<close> by (auto simp: ok_record_def intro!: fmpred_foldl_upd)
    then have "ok_state (putRecord s ?key ?r None)" using assms a by (intro ok_putRecord) simp_all
    then show ?thesis
      using True r t by (simp add: a delete_step_def Let_def) (simp add: ok_state_def)
  next
    case False
    then have "delete_step pf now suppress a rawKey = a"
      by (auto simp: a delete_step_def Let_def live_at_def split: option.splits)
    with assms show ?thesis by simp
  qed
qed

lemma ok_deleteTerms:
  assumes "ok_state s"
  shows "ok_state (fst (deleteTerms pf s c keys now suppress))"
  unfolding deleteTerms_def
  by (rule foldl_invariant [where P = "\<lambda>a. ok_state (fst a)"]) (use assms ok_delete_step in auto)

lemma ok_prune: "ok_state s \<Longrightarrow> ok_state (fst (pruneWeakAutomaticCandidates pf s c n now))"
  by (simp add: pruneWeakAutomaticCandidates_def Let_def ok_deleteTerms)

lemma fmpred_add: "fmpred P m \<Longrightarrow> fmpred P n \<Longrightarrow> fmpred P (m ++\<^sub>f n)"
  by (auto simp: fmpred_iff)

lemma ok_renameTerm:
  assumes "ok_state s"
  shows "ok_state (fst (renameTerm pf s c k t now))"
proof -
  let ?from = "dictionaryTermKey pf k" and ?text = "normalizeDictionaryTermText t"
  let ?to = "dictionaryTermKey pf ?text"
  let ?live = "with_moved_aliases s ?from (live_at s ?from)"
  obtain clock stamp where tick: "tickHlc c now = (clock, stamp)" by (cases "tickHlc c now")
  obtain s' c' ch where del: "deleteTerms pf s clock [?from] now False = (s', c', ch)"
    by (cases "deleteTerms pf s clock [?from] now False")
  have s': "ok_state s'" using ok_deleteTerms [OF assms, of pf clock "[?from]" now False] del by simp
  let ?moved = "foldl (\<lambda>m i.
      fmupd (deriveMoveTag (in_tag i) ?to) (i\<lparr>in_tag := deriveMoveTag (in_tag i) ?to, in_text := ?text, in_textStamp := stamp,
        in_source := Manual, in_stage := Entry, in_updatedAt := now\<rparr>) m) fmempty ?live"
  have ok: "ok_incarnation (in_tag i) i" if "i \<in> set ?live" for i
    using with_moved_live [OF assms that] .
  have "fmpred ok_incarnation ?moved"
    by (rule fmpred_foldl_upd) (use ok in \<open>auto simp: ok_incarnation_iff\<close>)
  moreover have "fmpred ok_incarnation (foldl (\<lambda>m i. fmupd (in_tag i) (i\<lparr>in_text := ?text, in_textStamp := stamp,
      in_source := Manual, in_updatedAt := max (in_updatedAt i) now\<rparr>) m) (incarnations_at s ?from) ?live)"
    by (rule fmpred_foldl_upd) (use ok assms ok_parts_at in \<open>auto simp: ok_incarnation_iff\<close>)
  ultimately show ?thesis
    using assms s' ok_parts_at
    by (auto simp: renameTerm_def Let_def tick del createDictionaryMap_def intro!: ok_put fmpred_add)
qed

lemma ok_put_marker: "ok_aliases m \<Longrightarrow> ok_aliases (put_marker pf stamp k node n m)"
  by (simp add: put_marker_def createAliasRemovalMarker_def Let_def ok_aliases_upd createDictionaryMap_def)

lemma ok_remove_alias: "ok_aliases m \<Longrightarrow> ok_aliases (remove_alias pf stamp k al removal m)"
proof -
  assume m: "ok_aliases m"
  let ?f = "\<lambda>aliases (node, rawCount). (let removedCount = Math_floor rawCount
               in if removedCount \<le> floor_at (map_option rm_floor removal) node then aliases
                  else put_marker pf stamp k node removedCount aliases)"
  have "ok_aliases (foldl ?f m es)" for es
    by (rule foldl_invariant [where P = ok_aliases]) (auto simp: m Let_def intro: ok_put_marker)
  then show ?thesis
    by (auto simp: remove_alias_def Let_def intro: ok_put_marker split: list.split)
qed

lemma ok_edit_alias:
  "ok_aliases m \<Longrightarrow> ok_counter (al_counters (snd e)) \<Longrightarrow> ok_aliases (edit_alias pf stamp desired floors m e)"
  by (auto simp: edit_alias_def Let_def split: prod.split option.split intro!: ok_aliases_upd ok_remove_alias)

lemma floor_index_step:
  assumes "parseAliasRemovalMarker pf ak al = Some m"
  shows "floor_at (map_option rm_floor (fmlookup (index_marker pf idx (ak, al)) k)) n =
    (let old = floor_at (map_option rm_floor (fmlookup idx k)) n
     in if mk_aliasKey m = k \<and> mk_counterNodeId m = n then max old (mk_removedCount m) else old)"
  by (cases "fmlookup idx (mk_aliasKey m)")
    (auto simp: assms index_marker_def Let_def floor_at_def createDictionaryMap_def)

lemma Math_floor_max_fixed: "Math_floor x = x \<Longrightarrow> Math_floor y = y \<Longrightarrow> Math_floor (max x y) = max x y"
  by (simp add: Math_floor_max)

lemma floor_at_index_int_step:
  assumes "Math_floor (floor_at (map_option rm_floor (fmlookup idx k)) n) = floor_at (map_option rm_floor (fmlookup idx k)) n"
  shows "Math_floor (floor_at (map_option rm_floor (fmlookup (index_marker pf idx e) k)) n)
    = floor_at (map_option rm_floor (fmlookup (index_marker pf idx e) k)) n"
proof -
  obtain ak al where e: "e = (ak, al)" by (cases e)
  show ?thesis
  proof (cases "parseAliasRemovalMarker pf ak al")
    case (Some m)
    then have "isSafeInteger (al_lastSeenAt al)" "mk_removedCount m = al_lastSeenAt al"
      unfolding parse_marker_split [of pf ak al m] by blast+
    then have "Math_floor (mk_removedCount m) = mk_removedCount m"
      by (simp add: isSafeInteger_def)
    then show ?thesis
      unfolding e floor_index_step [OF Some] Let_def using assms by (auto intro: Math_floor_max_fixed)
  qed (use assms in \<open>simp add: e index_marker_def\<close>)
qed

lemma floor_at_index_int:
  "Math_floor (floor_of pf aliases k n) = floor_of pf aliases k n"
proof -
  have "Math_floor (floor_at (map_option rm_floor (fmlookup (foldl (index_marker pf) idx es) k)) n)
    = floor_at (map_option rm_floor (fmlookup (foldl (index_marker pf) idx es) k)) n"
    if "Math_floor (floor_at (map_option rm_floor (fmlookup idx k)) n) = floor_at (map_option rm_floor (fmlookup idx k)) n"
    for idx es
    using that by (induction es arbitrary: idx) (simp_all only: foldl.simps floor_at_index_int_step)
  moreover have "Math_floor (floor_at (map_option rm_floor (fmlookup fmempty k)) n) = floor_at (map_option rm_floor (fmlookup fmempty k)) n"
    using Math_floor_of_int [of 0] by simp
  ultimately show ?thesis unfolding indexAliasRemovalMarkers_def by blast
qed

lemma ok_add_desired:
  assumes "ok_aliases m" "floors = indexAliasRemovalMarkers pf al0"
  shows "ok_aliases (add_desired node stamp now current floors m e)"
proof -
  obtain k d where e: "e = (k, d)" by (cases e)
  let ?c = "copyDictionaryMap (map_option al_counters (fmlookup m k))"
  have c: "ok_counter ?c"
    using ok_aliases_lookup [OF assms(1), of k] by (cases "fmlookup m k") auto
  let ?mine = "case fmlookup ?c node of None \<Rightarrow> 0 | Some v \<Rightarrow> v"
  have mine: "0 \<le> ?mine" "Math_floor ?mine = ?mine"
    using c by (auto simp: ok_counter_def Math_floor_def split: option.split dest!: fmpredD)
  let ?v = "max ?mine (floor_at (map_option rm_floor (fmlookup floors k)) node) + 1"
  have "Math_floor ?v = ?v"
    by (rule Math_floor_add1) (simp only: Math_floor_max mine(2) assms(2) floor_at_index_int)
  moreover have "0 < ?v" using mine(1) by linarith
  ultimately have "ok_counter (fmupd node ?v ?c)" using c by (intro ok_counter_upd)
  then show ?thesis
    using assms(1) unfolding e add_desired_def prod.case Let_def by (auto intro!: ok_aliases_upd)
qed

lemma ok_replaceTermAliases:
  assumes "ok_state s"
  shows "ok_state (fst (replaceTermAliases pf s c k p inputs now))"
proof -
  let ?key = "dictionaryTermKey pf k"
  let ?live = "with_moved_aliases s ?key (live_at s ?key)"
  obtain clock stamp where tick: "tickHlc c now = (clock, stamp)" by (cases "tickHlc c now")
  have ok: "ok_incarnation (in_tag i) i" if "i \<in> set ?live" for i
    using with_moved_live [OF assms that] .
  have edit: "ok_aliases (foldl (edit_alias pf stamp d f) (in_aliases i) (obj_entries (in_aliases i)))"
    if "ok_incarnation (in_tag i) i" for d f i
  proof (rule foldl_invariant [where P = ok_aliases])
    show a: "ok_aliases (in_aliases i)" using that by (simp add: ok_incarnation_iff)
    fix m e assume "ok_aliases m" "e \<in> set (obj_entries (in_aliases i))"
    then show "ok_aliases (edit_alias pf stamp d f m e)"
      using ok_aliases_lookup [OF a, of "fst e" "snd e"] set_obj_entries [of "fst e" "snd e" "in_aliases i"]
      by (intro ok_edit_alias) simp_all
  qed
  have add: "ok_aliases (foldl (add_desired (nodeId c) stamp now cur (indexAliasRemovalMarkers pf (in_aliases i))) m es)"
    if "ok_aliases m" for m cur i es
    by (rule foldl_invariant [where P = ok_aliases]) (auto intro: that ok_add_desired)
  have "fmpred ok_incarnation (foldl (\<lambda>m i. fmupd (in_tag i) (i\<lparr>in_source := Manual, in_stage := Entry,
      in_aliases := (if P i then foldl (add_desired (nodeId c) stamp now cur (indexAliasRemovalMarkers pf (in_aliases i)))
          (foldl (edit_alias pf stamp d (indexAliasRemovalMarkers pf (in_aliases i))) (in_aliases i) (obj_entries (in_aliases i))) es
        else foldl (edit_alias pf stamp d (indexAliasRemovalMarkers pf (in_aliases i))) (in_aliases i) (obj_entries (in_aliases i))),
      in_updatedAt := max (in_updatedAt i) now\<rparr>) m) (incarnations_at s ?key) ?live)" for P cur d es
  proof (rule fmpred_foldl_upd)
    show "fmpred ok_incarnation (incarnations_at s ?key)" using assms by (rule ok_parts_at)
    fix i assume "i \<in> set ?live"
    then have i: "ok_incarnation (in_tag i) i" by (rule ok)
    note e = edit [OF i, of d "indexAliasRemovalMarkers pf (in_aliases i)"]
    show "ok_incarnation (in_tag i) (i\<lparr>in_source := Manual, in_stage := Entry,
      in_aliases := (if P i then foldl (add_desired (nodeId c) stamp now cur (indexAliasRemovalMarkers pf (in_aliases i)))
          (foldl (edit_alias pf stamp d (indexAliasRemovalMarkers pf (in_aliases i))) (in_aliases i) (obj_entries (in_aliases i))) es
        else foldl (edit_alias pf stamp d (indexAliasRemovalMarkers pf (in_aliases i))) (in_aliases i) (obj_entries (in_aliases i))),
      in_updatedAt := max (in_updatedAt i) now\<rparr>)"
      using i e add [OF e, of cur i es] by (simp add: ok_incarnation_iff)
  qed
  then show ?thesis
    using assms ok_parts_at unfolding replaceTermAliases_def Let_def tick prod.case copyDictionaryMap_simps
    by (auto intro!: ok_put)
qed

section \<open>Collecting tombstones\<close>

lemma map_of_filter_key: "map_of (filter (\<lambda>(k, v). P k) es) t = (if P t then map_of es t else None)"
  by (induction es) auto

lemma map_of_map2:
  "length es = length cs \<Longrightarrow> distinct (map fst es) \<Longrightarrow>
    map_of (map2 (\<lambda>(k, v) c. (k, h v c)) es cs) t
      = map_option (\<lambda>v. h v (the (map_of (zip (map fst es) cs) t))) (map_of es t)"
  by (induction es cs rule: list_induct2) auto

lemma map_of_zip_in: "length ks = length cs \<Longrightarrow> t \<in> set ks \<Longrightarrow> the (map_of (zip ks cs) t) \<in> set cs"
  by (induction ks cs rule: list_induct2) auto

lemma ok_gcExpired: "ok_aliases m \<Longrightarrow> ok_aliases (fst (gcExpiredRemovedAliases pf m t))"
  by (auto simp: gcExpiredRemovedAliases_def Let_def ok_aliases_def fmpred_iff)

lemma gc_record_spec:
  assumes "ok_state s" "fmlookup (st_records s) key = Some r" "memo_ok s memo"
  obtains f incs ch memo' where
    "gc_record pf s threshold key r memo =
      ((if obj_keys incs \<noteq> [] \<or> obj_keys (fmfilter (\<lambda>t. \<not> expired_tag threshold r t) (rc_tombstones r)) \<noteq> []
        then Some \<lparr>rc_incarnations = incs, rc_tombstones = fmfilter (\<lambda>t. \<not> expired_tag threshold r t) (rc_tombstones r)\<rparr>
        else None), ch, memo')"
    "memo_ok s memo'"
    "\<forall>t. fmlookup incs t = (if expired_tag threshold r t then None
        else map_option (\<lambda>i. i\<lparr>in_aliases := f t\<rparr>) (fmlookup (rc_incarnations r) t))"
    "\<forall>t. t |\<in>| fmdom incs \<longrightarrow> ok_aliases (f t)"
proof -
  let ?kept = "filter (\<lambda>(tag, i). \<not> expired_tag threshold r tag) (obj_entries (rc_incarnations r))"
  obtain resolved memo' where res: "resolve_list (tombstoned_ancestors s) key (map snd ?kept) memo = (resolved, memo')"
    by (cases "resolve_list (tombstoned_ancestors s) key (map snd ?kept) memo")
  let ?cs = "map (\<lambda>aliases. gcExpiredRemovedAliases pf aliases threshold) resolved"
  have r: "ok_record r" using assms(1,2) by (auto simp: ok_state_def dest: fmpredD)
  have "\<forall>i \<in> set (map snd ?kept). stored s key i"
    using assms(2) ok_record_tag [OF r] by (auto simp: stored_def set_obj_entries)
  from resolve_list_sound [OF assms(1) this assms(3)] res
  have all2: "list_all2 (\<lambda>i m. ok_aliases m \<and> aliases.dict.contained (in_aliases i) m) (map snd ?kept) resolved"
    and memo': "memo_ok s memo'" by simp_all
  have len: "length ?kept = length ?cs" using list_all2_lengthD [OF all2] by simp
  have "\<forall>m \<in> set resolved. ok_aliases m"
    using all2 by (auto simp: list_all2_conv_all_nth in_set_conv_nth)
  then have okc: "\<forall>c \<in> set ?cs. ok_aliases (fst c)" by (auto intro: ok_gcExpired)
  have d: "distinct (map fst ?kept)" by (simp add: distinct_map_filter)
  let ?incs = "fmap_of_list (map2 (\<lambda>(tag, i) gc. (tag, i\<lparr>in_aliases := fst gc\<rparr>)) ?kept ?cs)"
  let ?f = "\<lambda>t. fst (the (map_of (zip (map fst ?kept) ?cs) t))"
  have look: "fmlookup ?incs t = (if expired_tag threshold r t then None
      else map_option (\<lambda>i. i\<lparr>in_aliases := ?f t\<rparr>) (fmlookup (rc_incarnations r) t))" for t
    unfolding fmlookup_of_list map_of_map2 [OF len d] map_of_filter_key by simp
  have okf: "ok_aliases (?f t)" if "t |\<in>| fmdom ?incs" for t
  proof -
    from that have "\<exists>v. fmlookup ?incs t = Some v" by (rule fmlookup_dom_iff [THEN iffD1])
    then obtain i where "fmlookup (rc_incarnations r) t = Some i" "\<not> expired_tag threshold r t"
      unfolding look by (auto split: if_splits)
    then have "map_of ?kept t = Some i" unfolding map_of_filter_key by simp
    then have "(t, i) \<in> set ?kept" by (rule map_of_SomeD)
    then have "t \<in> set (map fst ?kept)" unfolding set_map by (rule rev_image_eqI) simp
    moreover have "length (map fst ?kept) = length ?cs" unfolding length_map using len by (simp only: length_map)
    ultimately have "the (map_of (zip (map fst ?kept) ?cs) t) \<in> set ?cs" by (intro map_of_zip_in)
    then show ?thesis using okc by (rule bspec [rotated])
  qed
  have eq: "gc_record pf s threshold key r memo =
      ((if obj_keys ?incs \<noteq> [] \<or> obj_keys (fmfilter (\<lambda>t. \<not> expired_tag threshold r t) (rc_tombstones r)) \<noteq> []
        then Some \<lparr>rc_incarnations = ?incs, rc_tombstones = fmfilter (\<lambda>t. \<not> expired_tag threshold r t) (rc_tombstones r)\<rparr>
        else None),
       list_ex (expired_tag threshold r) (obj_keys (rc_tombstones r)) \<or> list_ex snd ?cs, memo')"
    unfolding gc_record_def Let_def res prod.case ..
  show thesis by (rule that [OF eq memo' allI allI]) (rule look, use okf in blast)
qed

text \<open>What collection does to a record: its live incarnations and their counters are kept.\<close>

definition gc_keeps :: "dict_record \<Rightarrow> dict_record \<Rightarrow> bool" where
  "gc_keeps r q \<longleftrightarrow> ok_record q \<and> live_tags q = live_tags r
     \<and> (\<forall>t \<in> live_tags r. \<forall>i. fmlookup (rc_incarnations r) t = Some i \<longrightarrow>
          (\<exists>m. fmlookup (rc_incarnations q) t = Some (i\<lparr>in_aliases := m\<rparr>)))
     \<and> (\<forall>t. fmlookup (rc_tombstones q) t \<noteq> None \<longrightarrow> fmlookup (rc_tombstones q) t = fmlookup (rc_tombstones r) t)"

lemma gc_record_keeps:
  assumes "ok_state s" "fmlookup (st_records s) key = Some r" "memo_ok s memo"
    "gc_record pf s threshold key r memo = (q, ch, memo')"
  shows "gc_keeps r (case q of None \<Rightarrow> \<lparr>rc_incarnations = fmempty, rc_tombstones = fmempty\<rparr> | Some q' \<Rightarrow> q')" "memo_ok s memo'"
proof -
  obtain f incs ch2 memo2 where g: "gc_record pf s threshold key r memo =
      ((if obj_keys incs \<noteq> [] \<or> obj_keys (fmfilter (\<lambda>t. \<not> expired_tag threshold r t) (rc_tombstones r)) \<noteq> []
        then Some \<lparr>rc_incarnations = incs, rc_tombstones = fmfilter (\<lambda>t. \<not> expired_tag threshold r t) (rc_tombstones r)\<rparr>
        else None), ch2, memo2)"
    "memo_ok s memo2"
    "\<forall>t. fmlookup incs t = (if expired_tag threshold r t then None
        else map_option (\<lambda>i. i\<lparr>in_aliases := f t\<rparr>) (fmlookup (rc_incarnations r) t))"
    "\<forall>t. t |\<in>| fmdom incs \<longrightarrow> ok_aliases (f t)"
    using gc_record_spec [OF assms(1-3)] by metis
  let ?ts = "fmfilter (\<lambda>t. \<not> expired_tag threshold r t) (rc_tombstones r)"
  let ?q = "\<lparr>rc_incarnations = incs, rc_tombstones = ?ts\<rparr>"
  show "memo_ok s memo'" using g(1,2) assms(4) by simp
  have r: "ok_record r" using assms(1,2) by (auto simp: ok_state_def dest: fmpredD)
  have "ok_record ?q"
    unfolding ok_record_parts
  proof
    show "fmpred ok_incarnation incs"
      using g(3,4) ok_record_lookup [OF r] by (auto simp: fmpred_iff fmlookup_dom_iff ok_incarnation_iff split: if_splits)
    show "fmpred (\<lambda>_ t. t \<noteq> []) ?ts"
      using r by (auto simp: ok_record_def fmpred_iff split: if_splits)
  qed
  moreover have tomb: "expired_tag threshold r t \<Longrightarrow> t |\<in>| fmdom (rc_tombstones r)" for t
    by (auto simp: expired_tag_def fmlookup_dom_iff split: option.splits)
  have live: "live_tags ?q = live_tags r"
  proof (rule set_eqI)
    fix t
    show "t \<in> live_tags ?q \<longleftrightarrow> t \<in> live_tags r"
      using g(3) [rule_format, of t] tomb [of t]
      by (cases "expired_tag threshold r t") (auto simp: live_tags_def fmlookup_dom_iff)
  qed
  moreover have "\<exists>m. fmlookup incs t = Some (i\<lparr>in_aliases := m\<rparr>)"
    if "t \<in> live_tags r" "fmlookup (rc_incarnations r) t = Some i" for t i
    using that g(3) tomb by (auto simp: live_tags_def)
  ultimately have keeps: "gc_keeps r ?q" by (auto simp: gc_keeps_def split: if_splits)
  show "gc_keeps r (case q of None \<Rightarrow> \<lparr>rc_incarnations = fmempty, rc_tombstones = fmempty\<rparr> | Some q' \<Rightarrow> q')"
  proof (cases "obj_keys incs \<noteq> [] \<or> obj_keys ?ts \<noteq> []")
    case True
    then show ?thesis using g(1) assms(4) keeps by auto
  next
    case False
    then have "set (obj_keys incs) = {}" "set (obj_keys ?ts) = {}" by simp_all
    then have "incs = fmempty" "?ts = fmempty"
      by (simp_all only: set_obj_keys) (metis bot_fset.rep_eq fmrestrict_fset_dom fmrestrict_fset_null fset_inject)+
    then show ?thesis using False g(1) assms(4) keeps by auto
  qed
qed

text \<open>The loop over the records, and the whole collection.\<close>

definition record_or_empty :: "(jsstring, dict_record) fmap \<Rightarrow> jsstring \<Rightarrow> dict_record" where
  "record_or_empty m k = (case fmlookup m k of None \<Rightarrow> \<lparr>rc_incarnations = fmempty, rc_tombstones = fmempty\<rparr> | Some r \<Rightarrow> r)"

lemma record_at_or_empty: "record_at s k = record_or_empty (st_records s) k"
  by (simp add: record_at_def record_or_empty_def incarnations_at_def tombstones_at_def split: option.split)

lemma gc_loop:
  assumes "ok_state s"
  shows "distinct (map fst es) \<Longrightarrow> (\<And>k r. (k, r) \<in> set es \<Longrightarrow> fmlookup (st_records s) k = Some r) \<Longrightarrow>
    (\<And>k. k \<in> fst ` set es \<Longrightarrow> fmlookup records k = None) \<Longrightarrow> memo_ok s memo \<Longrightarrow>
    foldl (gc_step pf s threshold) (records, ch, memo) es = (records', ch', memo') \<Longrightarrow>
    (\<forall>k. k \<notin> fst ` set es \<longrightarrow> fmlookup records' k = fmlookup records k)
    \<and> (\<forall>(k, r) \<in> set es. gc_keeps r (record_or_empty records' k))"
proof (induction es arbitrary: records ch memo)
  case (Cons e es)
  obtain k r where e: "e = (k, r)" by (cases e)
  obtain q ch1 memo1 where g: "gc_record pf s threshold k r memo = (q, ch1, memo1)"
    by (cases "gc_record pf s threshold k r memo")
  let ?rs = "case q of None \<Rightarrow> records | Some q' \<Rightarrow> fmupd k q' records"
  have r: "fmlookup (st_records s) k = Some r" using Cons.prems(2) e by simp
  have notin: "k \<notin> fst ` set es" using Cons.prems(1) e by simp
  have pre: "fmlookup ?rs k' = None" if "k' \<in> fst ` set es" for k'
    using Cons.prems(3) [of k'] that notin e by (cases "k' = k") (auto split: option.split)
  note keeps = gc_record_keeps [OF assms r Cons.prems(4) g]
  have "foldl (gc_step pf s threshold) (?rs, ch \<or> ch1, memo1) es = (records', ch', memo')"
  proof -
    have "gc_step pf s threshold (records, ch, memo) (k, r) = (?rs, ch \<or> ch1, memo1)"
      by (simp only: gc_step_def prod.case g Let_def)
    with Cons.prems(5) show ?thesis by (simp only: e foldl.simps)
  qed
  from Cons.IH [OF _ _ _ keeps(2) this] Cons.prems(1,2) notin pre have
    ih: "\<forall>k'. k' \<notin> fst ` set es \<longrightarrow> fmlookup records' k' = fmlookup ?rs k'"
      "\<forall>(k, r) \<in> set es. gc_keeps r (record_or_empty records' k)"
    by simp_all
  have "fmlookup records' k = fmlookup ?rs k" using ih(1) notin by blast
  moreover have "fmlookup records k = None" using Cons.prems(3) e by simp
  ultimately have "gc_keeps r (record_or_empty records' k)"
    using keeps(1) by (auto simp: record_or_empty_def split: option.splits)
  moreover have "fmlookup records' k' = fmlookup records k'" if "k' \<notin> fst ` set (e # es)" for k'
    using ih(1) that e by (auto split: option.splits)
  ultimately show ?case using ih(2) by (auto simp: e)
qed simp

lemma gc_keeps_refl: "ok_record r \<Longrightarrow> gc_keeps r r"
  unfolding gc_keeps_def by (metis incarnation.surjective incarnation.update_convs(7))

lemma gcTombstones_keeps:
  assumes "ok_state s"
  shows "gc_keeps (record_at s k) (record_at (gcTombstones pf s now ttl) k)"
    and "st_suppressed (gcTombstones pf s now ttl) = st_suppressed s"
    and "st_version (gcTombstones pf s now ttl) = st_version s"
proof -
  let ?g = "foldl (gc_step pf s (now - ttl)) (fmempty, False, fmempty) (obj_entries (st_records s))"
  obtain records ch memo where g: "?g = (records, ch, memo)" by (cases ?g)
  have loop: "(\<forall>k. k \<notin> fst ` set (obj_entries (st_records s)) \<longrightarrow> fmlookup records k = fmlookup fmempty k)
    \<and> (\<forall>(k, r) \<in> set (obj_entries (st_records s)). gc_keeps r (record_or_empty records k))"
    by (rule gc_loop [OF assms _ _ _ _ g]) (simp_all add: set_obj_entries)
  have refl: "gc_keeps (record_at s k) (record_at s k)" using gc_keeps_refl ok_record_at [OF assms] .
  have "gc_keeps (record_at s k) (record_or_empty records k)"
  proof (cases "fmlookup (st_records s) k")
    case None
    then have "k \<notin> fst ` set (obj_entries (st_records s))" by (auto simp: set_obj_entries)
    then have "record_or_empty records k = record_at s k"
      using loop None by (simp add: record_or_empty_def record_at_or_empty)
    then show ?thesis using refl by simp
  next
    case (Some r)
    then have "(k, r) \<in> set (obj_entries (st_records s))" by (simp add: set_obj_entries)
    then show ?thesis using loop Some by auto
  qed
  then show "gc_keeps (record_at s k) (record_at (gcTombstones pf s now ttl) k)"
    using refl g by (simp add: gcTombstones_def Let_def createDictionaryMap_def record_at_or_empty)
  show "st_suppressed (gcTombstones pf s now ttl) = st_suppressed s"
    "st_version (gcTombstones pf s now ttl) = st_version s"
    using g by (simp_all add: gcTombstones_def Let_def createDictionaryMap_def)
qed

lemma ok_state_records:
  "ok_state s \<longleftrightarrow> st_version s = VOICE_DICTIONARY_SYNC_VERSION \<and> (\<forall>k. ok_record (record_at s k))"
proof -
  have "ok_record \<lparr>rc_incarnations = fmempty, rc_tombstones = fmempty\<rparr>" by (simp add: ok_record_def)
  then show ?thesis
    by (auto simp: ok_state_def record_at_or_empty record_or_empty_def fmpred_iff split: option.splits)
qed

lemma ok_gcTombstones: "ok_state s \<Longrightarrow> ok_state (gcTombstones pf s now ttl)"
  using gcTombstones_keeps [of s] unfolding ok_state_records [of "gcTombstones pf s now ttl"]
  by (auto simp: gc_keeps_def ok_state_def)

lemma gc_keeps_total:
  assumes "gc_keeps r q"
  shows "(\<Sum>t \<in> live_tags q. tag_total (rc_incarnations q) t) = (\<Sum>t \<in> live_tags r. tag_total (rc_incarnations r) t)"
proof (rule sum.cong)
  show "live_tags q = live_tags r" using assms by (simp add: gc_keeps_def)
  fix t assume t: "t \<in> live_tags r"
  then obtain i where i: "fmlookup (rc_incarnations r) t = Some i" by (auto simp: live_tags_def fmlookup_dom_iff)
  with assms t obtain m where "fmlookup (rc_incarnations q) t = Some (i\<lparr>in_aliases := m\<rparr>)"
    unfolding gc_keeps_def by blast
  with i show "tag_total (rc_incarnations q) t = tag_total (rc_incarnations r) t" by (simp add: tag_total_def)
qed

lemma total_at_gc: "ok_state s \<Longrightarrow> total_at (gcTombstones pf s now ttl) k = total_at s k"
  using gc_keeps_total [OF gcTombstones_keeps(1)] ok_gcTombstones by (simp add: total_at_tags)

end
