(* ===== verification/DictGuarantees.thy ===== *)
theory DictGuarantees
  imports DictMutateLemmas
begin

text \<open>
  What the local operations of the replicated dictionary promise, one replica at a time and
  across a merge: a learning event counts once, an addition survives a concurrent deletion, a
  deletion covers what its device had seen, a rename moves the counters once on every replica,
  collection and pruning lose no live evidence and no confirmed term.
\<close>

section \<open>Totals and merges of records\<close>

lemma merge_record_at:
  assumes "ok_state a" "ok_state b"
  shows "record_at (mergeSyncStates a b) k = mergeRecord (record_at a k) (record_at b k)"
  using assms
  by (cases "fmlookup (st_records a) k"; cases "fmlookup (st_records b) k")
    (simp_all add: record_at_or_empty record_or_empty_def mergeSyncStates_join ok_state_def mergeRecord_join)

lemma merge_parts_at:
  assumes "ok_state a" "ok_state b"
  shows "incarnations_at (mergeSyncStates a b) k = fm_join mergeIncarnation (incarnations_at a k) (incarnations_at b k)"
    and "tombstones_at (mergeSyncStates a b) k = fm_join mergeTombstone (tombstones_at a k) (tombstones_at b k)"
  using merge_record_at [OF assms, of k] unfolding mergeRecord_join record_at_def by simp_all

lemma parts_at_lookup [simp]:
  "fmlookup (st_records s) k = Some r \<Longrightarrow> incarnations_at s k = rc_incarnations r"
  "fmlookup (st_records s) k = Some r \<Longrightarrow> tombstones_at s k = rc_tombstones r"
  by (simp_all add: incarnations_at_def tombstones_at_def)

lemma live_at_iff:
  assumes "ok_state s"
  shows "i \<in> set (live_at s k) \<longleftrightarrow>
    fmlookup (incarnations_at s k) (in_tag i) = Some i \<and> fmlookup (tombstones_at s k) (in_tag i) = None"
  using in_live [OF ok_record_at [OF assms], of i k] by (simp add: live_at_record_at)

lemma live_at_Nil_iff:
  assumes "ok_state s"
  shows "live_at s k = [] \<longleftrightarrow> fset (fmdom (incarnations_at s k)) \<subseteq> fset (fmdom (tombstones_at s k))"
  using live_empty_iff [OF ok_record_at [OF assms], of k] by (auto simp: live_at_record_at live_tags_def)

lemma total_at_Nil: "live_at s k = [] \<Longrightarrow> total_at s k = 0"
  by (simp add: total_at_def live_total_def)

lemma in_tags_live_at: "ok_state s \<Longrightarrow> in_tag ` set (live_at s k) = live_tags (record_at s k)"
  using live_tags_image [OF ok_record_at] by (simp add: live_at_record_at)

text \<open>A counter, and a record, in which one bucket grew by one.\<close>

lemma readCounterTotal_bump:
  assumes "ok_counter c"
  shows "readCounterTotal (fmupd n ((case fmlookup c n of None \<Rightarrow> 0 | Some v \<Rightarrow> v) + 1) c) = readCounterTotal c + 1"
proof (cases "fmlookup c n")
  case None
  then show ?thesis
    using Math_floor_of_int [of 1] by (simp add: readCounterTotal_upd bucket_of_def bucket_def)
next
  case (Some v)
  then have "bucket_of c n = v" "0 < v" using ok_counter_bucket_of [OF assms Some] by simp_all
  moreover have "Math_floor (v + 1) = v + 1"
    using assms Some by (auto simp: ok_counter_def dest!: fmpredD intro: Math_floor_add1)
  ultimately show ?thesis by (simp add: Some readCounterTotal_upd bucket_def)
qed

lemma sum_tag_total_upd:
  assumes "finite T" "t \<in> T"
  shows "(\<Sum>u \<in> T. tag_total (fmupd t i m) u) = (\<Sum>u \<in> T. tag_total m u) - tag_total m t + readCounterTotal (in_counters i)"
proof -
  have "(\<Sum>u \<in> T - {t}. tag_total (fmupd t i m) u) = (\<Sum>u \<in> T - {t}. tag_total m u)"
    by (rule sum.cong) (auto simp: tag_total_def)
  then show ?thesis
    using assms by (simp add: sum.remove [OF assms] tag_total_def)
qed

section \<open>Learning\<close>

lemma learn_fresh:
  assumes "ok_state s" "stamp |\<notin>| fmdom (tombstones_at s key)"
    "s' = putRecord s key \<lparr>rc_incarnations = fmupd stamp i fmempty, rc_tombstones = tombstones_at s key\<rparr> m"
    "in_tag i = stamp"
  shows "live_at s' key = [i]"
  using assms by (simp add: listLiveIncarnations_def hasDictionaryKey_fmdom obj_eval)

lemma learn_known:
  assumes "ok_state s" "target \<in> set (live_at s key)" "ok_incarnation (in_tag target) j"
    "readCounterTotal (in_counters j) = readCounterTotal (in_counters target) + 1"
    "s' = putRecord s key \<lparr>rc_incarnations = fmupd (in_tag target) j (incarnations_at s key), rc_tombstones = tombstones_at s key\<rparr> m"
  shows "total_at s' key = total_at s key + 1" "j \<in> set (live_at s' key)"
proof -
  have ok: "ok_state s'"
    unfolding assms(5) by (rule ok_put) (use assms ok_parts_at in \<open>auto intro: fmpred_upd\<close>)
  have t: "fmlookup (incarnations_at s key) (in_tag target) = Some target" "fmlookup (tombstones_at s key) (in_tag target) = None"
    using assms(1,2) live_at_iff by blast+
  then have tag: "in_tag target \<in> live_tags (record_at s key)"
    by (auto simp: live_tags_def fmlookup_dom_iff)
  have "live_tags (record_at s' key) = live_tags (record_at s key)"
    using tag by (auto simp: live_tags_def assms(5))
  then show "total_at s' key = total_at s key + 1"
    using sum_tag_total_upd [of "live_tags (record_at s key)", OF _ tag, of j "incarnations_at s key"] t(1) assms(4)
    by (simp add: total_at_tags [OF ok] total_at_tags [OF assms(1)]) (simp add: assms(5) tag_total_def)
  have "in_tag j = in_tag target" using assms(3) by (simp add: ok_incarnation_iff)
  then show "j \<in> set (live_at s' key)"
    using t(2) unfolding live_at_iff [OF ok] by (simp add: assms(5))
qed

text \<open>
  A learning event counts exactly once. For a term that is not suppressed (or has a live
  manual incarnation), the total of the term's live counters grows by exactly one, no other
  record and no suppression changes, and a term whose total reaches the promotion threshold has
  a live incarnation at the entry stage. The stamp the clock issues must not be among the
  record's tombstones when the record has no live incarnation.
\<close>

theorem learning_counts_once:
  assumes "ok_state s" "dictionaryTermKey pf (normalizeDictionaryTermText (le_text e)) = key" "key \<noteq> []"
    "\<not> hasDictionaryKey (st_suppressed s) key \<or> (\<exists>i \<in> set (live_at s key). in_source i = Manual)"
    "live_at s key = [] \<longrightarrow> snd (tickHlc c (le_nowMs e)) |\<notin>| fmdom (tombstones_at s key)"
    "recordLearningEvent pf s c e = (s', c', changed)"
  shows "changed \<and> total_at s' key = total_at s key + 1
    \<and> (\<forall>k. k \<noteq> key \<longrightarrow> record_at s' k = record_at s k) \<and> st_suppressed s' = st_suppressed s
    \<and> (DICTIONARY_CANDIDATE_PROMOTION_COUNT \<le> total_at s' key \<longrightarrow> (\<exists>i \<in> set (live_at s' key). in_stage i = Entry))"
proof -
  obtain clock stamp where t: "tickHlc c (le_nowMs e) = (clock, stamp)" by (cases "tickHlc c (le_nowMs e)")
  have go: "\<not> (hasDictionaryKey (st_suppressed s) key \<and> \<not> list_ex (\<lambda>item. in_source item = Manual) (live_at s key))"
    using assms(4) by (auto simp: list_ex_iff)
  show ?thesis
  proof (cases "live_at s key")
    case Nil
    define i where "i = createIncarnation pf stamp (normalizeDictionaryTermText (le_text e)) Automatic (le_stage e) (nodeId c)
      (normalizeAliasTexts pf (le_aliases e) key) (le_nowMs e)"
    have s': "s' = putRecord s key \<lparr>rc_incarnations = fmupd stamp i fmempty, rc_tombstones = tombstones_at s key\<rparr> None" "changed"
      using assms(6) go Nil assms(3) unfolding recordLearningEvent_def Let_def t assms(2) i_def by simp_all
    have "live_at s' key = [i]"
      by (rule learn_fresh [OF assms(1) _ s'(1)]) (use assms(5) Nil t in \<open>simp_all add: i_def createIncarnation_def\<close>)
    moreover have "readCounterTotal (in_counters i) = 1"
      using Math_floor_of_int [of 1] by (simp add: i_def createIncarnation_def readCounterTotal_upd bucket_of_def bucket_def readCounterTotal_sum)
    ultimately have "total_at s' key = 1" by (simp add: total_at_def live_total_sum)
    then show ?thesis
      using s' total_at_Nil [OF Nil] by (simp add: DICTIONARY_CANDIDATE_PROMOTION_COUNT_def)
  next
    case (Cons target rest)
    then have target: "target \<in> set (live_at s key)" by simp
    have "\<forall>i \<in> set [target]. stored s key i" using stored_live [OF assms(1) target] by simp
    from resolve_list_sound [OF assms(1) this memo_ok_empty]
    have "ok_aliases (hd (fst (resolve_list (tombstoned_ancestors s) key [target] fmempty)))"
      by (cases "fst (resolve_list (tombstoned_ancestors s) key [target] fmempty)") auto
    then have okt: "ok_incarnation (in_tag target)
        (target\<lparr>in_aliases := hd (fst (resolve_list (tombstoned_ancestors s) key [target] fmempty))\<rparr>)"
      using live_ok_incarnation [OF assms(1) target] by (simp add: ok_incarnation_iff)
    define j where "j = bumpIncarnation pf (target\<lparr>in_aliases := hd (fst (resolve_list (tombstoned_ancestors s) key [target] fmempty))\<rparr>)
      (nodeId c) (if DICTIONARY_CANDIDATE_PROMOTION_COUNT \<le> live_total (target # rest) + 1 then Entry else le_stage e)
      (normalizeAliasTexts pf (le_aliases e) key) stamp (le_nowMs e)"
    have "recordLearningEvent pf s c e = (putRecord s key \<lparr>rc_incarnations = fmupd (in_tag target) j (incarnations_at s key),
        rc_tombstones = tombstones_at s key\<rparr> (Some clock), clock, True)"
      by (simp only: recordLearningEvent_def Let_def t assms(2,3) go [unfolded Cons] j_def Cons
          simp_thms if_False list.case prod.case)
    then have s': "s' = putRecord s key \<lparr>rc_incarnations = fmupd (in_tag target) j (incarnations_at s key),
        rc_tombstones = tombstones_at s key\<rparr> (Some clock)" "changed"
      using assms(6) by simp_all
    have okj: "ok_incarnation (in_tag target) j" unfolding j_def by (rule ok_bumpIncarnation [OF okt])
    have "readCounterTotal (in_counters j) = readCounterTotal (in_counters target) + 1"
      using okt by (simp add: j_def bumpIncarnation_def readCounterTotal_bump ok_incarnation_iff)
    note known = learn_known [OF assms(1) target okj this s'(1)]
    have "in_stage j = Entry" if "DICTIONARY_CANDIDATE_PROMOTION_COUNT \<le> total_at s key + 1"
      using that by (simp add: j_def bumpIncarnation_def total_at_def Cons)
    then show ?thesis using known s' by auto
  qed
qed

lemma sample_key [simp]:
  "dictionaryTermKey sample_platform [108, 101, 120] = [108, 101, 120]" "normalizeDictionaryTermText [108, 101, 120] = [108, 101, 120]"
  by code_simp+

lemma record_at_empty [simp]: "incarnations_at createEmptySyncState k = fmempty" "tombstones_at createEmptySyncState k = fmempty"
  by (simp_all add: incarnations_at_def tombstones_at_def)

lemma sample_parts_at [simp]:
  "incarnations_at (sample_state tag stamp node n) [108, 101, 120] = fmupd tag (sample_incarnation tag stamp node n) fmempty"
  "tombstones_at (sample_state tag stamp node n) k = fmempty"
  by (simp_all add: incarnations_at_def tombstones_at_def sample_state_def sample_record_def split: option.split)

definition sample_event :: learning_event where
  "sample_event = \<lparr>le_text = js ''lex'', le_aliases = None, le_stage = Candidate, le_nowMs = 7\<rparr>"

lemma learning_counts_once_witness:
  "total_at (fst (recordLearningEvent sample_platform createEmptySyncState clock_a sample_event)) (js ''lex'')
    = total_at createEmptySyncState (js ''lex'') + 1"
  using learning_counts_once [of createEmptySyncState sample_platform sample_event "js ''lex''" clock_a
      "fst (recordLearningEvent sample_platform createEmptySyncState clock_a sample_event)"
      "fst (snd (recordLearningEvent sample_platform createEmptySyncState clock_a sample_event))"
      "snd (snd (recordLearningEvent sample_platform createEmptySyncState clock_a sample_event))"]
  by (simp add: sample_event_def)

section \<open>Deleting\<close>

lemma fmdom_foldl_upd: "fset (fmdom (foldl (\<lambda>ts i. fmupd (f i) (g i) ts) m is)) = fset (fmdom m) \<union> f ` set is"
  by (induction "is" arbitrary: m) auto

text \<open>What one key of \<open>deleteTerms\<close> does to every record.\<close>

lemma delete_step_parts:
  assumes "ok_state (fst a)" "s = fst a" "s' = fst (delete_step pf now suppress a rawKey)"
  shows "incarnations_at s' k = incarnations_at s k"
    and "fset (fmdom (tombstones_at s' k)) = fset (fmdom (tombstones_at s k)) \<union>
      (if k = dictionaryTermKey pf rawKey \<and> k \<noteq> [] then live_tags (record_at s k) else {})"
    and "k \<noteq> dictionaryTermKey pf rawKey \<Longrightarrow> record_at s' k = record_at s k"
proof -
  obtain c ch where a: "a = (s, c, ch)" using assms(2) by (cases a) simp
  let ?key = "dictionaryTermKey pf rawKey"
  have "incarnations_at s' k = incarnations_at s k
    \<and> fset (fmdom (tombstones_at s' k)) = fset (fmdom (tombstones_at s k)) \<union> (if k = ?key \<and> k \<noteq> [] then live_tags (record_at s k) else {})
    \<and> (k \<noteq> ?key \<longrightarrow> record_at s' k = record_at s k)"
  proof (cases "?key \<noteq> [] \<and> live_at s ?key \<noteq> []")
    case True
    then obtain r where r: "fmlookup (st_records s) ?key = Some r" "listLiveIncarnations r \<noteq> []"
      by (auto simp: live_at_def split: option.splits)
    obtain clock stamp where t: "tickHlc c now = (clock, stamp)" by (cases "tickHlc c now")
    let ?r = "r\<lparr>rc_tombstones := foldl (\<lambda>ts i. fmupd (in_tag i) stamp ts) (rc_tombstones r) (listLiveIncarnations r)\<rparr>"
    have rec: "st_records s' = st_records (putRecord s ?key ?r None)"
      using True r t unfolding assms(3) a by (simp add: delete_step_def Let_def)
    then have rec': "record_at s' j = record_at (putRecord s ?key ?r None) j" for j
      by (simp add: record_at_or_empty)
    have "live_tags r = in_tag ` set (listLiveIncarnations r)"
      using live_tags_image [of r] ok_record_at [OF assms(1), of ?key] r(1) assms(2) by simp
    then have "incarnations_at s' j = incarnations_at s j \<and> fset (fmdom (tombstones_at s' j)) =
        fset (fmdom (tombstones_at s j)) \<union> (if j = ?key then live_tags (record_at s j) else {})" for j
      using rec' [of j] r(1) True unfolding record_at_simps [symmetric]
      by (auto simp: fmdom_foldl_upd)
    then show ?thesis using True rec' [of k] by auto
  next
    case False
    then have "s' = s"
      unfolding assms(3) a by (auto simp: delete_step_def Let_def live_at_def split: option.splits)
    moreover have "live_tags (record_at s ?key) = {}" if "?key \<noteq> []"
      using False that live_empty_iff [OF ok_record_at [OF assms(1), of ?key]] assms(2) by (simp add: live_at_record_at)
    ultimately show ?thesis by auto
  qed
  then show "incarnations_at s' k = incarnations_at s k"
    "fset (fmdom (tombstones_at s' k)) = fset (fmdom (tombstones_at s k)) \<union>
      (if k = dictionaryTermKey pf rawKey \<and> k \<noteq> [] then live_tags (record_at s k) else {})"
    "k \<noteq> dictionaryTermKey pf rawKey \<Longrightarrow> record_at s' k = record_at s k" by auto
qed

lemma delete_fold_parts:
  assumes "ok_state (fst a)"
  shows "incarnations_at (fst (foldl (delete_step pf now suppress) a keys)) k = incarnations_at (fst a) k
    \<and> fset (fmdom (tombstones_at (fst (foldl (delete_step pf now suppress) a keys)) k)) = fset (fmdom (tombstones_at (fst a) k)) \<union>
      (if k \<in> dictionaryTermKey pf ` set keys \<and> k \<noteq> [] then live_tags (record_at (fst a) k) else {})
    \<and> (k \<notin> dictionaryTermKey pf ` set keys \<longrightarrow> record_at (fst (foldl (delete_step pf now suppress) a keys)) k = record_at (fst a) k)"
  using assms
proof (induction keys arbitrary: a)
  case (Cons rawKey keys)
  let ?b = "delete_step pf now suppress a rawKey"
  note step = delete_step_parts [OF Cons.prems refl refl, where pf = pf and now = now and suppress = suppress and rawKey = rawKey]
  have "live_tags (record_at (fst ?b) k) = live_tags (record_at (fst a) k)
      - (if k = dictionaryTermKey pf rawKey \<and> k \<noteq> [] then live_tags (record_at (fst a) k) else {})"
    using step(1,2) [of k] by (auto simp: live_tags_def)
  with Cons.IH [OF ok_delete_step [OF Cons.prems, of pf now suppress rawKey]] step [of k]
  show ?case by auto
qed simp

lemma deleteTerms_parts:
  assumes "ok_state s" "s' = fst (deleteTerms pf s c keys now suppress)"
  shows "incarnations_at s' k = incarnations_at s k"
    and "fset (fmdom (tombstones_at s' k)) = fset (fmdom (tombstones_at s k)) \<union>
      (if k \<in> dictionaryTermKey pf ` set keys \<and> k \<noteq> [] then live_tags (record_at s k) else {})"
    and "k \<notin> dictionaryTermKey pf ` set keys \<Longrightarrow> record_at s' k = record_at s k"
  using delete_fold_parts [of "(s, c, False)" pf now suppress keys k] assms by (auto simp: deleteTerms_def)

text \<open>
  C14: A deletion covers exactly what its device had seen. After \<open>deleteTerms\<close> none of the deleted
  terms has a live incarnation, and that stays so after merging any state that holds, for the
  term, no incarnation the deleting device had not seen; records of other terms are untouched.
\<close>

theorem deletion_covers_seen:
  assumes "ok_state s" "ok_state b" "deleteTerms pf s c keys now suppress = (s', c', changed)"
    "dictionaryTermKey pf k \<noteq> []" "k \<in> set keys"
    "fset (fmdom (incarnations_at b (dictionaryTermKey pf k))) \<subseteq> fset (fmdom (incarnations_at s (dictionaryTermKey pf k)))"
  shows "live_at s' (dictionaryTermKey pf k) = [] \<and> live_at (mergeSyncStates s' b) (dictionaryTermKey pf k) = []
    \<and> live_at (mergeSyncStates b s') (dictionaryTermKey pf k) = []
    \<and> (\<forall>j. j \<notin> dictionaryTermKey pf ` set keys \<longrightarrow> record_at s' j = record_at s j)"
proof -
  have s': "s' = fst (deleteTerms pf s c keys now suppress)" and ok: "ok_state s'"
    using assms(3) ok_deleteTerms [OF assms(1), of pf c keys now suppress] by simp_all
  note parts = deleteTerms_parts [OF assms(1) s']
  let ?k = "dictionaryTermKey pf k"
  have cover: "fset (fmdom (incarnations_at s ?k)) \<subseteq> fset (fmdom (tombstones_at s' ?k))"
    using parts(2) [of ?k] assms(4,5) by (auto simp: live_tags_def)
  have "mergeSyncStates b s' = mergeSyncStates s' b" by (rule states.join_commute) (use ok assms(2) in auto)
  moreover have "live_at (mergeSyncStates s' b) ?k = []"
    unfolding live_at_Nil_iff [OF states.ok_join [OF ok assms(2)]] merge_parts_at [OF ok assms(2)] fmdom_fm_join
    using cover assms(6) by (auto simp: parts(1))
  moreover have "live_at s' ?k = []"
    unfolding live_at_Nil_iff [OF ok] using cover by (simp add: parts(1))
  ultimately show ?thesis using parts(3) by simp
qed

lemma deletion_covers_seen_witness:
  "live_at (mergeSyncStates (fst (deleteTerms sample_platform (sample_state [1] [1] [7] 3) clock_a [js ''lex''] 7 True))
     (sample_state [1] [1] [7] 5)) (js ''lex'') = []"
  using deletion_covers_seen [of "sample_state [1] [1] [7] 3" "sample_state [1] [1] [7] 5" sample_platform clock_a "[js ''lex'']" 7 True
      "fst (deleteTerms sample_platform (sample_state [1] [1] [7] 3) clock_a [js ''lex''] 7 True)"
      "fst (snd (deleteTerms sample_platform (sample_state [1] [1] [7] 3) clock_a [js ''lex''] 7 True))"
      "snd (snd (deleteTerms sample_platform (sample_state [1] [1] [7] 3) clock_a [js ''lex''] 7 True))" "js ''lex''"]
  by (simp add: ok_sample_numeral)

section \<open>Adding\<close>

text \<open>
  C13: An addition survives a concurrent deletion. When a manual addition changed the state, the
  incarnation it made is live, with its text, at the entry stage and with count one, after merging
  with any replica that had not seen it, whatever terms that replica deletes.
\<close>

theorem addition_survives_deletion:
  assumes "ok_state s" "ok_state b" "addManualEntry pf s c rawText now = (s', c', True)"
    "dictionaryTermKey pf (normalizeDictionaryTermText rawText) = key" "snd (tickHlc c now) = stamp"
    "stamp |\<notin>| fmdom (tombstones_at s key)"
    "stamp |\<notin>| fmdom (incarnations_at b key)" "stamp |\<notin>| fmdom (tombstones_at b key)"
    "deleteTerms pf b cb keys nowb suppress = (b', cb', changed)"
  shows "\<exists>i \<in> set (live_at (mergeSyncStates s' b') key). in_tag i = stamp
    \<and> in_text i = normalizeDictionaryTermText rawText \<and> in_source i = Manual \<and> in_stage i = Entry
    \<and> readCounterTotal (in_counters i) = 1"
proof -
  obtain clock where t: "tickHlc c now = (clock, stamp)" using assms(5) by (cases "tickHlc c now") simp
  define i where "i = createIncarnation pf stamp (normalizeDictionaryTermText rawText) Manual Entry (nodeId c) [] now"
  have "s' = putRecord s key \<lparr>rc_incarnations = fmupd stamp i (incarnations_at s key), rc_tombstones = tombstones_at s key\<rparr> None"
    using assms(3) unfolding addManualEntry_def Let_def t assms(4) by (simp add: i_def split: if_splits)
  then have s': "incarnations_at s' key = fmupd stamp i (incarnations_at s key)" "tombstones_at s' key = tombstones_at s key"
    by simp_all
  have ok: "ok_state s'" "ok_state b'"
    using ok_addManualEntry [OF assms(1), of pf c rawText now] assms(3) ok_deleteTerms [OF assms(2), of pf cb keys nowb suppress] assms(9)
    by simp_all
  have b': "stamp |\<notin>| fmdom (incarnations_at b' key)" "stamp |\<notin>| fmdom (tombstones_at b' key)"
    using deleteTerms_parts(1,2) [OF assms(2), of b' pf cb keys nowb suppress key] assms(7-9)
    by (auto simp: live_tags_def split: if_splits)
  note parts = merge_parts_at [OF ok, of key]
  have "fmlookup (incarnations_at (mergeSyncStates s' b') key) stamp = Some i"
    using b'(1) by (simp add: parts s' fmdom_notD)
  moreover have "fmlookup (tombstones_at (mergeSyncStates s' b') key) stamp = None"
    using b'(2) assms(6) by (simp add: parts s' fmdom_notD)
  moreover have "in_tag i = stamp" by (simp add: i_def createIncarnation_def)
  moreover have "readCounterTotal (in_counters i) = 1"
    using readCounterTotal_bump [OF ok_counter_empty, of "nodeId c"]
    by (simp add: i_def createIncarnation_def readCounterTotal_sum)
  ultimately show ?thesis
    unfolding live_at_iff [OF states.ok_join [OF ok]]
    by (intro bexI [where x = i]) (simp_all add: i_def createIncarnation_def live_at_iff [OF states.ok_join [OF ok]])
qed

lemma addition_survives_deletion_witness:
  "\<exists>i \<in> set (live_at (mergeSyncStates (fst (addManualEntry sample_platform createEmptySyncState clock_a [108, 101, 120] 7))
     (fst (deleteTerms sample_platform (sample_state [1] [1] [7] 3) clock_b [[108, 101, 120]] 7 True))) [108, 101, 120]).
     in_source i = Manual"
proof -
  have "length (snd (tickHlc clock_a 7)) \<noteq> 1"
    by (simp add: tickHlc_format formatHlc_def Let_def)
  then have fresh: "snd (tickHlc clock_a 7) \<noteq> [1]" by auto
  have key: "dictionaryTermKey sample_platform (normalizeDictionaryTermText [108, 101, 120]) = [108, 101, 120]" by simp
  have "live_at createEmptySyncState k = []" for k by (simp add: live_at_def)
  then have "addManualEntry sample_platform createEmptySyncState clock_a [108, 101, 120] 7
    = (fst (addManualEntry sample_platform createEmptySyncState clock_a [108, 101, 120] 7), fst (tickHlc clock_a 7), True)"
    by (simp add: addManualEntry_def Let_def split_beta)
  from addition_survives_deletion [OF ok_createEmptySyncState _ this key refl, of "sample_state [1] [1] [7] 3"
      clock_b "[[108, 101, 120]]" 7 True "fst (deleteTerms sample_platform (sample_state [1] [1] [7] 3) clock_b [[108, 101, 120]] 7 True)"
      "fst (snd (deleteTerms sample_platform (sample_state [1] [1] [7] 3) clock_b [[108, 101, 120]] 7 True))"
      "snd (snd (deleteTerms sample_platform (sample_state [1] [1] [7] 3) clock_b [[108, 101, 120]] 7 True))"]
  show ?thesis using fresh by (auto simp: ok_sample_numeral)
qed

section \<open>Renaming\<close>

lemma foldl_upd_lookup:
  assumes "distinct (map f is)"
  shows "fmdom (foldl (\<lambda>m i. fmupd (f i) (g i) m) fmempty is) = fset_of_list (map f is)"
    and "i \<in> set is \<Longrightarrow> fmlookup (foldl (\<lambda>m i. fmupd (f i) (g i) m) fmempty is) (f i) = Some (g i)"
  using assms
proof (induction "is" rule: rev_induct)
  case (snoc x xs)
  { case 1 with snoc(1) show ?case by (auto simp: fset_eq_iff fset_of_list_elem) }
  { case 2 with snoc(2) show ?case by (auto dest: image_eqI) }
qed simp_all

text \<open>The evidence of a key: which incarnations it has and what they count.\<close>

lemma merge_same_evidence:
  assumes "ok_state a" "ok_state b"
    "fmdom (incarnations_at a k) = fmdom (incarnations_at b k)" "fmdom (tombstones_at a k) = fmdom (tombstones_at b k)"
    "\<And>t i j. fmlookup (incarnations_at a k) t = Some i \<Longrightarrow> fmlookup (incarnations_at b k) t = Some j \<Longrightarrow> in_counters i = in_counters j"
  shows "total_at (mergeSyncStates a b) k = total_at a k"
proof -
  have ok: "ok_state (mergeSyncStates a b)" using assms(1,2) by (rule states.ok_join)
  note parts = merge_parts_at [OF assms(1,2), of k]
  have "live_tags (record_at (mergeSyncStates a b) k) = live_tags (record_at a k)"
    by (simp add: live_tags_def parts assms(3,4))
  moreover have "tag_total (incarnations_at (mergeSyncStates a b) k) t = tag_total (incarnations_at a k) t" for t
  proof (cases "fmlookup (incarnations_at a k) t")
    case None
    then have "fmlookup (incarnations_at b k) t = None" using assms(3) by (metis fmdom_notD fmdom_notI)
    then show ?thesis by (simp add: None parts tag_total_def)
  next
    case (Some i)
    then obtain j where j: "fmlookup (incarnations_at b k) t = Some j" using assms(3) by (metis fmlookup_dom_iff)
    have "ok_counter (in_counters i)"
      using ok_record_lookup [OF ok_record_at [OF assms(1), of k], of t i] Some by (simp add: ok_incarnation_iff)
    then have "mergeCounters (in_counters i) (in_counters j) = in_counters i"
      using assms(5) [OF Some j] counters.join_idem by simp
    then show ?thesis by (simp add: Some j parts tag_total_def mergeIncarnation_def Let_def)
  qed
  ultimately show ?thesis by (simp add: total_at_tags [OF ok] total_at_tags [OF assms(1)])
qed

text \<open>
  A rename to another key is proper when both keys are nonempty, the source has live incarnations
  and is its own key, and the derived tags are new and distinct (they are hashes of the old tag
  and the new key).
\<close>

definition proper_rename :: "platform \<Rightarrow> sync_state \<Rightarrow> jsstring \<Rightarrow> jsstring \<Rightarrow> bool" where
  "proper_rename pf s fromKey toKey \<longleftrightarrow> fromKey \<noteq> [] \<and> toKey \<noteq> [] \<and> fromKey \<noteq> toKey
     \<and> dictionaryTermKey pf fromKey = fromKey \<and> live_at s fromKey \<noteq> []
     \<and> inj_on (\<lambda>t. deriveMoveTag t toKey) (live_tags (record_at s fromKey))
     \<and> (\<forall>t \<in> live_tags (record_at s fromKey). deriveMoveTag t toKey |\<notin>| fmdom (incarnations_at s toKey)
          \<and> deriveMoveTag t toKey |\<notin>| fmdom (tombstones_at s toKey))"

lemma rename_parts:
  assumes "ok_state s" "proper_rename pf s fromKey toKey"
    "dictionaryTermKey pf k = fromKey" "dictionaryTermKey pf (normalizeDictionaryTermText rawNext) = toKey"
    "s' = fst (renameTerm pf s c k rawNext now)"
  obtains moved where
    "incarnations_at s' toKey = incarnations_at s toKey ++\<^sub>f moved" "tombstones_at s' toKey = tombstones_at s toKey"
    "fset (fmdom moved) = (\<lambda>t. deriveMoveTag t toKey) ` live_tags (record_at s fromKey)"
    "\<forall>t \<in> live_tags (record_at s fromKey). \<exists>i j. fmlookup (incarnations_at s fromKey) t = Some i
       \<and> fmlookup moved (deriveMoveTag t toKey) = Some j \<and> in_counters j = in_counters i
       \<and> in_text j = normalizeDictionaryTermText rawNext \<and> in_source j = Manual \<and> in_stage j = Entry"
    "live_at s' fromKey = []"
proof -
  let ?text = "normalizeDictionaryTermText rawNext"
  let ?live = "with_moved_aliases s fromKey (live_at s fromKey)"
  obtain clock stamp where tick: "tickHlc c now = (clock, stamp)" by (cases "tickHlc c now")
  let ?f = "\<lambda>i. deriveMoveTag (in_tag i) toKey"
  let ?g = "\<lambda>i. i\<lparr>in_tag := deriveMoveTag (in_tag i) toKey, in_text := ?text, in_textStamp := stamp,
        in_source := Manual, in_stage := Entry, in_updatedAt := now\<rparr>"
  define moved where "moved = foldl (\<lambda>m i. fmupd (?f i) (?g i) m) fmempty ?live"
  obtain d c' ch where del: "deleteTerms pf s clock [fromKey] now False = (d, c', ch)"
    by (cases "deleteTerms pf s clock [fromKey] now False")
  have stored: "\<forall>i \<in> set (live_at s fromKey). stored s fromKey i" using stored_live [OF assms(1)] by blast
  note props = with_moved_aliases_props [OF assms(1) stored]
  note pr = assms(2) [unfolded proper_rename_def]
  have "?live \<noteq> []" using props(3) pr by (metis length_0_conv)
  then have s': "s' = putRecord d toKey \<lparr>rc_incarnations = incarnations_at d toKey ++\<^sub>f moved, rc_tombstones = tombstones_at d toKey\<rparr> None"
    using pr unfolding assms(5) renameTerm_def Let_def assms(3,4) tick moved_def createDictionaryMap_def
    by (simp add: del)
  have dp: "incarnations_at d j = incarnations_at s j"
      "fset (fmdom (tombstones_at d j)) = fset (fmdom (tombstones_at s j)) \<union> (if j = fromKey then live_tags (record_at s j) else {})"
      "j \<noteq> fromKey \<Longrightarrow> record_at d j = record_at s j" for j
    using deleteTerms_parts [OF assms(1), of d pf clock "[fromKey]" now False j] del pr by auto
  have dto: "incarnations_at d toKey = incarnations_at s toKey" "tombstones_at d toKey = tombstones_at s toKey"
    using dp(3) [of toKey] pr by (metis record_at_simps)+
  have tags: "in_tag ` set ?live = live_tags (record_at s fromKey)"
    using props(1) in_tags_live_at [OF assms(1), of fromKey] by (metis set_map)
  have dist: "distinct (map in_tag ?live)"
    using distinct_live_tags [OF ok_record_at [OF assms(1)], of fromKey] props(1) by (simp add: live_at_record_at)
  have "inj_on in_tag (set ?live)" using dist by (simp add: distinct_map)
  moreover have "inj_on (\<lambda>t. deriveMoveTag t toKey) (in_tag ` set ?live)" using pr unfolding tags by blast
  ultimately have "inj_on ?f (set ?live)" using comp_inj_on [of in_tag _ "\<lambda>t. deriveMoveTag t toKey"] by (simp add: comp_def)
  then have "distinct (map ?f ?live)" using dist by (simp add: distinct_map)
  note look = foldl_upd_lookup [OF this, where g = ?g, folded moved_def]
  show thesis
  proof (rule that)
    show "incarnations_at s' toKey = incarnations_at s toKey ++\<^sub>f moved" "tombstones_at s' toKey = tombstones_at s toKey"
      by (simp_all add: s' dto)
    show "fset (fmdom moved) = (\<lambda>t. deriveMoveTag t toKey) ` live_tags (record_at s fromKey)"
      unfolding look(1) tags [symmetric] by (simp add: fset_of_list.rep_eq image_image)
    have okd: "ok_state d" using ok_deleteTerms [OF assms(1), of pf clock "[fromKey]" now False] del by simp
    have "fset (fmdom (incarnations_at s fromKey)) \<subseteq> fset (fmdom (tombstones_at d fromKey))"
      using dp(2) [of fromKey] by (auto simp: live_tags_def)
    then have "live_at d fromKey = []" unfolding live_at_Nil_iff [OF okd] dp(1) .
    then show "live_at s' fromKey = []" using pr by (simp add: s')
    show "\<forall>t \<in> live_tags (record_at s fromKey). \<exists>i j. fmlookup (incarnations_at s fromKey) t = Some i
       \<and> fmlookup moved (deriveMoveTag t toKey) = Some j \<and> in_counters j = in_counters i
       \<and> in_text j = ?text \<and> in_source j = Manual \<and> in_stage j = Entry"
    proof
      fix t assume "t \<in> live_tags (record_at s fromKey)"
      then have "t \<in> in_tag ` set ?live" unfolding tags .
      then obtain i where i: "i \<in> set ?live" "in_tag i = t" by (rule imageE) simp
      then obtain w where w: "w \<in> set (live_at s fromKey)" "i = w\<lparr>in_aliases := in_aliases i\<rparr>" using props(4) by blast
      have "in_tag w = t" "in_counters i = in_counters w"
        using i(2) arg_cong [OF w(2), of in_tag] arg_cong [OF w(2), of in_counters] by simp_all
      moreover have "fmlookup (incarnations_at s fromKey) (in_tag w) = Some w"
        using w(1) live_at_iff [OF assms(1)] by blast
      ultimately show "\<exists>i j. fmlookup (incarnations_at s fromKey) t = Some i
       \<and> fmlookup moved (deriveMoveTag t toKey) = Some j \<and> in_counters j = in_counters i
       \<and> in_text j = ?text \<and> in_source j = Manual \<and> in_stage j = Entry"
        using look(2) [OF i(1)] i(2) by (intro exI [where x = w] exI [where x = "?g i"]) simp
    qed
  qed
qed

lemma rename_total:
  assumes "ok_state s" "proper_rename pf s fromKey toKey"
    "dictionaryTermKey pf k = fromKey" "dictionaryTermKey pf (normalizeDictionaryTermText rawNext) = toKey"
    "s' = fst (renameTerm pf s c k rawNext now)"
  shows "total_at s' toKey = total_at s toKey + total_at s fromKey"
proof -
  obtain moved where m:
    "incarnations_at s' toKey = incarnations_at s toKey ++\<^sub>f moved" "tombstones_at s' toKey = tombstones_at s toKey"
    "fset (fmdom moved) = (\<lambda>t. deriveMoveTag t toKey) ` live_tags (record_at s fromKey)"
    "\<forall>t \<in> live_tags (record_at s fromKey). \<exists>i j. fmlookup (incarnations_at s fromKey) t = Some i
       \<and> fmlookup moved (deriveMoveTag t toKey) = Some j \<and> in_counters j = in_counters i
       \<and> in_text j = normalizeDictionaryTermText rawNext \<and> in_source j = Manual \<and> in_stage j = Entry"
    by (rule rename_parts [OF assms]) blast
  note pr = assms(2) [unfolded proper_rename_def]
  let ?F = "live_tags (record_at s fromKey)" and ?T = "live_tags (record_at s toKey)" and ?d = "\<lambda>t. deriveMoveTag t toKey"
  have ok: "ok_state s'" using ok_renameTerm [OF assms(1)] assms(5) by simp
  have new: "\<forall>t \<in> ?F. ?d t |\<notin>| fmdom (incarnations_at s toKey) \<and> ?d t |\<notin>| fmdom (tombstones_at s toKey)" using pr by simp
  then have live: "live_tags (record_at s' toKey) = ?T \<union> ?d ` ?F"
    by (auto simp: live_tags_def m(1,2,3))
  have old: "tag_total (incarnations_at s' toKey) t = tag_total (incarnations_at s toKey) t" if "t \<in> ?T" for t
  proof -
    have "t |\<notin>| fmdom moved" using that new m(3) by (auto simp: live_tags_def)
    then show ?thesis by (simp add: tag_total_def m(1))
  qed
  have moved: "tag_total (incarnations_at s' toKey) (?d t) = tag_total (incarnations_at s fromKey) t" if "t \<in> ?F" for t
  proof -
    from that m(4) obtain i j where ij: "fmlookup (incarnations_at s fromKey) t = Some i"
      "fmlookup moved (?d t) = Some j" "in_counters j = in_counters i" by blast
    moreover have "?d t |\<in>| fmdom moved" using ij(2) by (rule fmdomI)
    ultimately show ?thesis by (simp add: tag_total_def m(1))
  qed
  have disj: "?T \<inter> ?d ` ?F = {}" using new by (auto simp: live_tags_def)
  have "total_at s' toKey = (\<Sum>t \<in> ?T. tag_total (incarnations_at s' toKey) t) + (\<Sum>t \<in> ?d ` ?F. tag_total (incarnations_at s' toKey) t)"
    unfolding total_at_tags [OF ok] live by (rule sum.union_disjoint) (simp_all add: disj)
  also have "(\<Sum>t \<in> ?d ` ?F. tag_total (incarnations_at s' toKey) t) = (\<Sum>t \<in> ?F. tag_total (incarnations_at s fromKey) t)"
    using pr moved by (simp add: sum.reindex)
  also have "(\<Sum>t \<in> ?T. tag_total (incarnations_at s' toKey) t) = (\<Sum>t \<in> ?T. tag_total (incarnations_at s toKey) t)"
    using old by (rule sum.cong [OF refl])
  finally show ?thesis by (simp add: total_at_tags [OF assms(1)])
qed

text \<open>
  C17: A rename moves the counters of a term once, also when two replicas rename concurrently. After
  a rename the source has no live incarnation and the target's total is the sum of both; when two
  replicas that agree rename the term to texts with the same key, each with its own clock, the
  merged state has the same total (the tags of the moved incarnations are derived, so the copies
  are recognised as the same) and no live incarnation under the source.
\<close>

theorem rename_moves_counters_once:
  assumes "ok_state s" "proper_rename pf s fromKey toKey" "dictionaryTermKey pf k = fromKey"
    "dictionaryTermKey pf (normalizeDictionaryTermText textA) = toKey" "dictionaryTermKey pf (normalizeDictionaryTermText textB) = toKey"
    "renameTerm pf s cA k textA nowA = (a, cA', chA)" "renameTerm pf s cB k textB nowB = (b, cB', chB)"
  shows "total_at a toKey = total_at s toKey + total_at s fromKey \<and> live_at a fromKey = []
    \<and> total_at (mergeSyncStates a b) toKey = total_at s toKey + total_at s fromKey
    \<and> live_at (mergeSyncStates a b) fromKey = []"
proof -
  have ab: "a = fst (renameTerm pf s cA k textA nowA)" "b = fst (renameTerm pf s cB k textB nowB)" using assms(6,7) by simp_all
  have ok: "ok_state a" "ok_state b" using ok_renameTerm [OF assms(1)] ab by simp_all
  obtain ma where a:
    "incarnations_at a toKey = incarnations_at s toKey ++\<^sub>f ma" "tombstones_at a toKey = tombstones_at s toKey"
    "fset (fmdom ma) = (\<lambda>t. deriveMoveTag t toKey) ` live_tags (record_at s fromKey)"
    "\<forall>t \<in> live_tags (record_at s fromKey). \<exists>i j. fmlookup (incarnations_at s fromKey) t = Some i
       \<and> fmlookup ma (deriveMoveTag t toKey) = Some j \<and> in_counters j = in_counters i
       \<and> in_text j = normalizeDictionaryTermText textA \<and> in_source j = Manual \<and> in_stage j = Entry"
    "live_at a fromKey = []"
    by (rule rename_parts [OF assms(1,2,3,4) ab(1)])
  obtain mb where b:
    "incarnations_at b toKey = incarnations_at s toKey ++\<^sub>f mb" "tombstones_at b toKey = tombstones_at s toKey"
    "fset (fmdom mb) = (\<lambda>t. deriveMoveTag t toKey) ` live_tags (record_at s fromKey)"
    "\<forall>t \<in> live_tags (record_at s fromKey). \<exists>i j. fmlookup (incarnations_at s fromKey) t = Some i
       \<and> fmlookup mb (deriveMoveTag t toKey) = Some j \<and> in_counters j = in_counters i
       \<and> in_text j = normalizeDictionaryTermText textB \<and> in_source j = Manual \<and> in_stage j = Entry"
    "live_at b fromKey = []"
    by (rule rename_parts [OF assms(1,2,3,5) ab(2)])
  have dom: "fmdom ma = fmdom mb" using a(3) b(3) by (metis fset_inject)
  have same: "in_counters i = in_counters j"
    if "fmlookup (incarnations_at a toKey) t = Some i" "fmlookup (incarnations_at b toKey) t = Some j" for t i j
  proof (cases "t |\<in>| fmdom ma")
    case True
    then obtain u where u: "u \<in> live_tags (record_at s fromKey)" "t = deriveMoveTag u toKey" using a(3) by auto
    from True have "fmlookup ma t = Some i" "fmlookup mb t = Some j" using that dom by (simp_all add: a(1) b(1))
    with a(4) b(4) u show ?thesis by force
  next
    case False
    then show ?thesis using that dom by (simp add: a(1) b(1))
  qed
  have "total_at (mergeSyncStates a b) toKey = total_at a toKey"
    by (rule merge_same_evidence [OF ok]) (simp_all add: a(1,2) b(1,2) dom same [unfolded a(1) b(1)])
  moreover have "live_at (mergeSyncStates a b) fromKey = []"
    using a(5) b(5) unfolding live_at_Nil_iff [OF ok(1)] live_at_Nil_iff [OF ok(2)]
      live_at_Nil_iff [OF states.ok_join [OF ok]] merge_parts_at [OF ok] fmdom_fm_join by auto
  ultimately show ?thesis using rename_total [OF assms(1-4) ab(1)] a(5) by simp
qed

lemma surjective_pairing3: "p = (fst p, fst (snd p), snd (snd p))"
  by simp

lemma sample_key_a [simp]:
  "dictionaryTermKey sample_platform [97] = [97]" "normalizeDictionaryTermText [97] = [97]"
  "dictionaryTermKey sample_platform [65] = [97]" "normalizeDictionaryTermText [65] = [65]"
  by code_simp+

lemma sample_live_at [simp]:
  "incarnations_at (sample_state tag stamp node n) [97] = fmempty"
  "live_at (sample_state tag stamp node n) [108, 101, 120] = [sample_incarnation tag stamp node n]"
  by (simp_all add: incarnations_at_def sample_state_def sample_record_def sample_incarnation_def live_at_def
      listLiveIncarnations_def obj_eval hasDictionaryKey_fmdom)

lemma sample_proper_rename: "proper_rename sample_platform (sample_state [1] [1] [7] 3) [108, 101, 120] [97]"
  by (simp add: proper_rename_def live_tags_def)

lemma rename_moves_counters_once_witness:
  "total_at (mergeSyncStates (fst (renameTerm sample_platform (sample_state [1] [1] [7] 3) clock_a [108, 101, 120] [97] 7))
      (fst (renameTerm sample_platform (sample_state [1] [1] [7] 3) clock_b [108, 101, 120] [65] 8))) [97]
    = total_at (sample_state [1] [1] [7] 3) [97] + total_at (sample_state [1] [1] [7] 3) [108, 101, 120]"
  using rename_moves_counters_once [OF _ sample_proper_rename _ _ _ surjective_pairing3 surjective_pairing3,
      of "[108, 101, 120]" "[97]" "[65]" clock_a 7 clock_b 8]
  by (simp add: ok_sample_numeral)

end
