(* ===== verification/DictCollect.thy ===== *)
theory DictCollect
  imports DictGuarantees
begin

text \<open>
  What the housekeeping of the dictionary promises: collecting expired tombstones, promoting
  candidates with enough evidence and pruning weak candidates.
\<close>

section \<open>Collecting\<close>

lemma gc_record_changed:
  "fst (snd (gc_record pf s threshold key r memo)) = False \<Longrightarrow> t |\<in>| fmdom (rc_tombstones r) \<Longrightarrow> \<not> expired_tag threshold r t"
  by (auto simp: gc_record_def Let_def list_ex_iff split: prod.splits)

lemma gc_loop_changed:
  "foldl (gc_step pf s threshold) acc es = (records, False, memo) \<Longrightarrow>
    fst (snd acc) = False \<and> (\<forall>(k, r) \<in> set es. \<forall>t. t |\<in>| fmdom (rc_tombstones r) \<longrightarrow> \<not> expired_tag threshold r t)"
proof (induction es arbitrary: acc)
  case (Cons e es)
  obtain rs ch m k r where a: "acc = (rs, ch, m)" "e = (k, r)" by (cases acc; cases e)
  obtain q ch' m' where g: "gc_record pf s threshold k r m = (q, ch', m')" by (cases "gc_record pf s threshold k r m")
  have "gc_step pf s threshold acc e = ((case q of None \<Rightarrow> rs | Some q' \<Rightarrow> fmupd k q' rs), ch \<or> ch', m')"
    by (simp only: a gc_step_def prod.case g Let_def)
  with Cons.IH [of "gc_step pf s threshold acc e"] Cons.prems gc_record_changed [of pf s threshold k r m] g
  show ?case by (auto simp: a)
qed simp

definition unexpired :: "number \<Rightarrow> (jsstring, dict_record) fmap \<Rightarrow> bool" where
  "unexpired threshold records \<longleftrightarrow> (\<forall>k q t stamp. fmlookup records k = Some q \<longrightarrow> fmlookup (rc_tombstones q) t = Some stamp \<longrightarrow>
     threshold \<le> of_int (hlcWallMs stamp))"

lemma gc_record_unexpired:
  assumes "gc_record pf s threshold key r memo = (Some q, ch, memo')" "fmlookup (rc_tombstones q) t = Some stamp"
  shows "threshold \<le> of_int (hlcWallMs stamp)"
proof -
  have "rc_tombstones q = fmfilter (\<lambda>tag. \<not> expired_tag threshold r tag) (rc_tombstones r)"
    using assms(1) by (auto simp: gc_record_def Let_def split: prod.splits if_splits)
  with assms(2) show ?thesis by (auto simp: expired_tag_def split: if_splits)
qed

lemma gc_step_unexpired:
  assumes "unexpired threshold (fst acc)"
  shows "unexpired threshold (fst (gc_step pf s threshold acc e))"
proof -
  obtain rs ch m k r where a: "acc = (rs, ch, m)" "e = (k, r)" by (cases acc; cases e)
  obtain q ch' m' where g: "gc_record pf s threshold k r m = (q, ch', m')" by (cases "gc_record pf s threshold k r m")
  have "gc_step pf s threshold acc e = ((case q of None \<Rightarrow> rs | Some q' \<Rightarrow> fmupd k q' rs), ch \<or> ch', m')"
    by (simp only: a gc_step_def prod.case g Let_def)
  then show ?thesis
    using assms gc_record_unexpired [of pf s threshold k r m _ ch' m'] g
    by (cases q) (auto simp: a unexpired_def split: if_splits)
qed

lemma gc_loop_kept:
  assumes "foldl (gc_step pf s threshold) (fmempty, False, fmempty) es = (records, ch, memo)"
  shows "unexpired threshold records"
proof -
  have "unexpired threshold (fst (foldl (gc_step pf s threshold) (fmempty, False, fmempty) es))"
    by (rule foldl_invariant [where P = "\<lambda>a. unexpired threshold (fst a)"]) (simp add: unexpired_def, rule gc_step_unexpired)
  then show ?thesis by (simp add: assms)
qed

lemma gc_unexpired:
  assumes "fmlookup (tombstones_at (gcTombstones pf s now ttl) k) t = Some stamp"
  shows "now - ttl \<le> of_int (hlcWallMs stamp)"
proof -
  let ?g = "foldl (gc_step pf s (now - ttl)) (fmempty, False, fmempty) (obj_entries (st_records s))"
  obtain records ch memo where g: "?g = (records, ch, memo)" by (cases ?g)
  show ?thesis
  proof (cases "has_expired_state s (now - ttl)")
    case False
    then have t: "fmlookup (tombstones_at s k) t = Some stamp" using assms by (simp add: gcTombstones_def Let_def)
    then obtain r where "fmlookup (st_records s) k = Some r" "fmlookup (rc_tombstones r) t = Some stamp"
      by (auto simp: tombstones_at_def split: option.splits)
    with False show ?thesis
      by (auto simp: has_expired_state_def list_ex_iff Ball_obj_values simp flip: not_less)
  next
    case True
    show ?thesis
    proof (cases ch)
      case False
      then have False_ch: "ch = False" by simp
      from False have s: "gcTombstones pf s now ttl = s" using g True by (simp add: gcTombstones_def Let_def createDictionaryMap_def)
      then obtain r where r: "fmlookup (st_records s) k = Some r" "fmlookup (rc_tombstones r) t = Some stamp"
        using assms by (auto simp: tombstones_at_def split: option.splits)
      then have "(k, r) \<in> set (obj_entries (st_records s))" "t |\<in>| fmdom (rc_tombstones r)"
        by (simp_all add: set_obj_entries fmdomI)
      moreover have "\<forall>(k, r) \<in> set (obj_entries (st_records s)). \<forall>t. t |\<in>| fmdom (rc_tombstones r) \<longrightarrow> \<not> expired_tag (now - ttl) r t"
        using gc_loop_changed [OF g [unfolded False_ch]] by blast
      ultimately have "\<not> expired_tag (now - ttl) r t" by blast
      with r(2) show ?thesis by (simp add: expired_tag_def)
    next
      case True
      with \<open>has_expired_state s (now - ttl)\<close> g have s': "st_records (gcTombstones pf s now ttl) = records"
        by (simp add: gcTombstones_def Let_def createDictionaryMap_def)
      then have t: "fmlookup (rc_tombstones (record_or_empty records k)) t = Some stamp"
        using assms by (metis record_at_or_empty record_at_simps(2))
      show ?thesis
        using gc_loop_kept [OF g] t by (auto simp: unexpired_def record_or_empty_def split: option.splits)
    qed
  qed
qed

text \<open>
  C18: Collecting tombstones loses no live evidence and resurrects nothing. Every term keeps the
  same live incarnations, with the same text, source, stage and counters, and so the same total;
  the suppressions stay; the tombstones that are left are some of the old ones, none of them
  expired; and the state stays well formed.
\<close>

theorem collection_keeps_live_evidence:
  assumes "ok_state s" "gcTombstones pf s now ttl = s'"
  shows "ok_state s' \<and> st_suppressed s' = st_suppressed s
    \<and> map in_tag (live_at s' k) = map in_tag (live_at s k)
    \<and> (\<forall>i \<in> set (live_at s k). \<exists>m. i\<lparr>in_aliases := m\<rparr> \<in> set (live_at s' k))
    \<and> total_at s' k = total_at s k
    \<and> (\<forall>t stamp. fmlookup (tombstones_at s' k) t = Some stamp \<longrightarrow>
         fmlookup (tombstones_at s k) t = Some stamp \<and> now - ttl \<le> of_int (hlcWallMs stamp))"
proof -
  have keeps: "gc_keeps (record_at s k) (record_at s' k)" "st_suppressed s' = st_suppressed s"
    using gcTombstones_keeps [OF assms(1)] assms(2) by blast+
  have ok: "ok_state s'" using ok_gcTombstones [OF assms(1)] assms(2) by blast
  have tags: "live_tags (record_at s' k) = live_tags (record_at s k)" using keeps(1) by (simp add: gc_keeps_def)
  have "map in_tag (live_at s' k) = map in_tag (live_at s k)"
  proof (rule sorted_distinct_set_unique)
    show "sorted (map in_tag (live_at s' k))" "sorted (map in_tag (live_at s k))"
      by (simp_all add: live_at_record_at sorted_listLiveIncarnations)
    show "distinct (map in_tag (live_at s' k))" "distinct (map in_tag (live_at s k))"
      using distinct_live_tags ok_record_at [OF ok] ok_record_at [OF assms(1)] by (simp_all add: live_at_record_at)
    show "set (map in_tag (live_at s' k)) = set (map in_tag (live_at s k))"
      by (simp add: in_tags_live_at [OF ok] in_tags_live_at [OF assms(1)] tags)
  qed
  moreover have "\<exists>m. i\<lparr>in_aliases := m\<rparr> \<in> set (live_at s' k)" if "i \<in> set (live_at s k)" for i
  proof -
    have "in_tag i \<in> live_tags (record_at s k)" using that in_tags_live_at [OF assms(1), of k] by blast
    moreover have "fmlookup (incarnations_at s k) (in_tag i) = Some i" using that live_at_iff [OF assms(1)] by blast
    ultimately obtain m where m: "fmlookup (incarnations_at s' k) (in_tag i) = Some (i\<lparr>in_aliases := m\<rparr>)"
      using keeps(1) unfolding gc_keeps_def record_at_simps by blast
    have "in_tag i \<in> live_tags (record_at s' k)" using \<open>in_tag i \<in> live_tags (record_at s k)\<close> tags by simp
    then have "fmlookup (tombstones_at s' k) (in_tag i) = None" by (simp add: live_tags_def fmdom_notD)
    with m have "i\<lparr>in_aliases := m\<rparr> \<in> set (live_at s' k)" unfolding live_at_iff [OF ok] by simp
    then show ?thesis ..
  qed
  moreover have "fmlookup (tombstones_at s k) t = Some stamp \<and> now - ttl \<le> of_int (hlcWallMs stamp)"
    if "fmlookup (tombstones_at s' k) t = Some stamp" for t stamp
    using that keeps(1) gc_unexpired [of pf s now ttl k t stamp] assms(2) unfolding gc_keeps_def record_at_simps
    by (metis option.distinct(1))
  ultimately show ?thesis
    using ok keeps(2) total_at_gc [OF assms(1), of pf now ttl k] assms(2) by simp
qed

lemma collection_keeps_live_evidence_witness:
  "total_at (gcTombstones sample_platform (fst (deleteTerms sample_platform (sample_state [1] [1] [7] 3) clock_a [[108, 101, 120]] 7 True))
     100 5) [108, 101, 120] = 0"
proof -
  let ?d = "fst (deleteTerms sample_platform (sample_state [1] [1] [7] 3) clock_a [[108, 101, 120]] 7 True)"
  have "ok_state ?d" by (rule ok_deleteTerms) (simp add: ok_sample_numeral)
  from collection_keeps_live_evidence [OF this refl, of sample_platform 100 5 "[108, 101, 120]"]
  have "total_at (gcTombstones sample_platform ?d 100 5) [108, 101, 120] = total_at ?d [108, 101, 120]" by blast
  moreover have "live_at ?d [108, 101, 120] = []"
    unfolding live_at_Nil_iff [OF \<open>ok_state ?d\<close>]
      deleteTerms_parts(1) [OF ok_sample_numeral(1) refl] deleteTerms_parts(2) [OF ok_sample_numeral(1) refl]
    by (simp add: live_tags_def)
  ultimately show ?thesis by (simp add: total_at_Nil)
qed

section \<open>Promoting\<close>

definition promotable :: "sync_state \<Rightarrow> jsstring \<Rightarrow> bool" where
  "promotable s k \<longleftrightarrow> \<not> hasDictionaryKey (st_suppressed s) k \<and> DICTIONARY_CANDIDATE_PROMOTION_COUNT \<le> total_at s k
     \<and> (\<forall>i \<in> set (live_at s k). in_stage i \<noteq> Entry)"

definition promoted :: "dict_record \<Rightarrow> dict_record \<Rightarrow> bool" where
  "promoted r q \<longleftrightarrow> rc_tombstones q = rc_tombstones r \<and> fmdom (rc_incarnations q) = fmdom (rc_incarnations r)
     \<and> (\<forall>t i. fmlookup (rc_incarnations r) t = Some i \<longrightarrow> (\<exists>u. fmlookup (rc_incarnations q) t =
          Some (if t \<in> live_tags r then i\<lparr>in_stage := Entry, in_updatedAt := u\<rparr> else i)))"

lemma foldl_upd_map:
  assumes "distinct (map f is)"
  shows "fmlookup (foldl (\<lambda>m i. fmupd (f i) (g i) m) m0 is) t
    = (if t \<in> f ` set is then Some (g (THE i. i \<in> set is \<and> f i = t)) else fmlookup m0 t)"
  using assms
proof (induction "is" rule: rev_induct)
  case (snoc x xs)
  show ?case
  proof (cases "t = f x")
    case True
    then have "(THE i. i \<in> set (xs @ [x]) \<and> f i = t) = x"
      using snoc.prems by (intro the_equality) (auto simp: image_iff)
    with True show ?thesis by simp
  next
    case False
    then have "(\<lambda>i. i \<in> set (xs @ [x]) \<and> f i = t) = (\<lambda>i. i \<in> set xs \<and> f i = t)" by auto
    with False snoc show ?thesis by simp
  qed
qed simp

lemma promoteTermToEntry_promoted:
  assumes "ok_state s" "fmlookup (st_records s) k = Some r" "\<forall>i \<in> set (listLiveIncarnations r). in_stage i \<noteq> Entry"
    "listLiveIncarnations r \<noteq> []"
  obtains q c' where "promoteTermToEntry s c k now = (putRecord s k q (Some c'), c', True)" "promoted r q"
proof -
  obtain clock stamp where t: "tickHlc c now = (clock, stamp)" by (cases "tickHlc c now")
  let ?l = "listLiveIncarnations r" and ?g = "\<lambda>i. i\<lparr>in_stage := Entry, in_updatedAt := now\<rparr>"
  let ?q = "r\<lparr>rc_incarnations := foldl (\<lambda>m i. fmupd (in_tag i) (?g i) m) (rc_incarnations r) ?l\<rparr>"
  have r: "ok_record r" using assms(1,2) by (auto simp: ok_state_def dest: fmpredD)
  have same: "foldl (\<lambda>incs i. if in_stage i = Entry then incs else fmupd (in_tag i) (?g i) incs) m ?l
    = foldl (\<lambda>m i. fmupd (in_tag i) (?g i) m) m ?l" for m
    by (rule foldl_cong) (use assms(3) in auto)
  have "\<not> list_all (\<lambda>item. in_stage item = Entry) ?l"
    using assms(3,4) by (cases ?l) auto
  then have eq: "promoteTermToEntry s c k now = (putRecord s k ?q (Some clock), clock, True)"
    unfolding promoteTermToEntry_def assms(2) Let_def t prod.case option.case same using assms(4) by simp
  have tags: "in_tag ` set ?l = live_tags r" by (rule live_tags_image [OF r])
  have dist: "distinct (map in_tag ?l)" by (rule distinct_live_tags [OF r])
  have the: "(THE j. j \<in> set ?l \<and> in_tag j = in_tag i) = i" if "i \<in> set ?l" for i
    using that dist by (intro the_equality) (auto simp: distinct_map dest: inj_onD)
  have "promoted r ?q"
    unfolding promoted_def
  proof (intro conjI allI impI)
    show "fmdom (rc_incarnations ?q) = fmdom (rc_incarnations r)"
      using tags by (auto simp: fset_eq_iff fmdom_foldl_upd live_tags_def)
    fix t i assume i: "fmlookup (rc_incarnations r) t = Some i"
    show "\<exists>u. fmlookup (rc_incarnations ?q) t = Some (if t \<in> live_tags r then i\<lparr>in_stage := Entry, in_updatedAt := u\<rparr> else i)"
    proof (cases "t \<in> live_tags r")
      case True
      then have "t \<in> in_tag ` set ?l" unfolding tags .
      moreover from this obtain j where j: "j \<in> set ?l" "t = in_tag j" by blast
      moreover have "j = i" using j i in_live [OF r] by simp
      ultimately have "fmlookup (rc_incarnations ?q) t = Some (?g i)" using the [of j] by (simp add: foldl_upd_map [OF dist])
      with True show ?thesis by auto
    next
      case False
      then have "t \<notin> in_tag ` set ?l" unfolding tags .
      with False i show ?thesis by (simp add: foldl_upd_map [OF dist])
    qed
  qed simp
  with eq show thesis by (rule that)
qed

lemma promoted_live:
  assumes "ok_record r" "ok_record q" "promoted r q"
  shows "live_tags q = live_tags r" "live_total (listLiveIncarnations q) = live_total (listLiveIncarnations r)"
    "\<forall>i \<in> set (listLiveIncarnations q). in_stage i = Entry"
proof -
  show tags: "live_tags q = live_tags r" using assms(3) by (simp add: promoted_def live_tags_def)
  have look: "\<exists>i u. fmlookup (rc_incarnations r) t = Some i \<and> fmlookup (rc_incarnations q) t = Some (i\<lparr>in_stage := Entry, in_updatedAt := u\<rparr>)"
    if "t \<in> live_tags r" for t
  proof -
    from that obtain i where i: "fmlookup (rc_incarnations r) t = Some i" by (auto simp: live_tags_def fmlookup_dom_iff)
    with that assms(3) show ?thesis unfolding promoted_def by fastforce
  qed
  show "live_total (listLiveIncarnations q) = live_total (listLiveIncarnations r)"
    unfolding live_total_tags [OF assms(1)] live_total_tags [OF assms(2)] tags
    by (rule sum.cong [OF refl]) (use look in \<open>fastforce simp: tag_total_def\<close>)
  show "\<forall>i \<in> set (listLiveIncarnations q). in_stage i = Entry"
  proof
    fix i assume i: "i \<in> set (listLiveIncarnations q)"
    then have "in_tag i \<in> live_tags r" using live_tags_image [OF assms(2)] tags by blast
    from look [OF this] i show "in_stage i = Entry" by (auto simp: in_live [OF assms(2)])
  qed
qed

lemma promote_fold:
  assumes "ok_state s"
  shows "distinct (map fst es) \<Longrightarrow> (\<And>k r. (k, r) \<in> set es \<Longrightarrow> fmlookup (st_records s) k = Some r \<and> fmlookup (st_records n) k = Some r) \<Longrightarrow>
    ok_state n \<Longrightarrow> foldl (promote_step s now) (n, c, ch) es = (s', c', ch') \<Longrightarrow>
    st_suppressed s' = st_suppressed n \<and> (\<forall>k. k \<notin> fst ` set es \<longrightarrow> record_at s' k = record_at n k)
    \<and> (\<forall>(k, r) \<in> set es. if promotable s k then promoted r (record_at s' k) else record_at s' k = r)"
proof (induction es arbitrary: n c ch)
  case (Cons e es)
  obtain k r where e: "e = (k, r)" by (cases e)
  let ?n = "fst (promote_step s now (n, c, ch) e)"
  obtain c1 ch1 where st: "promote_step s now (n, c, ch) e = (?n, c1, ch1)"
    by (cases "promote_step s now (n, c, ch) e") simp
  have r: "fmlookup (st_records s) k = Some r" "fmlookup (st_records n) k = Some r" using Cons.prems(2) e by auto
  have live: "live_at s k = listLiveIncarnations r" using r by (simp add: live_at_def)
  have here: "st_suppressed ?n = st_suppressed n \<and> (\<forall>j. j \<noteq> k \<longrightarrow> record_at ?n j = record_at n j)
    \<and> (if promotable s k then promoted r (record_at ?n k) else record_at ?n k = r)
    \<and> (\<forall>j. j \<noteq> k \<longrightarrow> fmlookup (st_records ?n) j = fmlookup (st_records n) j)"
  proof (cases "promotable s k")
    case True
    have "listLiveIncarnations r \<noteq> []"
      using True live total_at_Nil [of s k] by (auto simp: promotable_def DICTIONARY_CANDIDATE_PROMOTION_COUNT_def)
    moreover have stages: "\<forall>i \<in> set (listLiveIncarnations r). in_stage i \<noteq> Entry" using True live by (simp add: promotable_def)
    ultimately obtain q c2 where q: "promoteTermToEntry n c k (foldl max now (map in_updatedAt (listLiveIncarnations r)))
        = (putRecord n k q (Some c2), c2, True)" "promoted r q"
      using promoteTermToEntry_promoted [OF Cons.prems(3) r(2)] by metis
    have "\<not> (hasDictionaryKey (st_suppressed s) k \<or> list_ex (\<lambda>item. in_stage item = Entry) (listLiveIncarnations r))"
      using True stages by (auto simp: promotable_def list_ex_iff)
    moreover have "\<not> live_total (listLiveIncarnations r) < DICTIONARY_CANDIDATE_PROMOTION_COUNT"
      using True live by (simp add: promotable_def total_at_def)
    ultimately have "?n = putRecord n k q (Some c2)"
      by (simp add: promote_step_def e Let_def q)
    with q(2) True show ?thesis by simp
  next
    case False
    then have "?n = n"
      using live by (auto simp: promote_step_def e Let_def promotable_def list_ex_iff total_at_def)
    with False r show ?thesis by simp
  qed
  have ok: "ok_state ?n" using ok_promote_step [of "(n, c, ch)" s now e] Cons.prems(3) by simp
  have "k \<notin> fst ` set es" using Cons.prems(1) e by simp
  moreover from this have "fmlookup (st_records s) k' = Some r' \<and> fmlookup (st_records ?n) k' = Some r'" if "(k', r') \<in> set es" for k' r'
    using that here Cons.prems(2) [of k' r'] by (auto simp: rev_image_eqI)
  ultimately have "st_suppressed s' = st_suppressed ?n \<and> (\<forall>k. k \<notin> fst ` set es \<longrightarrow> record_at s' k = record_at ?n k)
    \<and> (\<forall>(k, r) \<in> set es. if promotable s k then promoted r (record_at s' k) else record_at s' k = r)"
    using Cons.IH [OF _ _ ok, of c1 ch1] Cons.prems(1,4) st by (simp del: split_paired_All)
  with here [unfolded e] \<open>k \<notin> fst ` set es\<close> show ?case unfolding e by (cases "promotable s k") simp_all
qed simp

lemma promote_records:
  assumes "ok_state s" "promoteEligibleDictionaryCandidates s c now = (s', c', changed)"
  shows "st_suppressed s' = st_suppressed s"
    and "if promotable s k then promoted (record_at s k) (record_at s' k) else record_at s' k = record_at s k"
proof -
  have "st_suppressed s' = st_suppressed s \<and> (\<forall>k. k \<notin> fst ` set (obj_entries (st_records s)) \<longrightarrow> record_at s' k = record_at s k)
    \<and> (\<forall>(k, r) \<in> set (obj_entries (st_records s)). if promotable s k then promoted r (record_at s' k) else record_at s' k = r)"
    by (rule promote_fold [OF assms(1) _ _ assms(1) assms(2) [unfolded promoteEligibleDictionaryCandidates_def]])
      (simp_all add: set_obj_entries)
  note fold = conjunct1 [OF this] conjunct1 [OF conjunct2 [OF this]] conjunct2 [OF conjunct2 [OF this]]
  show "st_suppressed s' = st_suppressed s" by (rule fold(1))
  show "if promotable s k then promoted (record_at s k) (record_at s' k) else record_at s' k = record_at s k"
  proof (cases "fmlookup (st_records s) k")
    case None
    then have "live_at s k = []" by (simp add: live_at_def)
    then have "\<not> promotable s k"
      using total_at_Nil [of s k] by (auto simp: promotable_def DICTIONARY_CANDIDATE_PROMOTION_COUNT_def)
    moreover have "k \<notin> fst ` set (obj_entries (st_records s))" using None by (auto simp: set_obj_entries)
    ultimately show ?thesis using fold(2) by simp
  next
    case (Some r)
    then have "(k, r) \<in> set (obj_entries (st_records s))" by (simp add: set_obj_entries)
    with fold(3) have "if promotable s k then promoted r (record_at s' k) else record_at s' k = r" by blast
    with Some show ?thesis by simp
  qed
qed

text \<open>
  Promotion confirms exactly the candidates with enough evidence. Of a term that is not
  suppressed, has no live incarnation at the entry stage and whose total reaches the threshold,
  every live incarnation is at the entry stage afterwards, with live tags and total unchanged;
  every other record is left as it is, and so are the suppressions.
\<close>

theorem promotion_confirms_eligible:
  assumes "ok_state s" "promoteEligibleDictionaryCandidates s c now = (s', c', changed)"
  shows "ok_state s' \<and> st_suppressed s' = st_suppressed s \<and> total_at s' k = total_at s k
    \<and> map in_tag (live_at s' k) = map in_tag (live_at s k)
    \<and> (if \<not> hasDictionaryKey (st_suppressed s) k \<and> DICTIONARY_CANDIDATE_PROMOTION_COUNT \<le> total_at s k
          \<and> (\<forall>i \<in> set (live_at s k). in_stage i \<noteq> Entry)
       then live_at s' k \<noteq> [] \<and> (\<forall>i \<in> set (live_at s' k). in_stage i = Entry)
       else record_at s' k = record_at s k)"
proof -
  have ok: "ok_state s'" using ok_promoteEligible [OF assms(1), of c now] assms(2) by simp
  note sup = promote_records(1) [OF assms] and rec = promote_records(2) [OF assms, of k]
  note oks = ok_record_at [OF assms(1), of k] ok_record_at [OF ok, of k]
  show ?thesis
  proof (cases "promotable s k")
    case True
    then have "live_at s k \<noteq> []"
      using total_at_Nil [of s k] by (auto simp: promotable_def DICTIONARY_CANDIDATE_PROMOTION_COUNT_def)
    from True have p: "promoted (record_at s k) (record_at s' k)" using rec by simp
    note live = promoted_live [OF oks p]
    have tags: "map in_tag (live_at s' k) = map in_tag (live_at s k)"
    proof (rule sorted_distinct_set_unique)
      show "sorted (map in_tag (live_at s' k))" "sorted (map in_tag (live_at s k))"
        by (simp_all add: live_at_record_at sorted_listLiveIncarnations)
      show "distinct (map in_tag (live_at s' k))" "distinct (map in_tag (live_at s k))"
        using distinct_live_tags oks by (simp_all add: live_at_record_at)
      show "set (map in_tag (live_at s' k)) = set (map in_tag (live_at s k))"
        by (simp add: in_tags_live_at [OF ok] in_tags_live_at [OF assms(1)] live(1))
    qed
    moreover have "total_at s' k = total_at s k" using live(2) by (simp add: total_at_def live_at_record_at)
    moreover have "live_at s' k \<noteq> []" using tags \<open>live_at s k \<noteq> []\<close> by (metis list.map_disc_iff)
    ultimately show ?thesis
      using True live(3) ok sup by (simp add: promotable_def live_at_record_at)
  next
    case False
    then have "record_at s' k = record_at s k" using rec by simp
    then show ?thesis
      using False ok sup by (auto simp: promotable_def total_at_def live_at_record_at)
  qed
qed

lemma promotion_confirms_eligible_witness:
  "total_at (fst (promoteEligibleDictionaryCandidates (sample_state [1] [1] [7] 3) clock_a 7)) [108, 101, 120]
    = total_at (sample_state [1] [1] [7] 3) [108, 101, 120]"
  using promotion_confirms_eligible [OF ok_sample_numeral(1) surjective_pairing3] by blast

section \<open>Pruning\<close>

lemma weak_candidates_set:
  "(k, n) \<in> set (weak_candidates s) \<longleftrightarrow> live_at s k \<noteq> [] \<and> n = total_at s k
     \<and> (\<forall>i \<in> set (live_at s k). in_stage i \<noteq> Entry \<and> in_source i \<noteq> Manual)"
  by (cases "fmlookup (st_records s) k")
    (auto simp: weak_candidates_def total_at_def live_at_def set_obj_entries list_ex_iff image_iff)

lemma weak_candidates_distinct: "distinct (map fst (weak_candidates s))"
proof -
  have "map fst (weak_candidates s) = map fst (filter (\<lambda>(key, r). listLiveIncarnations r \<noteq> []
        \<and> \<not> list_ex (\<lambda>item. in_stage item = Entry \<or> in_source item = Manual) (listLiveIncarnations r))
        (obj_entries (st_records s)))"
    by (simp add: weak_candidates_def split_beta comp_def)
  then show ?thesis by (simp add: distinct_map_filter)
qed

definition weaker :: "jsstring \<times> number \<Rightarrow> jsstring \<times> number \<Rightarrow> bool" where
  "weaker a b \<longleftrightarrow> or_else (snd a - snd b) (if fst a < fst b then -1 else 1) \<le> 0"

lemma weaker_iff: "weaker a b \<longleftrightarrow> snd a < snd b \<or> snd a = snd b \<and> fst a < fst b"
  by (auto simp: weaker_def or_else_nonpos)

lemma weaker_total: "fst a \<noteq> fst b \<Longrightarrow> weaker a b \<or> weaker b a"
  unfolding weaker_iff by (metis linorder_neqE)

lemma weaker_trans: "weaker a b \<Longrightarrow> weaker b c \<Longrightarrow> weaker a c"
  unfolding weaker_iff by (elim disjE conjE) simp_all

lemma sorted_weaker:
  assumes "distinct (map fst items)"
  shows "sorted_wrt weaker (sort_by weaker items)"
proof (rule sorted_sort_by [of "set items"])
  show "\<forall>x \<in> set items. \<forall>y \<in> set items. x \<noteq> y \<longrightarrow> weaker x y \<or> weaker y x"
    using distinct_keys_eq [OF assms] weaker_total by blast
  show "distinct items" using assms by (simp add: distinct_map)
qed (use weaker_trans in blast)+

lemma take_drop_mem: "x \<in> set (take n xs) \<or> x \<in> set (drop n xs) \<longleftrightarrow> x \<in> set xs"
  by (metis Un_iff append_take_drop_id set_append)

lemma take_drop_keys:
  assumes "distinct (map fst xs)" "(j, m) \<in> set (drop n xs)"
  shows "j \<notin> set (map fst (take n xs))"
proof -
  have "distinct (map fst (take n xs) @ map fst (drop n xs))"
    using assms(1) by (simp only: map_append [symmetric] append_take_drop_id)
  moreover have "j \<in> set (map fst (drop n xs))" using assms(2) by (simp add: rev_image_eqI)
  ultimately show ?thesis by (auto simp del: set_map)
qed

text \<open>
  Pruning keeps the dictionary within its limit and hurts only the weakest candidates. When
  the keys of the state are their own keys, after \<open>pruneWeakAutomaticCandidates\<close> at most the limit
  of weak candidates is live; a term with a confirmed or manual incarnation keeps its record; and
  a weak candidate that lost its live incarnations had a total no larger than any that is kept.
\<close>

theorem pruning_hits_weakest:
  assumes "ok_state s" "\<forall>k r. fmlookup (st_records s) k = Some r \<longrightarrow> k \<noteq> [] \<and> dictionaryTermKey pf k = k"
    "pruneWeakAutomaticCandidates pf s c maxRecords now = (s', c', changed)"
  shows "int (length (weak_candidates s')) \<le> max 0 maxRecords
    \<and> (\<forall>k. (\<exists>i \<in> set (live_at s k). in_stage i = Entry \<or> in_source i = Manual) \<longrightarrow> record_at s' k = record_at s k)
    \<and> (\<forall>k. record_at s' k = record_at s k \<or> live_at s' k = [])
    \<and> (\<forall>k j. live_at s k \<noteq> [] \<longrightarrow> live_at s' k = [] \<longrightarrow> (j, total_at s' j) \<in> set (weak_candidates s') \<longrightarrow>
         total_at s k \<le> total_at s' j)"
proof (cases "int (length (weak_candidates s)) \<le> max 0 maxRecords")
  case True
  then have "s' = s" using assms(3) by (simp add: pruneWeakAutomaticCandidates_def Let_def)
  with True show ?thesis by simp
next
  case False
  let ?w = "weak_candidates s" and ?n = "nat (int (length (weak_candidates s)) - max 0 maxRecords)"
  let ?sorted = "sort_by weaker ?w"
  let ?doomed = "map fst (take ?n ?sorted)"
  have w: "(\<lambda>a b. or_else (snd a - snd b) (if fst a < fst b then -1 else 1) \<le> 0) = weaker"
    by (simp only: fun_eq_iff weaker_def) simp
  have slice: "slice0 (int (length ?w) - max 0 maxRecords) ?sorted = take ?n ?sorted"
    using False by (simp only: slice0_def if_True)  (simp add: not_le)
  have prune: "deleteTerms pf s c ?doomed now False = (s', c', changed)"
    using assms(3) unfolding pruneWeakAutomaticCandidates_def Let_def w slice if_not_P [OF False] .
  have ok: "ok_state s'" using ok_deleteTerms [OF assms(1), of pf c ?doomed now False] prune by simp
  have dist: "distinct (map fst ?sorted)" by (simp add: weak_candidates_distinct)
  have weak: "(k, total_at s k) \<in> set ?w" if "k \<in> set ?doomed" for k
  proof -
    from that obtain n where "(k, n) \<in> set ?sorted" by (auto dest: in_set_takeD)
    then have "(k, n) \<in> set ?w" by simp
    then show ?thesis by (simp add: weak_candidates_set)
  qed
  have key: "k \<noteq> [] \<and> dictionaryTermKey pf k = k" if "live_at s k \<noteq> []" for k
    using that assms(2) by (cases "fmlookup (st_records s) k") (auto simp: live_at_def)
  have doomed_key: "dictionaryTermKey pf ` set ?doomed = set ?doomed"
  proof (rule set_eqI)
    fix k
    have "\<forall>j \<in> set ?doomed. dictionaryTermKey pf j = j" using weak key by (simp add: weak_candidates_set del: set_map)
    then show "k \<in> dictionaryTermKey pf ` set ?doomed \<longleftrightarrow> k \<in> set ?doomed" by (simp add: image_iff del: set_map)
  qed
  have same: "record_at s' k = record_at s k" if "k \<notin> set ?doomed" for k
    using deleteTerms_parts(3) [OF assms(1), of s' pf c ?doomed now False k] prune that doomed_key by simp
  have gone: "live_at s' k = []" if "k \<in> set ?doomed" for k
  proof -
    have "k \<noteq> []" "k \<in> dictionaryTermKey pf ` set ?doomed" using key weak [OF that] that doomed_key by (auto simp: weak_candidates_set)
    then have "fset (fmdom (incarnations_at s' k)) \<subseteq> fset (fmdom (tombstones_at s' k))"
      using deleteTerms_parts(1,2) [OF assms(1), of s' pf c ?doomed now False k] prune by (auto simp: live_tags_def)
    then show ?thesis by (simp add: live_at_Nil_iff [OF ok])
  qed
  have kept: "(j, m) \<in> set (weak_candidates s') \<longleftrightarrow> (j, m) \<in> set (drop ?n ?sorted)" for j m
  proof -
    have "(j, m) \<in> set (weak_candidates s') \<longleftrightarrow> (j, m) \<in> set ?w \<and> j \<notin> set ?doomed"
      using gone [of j] same [of j] by (cases "j \<in> set ?doomed") (auto simp: weak_candidates_set live_at_record_at total_at_def)
    moreover have "(j, m) \<in> set ?w \<longleftrightarrow> (j, m) \<in> set (take ?n ?sorted) \<or> (j, m) \<in> set (drop ?n ?sorted)"
      unfolding take_drop_mem by simp
    moreover have "(j, m) \<in> set (drop ?n ?sorted) \<Longrightarrow> j \<notin> set ?doomed"
      by (rule take_drop_keys [OF dist])
    moreover have "(j, m) \<in> set (take ?n ?sorted) \<Longrightarrow> j \<in> set ?doomed" by (simp add: rev_image_eqI)
    ultimately show ?thesis by argo
  qed
  have "length (weak_candidates s') = card (set (weak_candidates s'))"
    using weak_candidates_distinct [of s'] by (simp add: distinct_map distinct_card)
  also have "set (weak_candidates s') = set (drop ?n ?sorted)" using kept by auto
  also have "card (set (drop ?n ?sorted)) \<le> length (drop ?n ?sorted)" by (rule card_length)
  finally have "int (length (weak_candidates s')) \<le> max 0 maxRecords" using False by simp
  moreover have "total_at s k \<le> total_at s' j"
    if "live_at s k \<noteq> []" "live_at s' k = []" "(j, total_at s' j) \<in> set (weak_candidates s')" for k j
  proof -
    have "k \<in> set ?doomed"
    proof (rule ccontr)
      assume "k \<notin> set ?doomed"
      from same [OF this] that(1,2) show False by (simp add: live_at_record_at)
    qed
    then obtain n where n: "(k, n) \<in> set (take ?n ?sorted)" by auto
    then have "(k, n) \<in> set ?w" by (auto dest: in_set_takeD)
    then have "n = total_at s k" by (simp add: weak_candidates_set)
    moreover have "weaker (k, n) (j, total_at s' j)"
      using sorted_weaker [OF weak_candidates_distinct] n that(3) unfolding kept by (rule take_drop_sorted)
    ultimately show ?thesis by (auto simp: weaker_iff)
  qed
  moreover have "record_at s' k = record_at s k" if "\<exists>i \<in> set (live_at s k). in_stage i = Entry \<or> in_source i = Manual" for k
    by (rule same) (use that weak [of k] in \<open>auto simp: weak_candidates_set\<close>)
  ultimately show ?thesis using same gone by blast
qed

lemma sample_weak: "weak_candidates (sample_state [1] [1] [7] 3) = [([108, 101, 120], 3)]"
  using Math_floor_of_int [of 3]
  by (simp add: weak_candidates_def sample_state_def obj_eval sample_record_def listLiveIncarnations_def sample_incarnation_def
      hasDictionaryKey_fmdom live_total_def readCounterTotal_sum bucket_def)

lemma pruning_hits_weakest_witness:
  "weak_candidates (fst (pruneWeakAutomaticCandidates sample_platform (sample_state [1] [1] [7] 3) clock_a 0 7)) = []
    \<and> live_at (fst (pruneWeakAutomaticCandidates sample_platform (sample_state [1] [1] [7] 3) clock_a 0 7)) [108, 101, 120] = []"
proof -
  let ?s = "sample_state [1] [1] [7] 3" and ?p = "fst (pruneWeakAutomaticCandidates sample_platform (sample_state [1] [1] [7] 3) clock_a 0 7)"
  have "\<forall>k r. fmlookup (st_records ?s) k = Some r \<longrightarrow> k \<noteq> [] \<and> dictionaryTermKey sample_platform k = k"
    by (auto simp: sample_state_def)
  note prune = pruning_hits_weakest [OF ok_sample_numeral(1) this surjective_pairing3, of clock_a 0 7]
  then have w: "weak_candidates ?p = []" by simp
  moreover have "live_at ?p [108, 101, 120] = []"
  proof (rule ccontr)
    assume n: "live_at ?p [108, 101, 120] \<noteq> []"
    with prune have "record_at ?p [108, 101, 120] = record_at ?s [108, 101, 120]" by blast
    then have "live_at ?p [108, 101, 120] = live_at ?s [108, 101, 120]" by (simp only: live_at_record_at)
    then have "([108, 101, 120], total_at ?p [108, 101, 120]) \<in> set (weak_candidates ?p)"
      unfolding weak_candidates_set by (simp add: sample_incarnation_def)
    with w show False by simp
  qed
  ultimately show ?thesis ..
qed

section \<open>Keys that are not their own keys\<close>

text \<open>
  A host whose \<open>toLowerCase\<close> is right on ASCII and on U+0130, which Unicode maps to two code units.
\<close>

definition dotted_lower :: "jsstring \<Rightarrow> jsstring" where
  "dotted_lower s = concat (map (\<lambda>c. if c = 304 then [105, 775] else ascii_lower [c]) s)"

definition dotted_platform :: platform where
  "dotted_platform = sample_platform\<lparr>pf_toLowerCase := dotted_lower\<rparr>"

definition dotted_text :: jsstring where
  "dotted_text = replicate 119 97 @ [304]"

lemma normalize_word:
  assumes "\<forall>c \<in> set w. \<not> is_space c"
  shows "normalizeDictionaryTermText w = take 120 w"
proof (cases "w = []")
  case False
  have "words_of w = [w]" using False split_on_no [of w is_space] assms by (simp add: words_of_def)
  then show ?thesis
    unfolding normalize_words MAX_DICTIONARY_TERM_CHARS_def using assms
    by (simp add: trim_id) (metis hd_in_set in_set_takeD last_in_set trim_id)
qed simp

lemma dotted_keys:
  "normalizeDictionaryTermText dotted_text = dotted_text"
  "dictionaryTermKey dotted_platform dotted_text = replicate 119 97 @ [105, 775]"
  "dictionaryTermKey dotted_platform (replicate 119 97 @ [105, 775]) = replicate 119 97 @ [105]"
proof -
  have sp: "\<not> is_space 97" "\<not> is_space 304" "\<not> is_space 105" "\<not> is_space 775" by (simp_all add: is_space_def)
  show t: "normalizeDictionaryTermText dotted_text = dotted_text"
    by (subst normalize_word) (auto simp: dotted_text_def sp)
  have a: "dotted_lower (replicate n 97) = replicate n 97" for n
    by (induction n) (simp_all add: dotted_lower_def ascii_lower_def)
  have app: "dotted_lower (x @ y) = dotted_lower x @ dotted_lower y" for x y by (simp add: dotted_lower_def)
  show "dictionaryTermKey dotted_platform dotted_text = replicate 119 97 @ [105, 775]"
    unfolding dictionaryTermKey_def t by (simp add: dotted_platform_def dotted_text_def app a) (simp add: dotted_lower_def)
  have "normalizeDictionaryTermText (replicate 119 97 @ [105, 775]) = replicate 119 97 @ [105]"
    by (subst normalize_word) (auto simp: sp)
  then show "dictionaryTermKey dotted_platform (replicate 119 97 @ [105, 775]) = replicate 119 97 @ [105]"
    unfolding dictionaryTermKey_def by (simp add: dotted_platform_def app a) (simp add: dotted_lower_def ascii_lower_def)
qed

text \<open>
  A term whose key is longer than its text cannot be deleted. The key is cut to 120 code units
  again when it is looked up for a deletion, so for a term of 120 code units in which
  lower-casing lengthens one, the entry is shown, its id reads back to its key, and deleting that
  key changes nothing, whatever the clock and the time.
\<close>

theorem lengthened_key_not_deletable:
  assumes "addManualEntry dotted_platform createEmptySyncState c dotted_text now = (s, c', changed)"
  shows "\<exists>key. live_at s key \<noteq> [] \<and> termKeyFromMaterializedId dotted_platform s (materializedEntryId key) limits = Some key
    \<and> deleteTerms dotted_platform s d [key] later suppress = (s, d, False)"
proof -
  let ?key = "replicate 119 97 @ [105, 775]"
  obtain clock stamp where t: "tickHlc c now = (clock, stamp)" by (cases "tickHlc c now")
  let ?i = "createIncarnation dotted_platform stamp dotted_text Manual Entry (nodeId c) [] now"
  have "?key \<noteq> []" by simp
  then have s: "s = putRecord createEmptySyncState ?key \<lparr>rc_incarnations = fmupd stamp ?i fmempty, rc_tombstones = fmempty\<rparr> None"
    using assms unfolding addManualEntry_def Let_def t dotted_keys
    by (simp add: live_at_def)
  have "in_tag ?i = stamp" by (simp add: createIncarnation_def)
  then have "live_at s ?key = [?i]"
    unfolding s by (simp add: listLiveIncarnations_def hasDictionaryKey_fmdom obj_eval)
  moreover have "termKeyFromMaterializedId dotted_platform s (materializedEntryId ?key) limits = Some ?key"
  proof -
    have "trim (materializedEntryId ?key) = materializedEntryId ?key"
      by (rule trim_id) (simp add: materializedEntryId_def MATERIALIZED_ID_PREFIX_def is_space_def)
    moreover have "materializedEntryId ?key \<noteq> []" by (simp add: materializedEntryId_def)
    moreover have "hasDictionaryKey (st_records s) ?key" by (simp add: s)
    ultimately show ?thesis
      by (simp add: termKeyFromMaterializedId_def Let_def) (simp add: materializedEntryId_def)
  qed
  moreover have "deleteTerms dotted_platform s d [?key] later suppress = (s, d, False)"
    unfolding deleteTerms_def foldl.simps delete_step_def prod.case dotted_keys Let_def by (simp add: s)
  ultimately show ?thesis by (intro exI [where x = ?key]) simp
qed

lemma lengthened_key_not_deletable_witness:
  "\<exists>key. live_at (fst (addManualEntry dotted_platform createEmptySyncState clock_a dotted_text 7)) key \<noteq> []
    \<and> deleteTerms dotted_platform (fst (addManualEntry dotted_platform createEmptySyncState clock_a dotted_text 7)) clock_b [key] 8 True
      = (fst (addManualEntry dotted_platform createEmptySyncState clock_a dotted_text 7), clock_b, False)"
  using lengthened_key_not_deletable [OF surjective_pairing3] by blast

end
