(* ===== verification/DictReconcile.thy ===== *)
theory DictReconcile
  imports DictCollect "HOL-Library.AList"
begin

text \<open>
  Taking changes made outside the replicated state back into it
  (\<open>dictionary-sync/reconcile.ts\<close>), and the learning policy that condenses the actions of one
  advisor result (\<open>dictionaryLearningPolicy.ts\<close>).
\<close>

section \<open>Ordered maps and sets\<close>

text \<open>
  A JavaScript \<open>Map\<close> keeps the order of first insertion, so it is an association list under
  \<open>AList.update\<close>; a \<open>Set\<close> is a list without repetition.
\<close>

definition js_set :: "'a list \<Rightarrow> 'a list" where
  "js_set xs = foldl (\<lambda>s x. if x \<in> set s then s else s @ [x]) [] xs"

section \<open>Condensing learning actions\<close>

datatype learning_action_type = Add_candidate | Add_entry | Update_entry

datatype term_type = Product_name | Project_name | Technical_term | Person_name | Team_name | Code_name | Phrase | Other

datatype confidence = High | Medium | Low

record learning_action =
  la_action :: learning_action_type
  la_term :: jsstring
  la_aliases :: "jsstring list"
  la_type :: term_type
  la_confidence :: confidence
  la_reason :: "jsstring option"

definition action_rank :: "learning_action_type \<Rightarrow> nat" where
  "action_rank a = (case a of Add_candidate \<Rightarrow> 0 | Add_entry \<Rightarrow> 1 | Update_entry \<Rightarrow> 2)"

definition collect_alias :: "platform \<Rightarrow> jsstring \<Rightarrow> (jsstring \<times> jsstring) list \<Rightarrow> jsstring \<Rightarrow> (jsstring \<times> jsstring) list" where
  "collect_alias pf key aliases raw =
     (let alias = normalizeDictionaryTermText raw; aliasKey = dictionaryTermKey pf alias
      in if aliasKey \<noteq> [] \<and> aliasKey \<noteq> key \<and> map_of aliases aliasKey = None
         then AList.update aliasKey alias aliases else aliases)"

definition coalesce_step :: "platform \<Rightarrow> (jsstring \<times> learning_action) list \<Rightarrow> learning_action \<Rightarrow> (jsstring \<times> learning_action) list" where
  "coalesce_step pf words action =
     (if la_confidence action = Low then words
      else (let term = normalizeDictionaryTermText (la_term action);
                key = dictionaryTermKey pf term
            in if key = [] then words
               else (let previous = map_of words key;
                         aliases = foldl (collect_alias pf key) []
                           ((case previous of None \<Rightarrow> [] | Some p \<Rightarrow> la_aliases p) @ la_aliases action);
                         preferred = (case previous of
                             Some p \<Rightarrow> if action_rank (la_action action) \<le> action_rank (la_action p) then p else action
                           | None \<Rightarrow> action)
                     in AList.update key (preferred\<lparr>la_term := normalizeDictionaryTermText (la_term preferred),
                          la_aliases := map snd aliases\<rparr>) words)))"

definition coalesceDictionaryLearningActions :: "platform \<Rightarrow> learning_action list \<Rightarrow> learning_action list" where
  "coalesceDictionaryLearningActions pf actions = map snd (foldl (coalesce_step pf) [] actions)"

section \<open>Reconciling with the projected file\<close>

record snapshot_entry =
  se_entryText :: jsstring
  se_entrySource :: source
  se_frequency :: "number option"
  se_entryAliases :: "(jsstring \<times> number option) list option"

record snapshot_candidate =
  sc_text :: jsstring
  sc_evidenceCount :: "number option"
  sc_aliases :: "(jsstring \<times> number option) list option"

record dictionary_snapshot =
  sn_entries :: "snapshot_entry list"
  sn_suppressedTexts :: "jsstring list"
  sn_candidates :: "snapshot_candidate list option"

record reconcile_input =
  ri_snapshot :: dictionary_snapshot
  ri_lastMaterializedKeys :: "jsstring list"
  ri_allowTombstonedRevival :: "bool option"
  ri_nowMs :: number

definition readCount :: "number option \<Rightarrow> number" where
  "readCount value = (case value of None \<Rightarrow> 1 | Some v \<Rightarrow> if 0 < v then Math_floor v else 1)"

definition addSuppression :: "sync_state \<Rightarrow> hlc_clock \<Rightarrow> jsstring \<Rightarrow> jsstring \<Rightarrow> number \<Rightarrow> sync_state \<times> hlc_clock" where
  "addSuppression s c key text nowMs =
     (let (clock, stamp) = tickHlc c nowMs
      in (s\<lparr>st_suppressed := withDictionaryKey (Some (st_suppressed s)) key \<lparr>su_text = text, su_stamp = stamp\<rparr>\<rparr>, clock))"

text \<open>Step 1: one text of the file's suppression list.\<close>

definition reconcile_suppress :: "platform \<Rightarrow> number \<Rightarrow> mutation_result \<Rightarrow> jsstring \<Rightarrow> mutation_result" where
  "reconcile_suppress pf nowMs acc rawText =
     (case acc of (s, c, changed) \<Rightarrow>
       (let text = normalizeDictionaryTermText rawText;
            key = dictionaryTermKey pf text
        in if key = [] \<or> hasDictionaryKey (st_suppressed s) key then acc
           else (let (s1, c1, _) = deleteTerms pf s c [key] nowMs True
                 in if hasDictionaryKey (st_suppressed s1) key then (s1, c1, True)
                    else (let (s2, c2) = addSuppression s1 c1 key text nowMs in (s2, c2, True)))))"

record current_entry =
  ce_text :: jsstring
  ce_source :: source
  ce_frequency :: number
  ce_aliases :: "(jsstring \<times> number option) list"

definition current_by_key :: "platform \<Rightarrow> snapshot_entry list \<Rightarrow> (jsstring \<times> current_entry) list" where
  "current_by_key pf entries = foldl (\<lambda>m e.
     (let text = normalizeDictionaryTermText (se_entryText e);
          key = dictionaryTermKey pf text
      in if key = [] then m
         else AList.update key
           \<lparr>ce_text = text, ce_source = (if se_entrySource e = Manual then Manual else Automatic),
            ce_frequency = readCount (se_frequency e),
            ce_aliases = (case se_entryAliases e of None \<Rightarrow> [] | Some al \<Rightarrow> al)\<rparr> m)) [] entries"

definition previous_keys :: "platform \<Rightarrow> jsstring list \<Rightarrow> jsstring list" where
  "previous_keys pf keys = js_set (filter (\<lambda>k. k \<noteq> []) (map (dictionaryTermKey pf) keys))"

text \<open>Step 2: an entry of the file that was not materialised before.\<close>

definition reconcile_claim :: "platform \<Rightarrow> jsstring list \<Rightarrow> bool \<Rightarrow> number \<Rightarrow> mutation_result \<Rightarrow> jsstring \<times> current_entry \<Rightarrow> mutation_result" where
  "reconcile_claim pf previousKeys allowRevival nowMs acc kv =
     (case (acc, kv) of ((s, c, changed), (key, entry)) \<Rightarrow>
       if key \<in> set previousKeys then acc
       else (let (s1, c1, ch) = seedTerm pf s c
               \<lparr>se_allowTombstonedRevival = allowRevival, se_text = ce_text entry, se_source = ce_source entry, se_stage = Entry,
                se_count = ce_frequency entry, se_aliases = ce_aliases entry, se_nowMs = nowMs\<rparr>
             in if \<not> ch
                then (let (s2, c2, promoted) = promoteTermToEntry s c key nowMs
                      in if promoted then (s2, c2, True) else acc)
                else (s1, c1, True)))"

text \<open>Step 3: a candidate of the file the state knows nothing of.\<close>

definition reconcile_candidate :: "platform \<Rightarrow> (jsstring \<times> current_entry) list \<Rightarrow> number \<Rightarrow> mutation_result \<Rightarrow> snapshot_candidate \<Rightarrow> mutation_result" where
  "reconcile_candidate pf currentByKey nowMs acc candidate =
     (case acc of (s, c, changed) \<Rightarrow>
       (let text = normalizeDictionaryTermText (sc_text candidate);
            key = dictionaryTermKey pf text
        in if key = [] \<or> hasDictionaryKey (st_records s) key \<or> map_of currentByKey key \<noteq> None then acc
           else (let (s1, c1, ch) = seedTerm pf s c
                   \<lparr>se_allowTombstonedRevival = True, se_text = text, se_source = Automatic, se_stage = Candidate,
                    se_count = readCount (sc_evidenceCount candidate),
                    se_aliases = (case sc_aliases candidate of None \<Rightarrow> [] | Some al \<Rightarrow> al), se_nowMs = nowMs\<rparr>
                 in (s1, c1, changed \<or> ch))))"

definition reconcileFromLocalSnapshot :: "platform \<Rightarrow> sync_state \<Rightarrow> hlc_clock \<Rightarrow> reconcile_input \<Rightarrow> mutation_result" where
  "reconcileFromLocalSnapshot pf s c input =
     (let snapshot = ri_snapshot input;
          nowMs = ri_nowMs input;
          allowRevival = (case ri_allowTombstonedRevival input of None \<Rightarrow> True | Some b \<Rightarrow> b);
          suppressed = foldl (reconcile_suppress pf nowMs) (s, c, False) (sn_suppressedTexts snapshot);
          currentByKey = current_by_key pf (sn_entries snapshot);
          previousKeys = previous_keys pf (ri_lastMaterializedKeys input);
          claimed = foldl (reconcile_claim pf previousKeys allowRevival nowMs) suppressed currentByKey;
          (s3, c3, ch3) = foldl (reconcile_candidate pf currentByKey nowMs) claimed
            (case sn_candidates snapshot of None \<Rightarrow> [] | Some cs \<Rightarrow> cs);
          removedKeys = filter (\<lambda>key. map_of currentByKey key = None) previousKeys
      in if removedKeys = [] then (s3, c3, ch3)
         else (let (s4, c4, ch4) = deleteTerms pf s3 c3 removedKeys nowMs False in (s4, c4, ch3 \<or> ch4)))"

section \<open>The learning policy condenses\<close>

abbreviation action_key :: "platform \<Rightarrow> learning_action \<Rightarrow> jsstring" where
  "action_key pf a \<equiv> dictionaryTermKey pf (la_term a)"

lemma key_normalize [simp]: "dictionaryTermKey pf (normalizeDictionaryTermText t) = dictionaryTermKey pf t"
  by (simp add: dictionaryTermKey_def)

definition counted :: "platform \<Rightarrow> learning_action \<Rightarrow> bool" where
  "counted pf a \<longleftrightarrow> la_confidence a \<noteq> Low \<and> action_key pf a \<noteq> []"

definition alias_list_ok :: "platform \<Rightarrow> jsstring \<Rightarrow> (jsstring \<times> jsstring) list \<Rightarrow> bool" where
  "alias_list_ok pf key al \<longleftrightarrow> distinct (map fst al) \<and> (\<forall>(k, t) \<in> set al. k = dictionaryTermKey pf t \<and> k \<noteq> [] \<and> k \<noteq> key)"

lemma update_new: "map_of al k = None \<Longrightarrow> AList.update k v al = al @ [(k, v)]"
  by (induction al) (auto split: if_splits)

lemma collect_alias_ok:
  assumes "alias_list_ok pf key al"
  shows "alias_list_ok pf key (collect_alias pf key al raw)"
proof (cases "dictionaryTermKey pf raw \<noteq> [] \<and> dictionaryTermKey pf raw \<noteq> key \<and> map_of al (dictionaryTermKey pf raw) = None")
  case True
  then have "dictionaryTermKey pf raw \<notin> fst ` set al" by (simp add: map_of_eq_None_iff)
  with True assms show ?thesis
    by (auto simp: collect_alias_def Let_def alias_list_ok_def update_new)
qed (use assms in \<open>auto simp: collect_alias_def Let_def\<close>)

lemma collected_aliases_ok: "alias_list_ok pf key (foldl (collect_alias pf key) [] raws)"
  by (rule foldl_invariant [where P = "alias_list_ok pf key"]) (auto intro: collect_alias_ok simp: alias_list_ok_def [of pf key "[]"])

lemma alias_list_keys:
  assumes "alias_list_ok pf key al"
  shows "distinct (map (dictionaryTermKey pf \<circ> snd) al)"
proof -
  have eq: "map (dictionaryTermKey pf \<circ> snd) al = map fst al"
    by (rule map_cong [OF refl]) (use assms in \<open>auto simp: alias_list_ok_def\<close>)
  show ?thesis unfolding eq using assms by (simp add: alias_list_ok_def)
qed

text \<open>What the map holds after the actions of a prefix.\<close>

definition condensed :: "platform \<Rightarrow> learning_action list \<Rightarrow> (jsstring \<times> learning_action) list \<Rightarrow> bool" where
  "condensed pf as words \<longleftrightarrow> distinct (map fst words) \<and> fst ` set words = action_key pf ` {a \<in> set as. counted pf a}
     \<and> (\<forall>(k, w) \<in> set words. action_key pf w = k \<and> counted pf w \<and> normalizeDictionaryTermText (la_term w) = la_term w
          \<and> distinct (map (dictionaryTermKey pf) (la_aliases w))
          \<and> (\<forall>x \<in> set (la_aliases w). dictionaryTermKey pf x \<noteq> [] \<and> dictionaryTermKey pf x \<noteq> k)
          \<and> (\<forall>a \<in> {a \<in> set as. counted pf a}. action_key pf a = k \<longrightarrow> action_rank (la_action a) \<le> action_rank (la_action w)))"

lemma set_update_distinct:
  "distinct (map fst al) \<Longrightarrow> (j, w) \<in> set (AList.update k v al) \<longleftrightarrow> (if j = k then w = v else (j, w) \<in> set al)"
  using map_of_eq_Some_iff [OF distinct_update [of al k v], of j w] map_of_eq_Some_iff [of al j w]
  by (auto simp: update_conv')

lemma coalesce_step_condensed:
  assumes "condensed pf as words"
  shows "condensed pf (as @ [a]) (coalesce_step pf words a)"
proof (cases "counted pf a")
  case False
  then have "coalesce_step pf words a = words"
    by (auto simp: coalesce_step_def counted_def Let_def)
  moreover have same: "{x \<in> set (as @ [a]). counted pf x} = {x \<in> set as. counted pf x}" using False by auto
  have "condensed pf (as @ [a]) words \<longleftrightarrow> condensed pf as words" unfolding condensed_def same ..
  ultimately show ?thesis using assms by simp
next
  case True
  let ?k = "action_key pf a" and ?prev = "map_of words (action_key pf a)"
  let ?al = "foldl (collect_alias pf ?k) [] ((case ?prev of None \<Rightarrow> [] | Some p \<Rightarrow> la_aliases p) @ la_aliases a)"
  let ?pref = "case ?prev of Some p \<Rightarrow> if action_rank (la_action a) \<le> action_rank (la_action p) then p else a | None \<Rightarrow> a"
  let ?w = "?pref\<lparr>la_term := normalizeDictionaryTermText (la_term ?pref), la_aliases := map snd ?al\<rparr>"
  have step: "coalesce_step pf words a = AList.update ?k ?w words"
    using True by (simp add: coalesce_step_def counted_def Let_def)
  have d: "distinct (map fst words)" using assms by (simp add: condensed_def)
  have prev: "action_key pf p = ?k \<and> counted pf p
      \<and> (\<forall>b \<in> set as. counted pf b \<longrightarrow> action_key pf b = ?k \<longrightarrow> action_rank (la_action b) \<le> action_rank (la_action p))"
    if "?prev = Some p" for p
    using assms map_of_SomeD [OF that] by (auto simp: condensed_def)
  have none: "\<forall>b \<in> set as. counted pf b \<longrightarrow> action_key pf b \<noteq> ?k" if "?prev = None"
  proof -
    have "?k \<notin> action_key pf ` {b \<in> set as. counted pf b}"
      using assms that by (simp add: condensed_def map_of_eq_None_iff)
    then show ?thesis by (auto simp: image_iff)
  qed
  have pref: "action_key pf ?pref = ?k" "counted pf ?pref"
    using prev True by (auto split: option.split)
  have rank: "\<forall>b \<in> {b \<in> set (as @ [a]). counted pf b}. action_key pf b = ?k \<longrightarrow> action_rank (la_action b) \<le> action_rank (la_action ?pref)"
  proof (cases ?prev)
    case None
    with none show ?thesis by auto
  next
    case (Some p)
    with prev [OF Some] show ?thesis by (auto intro: order_trans)
  qed
  have al: "alias_list_ok pf ?k ?al" by (rule collected_aliases_ok)
  have w: "action_key pf ?w = ?k \<and> counted pf ?w \<and> normalizeDictionaryTermText (la_term ?w) = la_term ?w
      \<and> distinct (map (dictionaryTermKey pf) (la_aliases ?w))
      \<and> (\<forall>x \<in> set (la_aliases ?w). dictionaryTermKey pf x \<noteq> [] \<and> dictionaryTermKey pf x \<noteq> ?k)"
    using pref al alias_list_keys [OF al] by (auto simp: counted_def alias_list_ok_def)
  show ?thesis
    unfolding condensed_def step
  proof (intro conjI)
    show "distinct (map fst (AList.update ?k ?w words))" using d by (rule distinct_update)
    show "fst ` set (AList.update ?k ?w words) = action_key pf ` {x \<in> set (as @ [a]). counted pf x}"
      using assms True by (auto simp: dom_update condensed_def)
    show "\<forall>(k, w) \<in> set (AList.update ?k ?w words). action_key pf w = k \<and> counted pf w \<and> normalizeDictionaryTermText (la_term w) = la_term w
          \<and> distinct (map (dictionaryTermKey pf) (la_aliases w))
          \<and> (\<forall>x \<in> set (la_aliases w). dictionaryTermKey pf x \<noteq> [] \<and> dictionaryTermKey pf x \<noteq> k)
          \<and> (\<forall>b \<in> {b \<in> set (as @ [a]). counted pf b}. action_key pf b = k \<longrightarrow> action_rank (la_action b) \<le> action_rank (la_action w))"
    proof (intro ballI, clarsimp simp only: split_paired_all prod.case set_update_distinct [OF d])
      fix k v assume kv: "if k = ?k then v = ?w else (k, v) \<in> set words"
      show "action_key pf v = k \<and> counted pf v \<and> normalizeDictionaryTermText (la_term v) = la_term v
          \<and> distinct (map (dictionaryTermKey pf) (la_aliases v))
          \<and> (\<forall>x \<in> set (la_aliases v). dictionaryTermKey pf x \<noteq> [] \<and> dictionaryTermKey pf x \<noteq> k)
          \<and> (\<forall>b \<in> {b \<in> set (as @ [a]). counted pf b}. action_key pf b = k \<longrightarrow> action_rank (la_action b) \<le> action_rank (la_action v))"
      proof (cases "k = ?k")
        case True
        with kv have "v = ?w" by simp
        with True w rank show ?thesis by (simp only:) simp
      next
        case False
        with kv have "(k, v) \<in> set words" by simp
        with assms False show ?thesis by (auto simp: condensed_def)
      qed
    qed
  qed
qed

lemma coalesce_condensed: "condensed pf as (foldl (coalesce_step pf) [] as)"
proof (induction as rule: rev_induct)
  case Nil
  show ?case by (simp add: condensed_def)
next
  case (snoc a as)
  with coalesce_step_condensed [OF snoc, of a] show ?case by simp
qed

text \<open>
  One advisor result contributes at most one observation per word and alias: the condensed
  actions have pairwise different term keys, exactly the keys of the actions that are not of low
  confidence; each is in normal form, has the highest rank among the actions of its key, and its
  aliases have pairwise different keys, none empty or the term's own.
\<close>

theorem coalesce_one_per_word:
  assumes "coalesceDictionaryLearningActions pf actions = out"
  shows "distinct (map (action_key pf) out)
    \<and> action_key pf ` set out = action_key pf ` {a \<in> set actions. la_confidence a \<noteq> Low \<and> action_key pf a \<noteq> []}
    \<and> (\<forall>w \<in> set out. la_confidence w \<noteq> Low \<and> normalizeDictionaryTermText (la_term w) = la_term w
         \<and> (\<forall>a \<in> set actions. la_confidence a \<noteq> Low \<longrightarrow> action_key pf a = action_key pf w \<longrightarrow>
              action_rank (la_action a) \<le> action_rank (la_action w))
         \<and> distinct (map (dictionaryTermKey pf) (la_aliases w))
         \<and> (\<forall>x \<in> set (la_aliases w). dictionaryTermKey pf x \<noteq> [] \<and> dictionaryTermKey pf x \<noteq> action_key pf w))"
proof -
  let ?words = "foldl (coalesce_step pf) [] actions"
  have c: "condensed pf actions ?words" by (rule coalesce_condensed)
  have out: "out = map snd ?words" using assms by (simp add: coalesceDictionaryLearningActions_def)
  have keys: "map (action_key pf) out = map fst ?words"
    unfolding out map_map by (rule map_cong [OF refl]) (use c in \<open>auto simp: condensed_def\<close>)
  then have im: "action_key pf ` set out = fst ` set ?words" by (metis set_map)
  show ?thesis
  proof (intro conjI)
    show "distinct (map (action_key pf) out)" unfolding keys using c by (simp add: condensed_def)
    show "action_key pf ` set out = action_key pf ` {a \<in> set actions. la_confidence a \<noteq> Low \<and> action_key pf a \<noteq> []}"
      unfolding im using c by (simp add: condensed_def counted_def)
  qed (use c in \<open>auto simp: condensed_def counted_def out\<close>)
qed

definition sample_action :: "learning_action_type \<Rightarrow> jsstring \<Rightarrow> learning_action" where
  "sample_action t term = \<lparr>la_action = t, la_term = term, la_aliases = [], la_type = Other, la_confidence = High, la_reason = None\<rparr>"

lemma distinct_singleton: "distinct xs \<Longrightarrow> set xs \<subseteq> {x} \<Longrightarrow> x \<in> set xs \<Longrightarrow> xs = [x]"
proof (cases xs)
  case (Cons y ys)
  moreover assume "distinct xs" "set xs \<subseteq> {x}" "x \<in> set xs"
  ultimately show ?thesis by (cases ys) auto
qed simp

lemma sample_action_simps:
  "la_term (sample_action t x) = x" "la_confidence (sample_action t x) = High" "la_action (sample_action t x) = t"
  by (simp_all add: sample_action_def)

lemma coalesce_one_per_word_witness:
  "map (action_key sample_platform) (coalesceDictionaryLearningActions sample_platform
     [sample_action Add_candidate [97], sample_action Update_entry [65]]) = [[97]]"
proof -
  let ?as = "[sample_action Add_candidate [97], sample_action Update_entry [65]]"
  let ?keys = "map (action_key sample_platform) (coalesceDictionaryLearningActions sample_platform ?as)"
  from coalesce_one_per_word [OF refl, of sample_platform ?as]
  have dist: "distinct ?keys" and im: "set ?keys = action_key sample_platform `
       {a \<in> set ?as. la_confidence a \<noteq> Low \<and> action_key sample_platform a \<noteq> []}"
    by (simp_all only: set_map)
  have "action_key sample_platform a = [97]" if "a \<in> set ?as" for a
    using that by (auto simp: sample_action_simps)
  then have sub: "set ?keys \<subseteq> {[97]}" unfolding im by blast
  have mem: "[97] \<in> set ?keys"
    unfolding im by (rule image_eqI [where x = "sample_action Add_candidate [97]"]) (simp_all add: sample_action_simps)
  show ?thesis by (rule distinct_singleton [OF dist sub mem])
qed

section \<open>Reconciling: well-formedness\<close>

lemma ok_addSuppression: "ok_state s \<Longrightarrow> ok_state (fst (addSuppression s c key t now))"
  by (cases "tickHlc c now") (simp add: addSuppression_def Let_def ok_state_def)

lemma ok_reconcile_suppress:
  assumes "ok_state (fst acc)"
  shows "ok_state (fst (reconcile_suppress pf now acc raw))"
proof -
  obtain s c ch where acc: "acc = (s, c, ch)" by (cases acc)
  obtain s1 c1 ch1 where d: "deleteTerms pf s c [dictionaryTermKey pf raw] now True = (s1, c1, ch1)"
    by (cases "deleteTerms pf s c [dictionaryTermKey pf raw] now True")
  have "ok_state s1" using ok_deleteTerms [of s pf c "[dictionaryTermKey pf raw]" now True] assms d by (simp add: acc)
  then show ?thesis
    using assms d ok_addSuppression [of s1 c1 "dictionaryTermKey pf raw" "normalizeDictionaryTermText raw" now]
    by (auto simp: acc reconcile_suppress_def Let_def split: prod.split)
qed

lemma ok_reconcile_claim:
  assumes "ok_state (fst acc)"
  shows "ok_state (fst (reconcile_claim pf prev allow now acc kv))"
proof -
  obtain s c ch k e where acc: "acc = (s, c, ch)" "kv = (k, e)" by (cases acc; cases kv)
  have "ok_state (fst (seedTerm pf s c input))" "ok_state (fst (promoteTermToEntry s c k now))" for input
    using assms ok_seedTerm ok_promoteTermToEntry by (simp_all add: acc)
  with assms show ?thesis
    by (simp add: acc reconcile_claim_def Let_def split: prod.split) (metis fst_conv)
qed

lemma ok_reconcile_candidate:
  assumes "ok_state (fst acc)"
  shows "ok_state (fst (reconcile_candidate pf cur now acc x))"
proof -
  obtain s c ch where acc: "acc = (s, c, ch)" by (cases acc)
  have "ok_state (fst (seedTerm pf s c input))" for input
    using assms ok_seedTerm by (simp add: acc)
  with assms show ?thesis
    by (simp add: acc reconcile_candidate_def Let_def split: prod.split) (metis fst_conv)
qed

text \<open>The states the four steps go through.\<close>

definition reconcile_stages :: "platform \<Rightarrow> sync_state \<Rightarrow> hlc_clock \<Rightarrow> reconcile_input \<Rightarrow> mutation_result list" where
  "reconcile_stages pf s c input =
     (let a1 = foldl (reconcile_suppress pf (ri_nowMs input)) (s, c, False) (sn_suppressedTexts (ri_snapshot input));
          cur = current_by_key pf (sn_entries (ri_snapshot input));
          prev = previous_keys pf (ri_lastMaterializedKeys input);
          a2 = foldl (reconcile_claim pf prev (case ri_allowTombstonedRevival input of None \<Rightarrow> True | Some b \<Rightarrow> b) (ri_nowMs input)) a1 cur;
          a3 = foldl (reconcile_candidate pf cur (ri_nowMs input)) a2 (case sn_candidates (ri_snapshot input) of None \<Rightarrow> [] | Some cs \<Rightarrow> cs)
      in [a1, a2, a3])"

lemma reconcile_by_stages:
  assumes "reconcile_stages pf s c input = [a1, a2, a3]"
  defines "removed \<equiv> filter (\<lambda>key. map_of (current_by_key pf (sn_entries (ri_snapshot input))) key = None)
    (previous_keys pf (ri_lastMaterializedKeys input))"
  shows "reconcileFromLocalSnapshot pf s c input =
    (if removed = [] then a3
     else (fst (deleteTerms pf (fst a3) (fst (snd a3)) removed (ri_nowMs input) False),
       fst (snd (deleteTerms pf (fst a3) (fst (snd a3)) removed (ri_nowMs input) False)),
       snd (snd a3) \<or> snd (snd (deleteTerms pf (fst a3) (fst (snd a3)) removed (ri_nowMs input) False))))"
  using assms(1) unfolding reconcileFromLocalSnapshot_def reconcile_stages_def Let_def removed_def
  by (auto simp: split_beta)

lemma ok_reconcile:
  assumes "ok_state s"
  shows "ok_state (fst (reconcileFromLocalSnapshot pf s c input))"
proof -
  have a1: "ok_state (fst (foldl (reconcile_suppress pf n) (s, c, False) xs))" for n xs
    by (rule foldl_invariant [where P = "\<lambda>a. ok_state (fst a)"]) (use assms ok_reconcile_suppress in auto)
  have a2: "ok_state (fst (foldl (reconcile_claim pf prev b n) a xs))" if "ok_state (fst a)" for prev b n a xs
    by (rule foldl_invariant [where P = "\<lambda>a. ok_state (fst a)"]) (use that ok_reconcile_claim in auto)
  have a3: "ok_state (fst (foldl (reconcile_candidate pf cur n) a xs))" if "ok_state (fst a)" for cur n a xs
    by (rule foldl_invariant [where P = "\<lambda>a. ok_state (fst a)"]) (use that ok_reconcile_candidate in auto)
  show ?thesis
    by (subst reconcile_by_stages [OF reconcile_stages_def [unfolded Let_def]])
      (simp add: a1 a2 a3 ok_deleteTerms)
qed

section \<open>Reconciling: existence, not frequency\<close>

text \<open>What the claiming steps may do to a record that has a live incarnation.\<close>

definition kept_live :: "sync_state \<Rightarrow> jsstring \<Rightarrow> mutation_result \<Rightarrow> bool" where
  "kept_live s k acc \<longleftrightarrow> ok_state (fst acc) \<and> live_at (fst acc) k \<noteq> [] \<and> total_at (fst acc) k = total_at s k"

lemma live_at_cong: "record_at s k = record_at t k \<Longrightarrow> live_at s k = live_at t k"
  by (simp add: live_at_record_at)

lemma total_at_cong: "record_at s k = record_at t k \<Longrightarrow> total_at s k = total_at t k"
  by (simp add: total_at_def live_at_record_at)

lemma suppress_keeps:
  assumes "kept_live s k acc" "k \<noteq> dictionaryTermKey pf (dictionaryTermKey pf raw)"
  shows "kept_live s k (reconcile_suppress pf now acc raw)"
proof -
  obtain t c ch where acc: "acc = (t, c, ch)" by (cases acc)
  let ?key = "dictionaryTermKey pf raw"
  obtain s1 c1 ch1 where d: "deleteTerms pf t c [?key] now True = (s1, c1, ch1)"
    by (cases "deleteTerms pf t c [?key] now True")
  have ok: "ok_state t" using assms(1) by (simp add: acc kept_live_def)
  have "record_at s1 k = record_at t k"
    using deleteTerms_parts(3) [OF ok, of s1 pf c "[?key]" now True k] d assms(2) by simp
  moreover have "record_at (fst (addSuppression s1 c1 key x n)) k = record_at s1 k" for key x n
    by (cases "tickHlc c1 n") (simp add: addSuppression_def Let_def record_at_or_empty)
  ultimately have "record_at s1 k = record_at t k"
    "record_at (fst (addSuppression s1 c1 ?key (normalizeDictionaryTermText raw) now)) k = record_at s1 k" by blast+
  then have "record_at (fst (reconcile_suppress pf now acc raw)) k = record_at t k"
  proof (cases "addSuppression s1 c1 ?key (normalizeDictionaryTermText raw) now")
    case (Pair s2 c2)
    then have "record_at s2 k = record_at s1 k"
      using \<open>record_at (fst (addSuppression s1 c1 ?key (normalizeDictionaryTermText raw) now)) k = record_at s1 k\<close> by simp
    with \<open>record_at s1 k = record_at t k\<close> show ?thesis
      unfolding acc reconcile_suppress_def prod.case Let_def key_normalize d Pair by simp
  qed
  from live_at_cong [OF this] total_at_cong [OF this] show ?thesis
    using assms(1) ok_reconcile_suppress [of acc pf now raw] by (simp add: kept_live_def acc)
qed

lemma seedTerm_other:
  "k \<noteq> dictionaryTermKey pf (se_text input) \<Longrightarrow> record_at (fst (seedTerm pf s c input)) k = record_at s k"
  by (cases "tickHlc c (se_nowMs input)") (auto simp: seedTerm_def Let_def)

lemma seedTerm_live: "live_at s (dictionaryTermKey pf (se_text input)) \<noteq> [] \<Longrightarrow> seedTerm pf s c input = (s, c, False)"
  by (auto simp: seedTerm_def Let_def)

lemma promote_keeps:
  assumes "ok_state s" "live_at s k \<noteq> []"
  shows "live_at (fst (promoteTermToEntry s c j now)) k \<noteq> [] \<and> total_at (fst (promoteTermToEntry s c j now)) k = total_at s k"
proof (cases "fmlookup (st_records s) j")
  case None
  then show ?thesis using assms by (simp add: promoteTermToEntry_def)
next
  case (Some r)
  obtain clock stamp where t: "tickHlc c now = (clock, stamp)" by (cases "tickHlc c now")
  let ?l = "listLiveIncarnations r"
  let ?f = "\<lambda>m i. if in_stage i = Entry then m else fmupd (in_tag i) (i\<lparr>in_stage := Entry, in_updatedAt := now\<rparr>) m"
  let ?q = "r\<lparr>rc_incarnations := foldl ?f (rc_incarnations r) ?l\<rparr>"
  have r: "ok_record r" using assms(1) Some by (auto simp: ok_state_def dest: fmpredD)
  let ?P = "\<lambda>m. fmdom m = fmdom (rc_incarnations r) \<and> (\<forall>t. tag_total m t = tag_total (rc_incarnations r) t)"
  have "?P (foldl ?f (rc_incarnations r) ?l)"
  proof (rule foldl_invariant [where P = ?P])
    fix m i assume m: "?P m" and "i \<in> set ?l"
    then have i: "fmlookup (rc_incarnations r) (in_tag i) = Some i" using in_live [OF r] by blast
    then have "in_tag i |\<in>| fmdom (rc_incarnations r)" by (rule fmdomI)
    with m i show "?P (?f m i)" by (auto simp: tag_total_def fset_eq_iff)
  qed simp
  then have q: "fmdom (rc_incarnations ?q) = fmdom (rc_incarnations r)"
    "\<And>t. tag_total (rc_incarnations ?q) t = tag_total (rc_incarnations r) t" by simp_all
  have eq: "fst (promoteTermToEntry s c j now) = (if ?l = [] \<or> list_all (\<lambda>item. in_stage item = Entry) ?l then s else putRecord s j ?q (Some clock))"
    by (simp add: promoteTermToEntry_def Some t Let_def)
  have okq: "ok_record ?q"
    using r in_live [OF r] ok_record_lookup [OF r] by (auto simp: ok_record_def intro!: promote_incs_ok)
  have tags: "live_tags ?q = live_tags r" using q(1) by (simp add: live_tags_def)
  have "listLiveIncarnations ?q = [] \<longleftrightarrow> ?l = []" by (simp only: live_empty_iff [OF okq] live_empty_iff [OF r] tags)
  moreover have "live_total (listLiveIncarnations ?q) = live_total ?l"
    unfolding live_total_tags [OF okq] live_total_tags [OF r] tags q(2) ..
  ultimately show ?thesis
    using assms Some unfolding eq by (auto simp: live_at_record_at total_at_def)
qed

lemma claim_keeps:
  assumes "kept_live s k acc" "fst kv = dictionaryTermKey pf (ce_text (snd kv))"
  shows "kept_live s k (reconcile_claim pf prev allow now acc kv)"
proof -
  obtain t c ch j e where acc: "acc = (t, c, ch)" "kv = (j, e)" by (cases acc; cases kv)
  let ?in = "\<lparr>se_allowTombstonedRevival = allow, se_text = ce_text e, se_source = ce_source e, se_stage = Entry,
                se_count = ce_frequency e, se_aliases = ce_aliases e, se_nowMs = now\<rparr>"
  obtain s1 c1 ch1 where seed: "seedTerm pf t c ?in = (s1, c1, ch1)" by (cases "seedTerm pf t c ?in")
  obtain s2 c2 pr where pro: "promoteTermToEntry t c j now = (s2, c2, pr)" by (cases "promoteTermToEntry t c j now")
  have k: "ok_state t" "live_at t k \<noteq> []" "total_at t k = total_at s k" using assms(1) by (simp_all add: kept_live_def acc)
  have j: "j = dictionaryTermKey pf (ce_text e)" using assms(2) by (simp add: acc)
  have p: "live_at s2 k \<noteq> [] \<and> total_at s2 k = total_at s k" using promote_keeps [OF k(1,2), of c j now] pro k(3) by simp
  have q: "live_at s1 k \<noteq> [] \<and> total_at s1 k = total_at s k" if ch1
  proof (cases "k = j")
    case True
    then have "seedTerm pf t c ?in = (t, c, False)" using k(2) j by (intro seedTerm_live) simp
    with seed that show ?thesis by simp
  next
    case False
    then have "record_at s1 k = record_at t k" using seedTerm_other [of k pf ?in t c] seed j by simp
    from live_at_cong [OF this] total_at_cong [OF this] k show ?thesis by simp
  qed
  show ?thesis
    using assms(1) ok_reconcile_claim [of acc pf prev allow now kv] p q k seed pro
    by (auto simp: kept_live_def acc reconcile_claim_def Let_def)
qed

lemma candidate_keeps:
  assumes "kept_live s k acc"
  shows "kept_live s k (reconcile_candidate pf cur now acc x)"
proof -
  obtain t c ch where acc: "acc = (t, c, ch)" by (cases acc)
  have k: "ok_state t" "live_at t k \<noteq> []" "total_at t k = total_at s k" using assms(1) by (simp_all add: kept_live_def acc)
  then have rec: "hasDictionaryKey (st_records t) k" by (auto simp: live_at_def hasDictionaryKey_def split: option.splits)
  have "record_at (fst (reconcile_candidate pf cur now acc x)) k = record_at t k"
  proof (cases "k = dictionaryTermKey pf (sc_text x)")
    case True
    with rec show ?thesis by (simp add: acc reconcile_candidate_def Let_def)
  next
    case False
    let ?in = "\<lparr>se_allowTombstonedRevival = True, se_text = normalizeDictionaryTermText (sc_text x), se_source = Automatic,
      se_stage = Candidate, se_count = readCount (sc_evidenceCount x),
      se_aliases = (case sc_aliases x of None \<Rightarrow> [] | Some al \<Rightarrow> al), se_nowMs = now\<rparr>"
    obtain s1 c1 ch1 where seed: "seedTerm pf t c ?in = (s1, c1, ch1)" by (cases "seedTerm pf t c ?in")
    have "record_at s1 k = record_at t k" using seedTerm_other [of k pf ?in t c] False seed by simp
    then show ?thesis
      unfolding acc reconcile_candidate_def prod.case Let_def key_normalize seed by simp
  qed
  from live_at_cong [OF this] total_at_cong [OF this] show ?thesis
    using assms(1) ok_reconcile_candidate [of acc pf cur now x] k by (simp add: kept_live_def acc)
qed

lemma current_by_key_keys:
  "\<forall>kv \<in> set (current_by_key pf entries). fst kv = dictionaryTermKey pf (ce_text (snd kv)) \<and> fst kv \<noteq> []"
proof -
  have "distinct (map fst (current_by_key pf entries)) \<and>
    (\<forall>kv \<in> set (current_by_key pf entries). fst kv = dictionaryTermKey pf (ce_text (snd kv)) \<and> fst kv \<noteq> [])"
    unfolding current_by_key_def
    by (rule foldl_invariant [where P = "\<lambda>m. distinct (map fst m) \<and> (\<forall>kv \<in> set m. fst kv = dictionaryTermKey pf (ce_text (snd kv)) \<and> fst kv \<noteq> [])"])
      (auto simp: Let_def distinct_update set_update_distinct split: if_splits)
  then show ?thesis by blast
qed

lemma js_set_set: "set (js_set xs) = set xs"
proof -
  have "set (foldl (\<lambda>s x. if x \<in> set s then s else s @ [x]) s xs) = set s \<union> set xs" for s
    by (induction xs arbitrary: s) auto
  then show ?thesis by (simp add: js_set_def)
qed

lemma set_previous_keys: "set (previous_keys pf keys) = dictionaryTermKey pf ` set keys - {[]}"
  by (auto simp: previous_keys_def js_set_set)

lemma current_by_key_dom:
  "fst ` set (current_by_key pf entries) = (dictionaryTermKey pf \<circ> se_entryText) ` set entries - {[]}"
proof (induction entries rule: rev_induct)
  case Nil
  show ?case by (simp add: current_by_key_def)
next
  case (snoc e es)
  then show ?case by (auto simp: current_by_key_def Let_def dom_update)
qed

text \<open>
  C15: Reconciling claims existence and never frequency. A term that has a live incarnation and is
  not on the file's suppression list either keeps its total exactly or loses all its live
  incarnations, and the latter only when it was materialised before and is gone from the file;
  what the file says about frequencies has no influence. A term that was materialised before and
  is gone from the file has no live incarnation afterwards. The state stays well formed.
\<close>

theorem reconcile_never_inflates:
  assumes "ok_state s" "live_at s k \<noteq> []" "k \<noteq> []"
    "k \<notin> dictionaryTermKey pf ` dictionaryTermKey pf ` set (sn_suppressedTexts (ri_snapshot input))"
    "reconcileFromLocalSnapshot pf s c input = (s', c', changed)"
    "gone = dictionaryTermKey pf ` set (ri_lastMaterializedKeys input) - {[]}
       - (dictionaryTermKey pf \<circ> se_entryText) ` set (sn_entries (ri_snapshot input))"
  shows "ok_state s' \<and> (if k \<in> dictionaryTermKey pf ` gone then live_at s' k = []
     else total_at s' k = total_at s k \<and> live_at s' k \<noteq> [])"
proof -
  let ?cur = "current_by_key pf (sn_entries (ri_snapshot input))"
  let ?prev = "previous_keys pf (ri_lastMaterializedKeys input)"
  let ?removed = "filter (\<lambda>key. map_of ?cur key = None) ?prev"
  obtain a1 a2 a3 where st: "reconcile_stages pf s c input = [a1, a2, a3]"
    by (simp add: reconcile_stages_def Let_def)
  note stages = st [unfolded reconcile_stages_def Let_def list.inject]
  have start: "kept_live s k (s, c, False)" using assms(1,2) by (simp add: kept_live_def)
  have "kept_live s k (foldl (reconcile_suppress pf (ri_nowMs input)) (s, c, False) (sn_suppressedTexts (ri_snapshot input)))"
    by (rule foldl_invariant [where P = "kept_live s k", OF start suppress_keeps]) (use assms(4) in blast)+
  then have k1: "kept_live s k a1" using stages by blast
  have "kept_live s k (foldl (reconcile_claim pf prev b n) a1 ?cur)" for prev b n
    by (rule foldl_invariant [where P = "kept_live s k", OF k1 claim_keeps]) (use current_by_key_keys in blast)+
  then have k2: "kept_live s k a2" using stages by blast
  have "kept_live s k (foldl (reconcile_candidate pf cur n) a2 xs)" for cur n xs
    by (rule foldl_invariant [where P = "kept_live s k", OF k2 candidate_keeps])
  then have "kept_live s k a3" using stages by blast
  then have k: "ok_state (fst a3)" "live_at (fst a3) k \<noteq> []" "total_at (fst a3) k = total_at s k"
    by (simp_all add: kept_live_def)
  have gone: "set ?removed = gone"
    by (auto simp: map_of_eq_None_iff current_by_key_dom set_previous_keys assms(6))
  have s': "s' = (if ?removed = [] then fst a3 else fst (deleteTerms pf (fst a3) (fst (snd a3)) ?removed (ri_nowMs input) False))"
    using assms(5) unfolding reconcile_by_stages [OF st] by (auto split: if_splits)
  have ok: "ok_state s'" using ok_reconcile [OF assms(1), of pf c input] assms(5) by simp
  show ?thesis
  proof (cases "k \<in> dictionaryTermKey pf ` gone")
    case True
    then have "set ?removed \<noteq> {}" unfolding gone by blast
    then have "?removed \<noteq> []" unfolding set_empty .
    with s' have s': "s' = fst (deleteTerms pf (fst a3) (fst (snd a3)) ?removed (ri_nowMs input) False)" by simp
    have "fset (fmdom (incarnations_at s' k)) \<subseteq> fset (fmdom (tombstones_at s' k))"
      using deleteTerms_parts(1,2) [OF k(1) s', of k] True assms(3) unfolding gone by (auto simp: live_tags_def)
    with True ok show ?thesis by (simp add: live_at_Nil_iff [OF ok])
  next
    case False
    have "record_at s' k = record_at (fst a3) k"
    proof (cases "?removed = []")
      case True
      with s' show ?thesis by simp
    next
      case ne: False
      with s' have "s' = fst (deleteTerms pf (fst a3) (fst (snd a3)) ?removed (ri_nowMs input) False)" by simp
      from deleteTerms_parts(3) [OF k(1) this, of k] False show ?thesis unfolding gone by blast
    qed
    from live_at_cong [OF this] total_at_cong [OF this] False ok k show ?thesis by simp
  qed
qed

definition lex_snapshot :: dictionary_snapshot where
  "lex_snapshot = \<lparr>sn_entries = [\<lparr>se_entryText = [108, 101, 120], se_entrySource = Automatic, se_frequency = Some 99,
     se_entryAliases = None\<rparr>], sn_suppressedTexts = [], sn_candidates = None\<rparr>"

lemma reconcile_never_inflates_witness:
  "total_at (fst (reconcileFromLocalSnapshot sample_platform (sample_state [1] [1] [7] 3) clock_a
     \<lparr>ri_snapshot = lex_snapshot, ri_lastMaterializedKeys = [], ri_allowTombstonedRevival = None, ri_nowMs = 7\<rparr>)) [108, 101, 120] = 3"
proof -
  have "total_at (sample_state [1] [1] [7] 3) [108, 101, 120] = 3"
    using Math_floor_of_int [of 3] by (simp add: total_at_def live_total_def readCounterTotal_sum bucket_def sample_incarnation_def)
  with reconcile_never_inflates [OF ok_sample_numeral(1) _ _ _ surjective_pairing3 refl, of "[1]" "[1]" "[7]" "[108, 101, 120]" sample_platform
      "\<lparr>ri_snapshot = lex_snapshot, ri_lastMaterializedKeys = [], ri_allowTombstonedRevival = None, ri_nowMs = 7\<rparr>" clock_a]
  show ?thesis by (simp add: lex_snapshot_def)
qed

section \<open>Reconciling with the own projection\<close>

definition snapshot_of :: "materialized_dictionary \<Rightarrow> dictionary_snapshot" where
  "snapshot_of md =
     \<lparr>sn_entries = map (\<lambda>e. \<lparr>se_entryText = me_text e, se_entrySource = me_source e, se_frequency = Some (me_frequency e),
          se_entryAliases = Some (map (\<lambda>a. (ma_text a, Some (ma_count a))) (me_aliases e))\<rparr>) (md_entries md),
      sn_suppressedTexts = md_suppressedTexts md,
      sn_candidates = Some (map (\<lambda>x. \<lparr>sc_text = mc_text x, sc_evidenceCount = Some (mc_evidenceCount x),
          sc_aliases = Some (map (\<lambda>a. (ma_text a, Some (ma_count a))) (mc_aliases x))\<rparr>) (md_candidates md))\<rparr>"

text \<open>The keys of a state fit the texts under them and are their own keys.\<close>

definition keyed_state :: "platform \<Rightarrow> sync_state \<Rightarrow> bool" where
  "keyed_state pf s \<longleftrightarrow> (\<forall>k r. fmlookup (st_records s) k = Some r \<longrightarrow> dictionaryTermKey pf k = k
       \<and> (\<forall>i \<in> set (listLiveIncarnations r). dictionaryTermKey pf (in_text i) = k))
     \<and> (\<forall>k u. fmlookup (st_suppressed s) k = Some u \<longrightarrow> dictionaryTermKey pf (su_text u) = k)"

lemma foldl_pick: "(\<And>a x. f a x = a \<or> f a x = x) \<Longrightarrow> foldl f y ys \<in> insert y (set ys)"
proof (induction ys arbitrary: y)
  case (Cons z zs)
  have "foldl f (f y z) zs \<in> insert (f y z) (set zs)" by (rule Cons.IH [OF Cons.prems])
  with Cons.prems [of y z] show ?case by auto
qed simp

lemma pickDisplayText_in: "live \<noteq> [] \<Longrightarrow> \<exists>i \<in> set live. pickDisplayText live = in_text i"
proof (cases live)
  case (Cons x xs)
  let ?f = "\<lambda>best item. (let order = compareHlc (in_textStamp item) (in_textStamp best)
        in if 0 < order then item else if order < 0 then best else if in_tag best < in_tag item then item else best)"
  have "foldl ?f x live \<in> insert x (set live)" by (rule foldl_pick) (simp add: Let_def)
  then show ?thesis by (auto simp: pickDisplayText_def Cons)
qed simp

lemma materialize_candidate_keys:
  assumes "x \<in> set (md_candidates (materializeDictionary pf s limits))"
  obtains k where "shows_candidate s (k, x)"
proof -
  have ok: "\<forall>(k, r) \<in> set (obj_entries (st_records s)). fmlookup (st_records s) k = Some r"
    unfolding Ball_obj_entries by simp
  have d: "distinct (map fst (obj_entries (st_records s)))" by simp
  from materialize_loop [OF ok d, of pf limits "[]" "[]" fmempty] obtain es cs memo' where
    l: "foldl (materialize_step pf s limits) ([], [], fmempty) (obj_entries (st_records s)) = (es, cs, memo')"
    "list_all (shows_candidate s) cs"
    "map fst cs = filter (\<lambda>k. \<exists>r. (k, r) \<in> set (obj_entries (st_records s)) \<and> visible_record s k r \<and> \<not> entry_record r)
       (map fst (obj_entries (st_records s)))" by auto
  have "distinct (map fst cs)" unfolding l(3) by (rule distinct_filter [OF d])
  note sub = sortAndCap_spec(1) [OF this, where u = mc_updatedAt and w = mc_evidenceCount and limit = "maxCandidates limits" and rank = "\<lambda>_. 0"]
  from assms l(1) obtain k where "(k, x) \<in> set (sortAndCap mc_updatedAt cs mc_evidenceCount (maxCandidates limits) (\<lambda>_. 0))"
    by (auto simp: materializeDictionary_def)
  with sub have "(k, x) \<in> set cs" by blast
  then have "shows_candidate s (k, x)" using l(2) by (auto simp: list_all_iff)
  then show thesis by (rule that)
qed

lemma materialize_entry_keys:
  assumes "e \<in> set (md_entries (materializeDictionary pf s limits))"
  obtains k where "shows_entry s (k, e)"
proof -
  obtain es where es: "md_entries (materializeDictionary pf s limits)
      = map snd (sortAndCap me_updatedAt es me_frequency (maxEntries limits) (\<lambda>item. if me_source item = Manual then 1 else 0))"
    "distinct (map fst es)" "list_all (shows_entry s) es" "fst ` set es = entry_keys s"
    by (rule materialize_entries)
  from assms es(1) obtain k where "(k, e) \<in> set (sortAndCap me_updatedAt es me_frequency (maxEntries limits) (\<lambda>item. if me_source item = Manual then 1 else 0))"
    by auto
  with sortAndCap_spec(1) [OF es(2)] have "(k, e) \<in> set es" by blast
  then have "shows_entry s (k, e)" using es(3) by (auto simp: list_all_iff)
  then show thesis by (rule that)
qed

lemma shows_entry_text:
  assumes "keyed_state pf s" "shows_entry s (k, e)"
  shows "dictionaryTermKey pf (me_text e) = k" "fmlookup (st_records s) k \<noteq> None" "dictionaryTermKey pf k = k"
proof -
  obtain r where r: "fmlookup (st_records s) k = Some r" "listLiveIncarnations r \<noteq> []" "me_text e = pickDisplayText (listLiveIncarnations r)"
    using assms(2) by (auto simp: shows_entry_def visible_record_def)
  with pickDisplayText_in [OF r(2)] assms(1) show "dictionaryTermKey pf (me_text e) = k" by (auto simp: keyed_state_def)
  show "fmlookup (st_records s) k \<noteq> None" "dictionaryTermKey pf k = k" using r(1) assms(1) by (auto simp: keyed_state_def)
qed

lemma shows_candidate_text:
  assumes "keyed_state pf s" "shows_candidate s (k, x)"
  shows "dictionaryTermKey pf (mc_text x) = k" "hasDictionaryKey (st_records s) k"
proof -
  obtain r where r: "fmlookup (st_records s) k = Some r" "listLiveIncarnations r \<noteq> []" "mc_text x = pickDisplayText (listLiveIncarnations r)"
    using assms(2) by (auto simp: shows_candidate_def visible_record_def)
  with pickDisplayText_in [OF r(2)] assms(1) show "dictionaryTermKey pf (mc_text x) = k" by (auto simp: keyed_state_def)
  show "hasDictionaryKey (st_records s) k" using r(1) by (simp add: hasDictionaryKey_def)
qed

lemma foldl_same: "(\<And>x. x \<in> set xs \<Longrightarrow> f a x = a) \<Longrightarrow> foldl f a xs = a"
  by (induction xs) auto

text \<open>
  C16: Reconciling a device with its own projection does nothing: for a state whose keys fit the
  texts under them, the snapshot made of its materialisation (at any limits), with the keys
  recorded at that materialisation, gives the state and the clock back and reports no change. So
  restarting never counts evidence again.
\<close>

theorem reconcile_own_projection_is_noop:
  assumes "keyed_state pf s" "materializeDictionary pf s limits = md"
    "input = \<lparr>ri_snapshot = snapshot_of md, ri_lastMaterializedKeys = map (\<lambda>e. dictionaryTermKey pf (me_text e)) (md_entries md),
       ri_allowTombstonedRevival = allow, ri_nowMs = now\<rparr>"
  shows "reconcileFromLocalSnapshot pf s c input = (s, c, False)"
proof -
  let ?cur = "current_by_key pf (sn_entries (snapshot_of md))" and ?keys = "map (\<lambda>e. dictionaryTermKey pf (me_text e)) (md_entries md)"
  let ?prev = "previous_keys pf ?keys"
  have fix_keys: "dictionaryTermKey pf (dictionaryTermKey pf (me_text e)) = dictionaryTermKey pf (me_text e)" if "e \<in> set (md_entries md)" for e
    using that assms(2) materialize_entry_keys [of e pf s limits] shows_entry_text [OF assms(1)] by metis
  have "dictionaryTermKey pf ` set ?keys = (\<lambda>e. dictionaryTermKey pf (me_text e)) ` set (md_entries md)"
    using fix_keys by (auto simp: image_iff)
  then have prev: "set ?prev = (\<lambda>e. dictionaryTermKey pf (me_text e)) ` set (md_entries md) - {[]}"
    by (simp only: set_previous_keys)
  have cur: "fst ` set ?cur = (\<lambda>e. dictionaryTermKey pf (me_text e)) ` set (md_entries md) - {[]}"
    by (auto simp: current_by_key_dom snapshot_of_def image_iff)
  have sup: "foldl (reconcile_suppress pf now) (s, c, False) (md_suppressedTexts md) = (s, c, False)"
  proof (rule foldl_same)
    fix t assume "t \<in> set (md_suppressedTexts md)"
    then obtain k u where "fmlookup (st_suppressed s) k = Some u" "t = su_text u"
      using assms(2) by (auto simp: materializeDictionary_def fmlookup_dom_iff split: prod.splits)
    with assms(1) have "hasDictionaryKey (st_suppressed s) (dictionaryTermKey pf t)" by (auto simp: keyed_state_def hasDictionaryKey_def)
    then show "reconcile_suppress pf now (s, c, False) t = (s, c, False)"
      by (simp add: reconcile_suppress_def Let_def)
  qed
  have claim: "foldl (reconcile_claim pf ?prev b now) (s, c, False) ?cur = (s, c, False)" for b
  proof (rule foldl_same)
    fix kv assume "kv \<in> set ?cur"
    then have "fst kv \<in> set ?prev" using prev cur by blast
    then show "reconcile_claim pf ?prev b now (s, c, False) kv = (s, c, False)"
      by (cases kv) (simp add: reconcile_claim_def)
  qed
  have cand: "foldl (reconcile_candidate pf ?cur now) (s, c, False)
      (map (\<lambda>x. \<lparr>sc_text = mc_text x, sc_evidenceCount = Some (mc_evidenceCount x),
          sc_aliases = Some (map (\<lambda>a. (ma_text a, Some (ma_count a))) (mc_aliases x))\<rparr>) (md_candidates md)) = (s, c, False)"
  proof (rule foldl_same, clarsimp)
    fix x assume "x \<in> set (md_candidates md)"
    with assms(2) obtain k where "shows_candidate s (k, x)" using materialize_candidate_keys by metis
    from shows_candidate_text [OF assms(1) this]
    have "hasDictionaryKey (st_records s) (dictionaryTermKey pf (mc_text x))" by simp
    then show "reconcile_candidate pf ?cur now (s, c, False) \<lparr>sc_text = mc_text x, sc_evidenceCount = Some (mc_evidenceCount x),
          sc_aliases = Some (map (\<lambda>a. (ma_text a, Some (ma_count a))) (mc_aliases x))\<rparr> = (s, c, False)"
      by (simp add: reconcile_candidate_def Let_def)
  qed
  have removed: "filter (\<lambda>key. map_of ?cur key = None) ?prev = []"
    using prev cur by (auto simp: filter_empty_conv map_of_eq_None_iff)
  have "sn_suppressedTexts (snapshot_of md) = md_suppressedTexts md"
    "(case sn_candidates (snapshot_of md) of None \<Rightarrow> [] | Some cs \<Rightarrow> cs) = map (\<lambda>x. \<lparr>sc_text = mc_text x,
       sc_evidenceCount = Some (mc_evidenceCount x), sc_aliases = Some (map (\<lambda>a. (ma_text a, Some (ma_count a))) (mc_aliases x))\<rparr>) (md_candidates md)"
    by (simp_all add: snapshot_of_def)
  then show ?thesis
    unfolding reconcileFromLocalSnapshot_def Let_def assms(3) reconcile_input.simps by (simp only: sup claim cand removed prod.case) simp
qed

lemma reconcile_own_projection_is_noop_witness:
  "reconcileFromLocalSnapshot sample_platform (sample_state [1] [1] [7] 3) clock_a
     \<lparr>ri_snapshot = snapshot_of (materializeDictionary sample_platform (sample_state [1] [1] [7] 3) DEFAULT_MATERIALIZE_LIMITS),
      ri_lastMaterializedKeys = map (\<lambda>e. dictionaryTermKey sample_platform (me_text e))
        (md_entries (materializeDictionary sample_platform (sample_state [1] [1] [7] 3) DEFAULT_MATERIALIZE_LIMITS)),
      ri_allowTombstonedRevival = None, ri_nowMs = 7\<rparr> = (sample_state [1] [1] [7] 3, clock_a, False)"
proof (rule reconcile_own_projection_is_noop [OF _ refl refl])
  have "listLiveIncarnations (sample_record [1] [1] [7] 3) = [sample_incarnation [1] [1] [7] 3]"
    by (simp add: listLiveIncarnations_def sample_record_def sample_incarnation_def obj_eval hasDictionaryKey_fmdom)
  then show "keyed_state sample_platform (sample_state [1] [1] [7] 3)"
    by (auto simp: keyed_state_def sample_state_def sample_incarnation_def split: if_splits)
qed

end
