(* ===== verification/DictValidate.thy ===== *)
theory DictValidate
  imports DictReconcile
begin

text \<open>
  Values from outside: the deep validation of a state that arrives from a peer or a file
  (\<open>isValidSyncState\<close> in \<open>dictionary-sync/types.ts\<close>) and the reading and writing of the stored file
  (\<open>normalizeStoredData\<close>, \<open>adoptDictionaryMaps\<close> and \<open>toPersistedShape\<close> in
  \<open>VoiceDictionarySyncStore.ts\<close>). A value is what \<open>JSON.parse\<close> gives; fields the types do not name
  are ignored here, as the readers ignore them.
\<close>

section \<open>Reading values\<close>

definition isPlainRecord :: "json option \<Rightarrow> bool" where
  "isPlainRecord v = (case v of Some (JObject _) \<Rightarrow> True | _ \<Rightarrow> False)"

definition is_string :: "json option \<Rightarrow> bool" where
  "is_string v = (case v of Some (JString _) \<Rightarrow> True | _ \<Rightarrow> False)"

definition canonical_value :: "json option \<Rightarrow> bool" where
  "canonical_value v = (case v of Some (JString s) \<Rightarrow> isCanonicalHlc s | _ \<Rightarrow> False)"

definition isValidTimestamp :: "json option \<Rightarrow> bool" where
  "isValidTimestamp v = (case v of Some (JNumber n) \<Rightarrow> 0 \<le> n | _ \<Rightarrow> False)"

definition isValidCounter :: "json option \<Rightarrow> bool" where
  "isValidCounter v = (isPlainRecord v \<and> list_all (\<lambda>(_, x). case x of JNumber n \<Rightarrow> isSafeInteger n \<and> 0 \<le> n | _ \<Rightarrow> False) (entries_of v))"

definition valid_alias :: "json \<Rightarrow> bool" where
  "valid_alias x = (let a = Some x in isPlainRecord a \<and> is_string (member a ''text'') \<and> canonical_value (member a ''textStamp'')
     \<and> isValidTimestamp (member a ''lastSeenAt'') \<and> isValidCounter (member a ''counters''))"

definition isValidIncarnation :: "json \<Rightarrow> bool" where
  "isValidIncarnation x = (let v = Some x in isPlainRecord v
     \<and> canonical_value (member v ''tag'') \<and> is_string (member v ''text'') \<and> canonical_value (member v ''textStamp'')
     \<and> (member v ''source'' = Some (JString (js ''manual'')) \<or> member v ''source'' = Some (JString (js ''automatic'')))
     \<and> (member v ''stage'' = Some (JString (js ''entry'')) \<or> member v ''stage'' = Some (JString (js ''candidate'')))
     \<and> isValidTimestamp (member v ''createdAt'') \<and> isValidTimestamp (member v ''updatedAt'')
     \<and> isValidCounter (member v ''counters'') \<and> isPlainRecord (member v ''aliases'')
     \<and> list_all (\<lambda>(_, a). valid_alias a) (entries_of (member v ''aliases'')))"

definition valid_record :: "json \<Rightarrow> bool" where
  "valid_record x = (let r = Some x; incs = member r ''incarnations''; tombs = member r ''tombstones''
     in isPlainRecord r \<and> isPlainRecord incs \<and> isPlainRecord tombs
        \<and> list_all (\<lambda>(tag, value). isCanonicalHlc tag \<and> canonical_value (Some value)) (entries_of tombs)
        \<and> list_all (\<lambda>(tag, i). isCanonicalHlc tag \<and> isValidIncarnation i \<and> member (Some i) ''tag'' = Some (JString tag))
            (entries_of incs))"

definition isValidSyncState :: "json \<Rightarrow> bool" where
  "isValidSyncState raw =
     (let candidate = Some raw; vector = member candidate ''mutationVector''
      in isPlainRecord candidate
         \<and> member candidate ''version'' = Some (JNumber (of_nat VOICE_DICTIONARY_SYNC_VERSION))
         \<and> isPlainRecord (member candidate ''records'') \<and> isPlainRecord (member candidate ''suppressed'')
         \<and> (vector = None \<or> isPlainRecord vector \<and> list_all (\<lambda>(node, stamp). case stamp of
               JString s \<Rightarrow> isCanonicalHlc s \<and> hlcNodeId s = Some node | _ \<Rightarrow> False) (entries_of vector))
         \<and> list_all (\<lambda>(_, r). valid_record r) (entries_of (member candidate ''records''))
         \<and> list_all (\<lambda>(_, u). isPlainRecord (Some u) \<and> is_string (member (Some u) ''text'') \<and> canonical_value (member (Some u) ''stamp''))
             (entries_of (member candidate ''suppressed'')))"

section \<open>Adopting a validated value\<close>

text \<open>
  The readers of a value with the type the validation has established; on other values they give
  what is written in the last equation, which no caller reaches.
\<close>

definition str_of :: "json option \<Rightarrow> jsstring" where
  "str_of v = (case v of Some (JString s) \<Rightarrow> s | _ \<Rightarrow> [])"

definition num_of :: "json option \<Rightarrow> number" where
  "num_of v = (case v of Some (JNumber n) \<Rightarrow> n | _ \<Rightarrow> 0)"

text \<open>\<open>for (const [k, v] of Object.entries(m)) adopted[k] = f(v)\<close>.\<close>

definition adopt_map :: "(json \<Rightarrow> 'v) \<Rightarrow> json option \<Rightarrow> (jsstring, 'v) fmap" where
  "adopt_map f v = foldl (\<lambda>m (k, x). fmupd k (f x) m) createDictionaryMap (entries_of v)"

definition adoptCounters :: "json option \<Rightarrow> gcounter" where
  "adoptCounters v = adopt_map (\<lambda>x. num_of (Some x)) v"

definition adopt_alias :: "json \<Rightarrow> alias_state" where
  "adopt_alias x = (let a = Some x in
     \<lparr>al_text = str_of (member a ''text''), al_textStamp = str_of (member a ''textStamp''),
      al_counters = adoptCounters (member a ''counters''), al_lastSeenAt = num_of (member a ''lastSeenAt'')\<rparr>)"

definition adopt_incarnation :: "json \<Rightarrow> incarnation" where
  "adopt_incarnation x = (let v = Some x in
     \<lparr>in_tag = str_of (member v ''tag''), in_text = str_of (member v ''text''), in_textStamp = str_of (member v ''textStamp''),
      in_source = (if str_of (member v ''source'') = js ''manual'' then Manual else Automatic),
      in_stage = (if str_of (member v ''stage'') = js ''entry'' then Entry else Candidate),
      in_counters = adoptCounters (member v ''counters''),
      in_aliases = adopt_map adopt_alias (member v ''aliases''),
      in_createdAt = num_of (member v ''createdAt''), in_updatedAt = num_of (member v ''updatedAt'')\<rparr>)"

definition adopt_record :: "json \<Rightarrow> dict_record" where
  "adopt_record x = \<lparr>rc_incarnations = adopt_map adopt_incarnation (member (Some x) ''incarnations''),
     rc_tombstones = adopt_map (\<lambda>s. str_of (Some s)) (member (Some x) ''tombstones'')\<rparr>"

definition adoptDictionaryMaps :: "json \<Rightarrow> sync_state" where
  "adoptDictionaryMaps raw = (let v = Some raw in
     \<lparr>st_version = VOICE_DICTIONARY_SYNC_VERSION,
      st_mutationVector = (case member v ''mutationVector'' of None \<Rightarrow> None
         | Some m \<Rightarrow> Some (adopt_map (\<lambda>s. str_of (Some s)) (Some m))),
      st_records = adopt_map adopt_record (member v ''records''),
      st_suppressed = adopt_map (\<lambda>u. \<lparr>su_text = str_of (member (Some u) ''text''), su_stamp = str_of (member (Some u) ''stamp'')\<rparr>)
        (member v ''suppressed'')\<rparr>)"

definition normalizeState :: "json option \<Rightarrow> sync_state" where
  "normalizeState raw = (case raw of Some v \<Rightarrow> if isValidSyncState v then adoptDictionaryMaps v else createEmptySyncState
     | None \<Rightarrow> createEmptySyncState)"

section \<open>The stored file\<close>

record stored_data =
  sd_nodeId :: jsstring
  sd_wallMs :: int
  sd_counter :: int
  sd_state :: sync_state
  sd_lastMaterializedKeys :: "jsstring list"
  sd_lostSidecar :: "bool option"
  sd_incompatible :: bool

definition STORED_SYNC_DATA_VERSION :: number where
  "STORED_SYNC_DATA_VERSION = 1"

definition readNonNegative :: "json option \<Rightarrow> int" where
  "readNonNegative v = (case v of Some (JNumber n) \<Rightarrow> if 0 < n then \<lfloor>n\<rfloor> else 0 | _ \<Rightarrow> 0)"

text \<open>An infinity parsed from an oversized numeral is a larger version, too.\<close>

definition isNewerStoredVersion :: "json option \<Rightarrow> bool" where
  "isNewerStoredVersion v = (case v of Some (JNumber n) \<Rightarrow> STORED_SYNC_DATA_VERSION < n | Some JNonFinite \<Rightarrow> True | _ \<Rightarrow> False)"

definition isNewerVersion :: "json option \<Rightarrow> bool" where
  "isNewerVersion raw = (case member raw ''version'' of
       Some (JNumber n) \<Rightarrow> of_nat VOICE_DICTIONARY_SYNC_VERSION < n | Some JNonFinite \<Rightarrow> True | _ \<Rightarrow> False)"

definition createInitialData :: "jsstring \<Rightarrow> number \<Rightarrow> hlc_error + stored_data" where
  "createInitialData uuid now =
     (case createHlcClock uuid now of
        Inl e \<Rightarrow> Inl e
      | Inr clock \<Rightarrow> Inr \<lparr>sd_nodeId = nodeId clock, sd_wallMs = wallMs clock, sd_counter = counter clock,
          sd_state = createEmptySyncState, sd_lastMaterializedKeys = [], sd_lostSidecar = None, sd_incompatible = False\<rparr>)"

definition is_object :: "json \<Rightarrow> bool" where
  "is_object v = (case v of JObject _ \<Rightarrow> True | JArray _ \<Rightarrow> True | _ \<Rightarrow> False)"

definition normalizeStoredData :: "jsstring \<Rightarrow> number \<Rightarrow> json \<Rightarrow> hlc_error + stored_data" where
  "normalizeStoredData uuid now raw =
     (if \<not> is_object raw then createInitialData uuid now
      else (let v = Some raw;
                node = (case member v ''nodeId'' of Some (JString s) \<Rightarrow> if trim s \<noteq> [] then trim s else uuid | _ \<Rightarrow> uuid)
            in Inr \<lparr>sd_nodeId = node,
                 sd_wallMs = readNonNegative (member (member v ''clock'') ''wallMs''),
                 sd_counter = readNonNegative (member (member v ''clock'') ''counter''),
                 sd_state = normalizeState (member v ''state''),
                 sd_lastMaterializedKeys = (case member v ''lastMaterializedKeys'' of
                    Some (JArray ks) \<Rightarrow> concat (map (\<lambda>k. case k of JString s \<Rightarrow> [s] | _ \<Rightarrow> []) ks) | _ \<Rightarrow> []),
                 sd_lostSidecar = None,
                 sd_incompatible = (isNewerVersion (member v ''state'') \<or> isNewerStoredVersion (member v ''version''))\<rparr>))"

text \<open>What \<open>JSON.stringify\<close> writes of the typed values, and \<open>toPersistedShape\<close>.\<close>

definition json_map :: "('v \<Rightarrow> json) \<Rightarrow> (jsstring, 'v) fmap \<Rightarrow> json" where
  "json_map f m = JObject (map (\<lambda>(k, v). (k, f v)) (obj_entries m))"

definition json_alias :: "alias_state \<Rightarrow> json" where
  "json_alias a = JObject [(js ''text'', JString (al_text a)), (js ''textStamp'', JString (al_textStamp a)),
     (js ''counters'', json_map JNumber (al_counters a)), (js ''lastSeenAt'', JNumber (al_lastSeenAt a))]"

definition json_incarnation :: "incarnation \<Rightarrow> json" where
  "json_incarnation i = JObject [(js ''tag'', JString (in_tag i)), (js ''text'', JString (in_text i)),
     (js ''textStamp'', JString (in_textStamp i)),
     (js ''source'', JString (if in_source i = Manual then js ''manual'' else js ''automatic'')),
     (js ''stage'', JString (if in_stage i = Entry then js ''entry'' else js ''candidate'')),
     (js ''counters'', json_map JNumber (in_counters i)), (js ''aliases'', json_map json_alias (in_aliases i)),
     (js ''createdAt'', JNumber (in_createdAt i)), (js ''updatedAt'', JNumber (in_updatedAt i))]"

definition json_record :: "dict_record \<Rightarrow> json" where
  "json_record r = JObject [(js ''incarnations'', json_map json_incarnation (rc_incarnations r)),
     (js ''tombstones'', json_map JString (rc_tombstones r))]"

definition json_state :: "sync_state \<Rightarrow> json" where
  "json_state s = JObject ([(js ''version'', JNumber (of_nat (st_version s))), (js ''records'', json_map json_record (st_records s)),
     (js ''suppressed'', json_map (\<lambda>u. JObject [(js ''text'', JString (su_text u)), (js ''stamp'', JString (su_stamp u))]) (st_suppressed s))]
     @ (case st_mutationVector s of None \<Rightarrow> [] | Some m \<Rightarrow> [(js ''mutationVector'', json_map JString m)]))"

definition toPersistedShape :: "stored_data \<Rightarrow> json" where
  "toPersistedShape d = JObject [(js ''version'', JNumber STORED_SYNC_DATA_VERSION), (js ''nodeId'', JString (sd_nodeId d)),
     (js ''clock'', JObject [(js ''wallMs'', JNumber (of_int (sd_wallMs d))), (js ''counter'', JNumber (of_int (sd_counter d)))]),
     (js ''state'', json_state (sd_state d)),
     (js ''lastMaterializedKeys'', JArray (map JString (sd_lastMaterializedKeys d)))]"

section \<open>Lemmas\<close>

lemma isPlainRecord_JObject [simp]: "isPlainRecord (Some (JObject es))"
  by (simp add: isPlainRecord_def)

lemma readers [simp]:
  "is_string (Some (JString s))" "canonical_value (Some (JString s)) \<longleftrightarrow> isCanonicalHlc s"
  "isValidTimestamp (Some (JNumber n)) \<longleftrightarrow> 0 \<le> n" "str_of (Some (JString s)) = s" "num_of (Some (JNumber n)) = n"
  by (simp_all add: is_string_def canonical_value_def isValidTimestamp_def str_of_def num_of_def)

lemma adopt_map_lookup:
  "fmlookup (foldl (\<lambda>m (k, x). fmupd k (f x) m) m0 es) t = (case map_of (rev es) t of Some x \<Rightarrow> Some (f x) | None \<Rightarrow> fmlookup m0 t)"
  by (induction es rule: rev_induct) auto

lemma option_eqI: "(\<And>v. a = Some v \<longleftrightarrow> b = Some v) \<Longrightarrow> a = b"
  by (cases a; cases b) auto

lemma map_of_rev_distinct:
  assumes "distinct (map fst es)"
  shows "map_of (rev es) = map_of es"
proof (rule ext)
  fix x
  have "distinct (map fst (rev es))" using assms by (simp add: rev_map [symmetric])
  from map_of_eq_Some_iff [OF this, of x] map_of_eq_Some_iff [OF assms, of x]
  show "map_of (rev es) x = map_of es x" by (intro option_eqI) simp
qed

lemma adopt_json_map:
  assumes "\<And>t v. fmlookup m t = Some v \<Longrightarrow> f (g v) = v"
  shows "adopt_map f (Some (json_map g m)) = m"
proof (rule fmap_eqI)
  fix t
  have "map fst (map (\<lambda>(k, v). (k, g v)) (obj_entries m)) = obj_keys m"
    unfolding map_fst_obj_entries [symmetric] by (auto simp del: map_fst_obj_entries)
  then have "distinct (map fst (map (\<lambda>(k, v). (k, g v)) (obj_entries m)))" by (simp only: distinct_obj_keys)
  from map_of_rev_distinct [OF this]
  have "map_of (rev (map (\<lambda>(k, v). (k, g v)) (obj_entries m))) t = map_option g (fmlookup m t)"
    by (simp add: map_of_map)
  then show "fmlookup (adopt_map f (Some (json_map g m))) t = fmlookup m t"
    using assms by (auto simp: adopt_map_def json_map_def adopt_map_lookup createDictionaryMap_def split: option.split)
qed

section \<open>Sound states\<close>

text \<open>What the validation is meant to establish of a state, on the typed values.\<close>

definition sound_counter :: "gcounter \<Rightarrow> bool" where
  "sound_counter = fmpred (\<lambda>_ n. isSafeInteger n \<and> 0 \<le> n)"

definition sound_alias :: "alias_state \<Rightarrow> bool" where
  "sound_alias a \<longleftrightarrow> isCanonicalHlc (al_textStamp a) \<and> 0 \<le> al_lastSeenAt a \<and> sound_counter (al_counters a)"

definition sound_incarnation :: "hlc_timestamp \<Rightarrow> incarnation \<Rightarrow> bool" where
  "sound_incarnation t i \<longleftrightarrow> isCanonicalHlc t \<and> in_tag i = t \<and> isCanonicalHlc (in_textStamp i) \<and> 0 \<le> in_createdAt i \<and> 0 \<le> in_updatedAt i
     \<and> sound_counter (in_counters i) \<and> fmpred (\<lambda>_. sound_alias) (in_aliases i)"

definition sound_record :: "dict_record \<Rightarrow> bool" where
  "sound_record r \<longleftrightarrow> fmpred sound_incarnation (rc_incarnations r) \<and> fmpred (\<lambda>t s. isCanonicalHlc t \<and> isCanonicalHlc s) (rc_tombstones r)"

definition sound_state :: "sync_state \<Rightarrow> bool" where
  "sound_state s \<longleftrightarrow> st_version s = VOICE_DICTIONARY_SYNC_VERSION \<and> fmpred (\<lambda>_. sound_record) (st_records s)
     \<and> fmpred (\<lambda>_ u. isCanonicalHlc (su_stamp u)) (st_suppressed s)
     \<and> (case st_mutationVector s of None \<Rightarrow> True | Some m \<Rightarrow> fmpred (\<lambda>n t. isCanonicalHlc t \<and> hlcNodeId t = Some n) m)"

lemma adopt_map_SomeD: "fmlookup (adopt_map f v) t = Some x \<Longrightarrow> \<exists>j. (t, j) \<in> set (entries_of v) \<and> x = f j"
  by (auto simp: adopt_map_def adopt_map_lookup createDictionaryMap_def dest!: map_of_SomeD split: option.splits)

lemma fmpred_adopt_map: "(\<And>t j. (t, j) \<in> set (entries_of v) \<Longrightarrow> P t (f j)) \<Longrightarrow> fmpred P (adopt_map f v)"
  by (auto simp: fmpred_iff dest: adopt_map_SomeD)

lemma fmpred_json_map: "list_all (\<lambda>(t, j). P t j) (entries_of (Some (json_map f m))) \<longleftrightarrow> fmpred (\<lambda>t x. P t (f x)) m"
proof -
  have "list_all (\<lambda>(t, j). P t j) (entries_of (Some (json_map f m))) \<longleftrightarrow> (\<forall>(t, v) \<in> set (obj_entries m). P t (f v))"
    by (simp add: json_map_def list_all_iff split_beta)
  then show ?thesis unfolding Ball_obj_entries fmpred_iff .
qed

lemma canonical_valueD: "canonical_value v \<Longrightarrow> isCanonicalHlc (str_of v)"
  by (auto simp: canonical_value_def str_of_def split: option.splits json.splits)

lemma isValidTimestampD: "isValidTimestamp v \<Longrightarrow> 0 \<le> num_of v"
  by (auto simp: isValidTimestamp_def num_of_def split: option.splits json.splits)

lemma canonical_nonempty: "\<not> isCanonicalHlc []"
  by (simp add: isCanonicalHlc_def)

lemma sound_adoptCounters: "isValidCounter v \<Longrightarrow> sound_counter (adoptCounters v)"
  unfolding sound_counter_def adoptCounters_def
  by (rule fmpred_adopt_map) (auto simp: isValidCounter_def list_all_iff num_of_def split: json.splits)

lemma sound_adopt_alias: "valid_alias x \<Longrightarrow> sound_alias (adopt_alias x)"
  by (simp add: valid_alias_def adopt_alias_def sound_alias_def Let_def canonical_valueD isValidTimestampD sound_adoptCounters)

lemma sound_adopt_incarnation:
  assumes "isCanonicalHlc t" "isValidIncarnation x" "member (Some x) ''tag'' = Some (JString t)"
  shows "sound_incarnation t (adopt_incarnation x)"
proof -
  have "fmpred (\<lambda>_. sound_alias) (adopt_map adopt_alias (member (Some x) ''aliases''))"
    by (rule fmpred_adopt_map) (use assms(2) in \<open>auto simp: isValidIncarnation_def Let_def list_all_iff intro: sound_adopt_alias\<close>)
  with assms show ?thesis
    by (simp add: isValidIncarnation_def adopt_incarnation_def sound_incarnation_def Let_def canonical_valueD isValidTimestampD sound_adoptCounters)
qed

lemma sound_adopt_record:
  assumes "valid_record x"
  shows "sound_record (adopt_record x)"
  unfolding sound_record_def adopt_record_def dict_record.simps
  by (intro conjI fmpred_adopt_map; use assms in \<open>auto simp: valid_record_def Let_def list_all_iff
      intro: sound_adopt_incarnation dest!: canonical_valueD\<close>)

text \<open>
  Whatever passes the validation is a sound state: for every value \<open>JSON.parse\<close> can produce, if
  \<open>isValidSyncState\<close> accepts it, the adopted state has the known version, only canonical stamps, each
  incarnation under its own tag, non-negative safe integer counts, non-negative times, and a
  mutation vector whose stamps belong to their nodes. And without zero counts it is well formed,
  so the laws of merging apply to it.
\<close>

theorem validated_state_sound:
  assumes "isValidSyncState raw"
  shows "sound_state (adoptDictionaryMaps raw)
    \<and> ((\<forall>k. \<forall>i \<in> fmran' (incarnations_at (adoptDictionaryMaps raw) k). fmpred (\<lambda>_ n. n \<noteq> 0) (in_counters i)
          \<and> (\<forall>a \<in> fmran' (in_aliases i). fmpred (\<lambda>_ n. n \<noteq> 0) (al_counters a)))
        \<longrightarrow> ok_state (adoptDictionaryMaps raw))"
proof -
  let ?s = "adoptDictionaryMaps raw"
  have v: "isPlainRecord (Some raw)" "list_all (\<lambda>(_, r). valid_record r) (entries_of (member (Some raw) ''records''))"
    "list_all (\<lambda>(_, u). isPlainRecord (Some u) \<and> is_string (member (Some u) ''text'') \<and> canonical_value (member (Some u) ''stamp''))
       (entries_of (member (Some raw) ''suppressed''))"
    "member (Some raw) ''mutationVector'' = None \<or> list_all (\<lambda>(node, stamp). case stamp of
         JString s \<Rightarrow> isCanonicalHlc s \<and> hlcNodeId s = Some node | _ \<Rightarrow> False) (entries_of (member (Some raw) ''mutationVector''))"
    using assms by (auto simp: isValidSyncState_def Let_def)
  have recs: "fmpred (\<lambda>_. sound_record) (st_records ?s)"
    unfolding adoptDictionaryMaps_def Let_def sync_state.simps
    by (rule fmpred_adopt_map) (use v(2) in \<open>auto simp: list_all_iff intro: sound_adopt_record\<close>)
  moreover have "fmpred (\<lambda>_ u. isCanonicalHlc (su_stamp u)) (st_suppressed ?s)"
    unfolding adoptDictionaryMaps_def Let_def sync_state.simps
    by (rule fmpred_adopt_map) (use v(3) in \<open>auto simp: list_all_iff dest!: canonical_valueD\<close>)
  moreover have "fmpred (\<lambda>n t. isCanonicalHlc t \<and> hlcNodeId t = Some n) m" if "st_mutationVector ?s = Some m" for m
  proof -
    from that have "m = adopt_map (\<lambda>s. str_of (Some s)) (member (Some raw) ''mutationVector'')"
      "member (Some raw) ''mutationVector'' \<noteq> None"
      by (auto simp: adoptDictionaryMaps_def Let_def split: option.splits)
    then show ?thesis
      using v(4) by (auto simp: list_all_iff str_of_def split: json.splits intro!: fmpred_adopt_map)
  qed
  ultimately have sound: "sound_state ?s"
    by (auto simp: sound_state_def adoptDictionaryMaps_def Let_def split: option.split)
  have "ok_state ?s" if nz: "\<forall>k. \<forall>i \<in> fmran' (incarnations_at ?s k). fmpred (\<lambda>_ n. n \<noteq> 0) (in_counters i)
          \<and> (\<forall>a \<in> fmran' (in_aliases i). fmpred (\<lambda>_ n. n \<noteq> 0) (al_counters a))"
  proof -
    have cnt: "ok_counter c" if "sound_counter c" "fmpred (\<lambda>_ n. n \<noteq> 0) c" for c
      using that by (auto simp: sound_counter_def ok_counter_def fmpred_iff isSafeInteger_def order_less_le)
    have "ok_record r" if r: "fmlookup (st_records ?s) k = Some r" for k r
      unfolding ok_record_def
    proof (intro conjI)
      have snd: "sound_record r" using recs r by (auto dest: fmpredD)
      then show "fmpred (\<lambda>_ t. t \<noteq> []) (rc_tombstones r)"
        using canonical_nonempty by (auto simp: sound_record_def fmpred_iff)
      show "fmpred ok_incarnation (rc_incarnations r)"
      proof (unfold fmpred_iff, intro allI impI)
        fix t i assume i: "fmlookup (rc_incarnations r) t = Some i"
        then have "i \<in> fmran' (incarnations_at ?s k)" using r by (auto intro: fmran'I)
        with nz have "fmpred (\<lambda>_ n. n \<noteq> 0) (in_counters i)" "\<forall>a \<in> fmran' (in_aliases i). fmpred (\<lambda>_ n. n \<noteq> 0) (al_counters a)"
          by blast+
        moreover have "sound_incarnation t i" using snd i by (auto simp: sound_record_def dest: fmpredD)
        ultimately show "ok_incarnation t i"
          by (auto simp: ok_incarnation_iff ok_aliases_def ok_alias_def sound_incarnation_def sound_alias_def fmpred_iff [of _ "in_aliases i"]
              intro!: cnt dest: fmran'I)
      qed
    qed
    then show ?thesis by (auto simp: ok_state_def fmpred_iff adoptDictionaryMaps_def Let_def)
  qed
  with sound show ?thesis by blast
qed

section \<open>Writing and reading back\<close>

lemma plain_json_map [simp]: "isPlainRecord (Some (json_map f m))"
  by (simp add: json_map_def)

lemma valid_json_counter: "isValidCounter (Some (json_map JNumber c)) \<longleftrightarrow> sound_counter c"
proof -
  have "isValidCounter (Some (json_map JNumber c)) \<longleftrightarrow>
    list_all (\<lambda>(t, j). (\<lambda>_ x. case x of JNumber n \<Rightarrow> isSafeInteger n \<and> 0 \<le> n | _ \<Rightarrow> False) t j) (entries_of (Some (json_map JNumber c)))"
    by (simp add: isValidCounter_def)
  then show ?thesis unfolding fmpred_json_map by (simp add: sound_counter_def)
qed

lemma adopt_json_counter [simp]: "adoptCounters (Some (json_map JNumber c)) = c"
  unfolding adoptCounters_def by (rule adopt_json_map) simp

lemma adopt_json_strings [simp]: "adopt_map (\<lambda>s. str_of (Some s)) (Some (json_map JString m)) = m"
  by (rule adopt_json_map) simp

lemma json_alias_members [simp]:
  "isPlainRecord (Some (json_alias a))" "member (Some (json_alias a)) ''text'' = Some (JString (al_text a))"
  "member (Some (json_alias a)) ''textStamp'' = Some (JString (al_textStamp a))"
  "member (Some (json_alias a)) ''counters'' = Some (json_map JNumber (al_counters a))"
  "member (Some (json_alias a)) ''lastSeenAt'' = Some (JNumber (al_lastSeenAt a))"
  by (simp_all add: json_alias_def del: js_simps)

lemma json_incarnation_members [simp]:
  "isPlainRecord (Some (json_incarnation i))" "member (Some (json_incarnation i)) ''tag'' = Some (JString (in_tag i))"
  "member (Some (json_incarnation i)) ''text'' = Some (JString (in_text i))"
  "member (Some (json_incarnation i)) ''textStamp'' = Some (JString (in_textStamp i))"
  "member (Some (json_incarnation i)) ''source'' = Some (JString (if in_source i = Manual then js ''manual'' else js ''automatic''))"
  "member (Some (json_incarnation i)) ''stage'' = Some (JString (if in_stage i = Entry then js ''entry'' else js ''candidate''))"
  "member (Some (json_incarnation i)) ''counters'' = Some (json_map JNumber (in_counters i))"
  "member (Some (json_incarnation i)) ''aliases'' = Some (json_map json_alias (in_aliases i))"
  "member (Some (json_incarnation i)) ''createdAt'' = Some (JNumber (in_createdAt i))"
  "member (Some (json_incarnation i)) ''updatedAt'' = Some (JNumber (in_updatedAt i))"
  by (simp_all add: json_incarnation_def del: js_simps)

lemma json_record_members [simp]:
  "isPlainRecord (Some (json_record r))" "member (Some (json_record r)) ''incarnations'' = Some (json_map json_incarnation (rc_incarnations r))"
  "member (Some (json_record r)) ''tombstones'' = Some (json_map JString (rc_tombstones r))"
  by (simp_all add: json_record_def del: js_simps)

lemma json_state_members [simp]:
  "isPlainRecord (Some (json_state s))" "member (Some (json_state s)) ''version'' = Some (JNumber (of_nat (st_version s)))"
  "member (Some (json_state s)) ''records'' = Some (json_map json_record (st_records s))"
  "member (Some (json_state s)) ''suppressed'' = Some (json_map (\<lambda>u. JObject [(js ''text'', JString (su_text u)), (js ''stamp'', JString (su_stamp u))]) (st_suppressed s))"
  "member (Some (json_state s)) ''mutationVector'' = map_option (json_map JString) (st_mutationVector s)"
  by (simp_all add: json_state_def del: js_simps split: option.split)

lemma valid_json_alias [simp]: "valid_alias (json_alias a) \<longleftrightarrow> sound_alias a"
  by (auto simp: valid_alias_def sound_alias_def Let_def valid_json_counter)

lemma adopt_json_alias [simp]: "adopt_alias (json_alias a) = a"
  by (simp add: adopt_alias_def Let_def)

lemma valid_json_incarnation:
  "isValidIncarnation (json_incarnation i) \<longleftrightarrow> isCanonicalHlc (in_tag i) \<and> sound_incarnation (in_tag i) i"
proof -
  have "list_all (\<lambda>(t, a). (\<lambda>_. valid_alias) t a) (entries_of (Some (json_map json_alias (in_aliases i)))) \<longleftrightarrow> fmpred (\<lambda>_. sound_alias) (in_aliases i)"
    unfolding fmpred_json_map by simp
  then show ?thesis
    by (auto simp: isValidIncarnation_def sound_incarnation_def Let_def valid_json_counter simp del: js_simps)
qed

lemma adopt_json_incarnation [simp]: "adopt_incarnation (json_incarnation i) = i"
proof -
  have "adopt_map adopt_alias (Some (json_map json_alias (in_aliases i))) = in_aliases i" by (rule adopt_json_map) simp
  moreover have "(if in_source i = Manual then Manual else Automatic) = in_source i" "(if in_stage i = Entry then Entry else Candidate) = in_stage i"
    by (cases "in_source i"; simp) (cases "in_stage i"; simp)
  ultimately show ?thesis by (simp add: adopt_incarnation_def Let_def if_distrib [of "\<lambda>x. x = _"] cong: if_cong)
qed

lemma valid_json_record [simp]: "valid_record (json_record r) \<longleftrightarrow> sound_record r"
proof -
  have "list_all (\<lambda>(tag, i). (\<lambda>tag i. isCanonicalHlc tag \<and> isValidIncarnation i \<and> member (Some i) ''tag'' = Some (JString tag)) tag i)
      (entries_of (Some (json_map json_incarnation (rc_incarnations r)))) \<longleftrightarrow> fmpred sound_incarnation (rc_incarnations r)"
    unfolding fmpred_json_map by (auto simp: fmpred_iff valid_json_incarnation sound_incarnation_def)
  moreover have "list_all (\<lambda>(tag, v). (\<lambda>tag v. isCanonicalHlc tag \<and> canonical_value (Some v)) tag v)
      (entries_of (Some (json_map JString (rc_tombstones r)))) \<longleftrightarrow> fmpred (\<lambda>t s. isCanonicalHlc t \<and> isCanonicalHlc s) (rc_tombstones r)"
    unfolding fmpred_json_map by simp
  ultimately show ?thesis by (auto simp: valid_record_def sound_record_def Let_def)
qed

lemma adopt_json_record [simp]: "adopt_record (json_record r) = r"
  unfolding adopt_record_def json_record_members by (simp add: adopt_json_map [of _ adopt_incarnation])

lemma valid_json_state: "isValidSyncState (json_state s) \<longleftrightarrow> sound_state s"
proof -
  have "list_all (\<lambda>(t, r). (\<lambda>_. valid_record) t r) (entries_of (Some (json_map json_record (st_records s)))) \<longleftrightarrow> fmpred (\<lambda>_. sound_record) (st_records s)"
    unfolding fmpred_json_map by simp
  moreover have "list_all (\<lambda>(t, u). (\<lambda>_ u. isPlainRecord (Some u) \<and> is_string (member (Some u) ''text'') \<and> canonical_value (member (Some u) ''stamp'')) t u)
      (entries_of (Some (json_map (\<lambda>u. JObject [(js ''text'', JString (su_text u)), (js ''stamp'', JString (su_stamp u))]) (st_suppressed s))))
    \<longleftrightarrow> fmpred (\<lambda>_ u. isCanonicalHlc (su_stamp u)) (st_suppressed s)"
    unfolding fmpred_json_map by (simp del: js_simps)
  moreover have "list_all (\<lambda>(n, t). (\<lambda>n t. case t of JString x \<Rightarrow> isCanonicalHlc x \<and> hlcNodeId x = Some n | _ \<Rightarrow> False) n t)
      (entries_of (Some (json_map JString m))) \<longleftrightarrow> fmpred (\<lambda>n t. isCanonicalHlc t \<and> hlcNodeId t = Some n) m" for m
    unfolding fmpred_json_map by simp
  ultimately show ?thesis
    by (auto simp: isValidSyncState_def sound_state_def Let_def split: option.split)
qed

lemma adopt_json_state: "adoptDictionaryMaps (json_state s) = s\<lparr>st_version := VOICE_DICTIONARY_SYNC_VERSION\<rparr>"
proof -
  have "adopt_map (\<lambda>u. \<lparr>su_text = str_of (member (Some u) ''text''), su_stamp = str_of (member (Some u) ''stamp'')\<rparr>)
      (Some (json_map (\<lambda>u. JObject [(js ''text'', JString (su_text u)), (js ''stamp'', JString (su_stamp u))]) (st_suppressed s))) = st_suppressed s"
    by (rule adopt_json_map) (simp del: js_simps)
  moreover have "adopt_map adopt_record (Some (json_map json_record (st_records s))) = st_records s" by (rule adopt_json_map) simp
  ultimately show ?thesis
    by (cases "st_mutationVector s") (simp_all add: adoptDictionaryMaps_def Let_def)
qed

text \<open>
  C12: The stored form is faithful: a state can be written and read back exactly when it is sound. What
  \<open>JSON.stringify\<close> writes of a state is accepted by \<open>isValidSyncState\<close> if and only if the state is
  sound, and adopting it gives the same state back, so a frame or a file loses nothing.
\<close>

theorem state_json_roundtrip:
  "(isValidSyncState (json_state s) \<longleftrightarrow> sound_state s)
    \<and> adoptDictionaryMaps (json_state s) = s\<lparr>st_version := VOICE_DICTIONARY_SYNC_VERSION\<rparr>"
proof
  show "isValidSyncState (json_state s) \<longleftrightarrow> sound_state s" by (rule valid_json_state)
  show "adoptDictionaryMaps (json_state s) = s\<lparr>st_version := VOICE_DICTIONARY_SYNC_VERSION\<rparr>" by (rule adopt_json_state)
qed

lemma sample_sound: "sound_state (sample_state (formatHlc clock_a) (formatHlc clock_b) [7] 3)"
proof -
  have c: "isCanonicalHlc (formatHlc clock_a)" "isCanonicalHlc (formatHlc clock_b)" by (simp_all add: formatHlc_canonical)
  have "sound_incarnation (formatHlc clock_a) (sample_incarnation (formatHlc clock_a) (formatHlc clock_b) [7] 3)"
    using c Math_floor_of_int [of 3]
    by (auto simp: sound_incarnation_def sample_incarnation_def sound_counter_def fmpred_iff isSafeInteger_def split: if_splits)
  then have "sound_record (sample_record (formatHlc clock_a) (formatHlc clock_b) [7] 3)"
    by (auto simp: sound_record_def sample_record_def fmpred_iff split: if_splits)
  then show ?thesis
    by (auto simp: sound_state_def sample_state_def fmpred_iff VOICE_DICTIONARY_SYNC_VERSION_def split: if_splits)
qed

lemma validated_state_sound_witness:
  "sound_state (adoptDictionaryMaps (json_state (sample_state (formatHlc clock_a) (formatHlc clock_b) [7] 3)))"
  by (rule conjunct1 [OF validated_state_sound]) (simp add: valid_json_state sample_sound)

section \<open>The stored file reads back\<close>

lemma readNonNegative_of_int [simp]: "0 \<le> n \<Longrightarrow> readNonNegative (Some (JNumber (of_int n))) = n"
  by (simp add: readNonNegative_def)

lemma concat_strings: "concat (map (\<lambda>k. case k of JString s \<Rightarrow> [s] | _ \<Rightarrow> []) (map JString ks)) = ks"
  by (induction ks) simp_all

definition writable_data :: "stored_data \<Rightarrow> bool" where
  "writable_data d \<longleftrightarrow> sound_state (sd_state d) \<and> trim (sd_nodeId d) = sd_nodeId d \<and> sd_nodeId d \<noteq> []
     \<and> 0 \<le> sd_wallMs d \<and> 0 \<le> sd_counter d"

lemma stored_members [simp]:
  "member (Some (toPersistedShape d)) ''version'' = Some (JNumber STORED_SYNC_DATA_VERSION)"
  "member (Some (toPersistedShape d)) ''nodeId'' = Some (JString (sd_nodeId d))"
  "member (member (Some (toPersistedShape d)) ''clock'') ''wallMs'' = Some (JNumber (of_int (sd_wallMs d)))"
  "member (member (Some (toPersistedShape d)) ''clock'') ''counter'' = Some (JNumber (of_int (sd_counter d)))"
  "member (Some (toPersistedShape d)) ''state'' = Some (json_state (sd_state d))"
  "member (Some (toPersistedShape d)) ''lastMaterializedKeys'' = Some (JArray (map JString (sd_lastMaterializedKeys d)))"
  by (simp_all add: toPersistedShape_def del: js_simps)

lemma stored_reads_back:
  assumes "writable_data d"
  shows "normalizeStoredData uuid now (toPersistedShape d) = Inr (d\<lparr>sd_lostSidecar := None, sd_incompatible := False\<rparr>)"
proof -
  have "st_version (sd_state d) = VOICE_DICTIONARY_SYNC_VERSION" using assms by (simp add: writable_data_def sound_state_def)
  then have "normalizeState (Some (json_state (sd_state d))) = sd_state d"
    using assms by (simp add: normalizeState_def valid_json_state adopt_json_state writable_data_def)
  moreover have "\<not> isNewerVersion (Some (json_state (sd_state d)))"
    using \<open>st_version (sd_state d) = _\<close> by (simp add: isNewerVersion_def)
  moreover have "\<not> isNewerStoredVersion (Some (JNumber STORED_SYNC_DATA_VERSION))" by (simp add: isNewerStoredVersion_def)
  moreover have "is_object (toPersistedShape d)" by (simp add: is_object_def toPersistedShape_def)
  ultimately show ?thesis
    using assms by (simp add: normalizeStoredData_def Let_def writable_data_def concat_strings del: map_map)
qed

end
