(* ===== verification/DictStore.thy ===== *)
theory DictStore
  imports DictValidate
begin

text \<open>
  The device's store of the replicated dictionary (\<open>VoiceDictionarySyncStore.ts\<close> of the desktop main
  process): the cached data, the file of each account, the recovery that waits for a peer, and
  every operation with its error paths. The file system is a map from accounts to file contents
  (\<open>None\<close> where reading or parsing fails), the rest of the host is an \<open>env\<close> per call: the account
  in session, one reading of the clock, a fresh UUID and whether writing succeeds.
\<close>

section \<open>State\<close>

type_synonym owner = "jsstring option"

record store =
  vs_data :: "stored_data option"
  vs_dataOwnerId :: owner
  vs_pendingRecovery :: "dictionary_snapshot option"
  vs_disk :: "owner \<Rightarrow> json option"

record env =
  ev_platform :: platform
  ev_owner :: owner
  ev_now :: number
  ev_uuid :: jsstring
  ev_writable :: bool

text \<open>
  What an operation throws: the two error classes of the module, the error of \<open>createHlcClock\<close>, and
  the \<open>TypeError\<close> of reading a field of an inherited member.
\<close>

datatype sync_error = Sync_unavailable | Sync_write_failed | Clock_error hlc_error | Type_error

type_synonym 'a outcome = "store \<times> (sync_error + 'a)"

definition and_then :: "'a outcome \<Rightarrow> (store \<Rightarrow> 'a \<Rightarrow> 'b outcome) \<Rightarrow> 'b outcome" where
  "and_then r f = (case r of (vs, Inl e) \<Rightarrow> (vs, Inl e) | (vs, Inr x) \<Rightarrow> f vs x)"

definition readClock :: "stored_data \<Rightarrow> hlc_clock" where
  "readClock d = \<lparr>wallMs = sd_wallMs d, counter = sd_counter d, nodeId = sd_nodeId d\<rparr>"

definition with_state :: "stored_data \<Rightarrow> sync_state \<Rightarrow> hlc_clock \<Rightarrow> stored_data" where
  "with_state d s c = d\<lparr>sd_state := s, sd_wallMs := wallMs c, sd_counter := counter c\<rparr>"

section \<open>Writing\<close>

definition mergeWithOnDiskState :: "env \<Rightarrow> json option \<Rightarrow> stored_data \<Rightarrow> stored_data" where
  "mergeWithOnDiskState ev file next =
     (case file of None \<Rightarrow> next
      | Some raw \<Rightarrow> (case normalizeStoredData (ev_uuid ev) (ev_now ev) raw of
            Inl _ \<Rightarrow> next
          | Inr onDisk \<Rightarrow>
              if sd_incompatible onDisk then next
              else (let mergedState = mergeSyncStates (sd_state next) (sd_state onDisk)
                    in if mergedState = sd_state next then next
                       else (let clock = (case findMaxHlc (sd_state onDisk) of
                                  Some m \<Rightarrow> observeHlc (readClock next) m (ev_now ev) | None \<Rightarrow> readClock next)
                             in with_state next mergedState clock))))"

definition promote_data :: "env \<Rightarrow> stored_data \<Rightarrow> stored_data" where
  "promote_data ev d =
     (let (s, c, changed) = promoteEligibleDictionaryCandidates (sd_state d) (readClock d) (ev_now ev)
      in if changed then with_state d s c else d)"

definition persist :: "env \<Rightarrow> store \<Rightarrow> stored_data \<Rightarrow> unit outcome" where
  "persist ev vs next =
     (if sd_incompatible next \<or> (case vs_data vs of Some d \<Rightarrow> sd_incompatible d | None \<Rightarrow> False) then (vs, Inr ())
      else (let merged = promote_data ev (mergeWithOnDiskState ev (vs_disk vs (ev_owner ev)) next)
            in if ev_writable ev
               then (vs\<lparr>vs_data := Some merged, vs_disk := (vs_disk vs)(ev_owner ev := Some (toPersistedShape merged))\<rparr>, Inr ())
               else (vs\<lparr>vs_data := Some merged\<rparr>, Inl Sync_write_failed)))"

section \<open>Loading\<close>

definition switch_owner :: "env \<Rightarrow> store \<Rightarrow> store" where
  "switch_owner ev vs =
     (if vs_data vs \<noteq> None \<and> vs_dataOwnerId vs \<noteq> ev_owner ev
      then vs\<lparr>vs_data := None, vs_pendingRecovery := None, vs_dataOwnerId := ev_owner ev\<rparr>
      else vs\<lparr>vs_dataOwnerId := ev_owner ev\<rparr>)"

definition read_file :: "env \<Rightarrow> json option \<Rightarrow> hlc_error + stored_data" where
  "read_file ev file = (case file of None \<Rightarrow> createInitialData (ev_uuid ev) (ev_now ev)
     | Some raw \<Rightarrow> (case normalizeStoredData (ev_uuid ev) (ev_now ev) raw of
          Inl _ \<Rightarrow> createInitialData (ev_uuid ev) (ev_now ev) | Inr d \<Rightarrow> Inr d))"

definition load :: "env \<Rightarrow> store \<Rightarrow> stored_data outcome" where
  "load ev vs0 =
     (let vs = switch_owner ev vs0
      in case vs_data vs of
           Some d \<Rightarrow> (vs, Inr d)
         | None \<Rightarrow>
             (case read_file ev (vs_disk vs (ev_owner ev)) of
                Inl e \<Rightarrow> (vs, Inl (Clock_error e))
              | Inr d \<Rightarrow>
                  (let vs1 = vs\<lparr>vs_data := Some d\<rparr>
                   in if sd_incompatible d then (vs1, Inr d)
                      else (let (s, c, changed) = promoteEligibleDictionaryCandidates (sd_state d) (readClock d) (ev_now ev)
                            in if changed
                               then and_then (persist ev vs1 (with_state d s c)) (\<lambda>vs2 _.
                                 case vs_data vs2 of Some d2 \<Rightarrow> (vs2, Inr d2) | None \<Rightarrow> (vs2, Inr d))
                               else (vs1, Inr d)))))"

definition isIncompatible :: "env \<Rightarrow> store \<Rightarrow> bool outcome" where
  "isIncompatible ev vs = and_then (load ev vs) (\<lambda>vs d. (vs, Inr (sd_incompatible d)))"

definition getState :: "env \<Rightarrow> store \<Rightarrow> sync_state outcome" where
  "getState ev vs = and_then (load ev vs) (\<lambda>vs d. (vs, Inr (sd_state d)))"

definition getNodeId :: "env \<Rightarrow> store \<Rightarrow> jsstring outcome" where
  "getNodeId ev vs = and_then (load ev vs) (\<lambda>vs d. (vs, Inr (sd_nodeId d)))"

definition materialize :: "env \<Rightarrow> store \<Rightarrow> materialized_dictionary outcome" where
  "materialize ev vs = and_then (load ev vs) (\<lambda>vs d.
     (vs, Inr (materializeDictionary (ev_platform ev) (sd_state d) DEFAULT_MATERIALIZE_LIMITS)))"

definition noteProjectionHasDictionary :: "env \<Rightarrow> store \<Rightarrow> unit outcome" where
  "noteProjectionHasDictionary ev vs = and_then (load ev vs) (\<lambda>vs current.
     if sd_lostSidecar current \<noteq> None then (vs, Inr ())
     else if obj_keys (st_records (sd_state current)) \<noteq> []
          then (vs\<lparr>vs_data := Some (current\<lparr>sd_lostSidecar := Some False\<rparr>)\<rparr>, Inr ())
          else (vs\<lparr>vs_data := Some (current\<lparr>sd_lostSidecar := Some True\<rparr>)\<rparr>, Inr ()))"

section \<open>Committing and reconciling\<close>

definition commit :: "env \<Rightarrow> store \<Rightarrow> sync_state \<Rightarrow> hlc_clock \<Rightarrow> materialized_dictionary outcome" where
  "commit ev vs s c = and_then (load ev vs) (\<lambda>vs current.
     and_then (persist ev vs (with_state current s c)) (\<lambda>vs _.
       (vs, Inr (materializeDictionary (ev_platform ev)
          (case vs_data vs of Some d \<Rightarrow> sd_state d | None \<Rightarrow> s) DEFAULT_MATERIALIZE_LIMITS))))"

definition stripCountsFromSnapshot :: "dictionary_snapshot \<Rightarrow> dictionary_snapshot" where
  "stripCountsFromSnapshot sn =
     \<lparr>sn_entries = map (\<lambda>e. \<lparr>se_entryText = se_entryText e, se_entrySource = se_entrySource e, se_frequency = None,
        se_entryAliases = None\<rparr>) (sn_entries sn),
      sn_suppressedTexts = sn_suppressedTexts sn,
      sn_candidates = map_option (map (\<lambda>x. \<lparr>sc_text = sc_text x, sc_evidenceCount = None, sc_aliases = None\<rparr>)) (sn_candidates sn)\<rparr>"

definition reconcileNow :: "env \<Rightarrow> store \<Rightarrow> dictionary_snapshot \<Rightarrow> bool \<Rightarrow> materialized_dictionary option outcome" where
  "reconcileNow ev vs snapshot recovery = and_then (load ev vs) (\<lambda>vs current.
     (let (s, c, changed) = reconcileFromLocalSnapshot (ev_platform ev) (sd_state current) (readClock current)
            \<lparr>ri_snapshot = (if recovery then stripCountsFromSnapshot snapshot else snapshot),
             ri_lastMaterializedKeys = sd_lastMaterializedKeys current,
             ri_allowTombstonedRevival = Some (\<not> recovery), ri_nowMs = ev_now ev\<rparr>
      in if \<not> changed then (vs, Inr None) else and_then (commit ev vs s c) (\<lambda>vs md. (vs, Inr (Some md)))))"

definition flushPendingRecovery :: "env \<Rightarrow> store \<Rightarrow> materialized_dictionary option outcome" where
  "flushPendingRecovery ev vs = and_then (load ev vs) (\<lambda>vs _.
     case vs_pendingRecovery vs of None \<Rightarrow> (vs, Inr None)
     | Some snapshot \<Rightarrow> and_then (reconcileNow ev vs snapshot True) (\<lambda>vs md.
         (vs\<lparr>vs_pendingRecovery := None\<rparr>, Inr md)))"

definition hasPendingRecovery :: "env \<Rightarrow> store \<Rightarrow> bool outcome" where
  "hasPendingRecovery ev vs = and_then (load ev vs) (\<lambda>vs _. (vs, Inr (vs_pendingRecovery vs \<noteq> None)))"

definition reconcile :: "env \<Rightarrow> store \<Rightarrow> dictionary_snapshot \<Rightarrow> bool option \<Rightarrow> materialized_dictionary option outcome" where
  "reconcile ev vs snapshot syncEnabled = and_then (load ev vs) (\<lambda>vs current.
     if sd_lostSidecar current = Some True \<and> syncEnabled \<noteq> Some False
     then (vs\<lparr>vs_pendingRecovery := Some snapshot\<rparr>, Inr None)
     else reconcileNow ev vs snapshot (sd_lostSidecar current = Some True))"

section \<open>Changes\<close>

definition mutate :: "env \<Rightarrow> store \<Rightarrow> (sync_state \<Rightarrow> hlc_clock \<Rightarrow> mutation_result) \<Rightarrow> materialized_dictionary option outcome" where
  "mutate ev vs apply = and_then (load ev vs) (\<lambda>vs current.
     if sd_incompatible current then (vs, Inl Sync_unavailable)
     else and_then (flushPendingRecovery ev vs) (\<lambda>vs _. and_then (load ev vs) (\<lambda>vs base.
       (let (s, c, changed) = apply (sd_state base) (readClock base)
        in if \<not> changed then (vs, Inr None) else and_then (commit ev vs s c) (\<lambda>vs md. (vs, Inr (Some md)))))))"

text \<open>
  The members every ordinary object inherits. A frame's maps are ordinary objects, so a local term
  of that name the frame does not have reads the inherited member from the frame, and merging the
  record with it reads the fields of \<open>undefined\<close>. (The same can happen to an alias or a
  suppression of that name; those cases are not modelled.)
\<close>

definition inherited_members :: "jsstring list" where
  "inherited_members = [js ''constructor'', js ''__proto__'']"

definition inherited_clash :: "sync_state \<Rightarrow> sync_state \<Rightarrow> bool" where
  "inherited_clash local remote = list_ex (\<lambda>k. hasDictionaryKey (st_records local) k \<and> \<not> hasDictionaryKey (st_records remote) k)
     inherited_members"

definition mergeRemote :: "env \<Rightarrow> store \<Rightarrow> json \<Rightarrow> materialized_dictionary option outcome" where
  "mergeRemote ev vs remote = and_then (load ev vs) (\<lambda>vs current.
     if sd_incompatible current then (vs, Inr None)
     else (let isUsableFrame = isValidSyncState remote;
               remoteState = (if isUsableFrame then adoptDictionaryMaps remote else createEmptySyncState)
           in if isUsableFrame \<and> inherited_clash (sd_state current) remoteState then (vs, Inl Type_error)
              else (let merged = mergeSyncStates (sd_state current) remoteState
                    in if merged = sd_state current
                       then (if isUsableFrame then flushPendingRecovery ev vs else (vs, Inr None))
                       else (let clock = (case findMaxHlc remoteState of
                                  Some m \<Rightarrow> observeHlc (readClock current) m (ev_now ev) | None \<Rightarrow> readClock current)
                             in and_then (commit ev vs merged clock) (\<lambda>vs materialized.
                                  and_then (flushPendingRecovery ev vs) (\<lambda>vs flushed.
                                    (vs, Inr (Some (case flushed of Some md \<Rightarrow> md | None \<Rightarrow> materialized)))))))))"

record rollback_point =
  rb_state :: sync_state
  rb_clock :: hlc_clock
  rb_lastMaterializedKeys :: "jsstring list"

definition rollbackTo :: "env \<Rightarrow> store \<Rightarrow> rollback_point \<Rightarrow> unit outcome" where
  "rollbackTo ev vs point = and_then (load ev vs) (\<lambda>vs current.
     persist ev vs ((with_state current (rb_state point) (rb_clock point))
       \<lparr>sd_lastMaterializedKeys := rb_lastMaterializedKeys point\<rparr>))"

definition snapshotForRollback :: "env \<Rightarrow> store \<Rightarrow> rollback_point outcome" where
  "snapshotForRollback ev vs = and_then (load ev vs) (\<lambda>vs current.
     (vs, Inr \<lparr>rb_state = sd_state current, rb_clock = readClock current, rb_lastMaterializedKeys = sd_lastMaterializedKeys current\<rparr>))"

definition sameKeys :: "jsstring list \<Rightarrow> jsstring list \<Rightarrow> bool" where
  "sameKeys a b = (length a = length b \<and> list_all (\<lambda>(x, y). x = y) (zip a b))"

definition markMaterialized :: "env \<Rightarrow> store \<Rightarrow> materialized_dictionary \<Rightarrow> unit outcome" where
  "markMaterialized ev vs md = and_then (load ev vs) (\<lambda>vs current.
     (let keys = map (\<lambda>e. dictionaryTermKey (ev_platform ev) (me_text e)) (md_entries md)
      in if sameKeys keys (sd_lastMaterializedKeys current) then (vs, Inr ())
         else persist ev vs (current\<lparr>sd_lastMaterializedKeys := keys\<rparr>)))"

definition collectGarbage :: "env \<Rightarrow> store \<Rightarrow> unit outcome" where
  "collectGarbage ev vs = and_then (load ev vs) (\<lambda>vs current.
     (let collected = gcTombstones (ev_platform ev) (sd_state current) (ev_now ev) DEFAULT_TOMBSTONE_TTL_MS;
          (s, c, _) = pruneWeakAutomaticCandidates (ev_platform ev) collected (readClock current)
            MAX_AUTOMATIC_CANDIDATE_RECORDS (ev_now ev)
      in if s = sd_state current then (vs, Inr ()) else persist ev vs (with_state current s c)))"

section \<open>Steps\<close>

text \<open>
  One call of an operation, in an environment. The changes a client passes to \<open>mutate\<close>, the frames
  of peers and the rollback points satisfy a predicate each.
\<close>

inductive store_step :: "((sync_state \<Rightarrow> hlc_clock \<Rightarrow> mutation_result) \<Rightarrow> bool) \<Rightarrow> (json \<Rightarrow> bool) \<Rightarrow> (rollback_point \<Rightarrow> bool)
    \<Rightarrow> env \<Rightarrow> store \<Rightarrow> store \<Rightarrow> bool"
  for A F R ev vs where
  "store_step A F R ev vs (fst (load ev vs))"
| "store_step A F R ev vs (fst (noteProjectionHasDictionary ev vs))"
| "A f \<Longrightarrow> store_step A F R ev vs (fst (mutate ev vs f))"
| "F frame \<Longrightarrow> store_step A F R ev vs (fst (mergeRemote ev vs frame))"
| "store_step A F R ev vs (fst (reconcile ev vs snapshot enabled))"
| "store_step A F R ev vs (fst (flushPendingRecovery ev vs))"
| "store_step A F R ev vs (fst (markMaterialized ev vs md))"
| "store_step A F R ev vs (fst (collectGarbage ev vs))"
| "R point \<Longrightarrow> store_step A F R ev vs (fst (rollbackTo ev vs point))"

inductive_cases store_stepE: "store_step A F R ev vs vs'"

lemma and_then_simps [simp]: "and_then (vs, Inl e) f = (vs, Inl e)" "and_then (vs, Inr x) f = f vs x"
  by (simp_all add: and_then_def)

lemma and_then_inv:
  assumes "P (fst r)" "\<And>vs x. P vs \<Longrightarrow> P (fst (f vs x))"
  shows "P (fst (and_then r f))"
proof -
  obtain vs y where "r = (vs, y)" by (cases r)
  with assms show ?thesis by (cases y) (auto simp: and_then_def)
qed

lemma load_data: "load ev vs = (vs1, Inr d) \<Longrightarrow> vs_data vs1 = Some d \<and> vs_dataOwnerId vs1 = ev_owner ev"
proof -
  assume l: "load ev vs = (vs1, Inr d)"
  have own: "vs_dataOwnerId (switch_owner ev vs) = ev_owner ev" by (simp add: switch_owner_def)
  have per: "vs_dataOwnerId (fst (persist ev w n)) = vs_dataOwnerId w" "vs_data w \<noteq> None \<Longrightarrow> vs_data (fst (persist ev w n)) \<noteq> None"
    for w n
    by (auto simp: persist_def Let_def)
  show ?thesis
  proof (cases "vs_data (switch_owner ev vs)")
    case (Some d')
    with l own show ?thesis by (auto simp: load_def Let_def)
  next
    case None
    obtain d1 where d1: "read_file ev (vs_disk (switch_owner ev vs) (ev_owner ev)) = Inr d1"
      using l None by (cases "read_file ev (vs_disk (switch_owner ev vs) (ev_owner ev))") (auto simp: load_def Let_def)
    let ?w = "(switch_owner ev vs)\<lparr>vs_data := Some d1\<rparr>"
    obtain s c ch where p: "promoteEligibleDictionaryCandidates (sd_state d1) (readClock d1) (ev_now ev) = (s, c, ch)"
      by (cases "promoteEligibleDictionaryCandidates (sd_state d1) (readClock d1) (ev_now ev)")
    obtain w2 r where w2: "persist ev ?w (with_state d1 s c) = (w2, r)" by (cases "persist ev ?w (with_state d1 s c)")
    with per [where w = ?w and n = "with_state d1 s c"] own have "vs_dataOwnerId w2 = ev_owner ev" "vs_data w2 \<noteq> None" by simp_all
    then show ?thesis
      using l own w2 by (cases r) (auto simp: load_def Let_def None d1 p split: if_splits)
  qed
qed

text \<open>
  An invariant of the store that \<open>load\<close> establishes from a weaker one and \<open>persist\<close> keeps is kept by
  every operation. The operations are closed once, here; the invariants below are instances.
\<close>

locale store_invariant =
  fixes ev :: env and before :: "store \<Rightarrow> bool" and here :: "store \<Rightarrow> bool" and good :: "stored_data \<Rightarrow> bool"
    and okst :: "sync_state \<Rightarrow> bool" and A :: "(sync_state \<Rightarrow> hlc_clock \<Rightarrow> mutation_result) \<Rightarrow> bool"
    and F :: "json \<Rightarrow> bool" and R :: "rollback_point \<Rightarrow> bool"
  assumes load_here: "before vs \<Longrightarrow> here (fst (load ev vs))"
    and here_before: "here vs \<Longrightarrow> before vs"
    and here_good: "here vs \<Longrightarrow> vs_data vs = Some d \<Longrightarrow> good d"
    and persist_here: "here vs \<Longrightarrow> good d \<Longrightarrow> here (fst (persist ev vs d))"
    and note_here: "here vs \<Longrightarrow> vs_data vs = Some d \<Longrightarrow> here (vs\<lparr>vs_data := Some (d\<lparr>sd_lostSidecar := b\<rparr>)\<rparr>)"
    and pending_here: "here vs \<Longrightarrow> vs_data vs = Some d \<Longrightarrow> here (vs\<lparr>vs_pendingRecovery := Some sn\<rparr>)"
    and clear_here: "here vs \<Longrightarrow> here (vs\<lparr>vs_pendingRecovery := None\<rparr>)"
    and good_keys: "good d \<Longrightarrow> good (d\<lparr>sd_lastMaterializedKeys := ks\<rparr>)"
    and good_state: "good d \<Longrightarrow> okst s \<Longrightarrow> good (with_state d s c)"
    and good_okst: "good d \<Longrightarrow> okst (sd_state d)"
    and change_ok: "A f \<Longrightarrow> okst s \<Longrightarrow> okst (fst (f s c))"
    and frame_ok: "F frame \<Longrightarrow> isValidSyncState frame \<Longrightarrow> okst (adoptDictionaryMaps frame)"
    and rollback_ok: "R point \<Longrightarrow> okst (rb_state point)"
    and empty_ok: "okst createEmptySyncState"
    and merge_ok: "okst s \<Longrightarrow> okst t \<Longrightarrow> okst (mergeSyncStates s t)"
    and reconcile_ok: "okst s \<Longrightarrow> okst (fst (reconcileFromLocalSnapshot pf s c input))"
    and collect_ok: "okst s \<Longrightarrow> okst (fst (pruneWeakAutomaticCandidates pf (gcTombstones pf s now ttl) c n now))"
begin

lemma load_then:
  assumes "before vs" "\<And>vs1 d. here vs1 \<Longrightarrow> vs_data vs1 = Some d \<Longrightarrow> good d \<Longrightarrow> here (fst (g vs1 d))"
  shows "here (fst (and_then (load ev vs) g))"
proof -
  obtain vs1 r where l: "load ev vs = (vs1, r)" by (cases "load ev vs")
  then have h: "here vs1" using load_here [OF assms(1)] by simp
  show ?thesis
  proof (cases r)
    case (Inr d)
    with load_data [of ev vs vs1 d] l have "vs_data vs1 = Some d" by simp
    with assms(2) [OF h this here_good [OF h this]] show ?thesis by (simp add: l Inr)
  qed (use h l in simp)
qed

lemmas load_again = load_then [OF here_before]

lemma commit_here:
  assumes "here vs" "okst s"
  shows "here (fst (commit ev vs s c))"
  unfolding commit_def
proof (rule load_again [OF assms(1)])
  fix vs1 d assume "here vs1" "vs_data vs1 = Some d" "good d"
  then have "here (fst (persist ev vs1 (with_state d s c)))" using assms(2) by (intro persist_here good_state)
  then show "here (fst (and_then (persist ev vs1 (with_state d s c)) (\<lambda>vs _.
       (vs, Inr (materializeDictionary (ev_platform ev)
          (case vs_data vs of Some d \<Rightarrow> sd_state d | None \<Rightarrow> s) DEFAULT_MATERIALIZE_LIMITS)))))"
    by (rule and_then_inv) simp
qed

lemma commit_result_here:
  assumes "here vs" "okst s"
  shows "here (fst (if \<not> changed then (vs, Inr None) else and_then (commit ev vs s c) (\<lambda>vs md. (vs, Inr (Some md)))))"
  using assms commit_here [OF assms, of c] by (auto intro: and_then_inv [where P = "here"])

lemma apply_here:
  assumes "here vs" "okst (fst m)"
  shows "here (fst (let (s, c, changed) = m
        in if \<not> changed then (vs, Inr None) else and_then (commit ev vs s c) (\<lambda>vs md. (vs, Inr (Some md)))))"
proof (cases m)
  case (fields s c ch)
  with commit_result_here [OF assms, of ch c] show ?thesis by (cases ch) simp_all
qed

lemma reconcileNow_here:
  assumes "before vs"
  shows "here (fst (reconcileNow ev vs snapshot recovery))"
  unfolding reconcileNow_def
  by (rule load_then [OF assms], rule apply_here, assumption) (rule reconcile_ok [OF good_okst])

lemma flush_here:
  assumes "before vs"
  shows "here (fst (flushPendingRecovery ev vs))"
  unfolding flushPendingRecovery_def
  by (rule load_then [OF assms])
    (auto split: option.split intro!: and_then_inv [where P = "here"] clear_here reconcileNow_here here_before)

lemma mutate_here:
  assumes "before vs" "A f"
  shows "here (fst (mutate ev vs f))"
  unfolding mutate_def
proof (rule load_then [OF assms(1)])
  fix vs1 d assume h: "here vs1"
  have "here (fst (and_then (load ev vs2) (\<lambda>vs base. (let (s, c, changed) = f (sd_state base) (readClock base)
        in if \<not> changed then (vs, Inr None) else and_then (commit ev vs s c) (\<lambda>vs md. (vs, Inr (Some md)))))))"
    if h2: "here vs2" for vs2
    by (rule load_again [OF h2], rule apply_here, assumption) (rule change_ok [OF assms(2) good_okst])
  with h flush_here [OF here_before [OF h]] show "here (fst (if sd_incompatible d then (vs1, Inl Sync_unavailable)
     else and_then (flushPendingRecovery ev vs1) (\<lambda>vs _. and_then (load ev vs) (\<lambda>vs base.
       (let (s, c, changed) = f (sd_state base) (readClock base)
        in if \<not> changed then (vs, Inr None) else and_then (commit ev vs s c) (\<lambda>vs md. (vs, Inr (Some md))))))))"
    by (auto intro: and_then_inv [where P = "here"])
qed

lemma mergeRemote_here:
  assumes "before vs" "F frame"
  shows "here (fst (mergeRemote ev vs frame))"
  unfolding mergeRemote_def
proof (rule load_then [OF assms(1)])
  fix vs1 d assume h: "here vs1" "good d"
  let ?r = "if isValidSyncState frame then adoptDictionaryMaps frame else createEmptySyncState"
  have "okst ?r" using frame_ok [OF assms(2)] empty_ok by simp
  then have m: "okst (mergeSyncStates (sd_state d) ?r)" by (rule merge_ok [OF good_okst [OF h(2)]])
  have flushed: "here (fst (and_then (flushPendingRecovery ev vs2) (\<lambda>vs flushed. (vs, Inr (g flushed)))))" if "here vs2" for vs2 g
    by (rule and_then_inv [where P = "here", OF flush_here [OF here_before [OF that]]]) simp
  have "here (fst (and_then (commit ev vs1 (mergeSyncStates (sd_state d) ?r) c) (\<lambda>vs materialized.
      and_then (flushPendingRecovery ev vs) (\<lambda>vs flushed. (vs, Inr (Some (case flushed of Some md \<Rightarrow> md | None \<Rightarrow> materialized)))))))" for c
    by (rule and_then_inv [where P = "here", OF commit_here [OF h(1) m]]) (rule flushed)
  then show "here (fst (if sd_incompatible d then (vs1, Inr None)
     else (let isUsableFrame = isValidSyncState frame;
               remoteState = (if isUsableFrame then adoptDictionaryMaps frame else createEmptySyncState)
           in if isUsableFrame \<and> inherited_clash (sd_state d) remoteState then (vs1, Inl Type_error)
              else (let merged = mergeSyncStates (sd_state d) remoteState
                    in if merged = sd_state d
                       then (if isUsableFrame then flushPendingRecovery ev vs1 else (vs1, Inr None))
                       else (let clock = (case findMaxHlc remoteState of
                                  Some m \<Rightarrow> observeHlc (readClock d) m (ev_now ev) | None \<Rightarrow> readClock d)
                             in and_then (commit ev vs1 merged clock) (\<lambda>vs materialized.
                                  and_then (flushPendingRecovery ev vs) (\<lambda>vs flushed.
                                    (vs, Inr (Some (case flushed of Some md \<Rightarrow> md | None \<Rightarrow> materialized))))))))))"
    using h(1) flush_here [OF here_before [OF h(1)]] by (simp add: Let_def)
qed

lemma step_here: "store_step A F R ev vs vs' \<Longrightarrow> before vs \<Longrightarrow> here vs'"
proof (induction rule: store_step.induct)
  case 2
  then show ?case
    unfolding noteProjectionHasDictionary_def by (intro load_then) (auto intro: note_here)
next
  case (5 snapshot enabled)
  then show ?case
    unfolding reconcile_def by (intro load_then) (auto intro: pending_here reconcileNow_here here_before)
next
  case (7 md)
  then show ?case
    unfolding markMaterialized_def by (intro load_then) (auto simp: Let_def intro: persist_here good_keys)
next
  case 8
  show ?case
    unfolding collectGarbage_def
  proof (rule load_then [OF 8])
    fix vs1 d assume h: "here vs1" "good d"
    show "here (fst (let collected = gcTombstones (ev_platform ev) (sd_state d) (ev_now ev) DEFAULT_TOMBSTONE_TTL_MS;
          (s, c, _) = pruneWeakAutomaticCandidates (ev_platform ev) collected (readClock d)
            MAX_AUTOMATIC_CANDIDATE_RECORDS (ev_now ev)
      in if s = sd_state d then (vs1, Inr ()) else persist ev vs1 (with_state d s c)))"
    proof (cases "pruneWeakAutomaticCandidates (ev_platform ev) (gcTombstones (ev_platform ev) (sd_state d) (ev_now ev)
        DEFAULT_TOMBSTONE_TTL_MS) (readClock d) MAX_AUTOMATIC_CANDIDATE_RECORDS (ev_now ev)")
      case (fields s c ch)
      have "okst (fst (pruneWeakAutomaticCandidates (ev_platform ev) (gcTombstones (ev_platform ev) (sd_state d) (ev_now ev)
        DEFAULT_TOMBSTONE_TTL_MS) (readClock d) MAX_AUTOMATIC_CANDIDATE_RECORDS (ev_now ev)))"
        by (rule collect_ok [OF good_okst [OF h(2)]])
      then have "good (with_state d s c)" using h(2) by (intro good_state) (simp_all add: fields)
      then show ?thesis using h(1) persist_here by (simp add: fields Let_def)
    qed
  qed
next
  case (9 point)
  then show ?case
    unfolding rollbackTo_def by (intro load_then) (auto intro: persist_here good_keys good_state rollback_ok)
qed (auto intro: load_here mutate_here mergeRemote_here flush_here)

lemma step_before: "store_step A F R ev vs vs' \<Longrightarrow> before vs \<Longrightarrow> before vs'"
  by (rule here_before [OF step_here])

end

section \<open>The invariants\<close>

text \<open>The states the store holds and reads are well formed.\<close>

definition file_ok :: "json \<Rightarrow> bool" where
  "file_ok raw \<longleftrightarrow> ok_state (normalizeState (member (Some raw) ''state''))"

definition store_ok :: "store \<Rightarrow> bool" where
  "store_ok vs \<longleftrightarrow> (\<forall>d. vs_data vs = Some d \<longrightarrow> ok_state (sd_state d)) \<and> (\<forall>o' raw. vs_disk vs o' = Some raw \<longrightarrow> file_ok raw)"

lemma normalizeState_json: "normalizeState (Some (json_state s)) = (if sound_state s then s else createEmptySyncState)"
  by (auto simp: normalizeState_def valid_json_state adopt_json_state sound_state_def)

lemma file_ok_written: "ok_state (sd_state d) \<Longrightarrow> file_ok (toPersistedShape d)"
  by (simp add: file_ok_def normalizeState_json)

lemma createInitialData_ok: "createInitialData uuid now = Inr d \<Longrightarrow> ok_state (sd_state d) \<and> \<not> sd_incompatible d"
  by (auto simp: createInitialData_def split: sum.splits)

lemma normalizeStoredData_ok: "file_ok raw \<Longrightarrow> normalizeStoredData uuid now raw = Inr d \<Longrightarrow> ok_state (sd_state d)"
  by (auto simp: normalizeStoredData_def file_ok_def Let_def dest: createInitialData_ok split: if_splits)

lemma with_state_simps [simp]:
  "sd_state (with_state d s c) = s" "sd_incompatible (with_state d s c) = sd_incompatible d"
  "sd_lastMaterializedKeys (with_state d s c) = sd_lastMaterializedKeys d" "sd_nodeId (with_state d s c) = sd_nodeId d"
  by (simp_all add: with_state_def)

lemma promote_data_ok: "ok_state (sd_state d) \<Longrightarrow> ok_state (sd_state (promote_data ev d))"
  using ok_promoteEligible [of "sd_state d" "readClock d" "ev_now ev"]
  by (auto simp: promote_data_def Let_def split: prod.split)

lemma mergeWithOnDisk_ok:
  assumes "ok_state (sd_state d)" "\<forall>raw. content = Some raw \<longrightarrow> file_ok raw"
  shows "ok_state (sd_state (mergeWithOnDiskState ev content d))"
proof (cases content)
  case (Some raw)
  show ?thesis
  proof (cases "normalizeStoredData (ev_uuid ev) (ev_now ev) raw")
    case (Inr e)
    have "ok_state (sd_state e)" using normalizeStoredData_ok Inr assms(2) Some by blast
    then have "ok_state (mergeSyncStates (sd_state d) (sd_state e))" using assms(1) by (intro states.ok_join)
    then show ?thesis using assms(1) by (simp add: mergeWithOnDiskState_def Some Inr Let_def)
  qed (use assms(1) in \<open>simp add: mergeWithOnDiskState_def Some\<close>)
qed (use assms(1) in \<open>simp add: mergeWithOnDiskState_def\<close>)

lemma store_ok_persist:
  assumes "store_ok vs" "ok_state (sd_state d)"
  shows "store_ok (fst (persist ev vs d))"
proof -
  have "ok_state (sd_state (promote_data ev (mergeWithOnDiskState ev (vs_disk vs (ev_owner ev)) d)))"
    using assms by (intro promote_data_ok mergeWithOnDisk_ok) (auto simp: store_ok_def)
  then show ?thesis using assms(1) by (auto simp: persist_def Let_def store_ok_def file_ok_written)
qed

text \<open>What \<open>load\<close> does to the store.\<close>

lemma load_cases:
  obtains "vs_data (switch_owner ev vs) \<noteq> None" "fst (load ev vs) = switch_owner ev vs"
  | e where "vs_data (switch_owner ev vs) = None" "read_file ev (vs_disk vs (ev_owner ev)) = Inl e" "fst (load ev vs) = switch_owner ev vs"
  | d where "vs_data (switch_owner ev vs) = None" "read_file ev (vs_disk vs (ev_owner ev)) = Inr d"
      "fst (load ev vs) = (switch_owner ev vs)\<lparr>vs_data := Some d\<rparr>"
  | d s c where "vs_data (switch_owner ev vs) = None" "read_file ev (vs_disk vs (ev_owner ev)) = Inr d" "\<not> sd_incompatible d"
      "promoteEligibleDictionaryCandidates (sd_state d) (readClock d) (ev_now ev) = (s, c, True)"
      "fst (load ev vs) = fst (persist ev ((switch_owner ev vs)\<lparr>vs_data := Some d\<rparr>) (with_state d s c))"
proof -
  have disk: "vs_disk (switch_owner ev vs) = vs_disk vs" by (simp add: switch_owner_def)
  show thesis
  proof (cases "vs_data (switch_owner ev vs)")
    case (Some d)
    then have "fst (load ev vs) = switch_owner ev vs" by (simp add: load_def Let_def)
    with Some show thesis by (intro that(1)) simp
  next
    case None
    show thesis
    proof (cases "read_file ev (vs_disk vs (ev_owner ev))")
      case (Inl e)
      then have "fst (load ev vs) = switch_owner ev vs" by (simp add: load_def Let_def None disk)
      with None Inl show thesis by (rule that(2))
    next
      case (Inr d)
      obtain s c ch where p: "promoteEligibleDictionaryCandidates (sd_state d) (readClock d) (ev_now ev) = (s, c, ch)"
        by (cases "promoteEligibleDictionaryCandidates (sd_state d) (readClock d) (ev_now ev)")
      show thesis
      proof (cases "sd_incompatible d \<or> \<not> ch")
        case True
        then have "fst (load ev vs) = (switch_owner ev vs)\<lparr>vs_data := Some d\<rparr>" by (auto simp: load_def Let_def None disk Inr p)
        with None Inr show thesis by (rule that(3))
      next
        case False
        let ?r = "persist ev ((switch_owner ev vs)\<lparr>vs_data := Some d\<rparr>) (with_state d s c)"
        have "fst (load ev vs) = fst (and_then ?r (\<lambda>vs2 _. case vs_data vs2 of Some d2 \<Rightarrow> (vs2, Inr d2) | None \<Rightarrow> (vs2, Inr d)))"
          using False by (simp add: load_def Let_def None disk Inr p)
        also have "\<dots> = fst ?r"
          by (cases ?r; cases "snd ?r"; cases "vs_data (fst ?r)") simp_all
        finally show thesis using None Inr False p by (intro that(4)) simp_all
      qed
    qed
  qed
qed

lemma switch_owner_simps [simp]:
  "vs_disk (switch_owner ev vs) = vs_disk vs" "vs_dataOwnerId (switch_owner ev vs) = ev_owner ev"
  by (simp_all add: switch_owner_def)

lemma switch_owner_data: "vs_data (switch_owner ev vs) = None \<or> vs_data (switch_owner ev vs) = vs_data vs \<and> vs_dataOwnerId vs = ev_owner ev"
  by (auto simp: switch_owner_def)

lemma read_file_ok: "\<forall>raw. file = Some raw \<longrightarrow> file_ok raw \<Longrightarrow> read_file ev file = Inr d \<Longrightarrow> ok_state (sd_state d)"
  by (auto simp: read_file_def dest: createInitialData_ok normalizeStoredData_ok split: option.splits sum.splits)

lemma store_ok_load:
  assumes "store_ok vs"
  shows "store_ok (fst (load ev vs))"
proof -
  have sw: "store_ok (switch_owner ev vs)" using assms switch_owner_data [of ev vs] by (auto simp: store_ok_def)
  have rd: "ok_state (sd_state d)" if "read_file ev (vs_disk vs (ev_owner ev)) = Inr d" for d
    using that assms by (intro read_file_ok [of "vs_disk vs (ev_owner ev)"]) (auto simp: store_ok_def)
  show ?thesis
  proof (cases rule: load_cases [of ev vs])
    case (3 d)
    with sw rd show ?thesis by (auto simp: store_ok_def)
  next
    case (4 d s c)
    then have "store_ok ((switch_owner ev vs)\<lparr>vs_data := Some d\<rparr>)" using sw rd by (auto simp: store_ok_def)
    moreover have "ok_state s" using ok_promoteEligible [OF rd [OF 4(2)], of "readClock d" "ev_now ev"] 4(4) by simp
    ultimately show ?thesis unfolding 4(5) by (intro store_ok_persist) simp_all
  qed (use sw in simp_all)
qed

definition ok_change :: "(sync_state \<Rightarrow> hlc_clock \<Rightarrow> mutation_result) \<Rightarrow> bool" where
  "ok_change f \<longleftrightarrow> (\<forall>s c. ok_state s \<longrightarrow> ok_state (fst (f s c)))"

definition ok_frame :: "json \<Rightarrow> bool" where
  "ok_frame frame \<longleftrightarrow> (isValidSyncState frame \<longrightarrow> ok_state (adoptDictionaryMaps frame))"

interpretation well_formed: store_invariant ev store_ok store_ok "\<lambda>d. ok_state (sd_state d)" ok_state
    ok_change ok_frame "\<lambda>point. ok_state (rb_state point)" for ev
proof
  show "store_ok vs \<Longrightarrow> store_ok (fst (load ev vs))" for vs by (rule store_ok_load)
  show "store_ok vs \<Longrightarrow> ok_state (sd_state d) \<Longrightarrow> store_ok (fst (persist ev vs d))" for vs d by (rule store_ok_persist)
  show "ok_state s \<Longrightarrow> ok_state (fst (pruneWeakAutomaticCandidates pf (gcTombstones pf s now ttl) c n now))" for s pf now ttl c n
    by (intro ok_prune ok_gcTombstones)
qed (auto simp: store_ok_def ok_change_def ok_frame_def intro: states.ok_join ok_reconcile)

end
