(* ===== verification/DictStoreSafety.thy ===== *)
theory DictStoreSafety
  imports DictStore DictGuarantees DictCollect
begin

text \<open>
  What the device's store promises over whole runs: any sequence of operations of this process, in
  any environments, with restarts, failed writes and other processes writing the same files in
  between. The invariants are instances of \<open>store_invariant\<close>, closed over runs once.
\<close>

section \<open>Runs\<close>

definition fresh_store :: "(owner \<Rightarrow> json option) \<Rightarrow> store" where
  "fresh_store disk = \<lparr>vs_data = None, vs_dataOwnerId = None, vs_pendingRecovery = None, vs_disk = disk\<rparr>"

text \<open>
  \<open>W\<close> says what another process (or a damaged disk) may leave in an account's file; a restart
  forgets everything but the files.
\<close>

inductive store_run :: "((sync_state \<Rightarrow> hlc_clock \<Rightarrow> mutation_result) \<Rightarrow> bool) \<Rightarrow> (json \<Rightarrow> bool) \<Rightarrow> (rollback_point \<Rightarrow> bool)
    \<Rightarrow> (owner \<Rightarrow> json option \<Rightarrow> bool) \<Rightarrow> store \<Rightarrow> store \<Rightarrow> bool"
  for A F R W vs where
  start: "store_run A F R W vs vs"
| call: "store_run A F R W vs vs1 \<Longrightarrow> store_step A F R ev vs1 vs2 \<Longrightarrow> store_run A F R W vs vs2"
| restart: "store_run A F R W vs vs1 \<Longrightarrow> store_run A F R W vs (fresh_store (vs_disk vs1))"
| elsewhere: "store_run A F R W vs vs1 \<Longrightarrow> W acc content \<Longrightarrow> store_run A F R W vs (vs1\<lparr>vs_disk := (vs_disk vs1)(acc := content)\<rparr>)"

lemma store_run_inv:
  assumes "store_run A F R W vs vs'" "P vs"
    and "\<And>ev vs1 vs2. P vs1 \<Longrightarrow> store_step A F R ev vs1 vs2 \<Longrightarrow> P vs2"
    and "\<And>vs1. P vs1 \<Longrightarrow> P (fresh_store (vs_disk vs1))"
    and "\<And>vs1 acc content. P vs1 \<Longrightarrow> W acc content \<Longrightarrow> P (vs1\<lparr>vs_disk := (vs_disk vs1)(acc := content)\<rparr>)"
  shows "P vs'"
  using assms(1,2) by (induction rule: store_run.induct) (use assms(3-5) in blast)+

lemma fresh_store_simps [simp]:
  "vs_data (fresh_store disk) = None" "vs_pendingRecovery (fresh_store disk) = None" "vs_disk (fresh_store disk) = disk"
  by (simp_all add: fresh_store_def)

lemma step_any: "store_step A F R ev vs vs' \<Longrightarrow> store_step (\<lambda>_. True) (\<lambda>_. True) (\<lambda>_. True) ev vs vs'"
  by (induction rule: store_step.induct; rule store_step.intros; simp)

section \<open>Well-formed states\<close>

definition ok_content :: "json option \<Rightarrow> bool" where
  "ok_content content \<longleftrightarrow> (\<forall>raw. content = Some raw \<longrightarrow> file_ok raw)"

lemma store_run_ok:
  assumes "store_run ok_change ok_frame (\<lambda>p. ok_state (rb_state p)) (\<lambda>_. ok_content) vs vs'" "store_ok vs"
  shows "store_ok vs'"
  by (rule store_run_inv [OF assms(1), of store_ok]; (rule assms(2))?)
    (auto simp: store_ok_def ok_content_def dest: well_formed.step_before)

text \<open>
  C11: Whatever happens to the files of the dictionary, the store works on well-formed states. Over
  any run of operations, restarts and writes of other processes, whose changes, frames, rollback
  points and files give well-formed states when they are readable at all, the cached state and
  every file stay well formed, so the laws of merging apply at every point of the run.
\<close>

theorem store_stays_well_formed:
  assumes "store_run ok_change ok_frame (\<lambda>p. ok_state (rb_state p)) (\<lambda>_. ok_content) (fresh_store disk) vs"
    "\<forall>acc. ok_content (disk acc)"
  shows "store_ok vs"
  by (rule store_run_ok [OF assms(1)]) (use assms(2) in \<open>auto simp: store_ok_def ok_content_def\<close>)

definition sample_env :: env where
  "sample_env = \<lparr>ev_platform = sample_platform, ev_owner = None, ev_now = 7, ev_uuid = js ''a'', ev_writable = True\<rparr>"

lemma ok_change_add: "ok_change (\<lambda>s c. addManualEntry pf s c raw now)"
  unfolding ok_change_def by (blast intro: ok_addManualEntry)

lemma store_stays_well_formed_witness:
  "store_ok (fst (mutate sample_env (fresh_store (\<lambda>_. None)) (\<lambda>s c. addManualEntry sample_platform s c (js ''lex'') 7)))"
proof -
  have "store_run ok_change ok_frame (\<lambda>p. ok_state (rb_state p)) (\<lambda>_. ok_content) (fresh_store (\<lambda>_. None))
    (fst (mutate sample_env (fresh_store (\<lambda>_. None)) (\<lambda>s c. addManualEntry sample_platform s c (js ''lex'') 7)))"
    by (rule call [OF start]; rule store_step.intros; rule ok_change_add)
  then show ?thesis by (rule store_stays_well_formed) (simp add: ok_content_def)
qed

lemma merge_empty: "ok_state s \<Longrightarrow> mergeSyncStates s createEmptySyncState = s"
  by (simp add: mergeSyncStates_join ok_state_def createEmptySyncState_def mergeVectors_def createDictionaryMap_def combine_options_def
      split: option.split)

text \<open>
  A frame that fails the validation (damaged, of a newer version, not an object) changes nothing:
  the call is the loading of the state and the answer \<open>null\<close>. It does not even count as the sign of
  a peer that a pending recovery waits for.
\<close>

theorem bad_frame_ignored:
  assumes "store_ok vs" "\<not> isValidSyncState frame"
  shows "mergeRemote ev vs frame = and_then (load ev vs) (\<lambda>vs1 _. (vs1, Inr None))"
proof (cases "load ev vs")
  case (Pair vs1 r)
  show ?thesis
  proof (cases r)
    case (Inr d)
    have "store_ok vs1" using store_ok_load [OF assms(1), of ev] Pair by simp
    then have "mergeSyncStates (sd_state d) createEmptySyncState = sd_state d"
      using load_data [of ev vs vs1 d] Pair Inr by (simp add: merge_empty store_ok_def)
    then show ?thesis using assms(2) by (simp add: mergeRemote_def Pair Inr Let_def)
  qed (simp add: mergeRemote_def Pair)
qed

lemma bad_frame_ignored_witness:
  "mergeRemote sample_env (fresh_store (\<lambda>_. None)) (JNumber 5) = and_then (load sample_env (fresh_store (\<lambda>_. None))) (\<lambda>vs1 _. (vs1, Inr None))"
  by (rule bad_frame_ignored) (simp add: store_ok_def, simp add: isValidSyncState_def isPlainRecord_def Let_def)

section \<open>A newer file\<close>

definition newer_file :: "json \<Rightarrow> bool" where
  "newer_file raw \<longleftrightarrow> isNewerVersion (member (Some raw) ''state'') \<or> isNewerStoredVersion (member (Some raw) ''version'')"

definition spares :: "owner \<Rightarrow> json \<Rightarrow> store \<Rightarrow> bool" where
  "spares acc raw vs \<longleftrightarrow> vs_disk vs acc = Some raw
     \<and> (case vs_data vs of Some d \<Rightarrow> vs_dataOwnerId vs = acc \<longrightarrow> sd_incompatible d | None \<Rightarrow> True)"

lemma newer_file_object: "newer_file raw \<Longrightarrow> is_object raw"
  by (cases raw) (auto simp: newer_file_def isNewerVersion_def isNewerStoredVersion_def member_def entries_of_def is_object_def)

lemma read_newer: "newer_file raw \<Longrightarrow> read_file ev (Some raw) = Inr d \<Longrightarrow> sd_incompatible d"
  by (auto simp: read_file_def normalizeStoredData_def newer_file_object newer_file_def Let_def)

definition skips :: "env \<Rightarrow> owner \<Rightarrow> stored_data \<Rightarrow> bool" where
  "skips ev acc d \<longleftrightarrow> (ev_owner ev = acc \<longrightarrow> sd_incompatible d)"

lemma spares_persist:
  assumes "spares acc raw vs" "vs_dataOwnerId vs = ev_owner ev" "skips ev acc d"
  shows "spares acc raw (fst (persist ev vs d)) \<and> vs_dataOwnerId (fst (persist ev vs d)) = ev_owner ev"
  using assms by (auto simp: persist_def spares_def skips_def Let_def split: option.splits)

lemma spares_load:
  assumes "spares acc raw vs" "newer_file raw"
  shows "spares acc raw (fst (load ev vs)) \<and> vs_dataOwnerId (fst (load ev vs)) = ev_owner ev"
proof -
  have sw: "spares acc raw (switch_owner ev vs)"
    using assms(1) switch_owner_data [of ev vs] by (auto simp: spares_def split: option.splits)
  have rd: "skips ev acc d" if "read_file ev (vs_disk vs (ev_owner ev)) = Inr d" for d
    using that assms read_newer [of raw ev d] by (auto simp: skips_def spares_def)
  show ?thesis
  proof (cases rule: load_cases [of ev vs])
    case (3 d)
    with sw rd [of d] show ?thesis by (auto simp: spares_def skips_def)
  next
    case (4 d s c)
    with sw rd [of d] have "spares acc raw ((switch_owner ev vs)\<lparr>vs_data := Some d\<rparr>)" "skips ev acc (with_state d s c)"
      by (auto simp: spares_def skips_def)
    then show ?thesis unfolding 4(5) by (intro spares_persist) simp_all
  qed (use sw in simp_all)
qed

interpretation newer: store_invariant ev "\<lambda>vs. newer_file raw \<and> spares acc raw vs"
    "\<lambda>vs. newer_file raw \<and> spares acc raw vs \<and> vs_dataOwnerId vs = ev_owner ev" "skips ev acc" "\<lambda>_. True" "\<lambda>_. True" "\<lambda>_. True" "\<lambda>_. True"
  for ev acc raw
  by unfold_locales (auto simp: spares_persist spares_load, auto simp: spares_def skips_def split: option.splits)

lemma newer_step:
  assumes "spares acc raw vs" "newer_file raw" "store_step (\<lambda>_. True) (\<lambda>_. True) (\<lambda>_. True) ev vs vs'"
  shows "spares acc raw vs'"
  using newer.step_before [of ev vs vs' raw acc] assms by blast

text \<open>No state of the account that this client can read is loaded, and other processes leave newer contents in its file.\<close>

definition no_older_loaded :: "owner \<Rightarrow> store \<Rightarrow> bool" where
  "no_older_loaded acc vs \<longleftrightarrow> (case vs_data vs of Some d \<Rightarrow> vs_dataOwnerId vs = acc \<longrightarrow> sd_incompatible d | None \<Rightarrow> True)"

definition stays_newer :: "owner \<Rightarrow> owner \<Rightarrow> json option \<Rightarrow> bool" where
  "stays_newer acc acc' content \<longleftrightarrow> acc' = acc \<longrightarrow> (\<exists>raw. content = Some raw \<and> newer_file raw)"

lemma newer_kept:
  assumes "store_run (\<lambda>_. True) (\<lambda>_. True) (\<lambda>_. True) (stays_newer acc) vs0 vs" "vs_disk vs0 acc = Some raw0" "newer_file raw0"
    "no_older_loaded acc vs0"
  shows "\<exists>raw. newer_file raw \<and> spares acc raw vs"
  using assms(1)
proof (rule store_run_inv [where P = "\<lambda>vs. \<exists>raw. newer_file raw \<and> spares acc raw vs"])
  show "\<exists>raw. newer_file raw \<and> spares acc raw vs0" using assms(2-4) by (auto simp: spares_def no_older_loaded_def)
  show "\<exists>raw. newer_file raw \<and> spares acc raw vs1 \<Longrightarrow> store_step (\<lambda>_. True) (\<lambda>_. True) (\<lambda>_. True) ev vs1 vs2
      \<Longrightarrow> \<exists>raw. newer_file raw \<and> spares acc raw vs2" for ev vs1 vs2
    using newer_step by blast
qed (auto simp: spares_def stays_newer_def split: option.splits)

lemma newer_load:
  assumes "spares (ev_owner ev) raw vs" "newer_file raw"
  shows "\<exists>vs1 d. load ev vs = (vs1, Inr d) \<and> sd_incompatible d"
proof (cases "vs_data (switch_owner ev vs)")
  case (Some d)
  with assms(1) switch_owner_data [of ev vs] have "sd_incompatible d" by (auto simp: spares_def split: option.splits)
  with Some show ?thesis by (simp add: load_def Let_def)
next
  case None
  obtain d where d: "read_file ev (Some raw) = Inr d"
    using newer_file_object [OF assms(2)] by (auto simp: read_file_def normalizeStoredData_def Let_def split: sum.split)
  then have "sd_incompatible d" using read_newer assms(2) by blast
  with None d assms(1) show ?thesis by (simp add: load_def Let_def spares_def)
qed

text \<open>
  C8: A file that is of a newer version before this client has loaded it is never written by this client. Let the file of an account have
  a state or a wrapper of a larger version than this client knows, at a point where the process holds no readable state of that account
  (at its start, say, or while it serves another account). Whatever operations it performs from there, for whatever accounts, with restarts
  in between and with newer clients writing to the file, the file is of a newer version, every further operation leaves
  it as it is, a local change is refused and a peer's frame is ignored. The condition on the loaded state is
  needed: a file that becomes newer under a process that has already loaded the older one is overwritten, as the section on such files in
  \<open>DictStoreWrites\<close> proves.
\<close>

theorem newer_file_untouched:
  assumes "store_run (\<lambda>_. True) (\<lambda>_. True) (\<lambda>_. True) (stays_newer (ev_owner ev)) vs0 vs"
    "vs_disk vs0 (ev_owner ev) = Some raw0" "newer_file raw0" "no_older_loaded (ev_owner ev) vs0"
  shows "(\<exists>raw. vs_disk vs (ev_owner ev) = Some raw \<and> newer_file raw)
    \<and> (\<forall>ev' vs'. store_step (\<lambda>_. True) (\<lambda>_. True) (\<lambda>_. True) ev' vs vs' \<longrightarrow> vs_disk vs' (ev_owner ev) = vs_disk vs (ev_owner ev))
    \<and> snd (mutate ev vs f) = Inl Sync_unavailable \<and> snd (mergeRemote ev vs frame) = Inr None"
proof -
  obtain raw where raw: "newer_file raw" and sp: "spares (ev_owner ev) raw vs" using newer_kept [OF assms] by blast
  have "vs_disk vs' (ev_owner ev) = vs_disk vs (ev_owner ev)" if "store_step (\<lambda>_. True) (\<lambda>_. True) (\<lambda>_. True) ev' vs vs'" for ev' vs'
    using newer_step [OF sp raw that] sp by (simp add: spares_def)
  moreover obtain vs1 d where "load ev vs = (vs1, Inr d)" "sd_incompatible d" using newer_load [OF sp raw] by blast
  ultimately show ?thesis using sp raw by (auto simp: mutate_def mergeRemote_def spares_def)
qed

definition newer_raw :: json where
  "newer_raw = JObject [(js ''version'', JNumber 2)]"

lemma newer_raw: "newer_file newer_raw"
  by code_simp

definition even_newer_raw :: json where
  "even_newer_raw = JObject [(js ''version'', JNumber 3)]"

lemma even_newer_raw: "newer_file even_newer_raw"
  by code_simp

text \<open>A newer client writes in between; the collection that follows leaves what it wrote, and a change is refused.\<close>

lemma newer_file_untouched_witness:
  "\<exists>vs. vs_disk vs None = Some even_newer_raw \<and> vs_disk (fst (collectGarbage sample_env vs)) None = Some even_newer_raw
    \<and> snd (mutate sample_env vs (\<lambda>s c. addManualEntry sample_platform s c (js ''lex'') 7)) = Inl Sync_unavailable"
proof -
  let ?run = "store_run (\<lambda>_. True) (\<lambda>_. True) (\<lambda>_. True) (stays_newer (ev_owner sample_env)) (fresh_store (\<lambda>_. Some newer_raw))"
  define vs1 where "vs1 = fst (load sample_env (fresh_store (\<lambda>_. Some newer_raw)))"
  define vs where "vs = vs1\<lparr>vs_disk := (vs_disk vs1)(None := Some even_newer_raw)\<rparr>"
  have "?run vs1" unfolding vs1_def by (rule call [OF start]; rule store_step.intros)
  moreover have "stays_newer (ev_owner sample_env) None (Some even_newer_raw)"
    using even_newer_raw by (simp add: stays_newer_def)
  ultimately have run: "?run vs" unfolding vs_def by (rule elsewhere)
  have "store_step (\<lambda>_. True) (\<lambda>_. True) (\<lambda>_. True) sample_env vs (fst (collectGarbage sample_env vs))" by (rule store_step.intros)
  moreover have "vs_disk vs None = Some even_newer_raw" by (simp add: vs_def)
  moreover have "no_older_loaded (ev_owner sample_env) (fresh_store (\<lambda>_. Some newer_raw))" by (simp add: no_older_loaded_def)
  ultimately show ?thesis
    using newer_file_untouched [OF run _ newer_raw, where f = "\<lambda>s c. addManualEntry sample_platform s c (js ''lex'') 7"]
    by (intro exI [of _ vs]) (simp add: sample_env_def)
qed

section \<open>Accounts\<close>

definition held :: "store \<Rightarrow> bool" where
  "held vs \<longleftrightarrow> (vs_pendingRecovery vs \<noteq> None \<longrightarrow> vs_data vs \<noteq> None)"

lemma held_persist: "held vs \<Longrightarrow> held (fst (persist ev vs d))"
  by (auto simp: held_def persist_def Let_def)

lemma held_load: "held vs \<Longrightarrow> held (fst (load ev vs))"
proof -
  assume h: "held vs"
  then have sw: "held (switch_owner ev vs)" by (auto simp: held_def switch_owner_def)
  show ?thesis
  proof (cases rule: load_cases [of ev vs])
    case (4 d s c)
    have "held (fst (persist ev ((switch_owner ev vs)\<lparr>vs_data := Some d\<rparr>) (with_state d s c)))"
      by (rule held_persist) (simp add: held_def)
    then show ?thesis unfolding 4(5) .
  qed (use sw in \<open>auto simp: held_def\<close>)
qed

interpretation held: store_invariant ev held held "\<lambda>_. True" "\<lambda>_. True" "\<lambda>_. True" "\<lambda>_. True" "\<lambda>_. True" for ev
  by unfold_locales (auto simp: held_load held_persist, auto simp: held_def)

definition other_files :: "env \<Rightarrow> (owner \<Rightarrow> json option) \<Rightarrow> store \<Rightarrow> bool" where
  "other_files ev disk vs \<longleftrightarrow> (\<forall>acc. acc \<noteq> ev_owner ev \<longrightarrow> vs_disk vs acc = disk acc)"

lemma other_persist: "other_files ev disk vs \<Longrightarrow> other_files ev disk (fst (persist ev vs d))"
  by (auto simp: other_files_def persist_def Let_def)

lemma other_load:
  assumes "other_files ev disk vs"
  shows "other_files ev disk (fst (load ev vs))"
proof (cases rule: load_cases [of ev vs])
  case (4 d s c)
  have "other_files ev disk (fst (persist ev ((switch_owner ev vs)\<lparr>vs_data := Some d\<rparr>) (with_state d s c)))"
    by (rule other_persist) (use assms in \<open>simp add: other_files_def\<close>)
  then show ?thesis unfolding 4(5) .
qed (use assms in \<open>auto simp: other_files_def\<close>)

interpretation others: store_invariant ev "other_files ev disk" "other_files ev disk" "\<lambda>_. True" "\<lambda>_. True" "\<lambda>_. True" "\<lambda>_. True" "\<lambda>_. True"
  for ev disk
  by unfold_locales (auto simp: other_load other_persist, auto simp: other_files_def)

lemma run_held: "store_run A F R W (fresh_store disk) vs \<Longrightarrow> held vs"
proof (rule store_run_inv [where P = held], assumption)
  fix ev vs1 vs2 assume "held vs1" "store_step A F R ev vs1 vs2"
  moreover from this(2) have "store_step (\<lambda>_. True) (\<lambda>_. True) (\<lambda>_. True) ev vs1 vs2"
    by (rule step_any)
  ultimately show "held vs2" using held.step_before by blast
qed (auto simp: held_def)

lemma switch_load:
  assumes "held vs" "vs_dataOwnerId vs \<noteq> ev_owner ev"
  shows "load ev vs = load ev (fresh_store (vs_disk vs))"
proof -
  have "switch_owner ev vs = switch_owner ev (fresh_store (vs_disk vs))"
    using assms by (cases "vs_data vs") (auto simp: switch_owner_def held_def fresh_store_def)
  then show ?thesis by (simp only: load_def)
qed

text \<open>
  C9: Accounts are isolated. After any run, the first operation under another account does exactly
  what it would do in a fresh process over the same files: neither the cached state nor a pending
  recovery of the previous account reaches it. And an operation changes no file but the one of
  the account in session.
\<close>

theorem accounts_isolated:
  assumes "store_run A F R W (fresh_store disk) vs"
  shows "(vs_dataOwnerId vs \<noteq> ev_owner ev \<longrightarrow>
       mutate ev vs f = mutate ev (fresh_store (vs_disk vs)) f
     \<and> mergeRemote ev vs frame = mergeRemote ev (fresh_store (vs_disk vs)) frame
     \<and> reconcile ev vs snapshot enabled = reconcile ev (fresh_store (vs_disk vs)) snapshot enabled
     \<and> flushPendingRecovery ev vs = flushPendingRecovery ev (fresh_store (vs_disk vs))
     \<and> materialize ev vs = materialize ev (fresh_store (vs_disk vs))
     \<and> getState ev vs = getState ev (fresh_store (vs_disk vs))
     \<and> collectGarbage ev vs = collectGarbage ev (fresh_store (vs_disk vs)))
    \<and> (store_step A F R ev vs vs' \<longrightarrow> (\<forall>acc. acc \<noteq> ev_owner ev \<longrightarrow> vs_disk vs' acc = vs_disk vs acc))"
proof (intro conjI impI)
  note sw = switch_load [OF run_held [OF assms]]
  assume "vs_dataOwnerId vs \<noteq> ev_owner ev"
  note l = sw [OF this]
  show "mutate ev vs f = mutate ev (fresh_store (vs_disk vs)) f"
    "mergeRemote ev vs frame = mergeRemote ev (fresh_store (vs_disk vs)) frame"
    "reconcile ev vs snapshot enabled = reconcile ev (fresh_store (vs_disk vs)) snapshot enabled"
    "flushPendingRecovery ev vs = flushPendingRecovery ev (fresh_store (vs_disk vs))"
    "materialize ev vs = materialize ev (fresh_store (vs_disk vs))"
    "getState ev vs = getState ev (fresh_store (vs_disk vs))"
    "collectGarbage ev vs = collectGarbage ev (fresh_store (vs_disk vs))"
    by (simp_all only: mutate_def mergeRemote_def reconcile_def flushPendingRecovery_def materialize_def getState_def collectGarbage_def l)
next
  assume "store_step A F R ev vs vs'"
  then have "store_step (\<lambda>_. True) (\<lambda>_. True) (\<lambda>_. True) ev vs vs'"
    by (rule step_any)
  from others.step_before [OF this, of "vs_disk vs"] show "\<forall>acc. acc \<noteq> ev_owner ev \<longrightarrow> vs_disk vs' acc = vs_disk vs acc"
    by (simp add: other_files_def)
qed

lemma accounts_isolated_witness:
  "getState (sample_env\<lparr>ev_owner := Some [97]\<rparr>) (fst (load sample_env (fresh_store (\<lambda>_. Some newer_raw))))
    = getState (sample_env\<lparr>ev_owner := Some [97]\<rparr>) (fresh_store (vs_disk (fst (load sample_env (fresh_store (\<lambda>_. Some newer_raw))))))"
proof -
  let ?vs = "fst (load sample_env (fresh_store (\<lambda>_. Some newer_raw)))"
  have "store_run (\<lambda>_. True) (\<lambda>_. True) (\<lambda>_. True) (\<lambda>_ _. True) (fresh_store (\<lambda>_. Some newer_raw)) ?vs"
    by (rule call [OF start]; rule store_step.intros)
  from accounts_isolated [OF this, of "sample_env\<lparr>ev_owner := Some [97]\<rparr>"] show ?thesis
    by (cases rule: load_cases [of sample_env "fresh_store (\<lambda>_. Some newer_raw)"])
      (simp_all add: sample_env_def persist_def Let_def split: if_splits option.splits)
qed

end
