(* ===== verification/DictStoreWrites.thy ===== *)
theory DictStoreWrites
  imports DictStoreSafety
begin

text \<open>
  What a write of the store does to what is in the file: it keeps everything both sides hold, which
  is what lets several processes share the file, and which also undoes the two operations that
  want to take something away (\<open>rollbackTo\<close> and \<open>collectGarbage\<close>).
\<close>

section \<open>Keeping everything\<close>

text \<open>\<open>p\<close> has every tombstone and incarnation of \<open>s\<close>, with counts at least as large.\<close>

definition retains :: "sync_state \<Rightarrow> sync_state \<Rightarrow> bool" where
  "retains s p \<longleftrightarrow> (\<forall>k t. (t |\<in>| fmdom (tombstones_at s k) \<longrightarrow> t |\<in>| fmdom (tombstones_at p k))
     \<and> (\<forall>i. fmlookup (incarnations_at s k) t = Some i \<longrightarrow> (\<exists>j. fmlookup (incarnations_at p k) t = Some j
          \<and> (\<forall>n. bucket_of (in_counters i) n \<le> bucket_of (in_counters j) n))))"

lemma retains_refl [simp]: "retains s s"
  by (auto simp: retains_def)

lemma retains_trans: "retains s p \<Longrightarrow> retains p q \<Longrightarrow> retains s q"
  unfolding retains_def by (meson order_trans)

lemma retains_merge:
  assumes "ok_state a" "ok_state b"
  shows "retains a (mergeSyncStates a b)" "retains b (mergeSyncStates a b)"
  by (auto simp: retains_def merge_parts_at [OF assms] combine_options_def mergeIncarnation_def Let_def split: option.split)

lemma retains_promote:
  assumes "ok_state s" "promoteEligibleDictionaryCandidates s c now = (s', c', changed)"
  shows "retains s s'"
  unfolding retains_def
proof (intro allI)
  fix k t
  have "(t |\<in>| fmdom (rc_tombstones (record_at s k)) \<longrightarrow> t |\<in>| fmdom (rc_tombstones (record_at s' k)))
     \<and> (\<forall>i. fmlookup (rc_incarnations (record_at s k)) t = Some i \<longrightarrow> (\<exists>j. fmlookup (rc_incarnations (record_at s' k)) t = Some j
          \<and> (\<forall>n. bucket_of (in_counters i) n \<le> bucket_of (in_counters j) n)))"
  proof (cases "promotable s k")
    case True
    with promote_records(2) [OF assms, of k] have p: "promoted (record_at s k) (record_at s' k)" by simp
    have "\<exists>j. fmlookup (rc_incarnations (record_at s' k)) t = Some j \<and> in_counters j = in_counters i"
      if "fmlookup (rc_incarnations (record_at s k)) t = Some i" for i
      using p that unfolding promoted_def by (cases "t \<in> live_tags (record_at s k)") force+
    with p show ?thesis by (fastforce simp: promoted_def)
  qed (use promote_records(2) [OF assms, of k] in auto)
  then show "(t |\<in>| fmdom (tombstones_at s k) \<longrightarrow> t |\<in>| fmdom (tombstones_at s' k))
     \<and> (\<forall>i. fmlookup (incarnations_at s k) t = Some i \<longrightarrow> (\<exists>j. fmlookup (incarnations_at s' k) t = Some j
          \<and> (\<forall>n. bucket_of (in_counters i) n \<le> bucket_of (in_counters j) n)))"
    by simp
qed

lemma retains_promote_data: "ok_state (sd_state d) \<Longrightarrow> retains (sd_state d) (sd_state (promote_data ev d))"
  by (cases "promoteEligibleDictionaryCandidates (sd_state d) (readClock d) (ev_now ev)")
    (auto simp: promote_data_def Let_def intro: retains_promote)

text \<open>An account whose file this client can read: the state in it.\<close>

definition file_state :: "env \<Rightarrow> store \<Rightarrow> sync_state \<Rightarrow> bool" where
  "file_state ev vs t \<longleftrightarrow> (\<exists>raw e. vs_disk vs (ev_owner ev) = Some raw
     \<and> normalizeStoredData (ev_uuid ev) (ev_now ev) raw = Inr e \<and> \<not> sd_incompatible e \<and> sd_state e = t)"

lemma retains_merge_disk:
  assumes "ok_state (sd_state d)"
  shows "file_state ev vs t \<Longrightarrow> ok_state t \<Longrightarrow> retains t (sd_state (mergeWithOnDiskState ev (vs_disk vs (ev_owner ev)) d))"
    and "(\<forall>raw. vs_disk vs (ev_owner ev) = Some raw \<longrightarrow> file_ok raw) \<Longrightarrow>
      retains (sd_state d) (sd_state (mergeWithOnDiskState ev (vs_disk vs (ev_owner ev)) d))"
proof -
  assume t: "file_state ev vs t" "ok_state t"
  then show "retains t (sd_state (mergeWithOnDiskState ev (vs_disk vs (ev_owner ev)) d))"
    using retains_merge(2) [OF assms t(2)] by (auto simp: file_state_def mergeWithOnDiskState_def Let_def)
next
  assume ok: "\<forall>raw. vs_disk vs (ev_owner ev) = Some raw \<longrightarrow> file_ok raw"
  have "retains (sd_state d) (mergeSyncStates (sd_state d) (sd_state e))"
    if "vs_disk vs (ev_owner ev) = Some raw" "normalizeStoredData (ev_uuid ev) (ev_now ev) raw = Inr e" for raw e
    using that ok normalizeStoredData_ok by (intro retains_merge(1) assms) blast
  then show "retains (sd_state d) (sd_state (mergeWithOnDiskState ev (vs_disk vs (ev_owner ev)) d))"
    by (auto simp: mergeWithOnDiskState_def Let_def split: option.split sum.split)
qed

lemma persist_result:
  assumes "\<not> sd_incompatible d" "case vs_data vs of Some d0 \<Rightarrow> \<not> sd_incompatible d0 | None \<Rightarrow> True"
  obtains m where "m = promote_data ev (mergeWithOnDiskState ev (vs_disk vs (ev_owner ev)) d)"
    "vs_data (fst (persist ev vs d)) = Some m"
    "vs_disk (fst (persist ev vs d)) (ev_owner ev) = (if ev_writable ev then Some (toPersistedShape m) else vs_disk vs (ev_owner ev))"
    "snd (persist ev vs d) = (if ev_writable ev then Inr () else Inl Sync_write_failed)"
  using assms by (auto simp: persist_def Let_def split: option.splits)

lemma persist_retains:
  assumes "store_ok vs" "ok_state (sd_state d)" "file_state ev vs t"
    "m = promote_data ev (mergeWithOnDiskState ev (vs_disk vs (ev_owner ev)) d)"
  shows "retains t (sd_state m)" "retains (sd_state d) (sd_state m)"
proof -
  let ?c = "mergeWithOnDiskState ev (vs_disk vs (ev_owner ev)) d"
  have content: "\<forall>raw. vs_disk vs (ev_owner ev) = Some raw \<longrightarrow> file_ok raw" using assms(1) by (simp add: store_ok_def)
  then have t: "ok_state t" using assms(3) normalizeStoredData_ok by (fastforce simp: file_state_def)
  have "retains (sd_state ?c) (sd_state m)"
    unfolding assms(4) by (rule retains_promote_data [OF mergeWithOnDisk_ok [OF assms(2) content]])
  with retains_merge_disk [OF assms(2), where ev = ev and vs = vs] assms(3) t content
  show "retains t (sd_state m)" "retains (sd_state d) (sd_state m)" by (blast intro: retains_trans)+
qed

lemma load_cached:
  "vs_data vs = Some d \<Longrightarrow> vs_dataOwnerId vs = ev_owner ev \<Longrightarrow> load ev vs = (vs, Inr d)"
  by (cases vs) (simp add: load_def switch_owner_def)

text \<open>
  C10: Processes that share a file do not overwrite each other. A write of data over a file another
  process may have changed keeps every tombstone, every incarnation and every count of both: what
  is in memory and, when the disk accepts it, in the file afterwards retains the state in the file
  before and the state to be written. When the disk does not, the file is as before, the error is
  reported, and memory still holds the merged state.
\<close>

theorem write_loses_nothing:
  assumes "store_ok vs" "ok_state (sd_state d)" "\<not> sd_incompatible d"
    "case vs_data vs of Some d0 \<Rightarrow> \<not> sd_incompatible d0 | None \<Rightarrow> True" "file_state ev vs t"
  shows "\<exists>m. vs_data (fst (persist ev vs d)) = Some m \<and> retains t (sd_state m) \<and> retains (sd_state d) (sd_state m)
    \<and> (if ev_writable ev
       then snd (persist ev vs d) = Inr () \<and> vs_disk (fst (persist ev vs d)) (ev_owner ev) = Some (toPersistedShape m)
       else snd (persist ev vs d) = Inl Sync_write_failed \<and> vs_disk (fst (persist ev vs d)) = vs_disk vs)"
proof -
  obtain m where m: "m = promote_data ev (mergeWithOnDiskState ev (vs_disk vs (ev_owner ev)) d)"
    "vs_data (fst (persist ev vs d)) = Some m"
    "vs_disk (fst (persist ev vs d)) (ev_owner ev) = (if ev_writable ev then Some (toPersistedShape m) else vs_disk vs (ev_owner ev))"
    "snd (persist ev vs d) = (if ev_writable ev then Inr () else Inl Sync_write_failed)"
    by (rule persist_result [OF assms(3,4)])
  have "\<not> ev_writable ev \<Longrightarrow> vs_disk (fst (persist ev vs d)) = vs_disk vs" by (simp add: persist_def Let_def)
  with persist_retains [OF assms(1,2,5) m(1)] m show ?thesis by auto
qed

definition sample_data :: "sync_state \<Rightarrow> stored_data" where
  "sample_data s = \<lparr>sd_nodeId = js ''a'', sd_wallMs = 1000, sd_counter = 0, sd_state = s, sd_lastMaterializedKeys = [],
     sd_lostSidecar = None, sd_incompatible = False\<rparr>"

definition sample_lex :: sync_state where
  "sample_lex = sample_state (formatHlc clock_a) (formatHlc clock_b) [7] 3"

text \<open>A store whose cached state is what its file holds.\<close>

definition sample_store :: store where
  "sample_store = \<lparr>vs_data = Some (sample_data sample_lex), vs_dataOwnerId = None, vs_pendingRecovery = None,
     vs_disk = (\<lambda>_. Some (toPersistedShape (sample_data sample_lex)))\<rparr>"

lemma sample_data_simps [simp]:
  "sd_state (sample_data s) = s" "\<not> sd_incompatible (sample_data s)" "sd_lastMaterializedKeys (sample_data s) = []"
  by (simp_all add: sample_data_def)

lemma sample_env_simps [simp]: "ev_owner sample_env = None" "ev_writable sample_env" "ev_platform sample_env = sample_platform"
  by (simp_all add: sample_env_def)

lemma sample_store_simps [simp]:
  "vs_data sample_store = Some (sample_data sample_lex)" "vs_dataOwnerId sample_store = None"
  "vs_disk sample_store acc = Some (toPersistedShape (sample_data sample_lex))"
  by (simp_all add: sample_store_def)

lemma ok_sample_lex [simp]: "ok_state sample_lex"
  unfolding sample_lex_def by (rule ok_sample_numeral)

lemma sample_store_ok [simp]: "store_ok sample_store"
  by (simp add: store_ok_def file_ok_written)

lemma sample_file_state [simp]: "file_state sample_env sample_store sample_lex"
proof -
  have "writable_data (sample_data sample_lex)"
    using sample_sound by (simp add: writable_data_def sample_lex_def sample_data_def) code_simp
  from stored_reads_back [OF this, of "ev_uuid sample_env" "ev_now sample_env"] show ?thesis
    unfolding file_state_def by (intro exI conjI) (auto simp: sample_data_def)
qed

lemma write_loses_nothing_witness:
  "\<exists>m. vs_disk (fst (persist sample_env sample_store (sample_data createEmptySyncState))) None = Some (toPersistedShape m)
     \<and> retains sample_lex (sd_state m)"
  using write_loses_nothing [of sample_store "sample_data createEmptySyncState" sample_env sample_lex] by auto

section \<open>Taking back\<close>

lemma rollback_retains:
  assumes "store_ok vs" "vs_data vs = Some d" "vs_dataOwnerId vs = ev_owner ev" "\<not> sd_incompatible d"
    "file_state ev vs t" "ok_state (rb_state point)"
  shows "\<exists>m. vs_data (fst (rollbackTo ev vs point)) = Some m \<and> retains t (sd_state m)"
proof -
  let ?n = "(with_state d (rb_state point) (rb_clock point))\<lparr>sd_lastMaterializedKeys := rb_lastMaterializedKeys point\<rparr>"
  have eq: "rollbackTo ev vs point = persist ev vs ?n" by (simp add: rollbackTo_def load_cached [where d = d] assms(2,3))
  obtain m where m: "m = promote_data ev (mergeWithOnDiskState ev (vs_disk vs (ev_owner ev)) ?n)" "vs_data (fst (persist ev vs ?n)) = Some m"
    by (rule persist_result [of ?n vs ev]) (use assms(2,4) in simp_all)
  have "retains t (sd_state m)" using assms(6) by (intro persist_retains(1) [OF assms(1) _ assms(5) m(1)]) simp
  with m(2) eq show ?thesis by auto
qed

lemma collect_retains:
  assumes "store_ok vs" "vs_data vs = Some d" "vs_dataOwnerId vs = ev_owner ev" "\<not> sd_incompatible d" "file_state ev vs (sd_state d)"
  shows "\<exists>m. vs_data (fst (collectGarbage ev vs)) = Some m \<and> retains (sd_state d) (sd_state m)"
proof (cases "pruneWeakAutomaticCandidates (ev_platform ev) (gcTombstones (ev_platform ev) (sd_state d) (ev_now ev)
    DEFAULT_TOMBSTONE_TTL_MS) (readClock d) MAX_AUTOMATIC_CANDIDATE_RECORDS (ev_now ev)")
  case (fields s c ch)
  have "ok_state (sd_state d)" using assms(1,2) by (simp add: store_ok_def)
  from ok_prune [OF ok_gcTombstones [OF this]] have s: "ok_state s" using fields by (metis fst_conv)
  have eq: "fst (collectGarbage ev vs) = (if s = sd_state d then vs else fst (persist ev vs (with_state d s c)))"
    by (simp add: collectGarbage_def load_cached [where d = d] assms(2,3) fields Let_def)
  obtain m where m: "m = promote_data ev (mergeWithOnDiskState ev (vs_disk vs (ev_owner ev)) (with_state d s c))"
      "vs_data (fst (persist ev vs (with_state d s c))) = Some m"
    by (rule persist_result [of "with_state d s c" vs ev]) (use assms(2,4) in simp_all)
  have "retains (sd_state d) (sd_state m)" using s by (intro persist_retains(1) [OF assms(1) _ assms(5) m(1)]) simp
  with m(2) eq assms(2) show ?thesis by auto
qed

text \<open>
  What a write has put into the file cannot be taken back through the store. While the file can
  be read, \<open>rollbackTo\<close> an earlier point leaves every tombstone, incarnation and count of the file in
  memory, so a change whose first stage was written survives its rollback; and when memory and file
  agree, \<open>collectGarbage\<close> leaves every tombstone, expired or not, where it was: both go through
  \<open>persist\<close>, which merges the file back in.
\<close>

theorem written_state_not_taken_back:
  assumes "store_ok vs" "vs_data vs = Some d" "vs_dataOwnerId vs = ev_owner ev" "\<not> sd_incompatible d"
    "file_state ev vs (sd_state d)" "ok_state (rb_state point)"
  shows "(\<exists>m. vs_data (fst (rollbackTo ev vs point)) = Some m \<and> retains (sd_state d) (sd_state m))
    \<and> (\<exists>m. vs_data (fst (collectGarbage ev vs)) = Some m \<and> retains (sd_state d) (sd_state m))"
  using rollback_retains [OF assms] collect_retains [OF assms(1-5)] by blast

text \<open>The store holds and has written the term \<open>lex\<close>; rolling back to the empty dictionary leaves it there.\<close>

lemma written_state_not_taken_back_witness:
  "\<exists>m i. vs_data (fst (rollbackTo sample_env sample_store \<lparr>rb_state = createEmptySyncState, rb_clock = clock_a, rb_lastMaterializedKeys = []\<rparr>))
        = Some m \<and> fmlookup (incarnations_at (sd_state m) [108, 101, 120]) (formatHlc clock_a) = Some i"
proof -
  let ?point = "\<lparr>rb_state = createEmptySyncState, rb_clock = clock_a, rb_lastMaterializedKeys = []\<rparr>"
  have "ok_state (rb_state ?point)" by simp
  from written_state_not_taken_back [of sample_store "sample_data sample_lex" sample_env ?point] this
  obtain m where m: "vs_data (fst (rollbackTo sample_env sample_store ?point)) = Some m" "retains sample_lex (sd_state m)"
    by auto
  have "fmlookup (incarnations_at sample_lex [108, 101, 120]) (formatHlc clock_a)
      = Some (sample_incarnation (formatHlc clock_a) (formatHlc clock_b) [7] 3)"
    by (simp add: sample_lex_def)
  with m(2) obtain i where "fmlookup (incarnations_at (sd_state m) [108, 101, 120]) (formatHlc clock_a) = Some i"
    unfolding retains_def by blast
  with m(1) show ?thesis by blast
qed

section \<open>A file that becomes newer under a running process\<close>

text \<open>
  The protection of newer files has a gap. A process that has loaded a readable state, and whose
  file another (newer) process replaces by one of a larger version afterwards, writes over it at
  the next change: here at \<open>markMaterialized\<close> with new keys. It reports success, and the file is of
  the old version again.
\<close>

theorem newer_file_overwritten:
  assumes "vs_data vs = Some d" "vs_dataOwnerId vs = ev_owner ev" "\<not> sd_incompatible d" "ok_state (sd_state d)"
    "vs_disk vs (ev_owner ev) = Some raw" "newer_file raw" "ev_writable ev"
    "\<not> sameKeys (map (\<lambda>e. dictionaryTermKey (ev_platform ev) (me_text e)) (md_entries md)) (sd_lastMaterializedKeys d)"
  shows "snd (markMaterialized ev vs md) = Inr ()
    \<and> (\<exists>written. vs_disk (fst (markMaterialized ev vs md)) (ev_owner ev) = Some written \<and> \<not> newer_file written)"
proof -
  let ?n = "d\<lparr>sd_lastMaterializedKeys := map (\<lambda>e. dictionaryTermKey (ev_platform ev) (me_text e)) (md_entries md)\<rparr>"
  have eq: "markMaterialized ev vs md = persist ev vs ?n"
    using assms(8) by (simp add: markMaterialized_def load_cached [where d = d] assms(1,2) Let_def)
  obtain m where m: "m = promote_data ev (mergeWithOnDiskState ev (vs_disk vs (ev_owner ev)) ?n)"
      "vs_disk (fst (persist ev vs ?n)) (ev_owner ev) = (if ev_writable ev then Some (toPersistedShape m) else vs_disk vs (ev_owner ev))"
      "snd (persist ev vs ?n) = (if ev_writable ev then Inr () else Inl Sync_write_failed)"
    by (rule persist_result [of ?n vs ev]) (use assms(1,3) in simp_all)
  have "mergeWithOnDiskState ev (Some raw) ?n = ?n"
    using assms(6) newer_file_object [OF assms(6)] by (simp add: mergeWithOnDiskState_def normalizeStoredData_def newer_file_def Let_def)
  then have "ok_state (sd_state m)"
    using promote_data_ok [of ?n ev] assms(4) by (simp add: m(1) assms(5))
  then have "\<not> newer_file (toPersistedShape m)"
    by (simp add: newer_file_def isNewerVersion_def isNewerStoredVersion_def ok_state_def)
  with m(2,3) eq assms(7) show ?thesis by simp
qed

definition sample_projection :: materialized_dictionary where
  "sample_projection = \<lparr>md_entries = [\<lparr>me_id = [], me_text = [108, 101, 120], me_source = Manual, me_frequency = 1, me_aliases = [],
     me_createdAt = 0, me_updatedAt = 0\<rparr>], md_candidates = [], md_suppressedTexts = []\<rparr>"

lemma newer_file_overwritten_witness:
  "\<exists>written. vs_disk (fst (markMaterialized sample_env (sample_store\<lparr>vs_disk := (\<lambda>_. Some newer_raw)\<rparr>) sample_projection)) None
    = Some written \<and> \<not> newer_file written"
  using newer_file_overwritten [of "sample_store\<lparr>vs_disk := (\<lambda>_. Some newer_raw)\<rparr>" "sample_data sample_lex" sample_env newer_raw
    sample_projection]
  by (simp add: newer_raw sameKeys_def sample_projection_def)

end
