(* ===== verification/LayoutTree.thy ===== *)
theory LayoutTree
  imports Js_Prelude
begin

text \<open>
  The layout tree of the main window (\<open>src/apps/desktop/src/shared/layoutTree.ts\<close>): the data, the
  default layout, the traversals and the validation of a value of unknown shape. Fractions are
  exact rational numbers, where the code computes with doubles. A field the types call optional
  is the value found there, since the validation looks at some of them only.
\<close>

section \<open>Data\<close>

record pane =
  pn_id :: jsstring
  pn_panelKind :: jsstring
  pn_collapsed :: "json option"
  pn_minWidth :: "json option"

datatype direction = Row | Column

datatype layout_node =
    Pane pane
  | Split jsstring direction "(number \<times> layout_node) list"

record float_panel =
  fp_id :: jsstring
  fp_panelKind :: jsstring
  fp_x :: number
  fp_y :: number
  fp_width :: number
  fp_height :: number

record layout =
  ly_schemaVersion :: number
  ly_sidebar :: pane
  ly_content :: layout_node
  ly_float :: "float_panel list"

definition LAYOUT_SCHEMA_VERSION :: number where "LAYOUT_SCHEMA_VERSION = 1"
definition MAX_TREE_DEPTH :: nat where "MAX_TREE_DEPTH = 8"
definition MAX_PANEL_KIND_LENGTH :: nat where "MAX_PANEL_KIND_LENGTH = 128"
definition MIN_SPLIT_CHILD_FRACTION :: number where "MIN_SPLIT_CHILD_FRACTION = 1 / 20"
definition FRACTION_TOLERANCE :: number where "FRACTION_TOLERANCE = 1 / 1000000000"

abbreviation session_list :: jsstring where "session_list \<equiv> js ''session-list''"
abbreviation chat_main :: jsstring where "chat_main \<equiv> js ''chat-main''"
abbreviation right_tabs :: jsstring where "right_tabs \<equiv> js ''right-tabs''"

definition plain_pane :: "jsstring \<Rightarrow> jsstring \<Rightarrow> json option \<Rightarrow> pane" where
  "plain_pane i kind width = \<lparr>pn_id = i, pn_panelKind = kind, pn_collapsed = None, pn_minWidth = width\<rparr>"

definition createDefaultLayout :: layout where
  "createDefaultLayout = \<lparr>ly_schemaVersion = LAYOUT_SCHEMA_VERSION, ly_sidebar = plain_pane (js ''sessions'') session_list None,
     ly_content = Split (js ''root'') Row
       [(1 / 2, Pane (plain_pane (js ''chat'') chat_main (Some (JNumber 400)))),
        (1 / 2, Pane (plain_pane (js ''right'') right_tabs None))],
     ly_float = []\<rparr>"

section \<open>Traversals\<close>

fun walkContentPanes :: "layout_node \<Rightarrow> pane list" where
  "walkContentPanes (Pane p) = [p]"
| "walkContentPanes (Split i d cs) = concat (map (\<lambda>(_, n). walkContentPanes n) cs)"

definition walkPanes :: "layout \<Rightarrow> pane list" where
  "walkPanes l = ly_sidebar l # walkContentPanes (ly_content l) @ map (\<lambda>f. plain_pane (fp_id f) (fp_panelKind f) None) (ly_float l)"

definition findPaneById :: "layout \<Rightarrow> jsstring \<Rightarrow> pane option" where
  "findPaneById l i = find (\<lambda>p. pn_id p = i) (walkPanes l)"

definition countPanelKind :: "layout \<Rightarrow> jsstring \<Rightarrow> nat" where
  "countPanelKind l kind = length (filter (\<lambda>p. pn_panelKind p = kind) (walkPanes l))"

fun node_id :: "layout_node \<Rightarrow> jsstring" where
  "node_id (Pane p) = pn_id p"
| "node_id (Split i d cs) = i"

text \<open>The ids of a node, in the order the code collects them.\<close>

fun collectLayoutNodeIds :: "layout_node \<Rightarrow> jsstring list" where
  "collectLayoutNodeIds (Pane p) = [pn_id p]"
| "collectLayoutNodeIds (Split i d cs) = i # concat (map (\<lambda>(_, n). collectLayoutNodeIds n) cs)"

text \<open>The same of a list of children, for the proofs.\<close>

definition child_ids :: "(number \<times> layout_node) list \<Rightarrow> jsstring list" where
  "child_ids cs = concat (map (\<lambda>(_, n). collectLayoutNodeIds n) cs)"

definition child_panes :: "(number \<times> layout_node) list \<Rightarrow> pane list" where
  "child_panes cs = concat (map (\<lambda>(_, n). walkContentPanes n) cs)"

lemma child_simps [simp]:
  "child_ids [] = []" "child_ids (c # cs) = collectLayoutNodeIds (snd c) @ child_ids cs" "child_ids (xs @ ys) = child_ids xs @ child_ids ys"
  "child_panes [] = []" "child_panes (c # cs) = walkContentPanes (snd c) @ child_panes cs"
  "child_panes (xs @ ys) = child_panes xs @ child_panes ys"
  by (simp_all add: child_ids_def child_panes_def split_beta)

lemma collect_Split [simp]: "collectLayoutNodeIds (Split i d cs) = i # child_ids cs" "walkContentPanes (Split i d cs) = child_panes cs"
  by (simp_all add: child_ids_def child_panes_def)

declare collectLayoutNodeIds.simps(2) [simp del] walkContentPanes.simps(2) [simp del]

section \<open>Validation\<close>

datatype layout_error =
    Not_an_object | Not_cloneable | Schema_version | Float_not_empty | Sidebar_not_pane | Sidebar_not_session_list | Sidebar_edge
  | Sidebar_id | Too_deep | Node_not_object | Node_id_invalid | Duplicate_node_id jsstring | Panel_kind_invalid | Collapsed_not_boolean
  | Min_width_invalid | Direction_invalid | Too_few_children | Child_not_object | Fraction_invalid | Fractions_sum number | Unknown_type
  | Chat_main_count nat | Chat_main_collapsed | Session_list_inside

definition isRecord :: "json option \<Rightarrow> bool" where
  "isRecord v = (case v of Some (JObject _) \<Rightarrow> True | _ \<Rightarrow> False)"

definition valid_id :: "jsstring \<Rightarrow> bool" where
  "valid_id s = (0 < length s \<and> length s \<le> 128)"

definition valid_kind :: "jsstring \<Rightarrow> bool" where
  "valid_kind s = (0 < length s \<and> length s \<le> MAX_PANEL_KIND_LENGTH)"

definition isValidId :: "json option \<Rightarrow> bool" where
  "isValidId v = (case v of Some (JString s) \<Rightarrow> valid_id s | _ \<Rightarrow> False)"

definition isValidPanelKind :: "json option \<Rightarrow> bool" where
  "isValidPanelKind v = (case v of Some (JString s) \<Rightarrow> valid_kind s | _ \<Rightarrow> False)"

definition boolean_or_absent :: "json option \<Rightarrow> bool" where
  "boolean_or_absent v = (case v of None \<Rightarrow> True | Some (JBool _) \<Rightarrow> True | _ \<Rightarrow> False)"

definition positive_number :: "json option \<Rightarrow> bool" where
  "positive_number v = (case v of Some (JNumber n) \<Rightarrow> 0 < n | _ \<Rightarrow> False)"

definition string_of :: "json option \<Rightarrow> jsstring" where
  "string_of v = (case v of Some (JString s) \<Rightarrow> s | _ \<Rightarrow> [])"

definition number_of :: "json option \<Rightarrow> number" where
  "number_of v = (case v of Some (JNumber n) \<Rightarrow> n | _ \<Rightarrow> 0)"

definition pane_of :: "json option \<Rightarrow> pane" where
  "pane_of v = \<lparr>pn_id = string_of (member v ''id''), pn_panelKind = string_of (member v ''panelKind''),
     pn_collapsed = member v ''collapsed'', pn_minWidth = member v ''minWidth''\<rparr>"

text \<open>
  One call adds to the ids seen and to the panes met; the depth grows with every call below, and is
  bounded, so the recursion ends on every value.
\<close>

function validateNodeShape :: "json option \<Rightarrow> nat \<Rightarrow> jsstring list \<Rightarrow> pane list \<Rightarrow> layout_error + (jsstring list \<times> pane list)"
  and validate_children :: "json list \<Rightarrow> nat \<Rightarrow> number \<Rightarrow> jsstring list \<Rightarrow> pane list
    \<Rightarrow> layout_error + (number \<times> jsstring list \<times> pane list)" where
  "validateNodeShape v depth ids panes =
     (if MAX_TREE_DEPTH < depth then Inl Too_deep
      else if \<not> isRecord v then Inl Node_not_object
      else if \<not> isValidId (member v ''id'') then Inl Node_id_invalid
      else if string_of (member v ''id'') \<in> set ids then Inl (Duplicate_node_id (string_of (member v ''id'')))
      else (let ids = string_of (member v ''id'') # ids in
        if member v ''type'' = Some (JString (js ''pane'')) then
          (if \<not> isValidPanelKind (member v ''panelKind'') then Inl Panel_kind_invalid
           else if \<not> boolean_or_absent (member v ''collapsed'') then Inl Collapsed_not_boolean
           else if member v ''minWidth'' \<noteq> None \<and> \<not> positive_number (member v ''minWidth'') then Inl Min_width_invalid
           else Inr (ids, panes @ [pane_of v]))
        else if member v ''type'' = Some (JString (js ''split'')) then
          (if member v ''direction'' \<noteq> Some (JString (js ''row'')) \<and> member v ''direction'' \<noteq> Some (JString (js ''column''))
           then Inl Direction_invalid
           else (case member v ''children'' of
               Some (JArray cs) \<Rightarrow>
                 (if length cs < 2 then Inl Too_few_children
                  else (case validate_children cs depth 0 ids panes of
                      Inl e \<Rightarrow> Inl e
                    | Inr (fractionSum, ids, panes) \<Rightarrow>
                        if 1 / 100 < \<bar>fractionSum - 1\<bar> then Inl (Fractions_sum fractionSum) else Inr (ids, panes)))
             | _ \<Rightarrow> Inl Too_few_children))
        else Inl Unknown_type))"
| "validate_children [] depth fractionSum ids panes = Inr (fractionSum, ids, panes)"
| "validate_children (c # cs) depth fractionSum ids panes =
     (if \<not> isRecord (Some c) then Inl Child_not_object
      else if \<not> positive_number (member (Some c) ''fraction'') then Inl Fraction_invalid
      else (case validateNodeShape (member (Some c) ''node'') (depth + 1) ids panes of
          Inl e \<Rightarrow> Inl e
        | Inr (ids, panes) \<Rightarrow> validate_children cs depth (fractionSum + number_of (member (Some c) ''fraction'')) ids panes))"
  by pat_completeness auto
termination
  by (relation "measures [\<lambda>x. case x of Inl (v, d, _) \<Rightarrow> 2 * (10 - d) | Inr (cs, d, _) \<Rightarrow> 2 * (10 - d) - 1,
       \<lambda>x. case x of Inl _ \<Rightarrow> 0 | Inr (cs, _) \<Rightarrow> length cs]")
    (auto simp: MAX_TREE_DEPTH_def)

declare validateNodeShape.simps [simp del]

definition validateLayout :: "json \<Rightarrow> layout_error option" where
  "validateLayout v0 =
     (let v = Some v0; sidebar = member v ''sidebar'' in
      if \<not> isRecord v then Some Not_an_object
      else if member v ''schemaVersion'' \<noteq> Some (JNumber LAYOUT_SCHEMA_VERSION) then Some Schema_version
      else if member v ''float'' \<noteq> Some (JArray []) then Some Float_not_empty
      else if \<not> isRecord sidebar \<or> member sidebar ''type'' \<noteq> Some (JString (js ''pane'')) then Some Sidebar_not_pane
      else if member sidebar ''panelKind'' \<noteq> Some (JString session_list) then Some Sidebar_not_session_list
      else if member sidebar ''edge'' \<noteq> Some (JString (js ''left'')) then Some Sidebar_edge
      else if \<not> isValidId (member sidebar ''id'') then Some Sidebar_id
      else (case validateNodeShape (member v ''content'') 1 [string_of (member sidebar ''id'')] [] of
          Inl e \<Rightarrow> Some e
        | Inr (_, panes) \<Rightarrow>
            (case filter (\<lambda>p. pn_panelKind p = chat_main) panes of
               [c] \<Rightarrow> if pn_collapsed c = Some (JBool True) then Some Chat_main_collapsed
                      else if list_ex (\<lambda>p. pn_panelKind p = session_list) panes then Some Session_list_inside
                      else None
             | chats \<Rightarrow> Some (Chat_main_count (length chats)))))"

section \<open>A layout and the value it is\<close>

text \<open>The value a layout is (what \<open>JSON.stringify\<close> writes and the validation reads), and the layout a value is cast to.\<close>

definition direction_name :: "direction \<Rightarrow> jsstring" where
  "direction_name d = (case d of Row \<Rightarrow> js ''row'' | Column \<Rightarrow> js ''column'')"

definition optional :: "string \<Rightarrow> json option \<Rightarrow> (jsstring \<times> json) list" where
  "optional name v = (case v of None \<Rightarrow> [] | Some x \<Rightarrow> [(js name, x)])"

definition pane_entries :: "pane \<Rightarrow> (jsstring \<times> json) list" where
  "pane_entries p = [(js ''type'', JString (js ''pane'')), (js ''id'', JString (pn_id p)), (js ''panelKind'', JString (pn_panelKind p))]
     @ optional ''collapsed'' (pn_collapsed p) @ optional ''minWidth'' (pn_minWidth p)"

fun json_of_node :: "layout_node \<Rightarrow> json" where
  "json_of_node (Pane p) = JObject (pane_entries p)"
| "json_of_node (Split i d cs) = JObject [(js ''type'', JString (js ''split'')), (js ''id'', JString i),
     (js ''direction'', JString (direction_name d)),
     (js ''children'', JArray (map (\<lambda>(f, n). JObject [(js ''fraction'', JNumber f), (js ''node'', json_of_node n)]) cs))]"

definition json_of_float :: "float_panel \<Rightarrow> json" where
  "json_of_float f = JObject [(js ''id'', JString (fp_id f)), (js ''panelKind'', JString (fp_panelKind f)), (js ''x'', JNumber (fp_x f)),
     (js ''y'', JNumber (fp_y f)), (js ''width'', JNumber (fp_width f)), (js ''height'', JNumber (fp_height f))]"

definition json_of_layout :: "layout \<Rightarrow> json" where
  "json_of_layout l = JObject [(js ''schemaVersion'', JNumber (ly_schemaVersion l)),
     (js ''sidebar'', JObject (pane_entries (ly_sidebar l) @ [(js ''edge'', JString (js ''left''))])),
     (js ''content'', json_of_node (ly_content l)), (js ''float'', JArray (map json_of_float (ly_float l)))]"

definition elements_of :: "json option \<Rightarrow> json list" where
  "elements_of v = (case v of Some (JArray xs) \<Rightarrow> xs | _ \<Rightarrow> [])"

primrec node_of :: "nat \<Rightarrow> json option \<Rightarrow> layout_node" where
  "node_of 0 v = Pane (pane_of v)"
| "node_of (Suc k) v =
     (if member v ''type'' = Some (JString (js ''split'')) then
        Split (string_of (member v ''id'')) (if member v ''direction'' = Some (JString (js ''row'')) then Row else Column)
          (map (\<lambda>c. (number_of (member (Some c) ''fraction''), node_of k (member (Some c) ''node''))) (elements_of (member v ''children'')))
      else Pane (pane_of v))"

definition layout_of :: "json \<Rightarrow> layout" where
  "layout_of v = \<lparr>ly_schemaVersion = number_of (member (Some v) ''schemaVersion''), ly_sidebar = pane_of (member (Some v) ''sidebar''),
     ly_content = node_of MAX_TREE_DEPTH (member (Some v) ''content''), ly_float = []\<rparr>"

section \<open>Well-formed layouts\<close>

definition wf_pane :: "pane \<Rightarrow> bool" where
  "wf_pane p \<longleftrightarrow> valid_id (pn_id p) \<and> valid_kind (pn_panelKind p) \<and> boolean_or_absent (pn_collapsed p)
     \<and> (pn_minWidth p \<noteq> None \<longrightarrow> positive_number (pn_minWidth p))"

fun wf_node :: "nat \<Rightarrow> layout_node \<Rightarrow> bool" where
  "wf_node d (Pane p) \<longleftrightarrow> d \<le> MAX_TREE_DEPTH \<and> wf_pane p"
| "wf_node d (Split i dir cs) \<longleftrightarrow> d \<le> MAX_TREE_DEPTH \<and> valid_id i \<and> 2 \<le> length cs
     \<and> \<bar>sum_list (map fst cs) - 1\<bar> \<le> 1 / 100 \<and> (\<forall>(f, n) \<in> set cs. 0 < f \<and> wf_node (Suc d) n)"

definition wf_layout :: "layout \<Rightarrow> bool" where
  "wf_layout l \<longleftrightarrow> ly_schemaVersion l = LAYOUT_SCHEMA_VERSION \<and> ly_float l = []
     \<and> pn_panelKind (ly_sidebar l) = session_list \<and> valid_id (pn_id (ly_sidebar l))
     \<and> wf_node 1 (ly_content l) \<and> distinct (pn_id (ly_sidebar l) # collectLayoutNodeIds (ly_content l))
     \<and> (case filter (\<lambda>p. pn_panelKind p = chat_main) (walkContentPanes (ly_content l)) of
          [c] \<Rightarrow> pn_collapsed c \<noteq> Some (JBool True) | _ \<Rightarrow> False)
     \<and> (\<forall>p \<in> set (walkContentPanes (ly_content l)). pn_panelKind p \<noteq> session_list)"

lemma string_number_of [simp]: "string_of (Some (JString s)) = s" "number_of (Some (JNumber n)) = n"
  "isValidId (Some (JString s)) = valid_id s" "isValidPanelKind (Some (JString s)) = valid_kind s"
  "positive_number (Some (JNumber n)) \<longleftrightarrow> 0 < n" "isRecord (Some (JObject es))" "elements_of (Some (JArray xs)) = xs"
  by (simp_all add: string_of_def number_of_def isValidId_def isValidPanelKind_def positive_number_def isRecord_def elements_of_def)

lemma pane_members [simp]:
  "member (Some (JObject (pane_entries p @ es))) ''type'' = Some (JString (js ''pane''))"
  "member (Some (JObject (pane_entries p @ es))) ''id'' = Some (JString (pn_id p))"
  "member (Some (JObject (pane_entries p @ es))) ''panelKind'' = Some (JString (pn_panelKind p))"
  "member (Some (JObject (pane_entries p @ [(js ''edge'', e)]))) ''edge'' = Some e"
  by (auto simp: pane_entries_def optional_def simp del: js_simps split: option.split)

lemma pane_members_optional [simp]:
  "member (Some (JObject (pane_entries p @ [(js ''edge'', e)]))) ''collapsed'' = pn_collapsed p"
  "member (Some (JObject (pane_entries p @ [(js ''edge'', e)]))) ''minWidth'' = pn_minWidth p"
  "member (Some (JObject (pane_entries p))) ''collapsed'' = pn_collapsed p"
  "member (Some (JObject (pane_entries p))) ''minWidth'' = pn_minWidth p"
  by (auto simp: pane_entries_def optional_def simp del: js_simps split: option.split)

lemmas pane_members_Nil [simp] = pane_members(1-3) [where es = "[]", unfolded append_Nil2]

lemma pane_of_entries [simp]:
  "pane_of (Some (JObject (pane_entries p @ [(js ''edge'', e)]))) = p" "pane_of (Some (JObject (pane_entries p))) = p"
  by (simp_all add: pane_of_def del: js_simps member_JObject)

lemma node_members [simp]:
  "member (Some (JObject ((js ''type'', t) # es))) ''type'' = Some t"
  by simp

definition split_entries :: "jsstring \<Rightarrow> direction \<Rightarrow> (number \<times> layout_node) list \<Rightarrow> (jsstring \<times> json) list" where
  "split_entries i d cs = [(js ''type'', JString (js ''split'')), (js ''id'', JString i), (js ''direction'', JString (direction_name d)),
     (js ''children'', JArray (map (\<lambda>(f, n). JObject [(js ''fraction'', JNumber f), (js ''node'', json_of_node n)]) cs))]"

lemma json_of_Split: "json_of_node (Split i d cs) = JObject (split_entries i d cs)"
  by (simp add: split_entries_def)

lemma split_members [simp]:
  "member (Some (JObject (split_entries i d cs))) ''type'' = Some (JString (js ''split''))"
  "member (Some (JObject (split_entries i d cs))) ''id'' = Some (JString i)"
  "member (Some (JObject (split_entries i d cs))) ''direction'' = Some (JString (direction_name d))"
  "member (Some (JObject (split_entries i d cs))) ''children'' =
    Some (JArray (map (\<lambda>(f, n). JObject [(js ''fraction'', JNumber f), (js ''node'', json_of_node n)]) cs))"
  by (simp_all add: split_entries_def del: js_simps)

lemma child_members [simp]:
  "member (Some (JObject [(js ''fraction'', f), (js ''node'', n)])) ''fraction'' = Some f"
  "member (Some (JObject [(js ''fraction'', f), (js ''node'', n)])) ''node'' = Some n"
  by (simp_all del: js_simps)

lemma direction_name_eq [simp]:
  "direction_name d = js ''row'' \<longleftrightarrow> d = Row" "direction_name d = js ''column'' \<longleftrightarrow> d = Column"
  by (cases d; simp add: direction_name_def del: js_simps)+

lemma direction_names: "direction_name d = js ''row'' \<or> direction_name d = js ''column''"
  by (cases d) (simp_all add: direction_name_def del: js_simps)

lemma isValidId_iff: "isValidId v \<longleftrightarrow> (\<exists>s. v = Some (JString s) \<and> valid_id s)"
  by (auto simp: isValidId_def split: option.splits json.splits)

lemma positive_number_iff: "positive_number v \<longleftrightarrow> (\<exists>n. v = Some (JNumber n) \<and> 0 < n)"
  by (auto simp: positive_number_def split: option.splits json.splits)

lemma isValidPanelKind_iff: "isValidPanelKind v \<longleftrightarrow> (\<exists>s. v = Some (JString s) \<and> valid_kind s)"
  by (auto simp: isValidPanelKind_def split: option.splits json.splits)

section \<open>What the validation decides\<close>

text \<open>A value that passes is a well-formed node with ids of its own; the ids and panes are collected.\<close>

lemma validate_sound:
  "validateNodeShape v d ids ps = Inr (ids', ps') \<Longrightarrow>
     (let n = node_of (9 - d) v in wf_node d n \<and> ids' = rev (collectLayoutNodeIds n) @ ids \<and> distinct (collectLayoutNodeIds n)
        \<and> set (collectLayoutNodeIds n) \<inter> set ids = {} \<and> ps' = ps @ walkContentPanes n)"
  "validate_children cs d s ids ps = Inr (s', ids', ps') \<Longrightarrow> d \<le> 8 \<Longrightarrow>
     (let ns = map (\<lambda>c. (number_of (member (Some c) ''fraction''), node_of (8 - d) (member (Some c) ''node''))) cs;
          cids = child_ids ns
      in s' = s + sum_list (map fst ns) \<and> (\<forall>(f, n) \<in> set ns. 0 < f \<and> wf_node (Suc d) n) \<and> ids' = rev cids @ ids \<and> distinct cids
        \<and> set cids \<inter> set ids = {} \<and> ps' = ps @ child_panes ns)"
proof (induction v d ids ps and cs d s ids ps arbitrary: ids' ps' and s' ids' ps' rule: validateNodeShape_validate_children.induct)
  case (1 v d ids ps)
  let ?i = "string_of (member v ''id'')"
  from 1(2) have d: "d \<le> 8" and guards: "isRecord v" "isValidId (member v ''id'')" "?i \<notin> set ids"
    by (auto simp: validateNodeShape.simps [of v d] MAX_TREE_DEPTH_def split: if_splits)
  then obtain k where k: "9 - d = Suc k" "k = 8 - d" by (cases "9 - d") auto
  show ?case
  proof (cases "member v ''type'' = Some (JString (js ''pane''))")
    case True
    with 1(2) d guards k show ?thesis
      by (auto simp: validateNodeShape.simps [of v d] isValidId_iff isValidPanelKind_iff Let_def wf_pane_def pane_of_def MAX_TREE_DEPTH_def
          simp del: js_simps split: if_splits)
  next
    case False
    with 1(2) d guards have split: "member v ''type'' = Some (JString (js ''split''))"
      "member v ''direction'' = Some (JString (js ''row'')) \<or> member v ''direction'' = Some (JString (js ''column''))"
      by (auto simp: validateNodeShape.simps [of v d] Let_def simp del: js_simps split: if_splits)
    with 1(2) d guards False obtain cs where cs: "member v ''children'' = Some (JArray cs)" "2 \<le> length cs"
      by (auto simp: validateNodeShape.simps [of v d] Let_def MAX_TREE_DEPTH_def simp del: js_simps split: if_splits option.splits json.splits)
    with 1(2) d guards False split obtain s' where s': "validate_children cs d 0 (?i # ids) ps = Inr (s', ids', ps')" "\<bar>s' - 1\<bar> \<le> 1 / 100"
      by (auto simp: validateNodeShape.simps [of v d] Let_def MAX_TREE_DEPTH_def simp del: js_simps split: if_splits sum.splits prod.splits)
    have "validate_children cs d 0 (?i # ids) ps = Inr (s', ids', ps') \<Longrightarrow> d \<le> 8 \<Longrightarrow>
     (let ns = map (\<lambda>c. (number_of (member (Some c) ''fraction''), node_of (8 - d) (member (Some c) ''node''))) cs;
          cids = child_ids ns
      in s' = 0 + sum_list (map fst ns) \<and> (\<forall>(f, n) \<in> set ns. 0 < f \<and> wf_node (Suc d) n) \<and> ids' = rev cids @ (?i # ids) \<and> distinct cids
        \<and> set cids \<inter> set (?i # ids) = {} \<and> ps' = ps @ child_panes ns)"
      by (rule 1(1)) (use d guards False split cs in \<open>auto simp: MAX_TREE_DEPTH_def simp del: js_simps\<close>)
    from this [OF s'(1) d] s'(2) d guards split cs k show ?thesis
      by (auto simp: Let_def isValidId_iff MAX_TREE_DEPTH_def simp del: js_simps)
  qed
next
  case (2 d s ids ps)
  then show ?case by simp
next
  case (3 c cs d s ids ps)
  from 3(3) obtain ids1 ps1 where h: "isRecord (Some c)" "positive_number (member (Some c) ''fraction'')"
    "validateNodeShape (member (Some c) ''node'') (d + 1) ids ps = Inr (ids1, ps1)"
    "validate_children cs d (s + number_of (member (Some c) ''fraction'')) ids1 ps1 = Inr (s', ids', ps')"
    by (auto split: if_splits sum.splits prod.splits)
  from 3(1) [OF _ _ h(3)] h(1,2) 3(4)
  have 1: "let n = node_of (8 - d) (member (Some c) ''node'') in wf_node (Suc d) n \<and> ids1 = rev (collectLayoutNodeIds n) @ ids
      \<and> distinct (collectLayoutNodeIds n) \<and> set (collectLayoutNodeIds n) \<inter> set ids = {} \<and> ps1 = ps @ walkContentPanes n" by simp
  note 2 = 3(2) [OF _ _ h(3) refl h(4) 3(4)]
  from 1 2 h(1,2) show ?case by (auto simp: Let_def positive_number_iff)
qed

abbreviation child_value :: "number \<times> layout_node \<Rightarrow> json" where
  "child_value c \<equiv> (case c of (f, n) \<Rightarrow> JObject [(js ''fraction'', JNumber f), (js ''node'', json_of_node n)])"

lemma validate_children_complete:
  assumes "\<And>f n ids ps. (f, n) \<in> set cs \<Longrightarrow> wf_node (Suc d) n \<Longrightarrow> distinct (collectLayoutNodeIds n) \<Longrightarrow>
      set (collectLayoutNodeIds n) \<inter> set ids = {} \<Longrightarrow>
      validateNodeShape (Some (json_of_node n)) (Suc d) ids ps = Inr (rev (collectLayoutNodeIds n) @ ids, ps @ walkContentPanes n)"
  shows "\<forall>(f, n) \<in> set cs. 0 < f \<and> wf_node (Suc d) n \<Longrightarrow> distinct (child_ids cs) \<Longrightarrow>
      set (child_ids cs) \<inter> set ids = {} \<Longrightarrow>
      validate_children (map child_value cs) d s ids ps
        = Inr (s + sum_list (map fst cs), rev (child_ids cs) @ ids,
            ps @ child_panes cs)"
  using assms
proof (induction cs arbitrary: s ids ps)
  case (Cons c cs)
  obtain f n where c: "c = (f, n)" by (cases c)
  have v: "validateNodeShape (Some (json_of_node n)) (Suc d) ids ps = Inr (rev (collectLayoutNodeIds n) @ ids, ps @ walkContentPanes n)"
    by (rule Cons.prems(4) [of f]) (use Cons.prems(1-3) c in auto)
  have "validate_children (map child_value cs) d (s + f) (rev (collectLayoutNodeIds n) @ ids) (ps @ walkContentPanes n)
        = Inr (s + f + sum_list (map fst cs), rev (child_ids cs) @ rev (collectLayoutNodeIds n) @ ids,
            (ps @ walkContentPanes n) @ child_panes cs)"
  proof (rule Cons.IH)
    show "set (child_ids cs) \<inter> set (rev (collectLayoutNodeIds n) @ ids) = {}" using Cons.prems(2,3) c by auto
    show "(fa, na) \<in> set cs \<Longrightarrow> wf_node (Suc d) na \<Longrightarrow> distinct (collectLayoutNodeIds na) \<Longrightarrow> set (collectLayoutNodeIds na) \<inter> set ids = {} \<Longrightarrow>
        validateNodeShape (Some (json_of_node na)) (Suc d) ids ps = Inr (rev (collectLayoutNodeIds na) @ ids, ps @ walkContentPanes na)"
      for fa na ids ps by (rule Cons.prems(4) [of fa]) auto
  qed (use Cons.prems(1,2) c in auto)
  with v Cons.prems(1) show ?case by (simp add: c del: js_simps member_JObject)
qed simp

lemma validate_complete:
  "wf_node d n \<Longrightarrow> distinct (collectLayoutNodeIds n) \<Longrightarrow> set (collectLayoutNodeIds n) \<inter> set ids = {} \<Longrightarrow>
    validateNodeShape (Some (json_of_node n)) d ids ps = Inr (rev (collectLayoutNodeIds n) @ ids, ps @ walkContentPanes n)"
proof (induction n arbitrary: d ids ps)
  case (Pane p)
  then show ?case
    by (auto simp: validateNodeShape.simps [of _ d] wf_pane_def Let_def isValidPanelKind_iff simp del: js_simps member_JObject)
next
  case (Split i dir cs)
  have "validate_children (map child_value cs) d 0 (i # ids) ps
        = Inr (0 + sum_list (map fst cs), rev (child_ids cs) @ (i # ids),
            ps @ child_panes cs)"
  proof (rule validate_children_complete)
    fix f n ids' ps' assume "(f, n) \<in> set cs" "wf_node (Suc d) n" "distinct (collectLayoutNodeIds n)" "set (collectLayoutNodeIds n) \<inter> set ids' = {}"
    with Split.IH [of "(f, n)" n "Suc d" ids' ps']
    show "validateNodeShape (Some (json_of_node n)) (Suc d) ids' ps' = Inr (rev (collectLayoutNodeIds n) @ ids', ps' @ walkContentPanes n)"
      by simp
  qed (use Split.prems in auto)
  with Split.prems direction_names [of dir] show ?case
    unfolding json_of_Split
    by (auto simp: validateNodeShape.simps [of _ d] Let_def simp del: js_simps member_JObject)
qed

lemma node_of_json: "wf_node d n \<Longrightarrow> k = 9 - d \<Longrightarrow> node_of k (Some (json_of_node n)) = n"
proof (induction n arbitrary: d k)
  case (Pane p)
  then have "0 < k" by (auto simp: MAX_TREE_DEPTH_def)
  then obtain k' where "k = Suc k'" by (meson gr0_conv_Suc)
  then show ?case by (auto simp del: js_simps member_JObject)
next
  case (Split i dir cs)
  then have "0 < k" by (auto simp: MAX_TREE_DEPTH_def)
  then obtain k' where k: "k = Suc k'" by (meson gr0_conv_Suc)
  then have k': "k' = 9 - Suc d" using Split.prems by simp
  have "map (\<lambda>c. (number_of (member (Some c) ''fraction''), node_of k' (member (Some c) ''node''))) (map child_value cs) = cs"
    unfolding map_map
  proof (rule map_idI)
    fix x assume x: "x \<in> set cs"
    obtain f n where fn: "x = (f, n)" by (cases x)
    with Split.IH [OF x, of n "Suc d" k'] Split.prems x k'
    show "((\<lambda>c. (number_of (member (Some c) ''fraction''), node_of k' (member (Some c) ''node''))) \<circ> child_value) x = x"
      by (auto simp del: js_simps member_JObject)
  qed
  then show ?case unfolding json_of_Split k by (cases dir) (simp_all del: js_simps member_JObject map_map)
qed

text \<open>A value that is the value of a node and passes is read back as that node.\<close>

lemma validate_depth: "validateNodeShape v d ids ps = Inr x \<Longrightarrow> d \<le> 8"
  by (simp add: validateNodeShape.simps [of v d] MAX_TREE_DEPTH_def split: if_splits)

lemma validate_children_each:
  "validate_children cs d s ids ps = Inr y \<Longrightarrow> c \<in> set cs \<Longrightarrow>
    \<exists>ids ps x. validateNodeShape (member (Some c) ''node'') (Suc d) ids ps = Inr x"
proof (induction cs arbitrary: s ids ps)
  case (Cons b cs)
  from Cons.prems(1) obtain ids1 ps1 where h: "validateNodeShape (member (Some b) ''node'') (d + 1) ids ps = Inr (ids1, ps1)"
    "validate_children cs d (s + number_of (member (Some b) ''fraction'')) ids1 ps1 = Inr y"
    by (auto split: if_splits sum.splits prod.splits)
  show ?case
  proof (cases "c = b")
    case True
    with h(1) show ?thesis by auto
  qed (use Cons.IH [OF h(2)] Cons.prems(2) in simp)
qed simp

lemma node_of_validated:
  "validateNodeShape (Some (json_of_node n)) d ids ps = Inr x \<Longrightarrow> k = 9 - d \<Longrightarrow> node_of k (Some (json_of_node n)) = n"
proof (induction n arbitrary: d k ids ps x)
  case (Pane p)
  then have "0 < k" using validate_depth by fastforce
  then obtain k' where "k = Suc k'" by (meson gr0_conv_Suc)
  then show ?case by (auto simp del: js_simps member_JObject)
next
  case (Split i dir cs)
  then have "0 < k" using validate_depth by fastforce
  then obtain k' where k: "k = Suc k'" by (meson gr0_conv_Suc)
  then have k': "k' = 9 - Suc d" using Split.prems by simp
  obtain y where y: "validate_children (map child_value cs) d 0 (i # ids) ps = Inr y"
    using Split.prems(1) unfolding json_of_Split
    by (auto simp: validateNodeShape.simps [of _ d] Let_def simp del: js_simps member_JObject split: if_splits sum.splits)
  have "map (\<lambda>c. (number_of (member (Some c) ''fraction''), node_of k' (member (Some c) ''node''))) (map child_value cs) = cs"
    unfolding map_map
  proof (rule map_idI)
    fix c assume c: "c \<in> set cs"
    obtain f n where fn: "c = (f, n)" by (cases c)
    from c have "child_value c \<in> set (map child_value cs)" unfolding set_map by (rule imageI)
    from validate_children_each [OF y this] obtain ids1 ps1 x1 where "validateNodeShape (Some (json_of_node n)) (Suc d) ids1 ps1 = Inr x1"
      by (auto simp: fn simp del: js_simps member_JObject)
    from Split.IH [OF c _ this k'] fn
    show "((\<lambda>c. (number_of (member (Some c) ''fraction''), node_of k' (member (Some c) ''node''))) \<circ> child_value) c = c"
      by (auto simp del: js_simps member_JObject)
  qed
  then show ?case unfolding json_of_Split k by (cases dir) (simp_all del: js_simps member_JObject map_map)
qed

lemma layout_members [simp]:
  "member (Some (json_of_layout l)) ''schemaVersion'' = Some (JNumber (ly_schemaVersion l))"
  "member (Some (json_of_layout l)) ''sidebar'' = Some (JObject (pane_entries (ly_sidebar l) @ [(js ''edge'', JString (js ''left''))]))"
  "member (Some (json_of_layout l)) ''content'' = Some (json_of_node (ly_content l))"
  "member (Some (json_of_layout l)) ''float'' = Some (JArray (map json_of_float (ly_float l)))"
  "isRecord (Some (json_of_layout l))"
  by (simp_all add: json_of_layout_def del: js_simps)

lemma one_chat:
  "(case filter (\<lambda>p. pn_panelKind p = chat_main) ps of
      [c] \<Rightarrow> if pn_collapsed c = Some (JBool True) then Some Chat_main_collapsed
             else if list_ex (\<lambda>p. pn_panelKind p = session_list) ps then Some Session_list_inside else None
    | chats \<Rightarrow> Some (Chat_main_count (length chats))) = None \<longleftrightarrow>
   (case filter (\<lambda>p. pn_panelKind p = chat_main) ps of [c] \<Rightarrow> pn_collapsed c \<noteq> Some (JBool True) | _ \<Rightarrow> False)
     \<and> (\<forall>p \<in> set ps. pn_panelKind p \<noteq> session_list)"
  by (auto simp: list_ex_iff simp del: js_simps split: list.split)

lemma validateLayout_sound:
  assumes "validateLayout raw = None"
  shows "wf_layout (layout_of raw)"
proof -
  let ?v = "Some raw"
  let ?sb = "member ?v ''sidebar''"
  obtain ids ps where h: "isRecord ?v" "member ?v ''schemaVersion'' = Some (JNumber LAYOUT_SCHEMA_VERSION)"
    "isRecord ?sb" "member ?sb ''panelKind'' = Some (JString session_list)" "isValidId (member ?sb ''id'')"
    "validateNodeShape (member ?v ''content'') 1 [string_of (member ?sb ''id'')] [] = Inr (ids, ps)"
    and last: "(case filter (\<lambda>p. pn_panelKind p = chat_main) ps of
      [c] \<Rightarrow> if pn_collapsed c = Some (JBool True) then Some Chat_main_collapsed
             else if list_ex (\<lambda>p. pn_panelKind p = session_list) ps then Some Session_list_inside else None
    | chats \<Rightarrow> Some (Chat_main_count (length chats))) = None"
    using assms unfolding validateLayout_def Let_def by (auto simp del: js_simps split: if_splits sum.splits prod.splits)
  from validate_sound(1) [OF h(6)] last [unfolded one_chat] h(2,4,5) show ?thesis
    by (auto simp: wf_layout_def layout_of_def pane_of_def Let_def isValidId_iff MAX_TREE_DEPTH_def simp del: js_simps)
qed

lemma validateLayout_complete:
  assumes "wf_layout l"
  shows "validateLayout (json_of_layout l) = None" "layout_of (json_of_layout l) = l"
proof -
  have wf: "wf_node 1 (ly_content l)" and ids: "distinct (collectLayoutNodeIds (ly_content l))"
    "set (collectLayoutNodeIds (ly_content l)) \<inter> set [pn_id (ly_sidebar l)] = {}"
    using assms by (auto simp: wf_layout_def)
  from validate_complete [OF this] assms one_chat [of "walkContentPanes (ly_content l)"]
  show "validateLayout (json_of_layout l) = None"
    by (simp add: validateLayout_def Let_def wf_layout_def del: js_simps member_JObject)
  have "node_of MAX_TREE_DEPTH (Some (json_of_node (ly_content l))) = ly_content l"
    by (rule node_of_json [OF wf]) (simp add: MAX_TREE_DEPTH_def)
  then show "layout_of (json_of_layout l) = l"
    using assms by (simp add: layout_of_def wf_layout_def del: js_simps member_JObject)
qed

lemma validateLayout_iff: "validateLayout (json_of_layout l) = None \<longleftrightarrow> wf_layout l"
proof
  assume ok: "validateLayout (json_of_layout l) = None"
  then obtain x where "validateNodeShape (Some (json_of_node (ly_content l))) 1 [pn_id (ly_sidebar l)] [] = Inr x" "ly_float l = []"
    by (auto simp: validateLayout_def Let_def simp del: js_simps member_JObject split: if_splits sum.splits)
  moreover from this have "node_of MAX_TREE_DEPTH (Some (json_of_node (ly_content l))) = ly_content l"
    by (intro node_of_validated) (auto simp: MAX_TREE_DEPTH_def)
  ultimately have "layout_of (json_of_layout l) = l" by (simp add: layout_of_def del: js_simps member_JObject)
  with validateLayout_sound [OF ok] show "wf_layout l" by simp
qed (rule validateLayout_complete)

section \<open>Layouts from outside\<close>

text \<open>A value of \<open>JSON.parse\<close> can always be cloned.\<close>

definition coerceLayout :: "json \<Rightarrow> layout \<times> layout_error option" where
  "coerceLayout raw =
     (if \<not> isRecord (Some raw) then (createDefaultLayout, Some Not_an_object)
      else (case validateLayout raw of Some reason \<Rightarrow> (createDefaultLayout, Some reason) | None \<Rightarrow> (layout_of raw, None)))"

lemma wf_default: "wf_layout createDefaultLayout"
  by code_simp

text \<open>
  C28: Whatever is in the layout file, the layout used is well formed: a session list outside the tree,
  exactly one chat that is not collapsed, distinct ids, positive fractions that sum up to about one,
  at most eight levels. A value that is not the value of a well-formed layout gives the default
  layout and a reason, and a well-formed layout that was written is read back as it was.
\<close>

theorem coerced_layout_well_formed:
  "wf_layout (fst (coerceLayout raw))
    \<and> (snd (coerceLayout raw) = None \<or> fst (coerceLayout raw) = createDefaultLayout)
    \<and> coerceLayout (json_of_layout l) = (if wf_layout l then (l, None) else (createDefaultLayout, validateLayout (json_of_layout l)))"
proof (intro conjI)
  show "wf_layout (fst (coerceLayout raw))"
    using validateLayout_sound [of raw] wf_default by (simp add: coerceLayout_def split: option.split)
  show "snd (coerceLayout raw) = None \<or> fst (coerceLayout raw) = createDefaultLayout"
    by (simp add: coerceLayout_def split: option.split)
  show "coerceLayout (json_of_layout l) = (if wf_layout l then (l, None) else (createDefaultLayout, validateLayout (json_of_layout l)))"
    using validateLayout_complete [of l] validateLayout_iff [of l]
    by (auto simp: coerceLayout_def split: option.split)
qed

end
