(* ===== verification/LayoutOps.thy ===== *)
theory LayoutOps
  imports LayoutTree
begin

text \<open>
  The operations on a layout (the rest of \<open>layoutTree.ts\<close>). The code works on a clone that it
  changes in place and validates at the end; here a change is the new list of children of the split
  concerned. An operation that is refused returns the layout it was given and a reason.
\<close>

section \<open>Results\<close>

datatype op_reason =
    Pane_not_found jsstring | Fraction_range | Index_not_integer | Split_not_found jsstring | Index_range | Content_not_split
  | Kind_not_found jsstring | Root_needs_two | Same_root_child | Only_ghosts | Same_pane | Root_not_row | Ghost_not_found jsstring
  | Column_too_narrow | Builtin_in_column | Amount_invalid | Indices_invalid | Child_too_small | Sources_empty | Target_in_sources
  | Duplicate_source | Short_by number | Rejected layout_error

record op_result =
  op_layout :: layout
  op_applied :: bool
  op_reason :: "op_reason option"

definition refuse :: "layout \<Rightarrow> op_reason option \<Rightarrow> op_result" where
  "refuse l r = \<lparr>op_layout = l, op_applied = False, op_reason = r\<rparr>"

definition finishOp :: "layout \<Rightarrow> layout \<Rightarrow> op_result" where
  "finishOp original mutated = (case validateLayout (json_of_layout mutated) of
       Some e \<Rightarrow> refuse original (Some (Rejected e))
     | None \<Rightarrow> \<lparr>op_layout = mutated, op_applied = True, op_reason = None\<rparr>)"

type_synonym children = "(number \<times> layout_node) list"

definition remove_at :: "nat \<Rightarrow> 'a list \<Rightarrow> 'a list" where
  "remove_at k xs = take k xs @ drop (Suc k) xs"

definition insert_at :: "nat \<Rightarrow> 'a \<Rightarrow> 'a list \<Rightarrow> 'a list" where
  "insert_at k x xs = take k xs @ x # drop k xs"

primrec findIndex :: "('a \<Rightarrow> bool) \<Rightarrow> 'a list \<Rightarrow> nat option" where
  "findIndex P [] = None"
| "findIndex P (x # xs) = (if P x then Some 0 else map_option Suc (findIndex P xs))"

definition isInteger :: "number \<Rightarrow> bool" where
  "isInteger x = (of_int \<lfloor>x\<rfloor> = x)"

definition normalizeSplitFractions :: "children \<Rightarrow> children" where
  "normalizeSplitFractions cs =
     (let sum = sum_list (map fst cs) in if 0 < sum then map (\<lambda>(f, n). (f / sum, n)) cs else cs)"

section \<open>Splits by id\<close>

primrec first_some :: "('a \<Rightarrow> 'b option) \<Rightarrow> (number \<times> 'a) list \<Rightarrow> 'b option" where
  "first_some g [] = None"
| "first_some g (c # cs) = (case g (snd c) of Some x \<Rightarrow> Some x | None \<Rightarrow> first_some g cs)"

lemma first_some_cong [fundef_cong]:
  "xs = ys \<Longrightarrow> (\<And>f n. (f, n) \<in> set ys \<Longrightarrow> g n = h n) \<Longrightarrow> first_some g xs = first_some h ys"
proof (induction xs arbitrary: ys)
  case (Cons c xs)
  then show ?case by (cases c) (fastforce split: option.split)
qed simp

primrec replace_first :: "('a \<Rightarrow> 'a option) \<Rightarrow> (number \<times> 'a) list \<Rightarrow> (number \<times> 'a) list option" where
  "replace_first g [] = None"
| "replace_first g (c # cs) = (case g (snd c) of Some m \<Rightarrow> Some ((fst c, m) # cs) | None \<Rightarrow> map_option ((#) c) (replace_first g cs))"

lemma replace_first_cong [fundef_cong]:
  "xs = ys \<Longrightarrow> (\<And>f n. (f, n) \<in> set ys \<Longrightarrow> g n = h n) \<Longrightarrow> replace_first g xs = replace_first h ys"
proof (induction xs arbitrary: ys)
  case (Cons c xs)
  then show ?case by (cases c) (fastforce split: option.split)
qed simp

fun findSplitById :: "layout_node \<Rightarrow> jsstring \<Rightarrow> children option" where
  "findSplitById (Pane p) sid = None"
| "findSplitById (Split i d cs) sid = (if i = sid then Some cs else first_some (\<lambda>n. findSplitById n sid) cs)"

text \<open>The tree with the children of that split replaced.\<close>

fun put_split :: "jsstring \<Rightarrow> children \<Rightarrow> layout_node \<Rightarrow> layout_node option" where
  "put_split sid new (Pane p) = None"
| "put_split sid new (Split i d cs) =
     (if i = sid then Some (Split i d new) else map_option (Split i d) (replace_first (put_split sid new) cs))"

definition with_split :: "layout \<Rightarrow> jsstring \<Rightarrow> children \<Rightarrow> layout" where
  "with_split l sid new = (case put_split sid new (ly_content l) of Some n \<Rightarrow> l\<lparr>ly_content := n\<rparr> | None \<Rightarrow> l)"

section \<open>Collapsing and fractions\<close>

fun map_panes :: "(pane \<Rightarrow> pane) \<Rightarrow> layout_node \<Rightarrow> layout_node" where
  "map_panes g (Pane p) = Pane (g p)"
| "map_panes g (Split i d cs) = Split i d (map (\<lambda>(f, n). (f, map_panes g n)) cs)"

definition setPaneCollapsed :: "layout \<Rightarrow> jsstring \<Rightarrow> bool \<Rightarrow> op_result" where
  "setPaneCollapsed l paneId collapsed =
     (if findPaneById l paneId = None then refuse l (Some (Pane_not_found paneId))
      else (let g = (\<lambda>p. if pn_id p = paneId then p\<lparr>pn_collapsed := Some (JBool collapsed)\<rparr> else p)
            in finishOp l (l\<lparr>ly_sidebar := g (ly_sidebar l), ly_content := map_panes g (ly_content l)\<rparr>)))"

definition redistribute :: "children \<Rightarrow> nat \<Rightarrow> number \<Rightarrow> children" where
  "redistribute cs k fraction =
     (let siblingSum = sum_list (map fst (remove_at k cs)); remainder = 1 - fraction
      in map (\<lambda>(i, (f, n)). (if i = k then fraction
             else if 0 < siblingSum then f / siblingSum * remainder else remainder / (of_nat (length cs) - 1), n))
           (enumerate 0 cs))"

definition setSplitChildFraction :: "layout \<Rightarrow> jsstring \<Rightarrow> number \<Rightarrow> number \<Rightarrow> op_result" where
  "setSplitChildFraction l splitId childIndex fraction =
     (if \<not> (0 < fraction \<and> fraction < 1) then refuse l (Some Fraction_range)
      else if \<not> isInteger childIndex then refuse l (Some Index_not_integer)
      else (case findSplitById (ly_content l) splitId of
          None \<Rightarrow> refuse l (Some (Split_not_found splitId))
        | Some cs \<Rightarrow>
            if childIndex < 0 \<or> of_nat (length cs) \<le> childIndex then refuse l (Some Index_range)
            else finishOp l (with_split l splitId (normalizeSplitFractions (redistribute cs (nat \<lfloor>childIndex\<rfloor>) fraction)))))"

definition transferSplitFraction :: "layout \<Rightarrow> jsstring \<Rightarrow> number \<Rightarrow> number \<Rightarrow> number \<Rightarrow> op_result" where
  "transferSplitFraction l splitId fromIndex toIndex amount =
     (if amount = 0 then refuse l (Some Amount_invalid)
      else if \<not> isInteger fromIndex \<or> \<not> isInteger toIndex \<or> fromIndex = toIndex then refuse l (Some Indices_invalid)
      else (case findSplitById (ly_content l) splitId of
          None \<Rightarrow> refuse l (Some (Split_not_found splitId))
        | Some cs \<Rightarrow>
            if fromIndex < 0 \<or> of_nat (length cs) \<le> fromIndex \<or> toIndex < 0 \<or> of_nat (length cs) \<le> toIndex then refuse l (Some Index_range)
            else (let i = nat \<lfloor>fromIndex\<rfloor>; j = nat \<lfloor>toIndex\<rfloor>; least = MIN_SPLIT_CHILD_FRACTION - FRACTION_TOLERANCE
              in if fst (cs ! i) - amount < least \<or> fst (cs ! j) + amount < least then refuse l (Some Child_too_small)
                 else finishOp l (with_split l splitId (normalizeSplitFractions
                   (cs[i := (fst (cs ! i) - amount, snd (cs ! i)), j := (fst (cs ! j) + amount, snd (cs ! j))]))))))"

fun relay :: "number \<Rightarrow> nat list \<Rightarrow> number \<Rightarrow> children \<Rightarrow> number \<times> children" where
  "relay least [] remaining cs = (remaining, cs)"
| "relay least (i # is) remaining cs =
     (if remaining \<le> FRACTION_TOLERANCE then (remaining, cs)
      else (let take = min remaining (fst (cs ! i) - least)
            in if take \<le> 0 then relay least is remaining cs
               else relay least is (remaining - take) (cs[i := (fst (cs ! i) - take, snd (cs ! i))])))"

fun check_sources :: "number list \<Rightarrow> number \<Rightarrow> number list \<Rightarrow> op_reason option" where
  "check_sources seen toIndex [] = None"
| "check_sources seen toIndex (i # is) =
     (if \<not> isInteger i then Some Index_not_integer
      else if i = toIndex then Some Target_in_sources
      else if i \<in> set seen then Some Duplicate_source
      else check_sources (i # seen) toIndex is)"

definition transferSplitFractionRelay :: "layout \<Rightarrow> jsstring \<Rightarrow> number list \<Rightarrow> number \<Rightarrow> number \<Rightarrow> op_result" where
  "transferSplitFractionRelay l splitId sources toIndex amount =
     (if \<not> 0 < amount then refuse l (Some Amount_invalid)
      else if sources = [] then refuse l (Some Sources_empty)
      else if \<not> isInteger toIndex then refuse l (Some Index_not_integer)
      else (case check_sources [] toIndex sources of
          Some r \<Rightarrow> refuse l (Some r)
        | None \<Rightarrow> (case findSplitById (ly_content l) splitId of
              None \<Rightarrow> refuse l (Some (Split_not_found splitId))
            | Some cs \<Rightarrow>
                if toIndex < 0 \<or> of_nat (length cs) \<le> toIndex \<or> list_ex (\<lambda>i. i < 0 \<or> of_nat (length cs) \<le> i) sources
                then refuse l (Some Index_range)
                else (let (remaining, cs') = relay (MIN_SPLIT_CHILD_FRACTION - FRACTION_TOLERANCE) (map (\<lambda>i. nat \<lfloor>i\<rfloor>) sources) amount cs
                  in if FRACTION_TOLERANCE < remaining then refuse l (Some (Short_by remaining))
                     else (let j = nat \<lfloor>toIndex\<rfloor>
                       in finishOp l (with_split l splitId (normalizeSplitFractions
                            (cs'[j := (fst (cs' ! j) + (amount - remaining), snd (cs' ! j))]))))))))"

section \<open>Inserting, removing and swapping at the root\<close>

record new_pane =
  np_id :: jsstring
  np_panelKind :: jsstring
  np_minWidth :: "number option"

definition or_default :: "'a option \<Rightarrow> 'a \<Rightarrow> 'a" where
  "or_default v d = (case v of Some x \<Rightarrow> x | None \<Rightarrow> d)"

definition insertRootSplitPane :: "layout \<Rightarrow> new_pane \<Rightarrow> number option \<Rightarrow> number option \<Rightarrow> op_result" where
  "insertRootSplitPane l pane at_index at_fraction =
     (case ly_content l of
        Pane _ \<Rightarrow> refuse l (Some Content_not_split)
      | Split i d cs \<Rightarrow>
          (let fraction = min (4 / 5) (max MIN_SPLIT_CHILD_FRACTION (or_default at_fraction (1 / 5)));
               index = min (of_nat (length cs)) (max 0 (or_default at_index (of_nat (length cs))));
               scaled = map (\<lambda>(f, n). (f * (1 - fraction), n)) cs;
               node = Pane (plain_pane (np_id pane) (np_panelKind pane) (map_option JNumber (np_minWidth pane)))
           in finishOp l (l\<lparr>ly_content := Split i d (normalizeSplitFractions (insert_at (nat \<lfloor>index\<rfloor>) (fraction, node) scaled))\<rparr>)))"

fun is_pane_of :: "jsstring \<Rightarrow> layout_node \<Rightarrow> bool" where
  "is_pane_of kind (Pane p) = (pn_panelKind p = kind)"
| "is_pane_of kind (Split i d cs) = False"

definition removeRootSplitPaneByKind :: "layout \<Rightarrow> jsstring \<Rightarrow> op_result" where
  "removeRootSplitPaneByKind l kind =
     (case ly_content l of
        Pane _ \<Rightarrow> refuse l (Some Content_not_split)
      | Split i d cs \<Rightarrow>
          (case findIndex (\<lambda>c. is_pane_of kind (snd c)) cs of
             None \<Rightarrow> refuse l (Some (Kind_not_found kind))
           | Some idx \<Rightarrow>
               if length cs \<le> 2 then refuse l (Some Root_needs_two)
               else finishOp l (l\<lparr>ly_content := Split i d (normalizeSplitFractions (remove_at idx cs))\<rparr>)))"

fun contains_kind :: "jsstring \<Rightarrow> layout_node \<Rightarrow> bool" where
  "contains_kind kind (Pane p) = (pn_panelKind p = kind)"
| "contains_kind kind (Split i d cs) = list_ex (\<lambda>(_, n). contains_kind kind n) cs"

definition rootChildIndexContainingKind :: "layout_node \<Rightarrow> jsstring \<Rightarrow> nat option" where
  "rootChildIndexContainingKind content kind =
     (case content of Split i Row cs \<Rightarrow> findIndex (\<lambda>c. contains_kind kind (snd c)) cs | _ \<Rightarrow> None)"

definition swap_at :: "nat \<Rightarrow> nat \<Rightarrow> 'a list \<Rightarrow> 'a list" where
  "swap_at a b xs = xs[a := xs ! b, b := xs ! a]"

definition swapRootSplitChildrenByKind :: "layout \<Rightarrow> jsstring \<Rightarrow> jsstring \<Rightarrow> op_result" where
  "swapRootSplitChildrenByKind l kindA kindB =
     (case ly_content l of
        Pane _ \<Rightarrow> refuse l (Some Content_not_split)
      | Split i d cs \<Rightarrow>
          (case (rootChildIndexContainingKind (Split i d cs) kindA, rootChildIndexContainingKind (Split i d cs) kindB) of
             (None, _) \<Rightarrow> refuse l (Some (Kind_not_found kindA))
           | (Some a, None) \<Rightarrow> refuse l (Some (Kind_not_found kindB))
           | (Some a, Some b) \<Rightarrow>
               if a = b then refuse l (Some Same_root_child)
               else finishOp l (l\<lparr>ly_content := Split i d (swap_at a b cs)\<rparr>)))"

section \<open>The grid of plugin panels\<close>

definition isGhostPanelKind :: "jsstring \<Rightarrow> bool" where
  "isGhostPanelKind kind = starts_with kind (js ''ghost:'')"

text \<open>A location: the index of the root child, and the index in its column where it is one.\<close>

type_synonym location = "nat \<times> nat option"

fun locate_from :: "jsstring \<Rightarrow> nat \<Rightarrow> children \<Rightarrow> location option" where
  "locate_from kind k [] = None"
| "locate_from kind k ((f, Pane p) # cs) = (if pn_panelKind p = kind then Some (k, None) else locate_from kind (Suc k) cs)"
| "locate_from kind k ((f, Split i Row ccs) # cs) = locate_from kind (Suc k) cs"
| "locate_from kind k ((f, Split i Column ccs) # cs) =
     (case findIndex (\<lambda>c. is_pane_of kind (snd c)) ccs of Some j \<Rightarrow> Some (k, Some j) | None \<Rightarrow> locate_from kind (Suc k) cs)"

definition findRootGhostPaneLocation :: "layout_node \<Rightarrow> jsstring \<Rightarrow> location option" where
  "findRootGhostPaneLocation content kind = (case content of Split i Row cs \<Rightarrow> locate_from kind 0 cs | _ \<Rightarrow> None)"

definition nextGridSplitId :: "layout \<Rightarrow> jsstring \<Rightarrow> jsstring" where
  "nextGridSplitId l targetId =
     (let ids = pn_id (ly_sidebar l) # collectLayoutNodeIds (ly_content l);
          base = take 120 (js ''grid-'' @ targetId);
          candidate = (\<lambda>suffix. take (127 - length (toString10 suffix)) base @ js ''-'' @ toString10 suffix)
      in if base \<notin> set ids then base
         else (case find (\<lambda>suffix. candidate suffix \<notin> set ids) [2..<10000] of
             Some suffix \<Rightarrow> candidate suffix
           | None \<Rightarrow> js ''grid-'' @ take 110 targetId @ js ''-fallback''))"

text \<open>The pane taken out, and what is left at the root; \<open>None\<close> where the code answers \<open>null\<close>.\<close>

definition removeGhostPaneFromColumn :: "children \<Rightarrow> location \<Rightarrow> (pane \<times> children) option" where
  "removeGhostPaneFromColumn rt loc =
     (case loc of
        (r, None) \<Rightarrow> None
      | (r, Some k) \<Rightarrow>
          if length rt \<le> r then None
          else (case rt ! r of
              (f, Split i Column ccs) \<Rightarrow>
                (if length ccs \<le> k then None
                 else (case snd (ccs ! k) of
                     Pane p \<Rightarrow>
                       (let rest = remove_at k ccs;
                            node = (if length rest = 1 then snd (hd rest) else Split i Column (normalizeSplitFractions rest))
                        in Some (p, rt[r := (f, node)]))
                   | _ \<Rightarrow> None))
            | _ \<Rightarrow> None))"

datatype placement = Before | After

definition beside :: "placement \<Rightarrow> nat \<Rightarrow> nat" where
  "beside placement k = (case placement of Before \<Rightarrow> k | After \<Rightarrow> Suc k)"

text \<open>The source pane, the fraction it frees at the root, and the root without it.\<close>

definition take_source :: "children \<Rightarrow> location \<Rightarrow> (pane \<times> number \<times> children) option" where
  "take_source rt loc =
     (case loc of
        (r, None) \<Rightarrow> (if length rt \<le> r then None
           else (case rt ! r of (f, Pane p) \<Rightarrow> Some (p, f, remove_at r rt) | _ \<Rightarrow> None))
      | _ \<Rightarrow> map_option (\<lambda>(p, rt'). (p, 0, rt')) (removeGhostPaneFromColumn rt loc))"

text \<open>The source put above or below the target.\<close>

definition stack_into :: "layout \<Rightarrow> jsstring \<Rightarrow> children \<Rightarrow> location \<Rightarrow> pane \<Rightarrow> number \<Rightarrow> placement \<Rightarrow> children option" where
  "stack_into l rootId rt loc source transferred placement =
     (case loc of (r, column) \<Rightarrow> (case rt ! r of (f, target) \<Rightarrow>
        let f' = f + transferred in
        case (column, target) of
          (None, Pane t) \<Rightarrow>
            (let gridId = nextGridSplitId (l\<lparr>ly_content := Split rootId Row (rt[r := (f', target)])\<rparr>) (pn_id t);
                 both = (case placement of Before \<Rightarrow> [(1 / 2, Pane source), (1 / 2, Pane t)] | After \<Rightarrow> [(1 / 2, Pane t), (1 / 2, Pane source)])
             in Some (rt[r := (f', Split gridId Column both)]))
        | (Some k, Split i Column ccs) \<Rightarrow>
            (let half = fst (ccs ! k) / 2;
                 ccs' = insert_at (beside placement k) (half, Pane source) (ccs[k := (half, snd (ccs ! k))])
             in Some (rt[r := (f', Split i Column (normalizeSplitFractions ccs'))]))
        | _ \<Rightarrow> None))"

text \<open>Both in one column: only their order changes.\<close>

definition reorder_column :: "children \<Rightarrow> nat \<Rightarrow> nat \<Rightarrow> jsstring \<Rightarrow> placement \<Rightarrow> children option" where
  "reorder_column rt r k targetKind placement =
     (case rt ! r of
        (f, Split i Column ccs) \<Rightarrow>
          (let rest = remove_at k ccs
           in (case findIndex (\<lambda>c. is_pane_of targetKind (snd c)) rest of
                 Some t \<Rightarrow> if k < length ccs then Some (rt[r := (f, Split i Column (insert_at (beside placement t) (ccs ! k) rest))]) else None
               | None \<Rightarrow> None))
      | _ \<Rightarrow> None)"

definition finish_root :: "layout \<Rightarrow> jsstring \<Rightarrow> children \<Rightarrow> op_result" where
  "finish_root l rootId rt = finishOp l (l\<lparr>ly_content := Split rootId Row rt\<rparr>)"

definition stackGhostPaneByKind :: "layout \<Rightarrow> jsstring \<Rightarrow> jsstring \<Rightarrow> placement \<Rightarrow> op_result" where
  "stackGhostPaneByKind l sourceKind targetKind placement =
     (if \<not> isGhostPanelKind sourceKind \<or> \<not> isGhostPanelKind targetKind then refuse l (Some Only_ghosts)
      else if sourceKind = targetKind then refuse l (Some Same_pane)
      else (case ly_content l of
          Split rootId Row rt \<Rightarrow>
            (case (findRootGhostPaneLocation (ly_content l) sourceKind, findRootGhostPaneLocation (ly_content l) targetKind) of
               (None, _) \<Rightarrow> refuse l (Some (Ghost_not_found sourceKind))
             | (Some source, None) \<Rightarrow> refuse l (Some (Ghost_not_found targetKind))
             | (Some source, Some target) \<Rightarrow>
                 if fst source = fst target \<and> snd source \<noteq> None \<and> snd target \<noteq> None then
                   (case reorder_column rt (fst source) (the (snd source)) targetKind placement of
                      None \<Rightarrow> refuse l None | Some rt' \<Rightarrow> finish_root l rootId rt')
                 else
                   (case take_source rt source of
                      None \<Rightarrow> refuse l (if snd source = None then None else Some (Ghost_not_found sourceKind))
                    | Some (p, transferred, rt') \<Rightarrow>
                        (case findRootGhostPaneLocation (Split rootId Row rt') targetKind of
                           None \<Rightarrow> refuse l (Some (Ghost_not_found targetKind))
                         | Some loc \<Rightarrow>
                             (case stack_into l rootId rt' loc p transferred placement of
                                None \<Rightarrow> refuse l None
                              | Some rt'' \<Rightarrow> finish_root l rootId (normalizeSplitFractions rt'')))))
        | _ \<Rightarrow> refuse l (Some Root_not_row)))"

definition moveGhostPaneToRootByKind :: "layout \<Rightarrow> jsstring \<Rightarrow> jsstring \<Rightarrow> placement \<Rightarrow> op_result" where
  "moveGhostPaneToRootByKind l sourceKind targetKind placement =
     (if \<not> isGhostPanelKind sourceKind then refuse l (Some Only_ghosts)
      else if sourceKind = targetKind then refuse l (Some Same_pane)
      else (case ly_content l of
          Split rootId Row rt \<Rightarrow>
            (case findRootGhostPaneLocation (ly_content l) sourceKind of
               None \<Rightarrow> refuse l (Some (Ghost_not_found sourceKind))
             | Some source \<Rightarrow>
                 if rootChildIndexContainingKind (ly_content l) targetKind = None then refuse l (Some (Kind_not_found targetKind))
                 else (let insert = (\<lambda>child rt'. case rootChildIndexContainingKind (Split rootId Row rt') targetKind of
                          None \<Rightarrow> refuse l (Some (Kind_not_found targetKind))
                        | Some t \<Rightarrow> finish_root l rootId (normalizeSplitFractions (insert_at (beside placement t) child rt')))
                   in (case source of
                       (r, None) \<Rightarrow> insert (rt ! r) (remove_at r rt)
                     | (r, Some k) \<Rightarrow>
                         (case rt ! r of
                            (f, Split i Column ccs) \<Rightarrow>
                              (if length ccs \<le> k \<or> \<not> (case snd (ccs ! k) of Pane _ \<Rightarrow> True | _ \<Rightarrow> False) then refuse l None
                               else (let ideal = f * fst (ccs ! k); maxTransfer = f - MIN_SPLIT_CHILD_FRACTION
                                 in if maxTransfer < MIN_SPLIT_CHILD_FRACTION then refuse l (Some Column_too_narrow)
                                    else (let extracted = min maxTransfer (max MIN_SPLIT_CHILD_FRACTION ideal)
                                      in (case removeGhostPaneFromColumn rt source of
                                            None \<Rightarrow> refuse l None
                                          | Some (p, rt') \<Rightarrow>
                                              insert (extracted, Pane p) (rt'[r := (fst (rt' ! r) - extracted, snd (rt' ! r))])))))
                          | _ \<Rightarrow> refuse l None))))
        | _ \<Rightarrow> refuse l (Some Root_not_row)))"

section \<open>Swapping any two panes\<close>

primrec first_indexed :: "(nat \<Rightarrow> number \<times> 'a \<Rightarrow> 'b option) \<Rightarrow> nat \<Rightarrow> (number \<times> 'a) list \<Rightarrow> 'b option" where
  "first_indexed g k [] = None"
| "first_indexed g k (c # cs) = (case g k c of Some x \<Rightarrow> Some x | None \<Rightarrow> first_indexed g (Suc k) cs)"

lemma first_indexed_cong [fundef_cong]:
  "xs = ys \<Longrightarrow> k = m \<Longrightarrow> (\<And>k f n. (f, n) \<in> set ys \<Longrightarrow> g k (f, n) = h k (f, n)) \<Longrightarrow> first_indexed g k xs = first_indexed h m ys"
proof (induction xs arbitrary: ys k m)
  case (Cons c xs)
  then show ?case by (cases c) (fastforce split: option.split)
qed simp

fun findPanePath :: "jsstring \<Rightarrow> layout_node \<Rightarrow> nat list option" where
  "findPanePath kind (Pane p) = (if pn_panelKind p = kind then Some [] else None)"
| "findPanePath kind (Split i d cs) = first_indexed (\<lambda>k c. case c of (_, n) \<Rightarrow> map_option ((#) k) (findPanePath kind n)) 0 cs"

fun nodeAtPath :: "layout_node \<Rightarrow> nat list \<Rightarrow> layout_node option" where
  "nodeAtPath n [] = Some n"
| "nodeAtPath (Pane p) (k # ks) = None"
| "nodeAtPath (Split i d cs) (k # ks) = (if k < length cs then nodeAtPath (snd (cs ! k)) ks else None)"

fun setNodeAtPath :: "layout_node \<Rightarrow> nat list \<Rightarrow> layout_node \<Rightarrow> layout_node option" where
  "setNodeAtPath n [] v = Some v"
| "setNodeAtPath (Pane p) (k # ks) v = None"
| "setNodeAtPath (Split i d cs) (k # ks) v =
     (if k < length cs then map_option (\<lambda>m. Split i d (cs[k := (fst (cs ! k), m)])) (setNodeAtPath (snd (cs ! k)) ks v) else None)"

definition is_root_pane :: "layout_node \<Rightarrow> jsstring \<Rightarrow> bool" where
  "is_root_pane content kind = (case (content, rootChildIndexContainingKind content kind) of
     (Split i d cs, Some k) \<Rightarrow> (case snd (cs ! k) of Pane _ \<Rightarrow> True | _ \<Rightarrow> False) | _ \<Rightarrow> False)"

definition swapPanesByKind :: "layout \<Rightarrow> jsstring \<Rightarrow> jsstring \<Rightarrow> op_result" where
  "swapPanesByKind l kindA kindB =
     (let content = ly_content l in
      if kindA = kindB then refuse l (Some Same_pane)
      else if (\<not> is_root_pane content kindA \<or> \<not> is_root_pane content kindB) \<and> (\<not> isGhostPanelKind kindA \<or> \<not> isGhostPanelKind kindB)
      then refuse l (Some Builtin_in_column)
      else (case (findPanePath kindA content, findPanePath kindB content) of
          (None, _) \<Rightarrow> refuse l (Some (Kind_not_found kindA))
        | (Some pathA, None) \<Rightarrow> refuse l (Some (Kind_not_found kindB))
        | (Some pathA, Some pathB) \<Rightarrow>
            (case (nodeAtPath content pathA, nodeAtPath content pathB) of
               (Some (Pane a), Some (Pane b)) \<Rightarrow>
                 (case setNodeAtPath content pathA (Pane b) of
                    None \<Rightarrow> refuse l None
                  | Some withA \<Rightarrow>
                      (case setNodeAtPath withA pathB (Pane a) of
                         None \<Rightarrow> refuse l None
                       | Some withB \<Rightarrow> finishOp l (l\<lparr>ly_content := withB\<rparr>)))
             | _ \<Rightarrow> refuse l None)))"

section \<open>Addressing by kind\<close>

fun findSplitChildByKindIn :: "jsstring \<Rightarrow> layout_node \<Rightarrow> (jsstring \<times> nat \<times> number) option" where
  "findSplitChildByKindIn kind (Pane p) = None"
| "findSplitChildByKindIn kind (Split i d cs) =
     first_indexed (\<lambda>k c. case c of (f, n) \<Rightarrow> if is_pane_of kind n then Some (i, k, f) else findSplitChildByKindIn kind n) 0 cs"

definition findSplitChildByPanelKind :: "layout \<Rightarrow> jsstring \<Rightarrow> (jsstring \<times> nat \<times> number) option" where
  "findSplitChildByPanelKind l kind = findSplitChildByKindIn kind (ly_content l)"

section \<open>Resetting\<close>

text \<open>The loop that looks for a free id; it ends within as many rounds as there are ids in use.\<close>

primrec free_id :: "nat \<Rightarrow> jsstring list \<Rightarrow> jsstring \<Rightarrow> jsstring \<Rightarrow> nat \<Rightarrow> jsstring" where
  "free_id 0 used base i suffix = i"
| "free_id (Suc fuel) used base i suffix =
     (if i \<in> set used then free_id fuel used base (base @ js ''-'' @ toString10 suffix) (Suc suffix) else i)"

fun ghost_children :: "number \<Rightarrow> nat \<Rightarrow> jsstring list \<Rightarrow> pane list \<Rightarrow> children" where
  "ghost_children fraction k used [] = []"
| "ghost_children fraction k used (p # ps) =
     (let base = js ''ghost-'' @ drop 6 (pn_panelKind p);
          i = free_id (Suc (length used)) used base base (Suc k)
      in (fraction, Pane (plain_pane i (pn_panelKind p) (pn_minWidth p))) # ghost_children fraction (Suc k) (i # used) ps)"

definition createDefaultLayoutPreservingGhostPanels :: "layout \<Rightarrow> layout" where
  "createDefaultLayoutPreservingGhostPanels current =
     (let ghostPanes = filter (\<lambda>p. starts_with (pn_panelKind p) (js ''ghost:'')) (walkPanes current) in
      case ly_content createDefaultLayout of
        Pane _ \<Rightarrow> createDefaultLayout
      | Split rootId d rt \<Rightarrow>
          if ghostPanes = [] then createDefaultLayout
          else (let n = of_nat (length ghostPanes);
                    ghostTotalFraction = min (3 / 5) (n * (1 / 5));
                    builtinFraction = (1 - ghostTotalFraction) / of_nat (length rt);
                    builtins = map (\<lambda>(_, n). (builtinFraction, n)) rt;
                    used = js ''sessions'' # rootId # map (\<lambda>(_, n). node_id n) builtins
                in createDefaultLayout\<lparr>ly_content := Split rootId d (normalizeSplitFractions
                     (ghost_children (ghostTotalFraction / n) 0 used ghostPanes @ builtins))\<rparr>))"

end
