(* ===== verification/LayoutLaws.thy ===== *)
theory LayoutLaws
  imports LayoutOps
begin

text \<open>
  What the operations on a layout promise: they are all or nothing and keep layouts well formed,
  the ones that rearrange lose and duplicate no pane, fractions are set and transferred exactly,
  and a reset keeps the plugin panels.
\<close>

section \<open>All or nothing\<close>

definition all_or_nothing :: "layout \<Rightarrow> op_result \<Rightarrow> bool" where
  "all_or_nothing l r \<longleftrightarrow> (if op_applied r then wf_layout (op_layout r) else op_layout r = l)"

lemma all_or_nothing_refuse [simp]: "all_or_nothing l (refuse l r)"
  by (simp add: all_or_nothing_def refuse_def)

lemma all_or_nothing_finishOp [simp]: "all_or_nothing l (finishOp l m)"
  using validateLayout_iff [of m] by (auto simp: all_or_nothing_def finishOp_def refuse_def split: option.split)

text \<open>One operation a client may call, with any arguments.\<close>

inductive layout_step :: "layout \<Rightarrow> op_result \<Rightarrow> bool" for l where
  "layout_step l (setPaneCollapsed l i b)"
| "layout_step l (setSplitChildFraction l sid k f)"
| "layout_step l (insertRootSplitPane l p k f)"
| "layout_step l (removeRootSplitPaneByKind l kind)"
| "layout_step l (swapRootSplitChildrenByKind l a b)"
| "layout_step l (stackGhostPaneByKind l a b place)"
| "layout_step l (moveGhostPaneToRootByKind l a b place)"
| "layout_step l (swapPanesByKind l a b)"
| "layout_step l (transferSplitFraction l sid j k f)"
| "layout_step l (transferSplitFractionRelay l sid sources k f)"

lemma step_all_or_nothing: "layout_step l r \<Longrightarrow> all_or_nothing l r"
proof (induction rule: layout_step.induct)
  case (7 a b place)
  show ?case
    unfolding moveGhostPaneToRootByKind_def finish_root_def Let_def
    by (auto split: layout_node.split direction.split option.split prod.split)
next
  case (8 a b)
  show ?case
    unfolding swapPanesByKind_def Let_def by (auto split: layout_node.split option.split)
qed (auto simp: setPaneCollapsed_def setSplitChildFraction_def insertRootSplitPane_def removeRootSplitPaneByKind_def
    swapRootSplitChildrenByKind_def stackGhostPaneByKind_def transferSplitFraction_def transferSplitFractionRelay_def finish_root_def
    Let_def split: layout_node.split direction.split option.split prod.split)

inductive layout_run :: "layout \<Rightarrow> layout \<Rightarrow> bool" where
  "layout_run l l"
| "layout_run l m \<Longrightarrow> layout_step m r \<Longrightarrow> layout_run l (op_layout r)"

lemma run_wf: "layout_run l m \<Longrightarrow> wf_layout l \<Longrightarrow> wf_layout m"
  by (induction rule: layout_run.induct) (metis all_or_nothing_def step_all_or_nothing)+

text \<open>
  C29: No sequence of operations, with whatever arguments, takes a well-formed layout to one that is
  not; each operation either reports that it was applied, and its layout is well formed, or returns
  the layout it was given.
\<close>

theorem operations_keep_layouts_valid:
  assumes "layout_run l m" "wf_layout l"
  shows "wf_layout m \<and> (layout_step m r \<longrightarrow> (if op_applied r then wf_layout (op_layout r) else op_layout r = m))"
proof -
  have "wf_layout m" using assms by (rule run_wf)
  then show ?thesis using step_all_or_nothing [of m r] by (auto simp: all_or_nothing_def)
qed

definition ghost_a :: new_pane where
  "ghost_a = \<lparr>np_id = js ''g1'', np_panelKind = js ''ghost:a'', np_minWidth = None\<rparr>"

definition ghost_b :: new_pane where
  "ghost_b = \<lparr>np_id = js ''g2'', np_panelKind = js ''ghost:b'', np_minWidth = None\<rparr>"

text \<open>The default layout with two plugin panels.\<close>

definition two_ghosts :: layout where
  "two_ghosts = op_layout (insertRootSplitPane (op_layout (insertRootSplitPane createDefaultLayout ghost_a None None)) ghost_b None None)"

lemma run_two_ghosts: "layout_run createDefaultLayout two_ghosts"
  unfolding two_ghosts_def
  by (rule layout_run.intros(2) [OF layout_run.intros(2) [OF layout_run.intros(1)]]; rule layout_step.intros)

lemma operations_keep_layouts_valid_witness:
  "wf_layout (op_layout (stackGhostPaneByKind two_ghosts (js ''ghost:a'') (js ''ghost:b'') Before))"
proof -
  from run_two_ghosts have "layout_run createDefaultLayout (op_layout (stackGhostPaneByKind two_ghosts (js ''ghost:a'') (js ''ghost:b'') Before))"
    by (rule layout_run.intros(2)) (rule layout_step.intros)
  from operations_keep_layouts_valid [OF this wf_default] show ?thesis by blast
qed

section \<open>Rearranging\<close>

lemma finish_panes:
  assumes "mset (walkPanes m) = mset (walkPanes l)"
  shows "mset (walkPanes (op_layout (finishOp l m))) = mset (walkPanes l)"
  using assms by (simp add: finishOp_def refuse_def split: option.split)

lemma refuse_layout [simp]: "op_layout (refuse l r) = l"
  by (simp add: refuse_def)

lemma walkPanes_content [simp]:
  "mset (walkPanes (l\<lparr>ly_content := n\<rparr>)) = mset (walkPanes l) \<longleftrightarrow> mset (walkContentPanes n) = mset (walkContentPanes (ly_content l))"
  by (simp add: walkPanes_def)

text \<open>Changing fractions only.\<close>

lemma child_panes_map: "child_panes cs = concat (map walkContentPanes (map snd cs))"
  by (induction cs) simp_all

lemma child_panes_snd: "map snd cs = map snd ds \<Longrightarrow> child_panes cs = child_panes ds"
  by (simp only: child_panes_map)

lemma snd_normalize [simp]: "map snd (normalizeSplitFractions cs) = map snd cs"
  by (simp add: normalizeSplitFractions_def Let_def split_beta comp_def)

lemma normalize_panes [simp]: "child_panes (normalizeSplitFractions cs) = child_panes cs"
  by (rule child_panes_snd) simp

lemma length_normalize [simp]: "length (normalizeSplitFractions cs) = length cs"
  by (simp add: normalizeSplitFractions_def Let_def)

lemma put_split_None: "findSplitById n sid = None \<Longrightarrow> put_split sid new n = None"
proof (induction n)
  case (Split i d ds)
  have "first_some (\<lambda>n. findSplitById n sid) es = None \<Longrightarrow> set es \<subseteq> set ds \<Longrightarrow> replace_first (put_split sid new) es = None" for es
  proof (induction es)
    case (Cons e es)
    then have "findSplitById (snd e) sid = None" by (simp split: option.splits)
    with Split.IH [of e "snd e"] Cons.prems(2) have "put_split sid new (snd e) = None" by (cases e) auto
    with Cons show ?case by (simp split: option.splits)
  qed simp
  from this [of ds] Split.prems show ?case by (simp split: if_splits)
qed simp

lemma put_split_panes:
  "findSplitById n sid = Some cs \<Longrightarrow> child_panes new = child_panes cs \<Longrightarrow>
    \<exists>m. put_split sid new n = Some m \<and> walkContentPanes m = walkContentPanes n"
proof (induction n)
  case (Split i d ds)
  show ?case
  proof (cases "i = sid")
    case False
    have "first_some (\<lambda>n. findSplitById n sid) es = Some cs \<Longrightarrow> set es \<subseteq> set ds \<Longrightarrow>
        \<exists>es'. replace_first (put_split sid new) es = Some es' \<and> child_panes es' = child_panes es" for es
    proof (induction es)
      case (Cons e es)
      show ?case
      proof (cases "findSplitById (snd e) sid")
        case None
        then have "put_split sid new (snd e) = None" using put_split_None by blast
        with None Cons show ?thesis by auto
      next
        case (Some cs')
        with Cons.prems(1) have "findSplitById (snd e) sid = Some cs" by simp
        with Split.IH [of e "snd e"] Cons.prems(2) Split.prems(2)
        obtain m where "put_split sid new (snd e) = Some m" "walkContentPanes m = walkContentPanes (snd e)" by (cases e) auto
        then show ?thesis by simp
      qed
    qed simp
    from this [of ds] Split.prems(1) False show ?thesis by auto
  qed (use Split.prems in simp)
qed simp

lemma put_split_Some: "findSplitById n sid = Some cs \<Longrightarrow> \<exists>m. put_split sid new n = Some m"
proof (induction n)
  case (Split i d ds)
  have "first_some (\<lambda>n. findSplitById n sid) es = Some cs \<Longrightarrow> set es \<subseteq> set ds \<Longrightarrow> \<exists>es'. replace_first (put_split sid new) es = Some es'" for es
  proof (induction es)
    case (Cons e es)
    with Split.IH [of e "snd e"] show ?case by (cases e) (auto split: option.splits)
  qed simp
  from this [of ds] Split.prems show ?case by (auto split: if_splits)
qed simp

lemma with_split_panes:
  assumes "findSplitById (ly_content l) sid = Some cs" "map snd new = map snd cs"
  shows "mset (walkPanes (op_layout (finishOp l (with_split l sid new)))) = mset (walkPanes l)"
proof -
  from put_split_panes [OF assms(1) child_panes_snd [OF assms(2)]]
  obtain m where "put_split sid new (ly_content l) = Some m" "walkContentPanes m = walkContentPanes (ly_content l)" by blast
  then show ?thesis by (intro finish_panes) (simp add: with_split_def)
qed

lemma map_snd_update: "map snd (cs[i := (f, snd (cs ! i))]) = map snd cs"
  by (cases "i < length cs") (auto intro!: nth_equalityI simp: nth_list_update list_update_beyond)

lemma map_snd_update2: "map snd (cs[i := (f, snd (cs ! i)), j := (g, snd (cs ! j))]) = map snd cs"
  by (cases "i < length cs"; cases "j < length cs") (auto intro!: nth_equalityI simp: nth_list_update list_update_beyond)

lemma snd_redistribute: "map snd (redistribute cs k f) = map snd cs"
  by (rule nth_equalityI) (simp_all add: redistribute_def Let_def split_beta nth_enumerate_eq)

lemma snd_relay: "map snd (snd (relay least is remaining cs)) = map snd cs"
  by (induction least "is" remaining cs rule: relay.induct) (simp_all add: Let_def map_snd_update)

text \<open>Moving children around.\<close>

lemma child_panes_mset: "mset cs = mset ds \<Longrightarrow> mset (child_panes cs) = mset (child_panes ds)"
proof -
  have "mset (concat xss) = sum_mset (image_mset mset (mset xss))" for xss :: "pane list list" by (induction xss) simp_all
  then show "mset cs = mset ds \<Longrightarrow> mset (child_panes cs) = mset (child_panes ds)" by (simp add: child_panes_map)
qed

lemma mset_insert_at [simp]: "mset (insert_at k x xs) = add_mset x (mset xs)"
proof -
  have "mset (take k xs) + mset (drop k xs) = mset xs" by (metis append_take_drop_id mset_append)
  then show ?thesis by (simp add: insert_at_def)
qed

lemma mset_remove_at: "k < length xs \<Longrightarrow> add_mset (xs ! k) (mset (remove_at k xs)) = mset xs"
proof -
  assume "k < length xs"
  then have "mset xs = mset (take k xs @ xs ! k # drop (Suc k) xs)" by (metis id_take_nth_drop)
  then show ?thesis by (simp add: remove_at_def)
qed

lemma child_panes_insert: "mset (child_panes (insert_at k c cs)) = mset (walkContentPanes (snd c)) + mset (child_panes cs)"
  by (subst child_panes_mset [of _ "c # cs"]) simp_all

lemma child_panes_remove:
  "k < length cs \<Longrightarrow> mset (walkContentPanes (snd (cs ! k))) + mset (child_panes (remove_at k cs)) = mset (child_panes cs)"
  using child_panes_mset [of "cs ! k # remove_at k cs" cs] mset_remove_at [of k cs] by simp

lemma child_panes_update:
  assumes "k < length cs"
  shows "mset (child_panes (cs[k := c])) + mset (walkContentPanes (snd (cs ! k))) = mset (walkContentPanes (snd c)) + mset (child_panes cs)"
proof -
  have "cs = take k cs @ cs ! k # drop (Suc k) cs" "cs[k := c] = take k cs @ c # drop (Suc k) cs"
    using assms by (simp_all add: id_take_nth_drop upd_conv_take_nth_drop)
  then have "child_panes cs = child_panes (take k cs) @ walkContentPanes (snd (cs ! k)) @ child_panes (drop (Suc k) cs)"
    "child_panes (cs[k := c]) = child_panes (take k cs) @ walkContentPanes (snd c) @ child_panes (drop (Suc k) cs)"
    by (metis child_simps(3) child_simps(5) child_simps(6))+
  then show ?thesis by simp
qed

lemma swap_at_mset: "a < length xs \<Longrightarrow> b < length xs \<Longrightarrow> mset (swap_at a b xs) = mset xs"
  by (simp add: swap_at_def mset_swap)

lemma findIndex_Some: "findIndex P xs = Some k \<Longrightarrow> k < length xs \<and> P (xs ! k)"
  by (induction xs arbitrary: k) (auto split: if_splits)

lemma mset_exchange:
  fixes X :: "'a multiset"
  assumes "X + B = N + C" "N + x = B + v"
  shows "X + x = C + v"
proof -
  have "X + x + B = (X + B) + x" by (simp only: ac_simps)
  also have "\<dots> = (N + x) + C" unfolding assms(1) by (simp only: ac_simps)
  also have "\<dots> = C + v + B" unfolding assms(2) by (simp only: ac_simps)
  finally show ?thesis by simp
qed

lemma single_child_panes: "length cs = 1 \<Longrightarrow> walkContentPanes (snd (hd cs)) = child_panes cs"
  by (cases cs) simp_all

lemma remove_from_column_panes:
  assumes "removeGhostPaneFromColumn rt loc = Some (p, rt')"
  shows "add_mset p (mset (child_panes rt')) = mset (child_panes rt)" "length rt' = length rt"
proof -
  obtain r k f i ccs where h: "loc = (r, Some k)" "r < length rt" "rt ! r = (f, Split i Column ccs)" "k < length ccs" "snd (ccs ! k) = Pane p"
    and rt': "rt' = rt[r := (f, if length (remove_at k ccs) = 1 then snd (hd (remove_at k ccs))
        else Split i Column (normalizeSplitFractions (remove_at k ccs)))]"
    using assms by (auto simp: removeGhostPaneFromColumn_def Let_def
      split: prod.splits option.splits if_splits layout_node.splits direction.splits)
  define node where "node = (if length (remove_at k ccs) = 1 then snd (hd (remove_at k ccs))
      else Split i Column (normalizeSplitFractions (remove_at k ccs)))"
  have eq: "rt' = rt[r := (f, node)]" by (simp only: rt' node_def)
  have "add_mset p (mset (child_panes (remove_at k ccs))) = mset (child_panes ccs)"
    using child_panes_remove [OF h(4)] h(5) by simp
  moreover have "walkContentPanes node = child_panes (remove_at k ccs)" by (simp add: node_def single_child_panes)
  ultimately have "mset (walkContentPanes node) + {#p#} = mset (child_panes ccs) + {#}" by simp
  from mset_exchange [OF child_panes_update [OF h(2), of "(f, node)", unfolded h(3) snd_conv collect_Split] this]
  show "add_mset p (mset (child_panes rt')) = mset (child_panes rt)" by (simp add: eq)
  show "length rt' = length rt" by (simp add: eq)
qed

lemma take_source_panes:
  assumes "take_source rt loc = Some (p, f, rt')"
  shows "add_mset p (mset (child_panes rt')) = mset (child_panes rt)"
proof (cases loc)
  case (Pair r c)
  show ?thesis
  proof (cases c)
    case None
    with assms Pair have h: "r < length rt" "snd (rt ! r) = Pane p" "rt' = remove_at r rt"
      by (auto simp: take_source_def split: if_splits prod.splits layout_node.splits)
    from child_panes_remove [OF h(1)] h(2,3) show ?thesis by simp
  next
    case (Some k)
    with assms Pair show ?thesis by (auto simp: take_source_def dest: remove_from_column_panes)
  qed
qed

lemma stack_into_panes:
  assumes "stack_into l i rt loc p transferred place = Some rt'" "fst loc < length rt"
  shows "mset (child_panes rt') = add_mset p (mset (child_panes rt))"
proof -
  obtain r c f target where h: "loc = (r, c)" "rt ! r = (f, target)" by (metis surj_pair)
  have upd: "mset (child_panes (rt[r := (g, n)])) + mset (walkContentPanes target) = mset (walkContentPanes n) + mset (child_panes rt)" for g n
    using child_panes_update [of r rt "(g, n)"] assms(2) h by simp
  obtain g n where "rt' = rt[r := (g, n)]" "mset (walkContentPanes n) = add_mset p (mset (walkContentPanes target))"
  proof (cases c)
    case None
    with assms(1) h obtain t where t: "target = Pane t" by (cases target) (auto simp: stack_into_def Let_def)
    with assms(1) h None show thesis by (cases place) (auto simp: stack_into_def Let_def intro!: that)
  next
    case (Some k)
    with assms(1) h obtain j ccs where t: "target = Split j Column ccs"
      by (cases target) (auto simp: stack_into_def Let_def split: direction.splits)
    have "map snd (ccs[k := (g, snd (ccs ! k))]) = map snd ccs" for g by (rule map_snd_update)
    from child_panes_snd [OF this] t assms(1) h Some show thesis
      by (auto simp: stack_into_def Let_def child_panes_insert intro!: that)
  qed
  with upd [of g n] show ?thesis by simp
qed

lemma reorder_column_panes:
  assumes "reorder_column rt r k kind place = Some rt'" "r < length rt"
  shows "mset (child_panes rt') = mset (child_panes rt)"
proof -
  obtain f i ccs t where h: "rt ! r = (f, Split i Column ccs)" "k < length ccs"
    "rt' = rt[r := (f, Split i Column (insert_at (beside place t) (ccs ! k) (remove_at k ccs)))]"
    using assms(1) by (auto simp: reorder_column_def Let_def split: prod.splits layout_node.splits direction.splits option.splits if_splits)
  have "mset (child_panes (insert_at (beside place t) (ccs ! k) (remove_at k ccs))) = mset (child_panes ccs)"
    using child_panes_remove [OF h(2)] by (simp add: child_panes_insert)
  with child_panes_update [OF assms(2), of "(f, Split i Column (insert_at (beside place t) (ccs ! k) (remove_at k ccs)))"] h(1,3)
  show ?thesis by simp
qed

lemma locate_bound: "locate_from kind k cs = Some (r, c) \<Longrightarrow> k \<le> r \<and> r < k + length cs"
  by (induction kind k cs rule: locate_from.induct) (auto split: if_splits option.splits)

lemma location_bound:
  "findRootGhostPaneLocation (Split i Row cs) kind = Some (r, c) \<Longrightarrow> r < length cs"
  by (auto simp: findRootGhostPaneLocation_def dest: locate_bound)

lemma nodeAtPath_set:
  "nodeAtPath n p = Some (Pane a) \<Longrightarrow> nodeAtPath n q = Some (Pane b) \<Longrightarrow> setNodeAtPath n p (Pane b) = Some m \<Longrightarrow>
    nodeAtPath m q = Some (Pane b)"
proof (induction n p "Pane b" arbitrary: m q rule: setNodeAtPath.induct)
  case (1 n)
  then show ?case by (cases q) auto
next
  case (3 i d cs k ks)
  then show ?case by (cases q) (auto simp: nth_list_update split: if_splits)
qed simp

lemma setNodeAtPath_panes:
  "nodeAtPath n p = Some x \<Longrightarrow> setNodeAtPath n p v = Some m \<Longrightarrow>
    mset (walkContentPanes m) + mset (walkContentPanes x) = mset (walkContentPanes n) + mset (walkContentPanes v)"
proof (induction n p v arbitrary: m rule: setNodeAtPath.induct)
  case (3 i d cs k ks v)
  then obtain m' where k: "k < length cs" and m': "setNodeAtPath (snd (cs ! k)) ks v = Some m'" "m = Split i d (cs[k := (fst (cs ! k), m')])"
    by (auto split: if_splits)
  from 3(1) [OF k _ m'(1)] 3(2) k
  have "mset (walkContentPanes m') + mset (walkContentPanes x) = mset (walkContentPanes (snd (cs ! k))) + mset (walkContentPanes v)" by simp
  from mset_exchange [OF child_panes_update [OF k, of "(fst (cs ! k), m')", unfolded snd_conv] this]
  show ?case by (simp add: m'(2) add.commute)
qed auto

section \<open>No pane is lost or doubled\<close>

abbreviation keeps_panes :: "layout \<Rightarrow> op_result \<Rightarrow> bool" where
  "keeps_panes l r \<equiv> mset (walkPanes (op_layout r)) = mset (walkPanes l)"

lemma finish_root_panes:
  "ly_content l = Split i d rt \<Longrightarrow> mset (child_panes rt') = mset (child_panes rt) \<Longrightarrow> keeps_panes l (finish_root l j rt')"
  unfolding finish_root_def by (rule finish_panes) simp

lemma stack_keeps_panes: "keeps_panes l (stackGhostPaneByKind l a b place)"
proof (cases "ly_content l")
  case (Split i d rt)
  show ?thesis
  proof (cases d)
    case Row
    show ?thesis
    proof (cases "findRootGhostPaneLocation (Split i Row rt) a"; cases "findRootGhostPaneLocation (Split i Row rt) b")
      fix src dst
      assume loc: "findRootGhostPaneLocation (Split i Row rt) a = Some src" "findRootGhostPaneLocation (Split i Row rt) b = Some dst"
      have src: "fst src < length rt" using location_bound loc(1) by (metis surjective_pairing)
      have 1: "keeps_panes l (finish_root l i rt')" if "reorder_column rt (fst src) k b place = Some rt'" for k rt'
        using finish_root_panes [OF Split reorder_column_panes [OF that src]] .
      have 2: "keeps_panes l (finish_root l i (normalizeSplitFractions rt''))"
        if "take_source rt src = Some (p, f, rt')" "findRootGhostPaneLocation (Split i Row rt') b = Some loc"
          "stack_into l i rt' loc p f place = Some rt''" for p f rt' loc rt''
      proof (rule finish_root_panes [OF Split])
        have "fst loc < length rt'" using location_bound that(2) by (metis surjective_pairing)
        from stack_into_panes [OF that(3) this] take_source_panes [OF that(1)]
        show "mset (child_panes (normalizeSplitFractions rt'')) = mset (child_panes rt)" by simp
      qed
      show ?thesis
        using 1 2 by (auto simp: stackGhostPaneByKind_def Split Row loc split: option.split)
    qed (simp_all add: stackGhostPaneByKind_def Split Row)
  qed (simp add: stackGhostPaneByKind_def Split)
qed (simp add: stackGhostPaneByKind_def)

lemma move_keeps_panes: "keeps_panes l (moveGhostPaneToRootByKind l a b place)"
proof (cases "\<exists>i rt. ly_content l = Split i Row rt")
  case True
  then obtain i rt where content: "ly_content l = Split i Row rt" by blast
  have ins: "keeps_panes l (case rootChildIndexContainingKind (Split i Row rt') b of
       None \<Rightarrow> refuse l (Some (Kind_not_found b))
     | Some t \<Rightarrow> finish_root l i (normalizeSplitFractions (insert_at (beside place t) child rt')))"
    if "mset (walkContentPanes (snd child)) + mset (child_panes rt') = mset (child_panes rt)" for child rt'
    using that by (auto split: option.split intro!: finish_root_panes [OF content] simp: child_panes_insert)
  show ?thesis
  proof (cases "findRootGhostPaneLocation (Split i Row rt) a")
    case None
    then show ?thesis by (simp add: moveGhostPaneToRootByKind_def content)
  next
    case (Some src)
    obtain r c where src: "src = (r, c)" by (cases src)
    have r: "r < length rt" using location_bound Some src by simp
    show ?thesis
    proof (cases c)
      case None
      from ins [OF child_panes_remove [OF r]] show ?thesis
        by (simp add: moveGhostPaneToRootByKind_def content Some src None Let_def)
    next
      case c: (Some k)
      have upd: "mset (walkContentPanes (snd (x, Pane p))) + mset (child_panes (rt'[r := (y, snd (rt' ! r))])) = mset (child_panes rt)"
        if "removeGhostPaneFromColumn rt (r, Some k) = Some (p, rt')" for x y p rt'
        using remove_from_column_panes(1) [OF that] child_panes_snd [OF map_snd_update [of rt' r y]] by simp
      show ?thesis
        using ins [OF upd]
        by (auto simp: moveGhostPaneToRootByKind_def content Some src c Let_def simp del: insert_iff
            split: prod.split layout_node.split direction.split option.split)
    qed
  qed
next
  case False
  then show ?thesis
    by (auto simp: moveGhostPaneToRootByKind_def split: layout_node.split direction.split)
qed

lemma swap_panes_keeps_panes: "keeps_panes l (swapPanesByKind l a b)"
proof -
  have "keeps_panes l (finishOp l (l\<lparr>ly_content := m'\<rparr>))"
    if "nodeAtPath (ly_content l) p = Some (Pane x)" "nodeAtPath (ly_content l) q = Some (Pane y)"
      "setNodeAtPath (ly_content l) p (Pane y) = Some m" "setNodeAtPath m q (Pane x) = Some m'" for p q x y m m'
    using setNodeAtPath_panes [OF that(1,3)] setNodeAtPath_panes [OF nodeAtPath_set [OF that(1-3)] that(4)]
    by (intro finish_panes) simp
  then show ?thesis by (auto simp: swapPanesByKind_def Let_def split: option.split layout_node.split)
qed

lemma swap_children_keeps_panes: "keeps_panes l (swapRootSplitChildrenByKind l a b)"
proof -
  have "keeps_panes l (finishOp l (l\<lparr>ly_content := Split i d (swap_at x y cs)\<rparr>))"
    if "ly_content l = Split i d cs" "rootChildIndexContainingKind (Split i d cs) a = Some x"
      "rootChildIndexContainingKind (Split i d cs) b = Some y" for i d cs x y
  proof (rule finish_panes)
    have "x < length cs" "y < length cs"
      using that(2,3) by (auto simp: rootChildIndexContainingKind_def dest: findIndex_Some split: direction.splits)
    then show "mset (walkPanes (l\<lparr>ly_content := Split i d (swap_at x y cs)\<rparr>)) = mset (walkPanes l)"
      by (simp add: that(1) child_panes_mset [OF swap_at_mset])
  qed
  then show ?thesis by (auto simp: swapRootSplitChildrenByKind_def split: layout_node.split option.split)
qed

lemma fractions_keep_panes:
  "keeps_panes l (setSplitChildFraction l sid x f)" "keeps_panes l (transferSplitFraction l sid x y f)"
  "keeps_panes l (transferSplitFractionRelay l sid sources x f)"
proof -
  show "keeps_panes l (setSplitChildFraction l sid x f)"
    by (auto simp: setSplitChildFraction_def snd_redistribute split: option.split intro!: with_split_panes)
  show "keeps_panes l (transferSplitFraction l sid x y f)"
    by (auto simp: transferSplitFraction_def Let_def map_snd_update2 split: option.split intro!: with_split_panes)
  have "map snd (cs'[j := (g, snd (cs' ! j))]) = map snd cs" if "relay least is f cs = (rem, cs')" for least "is" cs rem cs' j g
    using snd_relay [of least "is" f cs] that by (simp add: map_snd_update)
  then show "keeps_panes l (transferSplitFractionRelay l sid sources x f)"
    by (auto simp: transferSplitFractionRelay_def Let_def split: option.split prod.split intro!: with_split_panes)
qed

text \<open>The operations that put the panels of a layout elsewhere, resize or swap them.\<close>

inductive rearranged :: "layout \<Rightarrow> layout \<Rightarrow> bool" where
  "rearranged l l"
| "rearranged l m \<Longrightarrow> rearranged l (op_layout (setSplitChildFraction m sid k f))"
| "rearranged l m \<Longrightarrow> rearranged l (op_layout (transferSplitFraction m sid j k f))"
| "rearranged l m \<Longrightarrow> rearranged l (op_layout (transferSplitFractionRelay m sid sources k f))"
| "rearranged l m \<Longrightarrow> rearranged l (op_layout (swapRootSplitChildrenByKind m a b))"
| "rearranged l m \<Longrightarrow> rearranged l (op_layout (swapPanesByKind m a b))"
| "rearranged l m \<Longrightarrow> rearranged l (op_layout (stackGhostPaneByKind m a b place))"
| "rearranged l m \<Longrightarrow> rearranged l (op_layout (moveGhostPaneToRootByKind m a b place))"

text \<open>
  C30: Rearranging loses no panel and doubles none. After any sequence of swapping, stacking in the
  grid, moving out of it and resizing, applied or refused, the layout has exactly the panes it had,
  with their ids, kinds, collapse states and widths.
\<close>

theorem rearranging_keeps_panes:
  assumes "rearranged l m"
  shows "mset (walkPanes m) = mset (walkPanes l)"
  using assms
  by (induction rule: rearranged.induct)
    (simp_all only: fractions_keep_panes swap_children_keeps_panes swap_panes_keeps_panes stack_keeps_panes move_keeps_panes)

lemma rearranging_keeps_panes_witness:
  "mset (walkPanes (op_layout (moveGhostPaneToRootByKind (op_layout (stackGhostPaneByKind two_ghosts (js ''ghost:a'') (js ''ghost:b'') Before))
     (js ''ghost:a'') chat_main After))) = mset (walkPanes two_ghosts)"
  by (rule rearranging_keeps_panes) (intro rearranged.intros)

end
