(* ===== verification/LayoutFractions.thy ===== *)
theory LayoutFractions
  imports LayoutLaws
begin

text \<open>
  The fractions of a split: what the operations that resize make of them, and what a reset to the
  default layout keeps.
\<close>

section \<open>The split that is changed\<close>

lemma put_then_find:
  "findSplitById n sid = Some cs \<Longrightarrow> put_split sid new n = Some m \<Longrightarrow> findSplitById m sid = Some new"
proof (induction n arbitrary: m)
  case (Split i d ds)
  show ?case
  proof (cases "i = sid")
    case False
    have "first_some (\<lambda>n. findSplitById n sid) es = Some cs \<Longrightarrow> set es \<subseteq> set ds \<Longrightarrow> replace_first (put_split sid new) es = Some es' \<Longrightarrow>
        first_some (\<lambda>n. findSplitById n sid) es' = Some new" for es es'
    proof (induction es arbitrary: es')
      case (Cons e es)
      show ?case
      proof (cases "findSplitById (snd e) sid")
        case None
        then have none: "put_split sid new (snd e) = None" by (rule put_split_None)
        with Cons.prems(3) obtain es1 where "replace_first (put_split sid new) es = Some es1" "es' = e # es1" by auto
        with Cons.IH [of es1] Cons.prems(1,2) None show ?thesis by simp
      next
        case (Some cs')
        with Cons.prems(1) have found: "findSplitById (snd e) sid = Some cs" by simp
        have "\<exists>m. put_split sid new (snd e) = Some m" using put_split_Some [OF found] .
        then obtain m where m: "put_split sid new (snd e) = Some m" by blast
        with Split.IH [of e "snd e" m] found Cons.prems(2) have "findSplitById m sid = Some new" by (cases e) auto
        with m Cons.prems(3) show ?thesis by auto
      qed
    qed simp
    from this [of ds] Split.prems False show ?thesis by auto
  qed (use Split.prems in auto)
qed simp

lemma with_split_find:
  assumes "findSplitById (ly_content l) sid = Some cs"
  shows "findSplitById (ly_content (with_split l sid new)) sid = Some new"
proof -
  obtain m where "put_split sid new (ly_content l) = Some m" using put_split_Some [OF assms] by blast
  with put_then_find [OF assms this] show ?thesis by (simp add: with_split_def)
qed

lemma wf_find:
  "wf_node d n \<Longrightarrow> findSplitById n sid = Some cs \<Longrightarrow> 2 \<le> length cs \<and> (\<forall>c \<in> set cs. 0 < fst c)"
proof (induction n arbitrary: d)
  case (Split i dir ds)
  show ?case
  proof (cases "i = sid")
    case False
    have "first_some (\<lambda>n. findSplitById n sid) es = Some cs \<Longrightarrow> set es \<subseteq> set ds \<Longrightarrow> 2 \<le> length cs \<and> (\<forall>c \<in> set cs. 0 < fst c)" for es
    proof (induction es)
      case (Cons e es)
      then show ?case
      proof (cases "findSplitById (snd e) sid")
        case (Some cs')
        obtain f m where e: "e = (f, m)" by (cases e)
        have "wf_node (Suc d) m" using Split.prems(1) Cons.prems(2) e by auto
        moreover have "findSplitById m sid = Some cs" using Some Cons.prems(1) e by simp
        moreover have "(f, m) \<in> set ds" using Cons.prems(2) e by simp
        ultimately show ?thesis using Split.IH [of "(f, m)" m "Suc d"] by simp
      qed auto
    qed simp
    from this [of ds] Split.prems(2) False show ?thesis by simp
  qed (use Split.prems in auto)
qed simp

lemma finishOp_applied_iff: "op_applied (finishOp l m) \<longleftrightarrow> wf_layout m"
  by (simp add: finishOp_def refuse_def validateLayout_iff [symmetric] split: option.split)

lemma finishOp_applied: "op_applied (finishOp l m) \<Longrightarrow> op_layout (finishOp l m) = m"
  by (simp add: finishOp_def refuse_def split: option.splits)

lemma refuse_not_applied [simp]: "\<not> op_applied (refuse l r)"
  by (simp add: refuse_def)

lemma normalize_exact: "sum_list (map fst cs) = 1 \<Longrightarrow> normalizeSplitFractions cs = cs"
  by (simp add: normalizeSplitFractions_def Let_def map_idI split_beta)

section \<open>Setting a fraction\<close>

lemma redistribute_parts:
  assumes "k < length cs"
  shows "redistribute cs k f =
    (let S = sum_list (map fst (remove_at k cs));
         g = (\<lambda>c. (if 0 < S then fst c / S * (1 - f) else (1 - f) / (of_nat (length cs) - 1), snd c))
     in map g (take k cs) @ (f, snd (cs ! k)) # map g (drop (Suc k) cs))"
  using assms
  by (intro nth_equalityI) (auto simp: redistribute_def Let_def nth_append nth_enumerate_eq split_beta min_def nth_Cons')

lemma sum_scaled: "(\<Sum>c\<leftarrow>cs. fst c * r / S) = sum_list (map fst cs) * (r :: number) / S"
  by (induction cs) (simp_all add: add_divide_distrib distrib_right)

lemma sum_redistribute:
  assumes "k < length cs" "0 < sum_list (map fst (remove_at k cs))"
  shows "sum_list (map fst (redistribute cs k f)) = 1"
proof -
  let ?S = "sum_list (map fst (remove_at k cs))"
  have "sum_list (map fst (take k cs)) + sum_list (map fst (drop (Suc k) cs)) = ?S" by (simp add: remove_at_def)
  then have "(sum_list (map fst (take k cs)) / ?S + sum_list (map fst (drop (Suc k) cs)) / ?S) * (1 - f) = 1 - f"
    using assms(2) by (simp add: add_divide_distrib [symmetric])
  then have "sum_list (map fst (take k cs)) / ?S * (1 - f) + sum_list (map fst (drop (Suc k) cs)) / ?S * (1 - f) = 1 - f"
    by (simp only: distrib_right)
  then show ?thesis
    using assms(2) by (simp add: redistribute_parts [OF assms(1)] Let_def comp_def sum_scaled)
qed

lemma split_changed:
  assumes "r = finishOp l (with_split l sid new)" "op_applied r" "findSplitById (ly_content l) sid = Some cs"
  shows "findSplitById (ly_content (op_layout r)) sid = Some new"
  using finishOp_applied [OF assms(2) [unfolded assms(1)]] with_split_find [OF assms(3)] by (simp add: assms(1))

lemma sum_remove_at: "k < length cs \<Longrightarrow> sum_list (map fst (remove_at k cs)) = sum_list (map fst cs) - fst (cs ! k :: number \<times> 'a)"
proof -
  assume "k < length cs"
  then have "sum_list (map fst cs) = sum_list (map fst (take k cs @ cs ! k # drop (Suc k) cs))" by (metis id_take_nth_drop)
  then show ?thesis by (simp add: remove_at_def)
qed

lemma sum_pos: "cs \<noteq> [] \<Longrightarrow> \<forall>c \<in> set cs. 0 < (fst c :: number) \<Longrightarrow> 0 < sum_list (map fst cs)"
proof (induction cs)
  case (Cons c cs)
  then show ?case by (cases "cs = []") (simp_all add: add_pos_pos)
qed simp

lemma siblings_positive:
  assumes "k < length cs" "2 \<le> length cs" "\<forall>c \<in> set cs. 0 < (fst c :: number)"
  shows "0 < sum_list (map fst (remove_at k cs))"
proof -
  have ne: "remove_at k cs \<noteq> []" using assms(1,2) by (auto simp: remove_at_def)
  have "\<forall>c \<in> set (remove_at k cs). 0 < fst c" using assms(3) by (auto simp: remove_at_def dest: in_set_takeD in_set_dropD)
  with ne show ?thesis by (rule sum_pos)
qed

text \<open>
  Setting a fraction gives exactly that fraction. When the operation is applied, the split has its
  children as before, its fractions sum up to one, the chosen child has the fraction asked for, and
  the others keep their proportions among each other.
\<close>

theorem set_fraction_exact:
  assumes "wf_layout l" "findSplitById (ly_content l) sid = Some cs" "op_applied (setSplitChildFraction l sid k f)"
  shows "\<exists>new. findSplitById (ly_content (op_layout (setSplitChildFraction l sid k f))) sid = Some new
    \<and> map snd new = map snd cs \<and> sum_list (map fst new) = 1 \<and> fst (new ! nat \<lfloor>k\<rfloor>) = f
    \<and> (\<forall>i j. i < length cs \<and> j < length cs \<and> i \<noteq> nat \<lfloor>k\<rfloor> \<and> j \<noteq> nat \<lfloor>k\<rfloor> \<longrightarrow> fst (new ! i) * fst (cs ! j) = fst (new ! j) * fst (cs ! i))"
proof -
  let ?k = "nat \<lfloor>k\<rfloor>"
  let ?new = "redistribute cs ?k f"
  have applied: "isInteger k" "0 \<le> k" "k < of_nat (length cs)"
    and eq: "setSplitChildFraction l sid k f = finishOp l (with_split l sid (normalizeSplitFractions ?new))"
    using assms(3) by (auto simp: setSplitChildFraction_def assms(2) split: if_splits)
  have k: "?k < length cs" using applied by (simp add: floor_less_iff nat_less_iff)
  have "wf_node 1 (ly_content l)" using assms(1) by (simp add: wf_layout_def)
  from wf_find [OF this assms(2)] have pos: "0 < sum_list (map fst (remove_at ?k cs))"
    by (intro siblings_positive [OF k]) auto
  have sum: "sum_list (map fst ?new) = 1" by (rule sum_redistribute [OF k pos])
  have "findSplitById (ly_content (op_layout (setSplitChildFraction l sid k f))) sid = Some ?new"
    using split_changed [OF eq assms(3,2)] by (simp add: normalize_exact [OF sum])
  moreover have "fst (?new ! i) = (if i = ?k then f else fst (cs ! i) / sum_list (map fst (remove_at ?k cs)) * (1 - f))" if "i < length cs" for i
    using that pos by (simp add: redistribute_def Let_def split_beta nth_enumerate_eq)
  ultimately show ?thesis using sum k by (auto simp: snd_redistribute)
qed

lemma set_fraction_exact_witness:
  "\<exists>new. findSplitById (ly_content (op_layout (setSplitChildFraction createDefaultLayout (js ''root'') 1 (3 / 10)))) (js ''root'') = Some new
    \<and> fst (new ! 1) = 3 / 10 \<and> sum_list (map fst new) = 1"
proof -
  obtain cs where "findSplitById (ly_content createDefaultLayout) (js ''root'') = Some cs" by (simp add: createDefaultLayout_def)
  moreover have "op_applied (setSplitChildFraction createDefaultLayout (js ''root'') 1 (3 / 10))" by code_simp
  ultimately show ?thesis using set_fraction_exact [OF wf_default] by fastforce
qed

section \<open>Transfers by relay\<close>

lemma sum_update: "i < length cs \<Longrightarrow> sum_list (map fst (cs[i := (f, n)])) = sum_list (map fst cs) - fst (cs ! i) + (f :: number)"
proof -
  assume i: "i < length cs"
  have "map fst cs = take i (map fst cs) @ fst (cs ! i) # drop (Suc i) (map fst cs)"
    using i by (metis id_take_nth_drop length_map nth_map)
  then have "sum_list (map fst cs) = sum_list (take i (map fst cs)) + (fst (cs ! i) + sum_list (drop (Suc i) (map fst cs)))"
    by (metis sum_list.Cons sum_list.append)
  moreover have "map fst (cs[i := (f, n)]) = take i (map fst cs) @ f # drop (Suc i) (map fst cs)"
    using i by (simp add: upd_conv_take_nth_drop take_map drop_map)
  ultimately show ?thesis by simp
qed

text \<open>What the sources give: no more than asked for, none below the least fraction, and nothing gets lost.\<close>

lemma relay_gives:
  "relay least is rem cs = (rem', cs') \<Longrightarrow> 0 \<le> rem \<Longrightarrow> \<forall>i \<in> set is. i < length cs \<Longrightarrow>
    length cs' = length cs \<and> 0 \<le> rem' \<and> rem' \<le> rem \<and> sum_list (map fst cs') = sum_list (map fst cs) - (rem - rem')
    \<and> (\<forall>i < length cs. fst (cs' ! i) = fst (cs ! i) \<or> i \<in> set is \<and> fst (cs' ! i) < fst (cs ! i) \<and> least \<le> fst (cs' ! i))"
proof (induction least "is" rem cs rule: relay.induct)
  case (2 least i is' rem cs)
  let ?take = "min rem (fst (cs ! i) - least)"
  consider (enough) "rem \<le> FRACTION_TOLERANCE" | (none) "\<not> rem \<le> FRACTION_TOLERANCE" "?take \<le> 0"
    | (some) "\<not> rem \<le> FRACTION_TOLERANCE" "0 < ?take" by linarith
  then show ?case
  proof cases
    case none
    with 2(3) have "relay least is' rem cs = (rem', cs')" by (simp add: Let_def)
    from 2(1) [OF none(1) refl none(2) this 2(4)] 2(5) show ?thesis by auto
  next
    case some
    let ?cs = "cs[i := (fst (cs ! i) - ?take, snd (cs ! i))]"
    have "\<not> ?take \<le> 0" using some(2) by linarith
    with some(1) 2(3) have r: "relay least is' (rem - ?take) ?cs = (rem', cs')"
      by (simp only: relay.simps Let_def if_False)
    have i: "i < length cs" using 2(5) by simp
    have "\<not> ?take \<le> 0" "0 \<le> rem - ?take" using some(2) by (simp_all add: min_def)
    from 2(2) [OF some(1) refl this(1) r this(2)] 2(5)
    have IH: "length cs' = length cs" "0 \<le> rem'" "rem' \<le> rem - ?take" "sum_list (map fst cs') = sum_list (map fst ?cs) - (rem - ?take - rem')"
      "\<And>j. j < length cs \<Longrightarrow> fst (cs' ! j) = fst (?cs ! j) \<or> j \<in> set is' \<and> fst (cs' ! j) < fst (?cs ! j) \<and> least \<le> fst (cs' ! j)"
      by auto
    have "sum_list (map fst cs') = sum_list (map fst cs) - (rem - rem')" using IH(4) sum_update [OF i] by simp
    moreover have "fst (cs' ! j) = fst (cs ! j) \<or> j \<in> set (i # is') \<and> fst (cs' ! j) < fst (cs ! j) \<and> least \<le> fst (cs' ! j)"
      if "j < length cs" for j
    proof (cases "j = i")
      case True
      have "least \<le> fst (cs ! i) - ?take" by (simp add: min_def)
      with IH(5) [OF that] True i some(2) show ?thesis by auto
    next
      case False
      with IH(5) [OF that] show ?thesis by auto
    qed
    ultimately show ?thesis using IH(1-3) some(2) by auto
  qed (use 2 in simp)
qed simp

lemma check_sources_ok: "check_sources seen t sources = None \<Longrightarrow> \<forall>i \<in> set sources. isInteger i \<and> i \<noteq> t"
  by (induction seen t sources rule: check_sources.induct) (auto split: if_splits)

text \<open>
  A relayed transfer balances. When it is applied to a split whose fractions sum up to one, the
  split keeps its children and its sum; the target gains the amount, up to the tolerance; only
  sources lose, and none of them falls below the least fraction less the tolerance.
\<close>

theorem relay_balances:
  assumes "findSplitById (ly_content l) sid = Some cs" "sum_list (map fst cs) = 1"
    "op_applied (transferSplitFractionRelay l sid sources to_index amount)"
  shows "\<exists>new given. findSplitById (ly_content (op_layout (transferSplitFractionRelay l sid sources to_index amount))) sid = Some new
    \<and> map snd new = map snd cs \<and> sum_list (map fst new) = 1
    \<and> amount - FRACTION_TOLERANCE \<le> given \<and> given \<le> amount
    \<and> fst (new ! nat \<lfloor>to_index\<rfloor>) = fst (cs ! nat \<lfloor>to_index\<rfloor>) + given
    \<and> (\<forall>i < length cs. i = nat \<lfloor>to_index\<rfloor> \<or> fst (new ! i) = fst (cs ! i)
         \<or> of_nat i \<in> set sources \<and> fst (new ! i) < fst (cs ! i) \<and> MIN_SPLIT_CHILD_FRACTION - FRACTION_TOLERANCE \<le> fst (new ! i))"
proof -
  let ?is = "map (\<lambda>i. nat \<lfloor>i\<rfloor>) sources" and ?j = "nat \<lfloor>to_index\<rfloor>"
  let ?least = "MIN_SPLIT_CHILD_FRACTION - FRACTION_TOLERANCE"
  obtain rem cs' where rel: "relay ?least ?is amount cs = (rem, cs')" by (cases "relay ?least ?is amount cs")
  let ?new = "cs'[?j := (fst (cs' ! ?j) + (amount - rem), snd (cs' ! ?j))]"
  have guards: "0 < amount" "isInteger to_index" "check_sources [] to_index sources = None" "0 \<le> to_index" "to_index < of_nat (length cs)"
    "\<forall>i \<in> set sources. 0 \<le> i \<and> i < of_nat (length cs)" "rem \<le> FRACTION_TOLERANCE"
    and eq: "transferSplitFractionRelay l sid sources to_index amount = finishOp l (with_split l sid (normalizeSplitFractions ?new))"
    using assms(3) by (auto simp: transferSplitFractionRelay_def assms(1) rel Let_def list_ex_iff not_le not_less
        split: if_splits option.splits)
  have ints: "of_nat (nat \<lfloor>i\<rfloor>) = i \<and> i \<noteq> to_index" if "i \<in> set sources" for i
    using check_sources_ok [OF guards(3)] guards(6) that by (fastforce simp: isInteger_def)
  have j: "?j < length cs" using guards(4,5) by (simp add: floor_less_iff nat_less_iff)
  have "\<forall>i \<in> set ?is. i < length cs" using guards(6) by (auto simp: floor_less_iff nat_less_iff)
  note g = relay_gives [OF rel less_imp_le [OF guards(1)] this]
  have notin: "?j \<notin> set ?is"
  proof
    assume "?j \<in> set ?is"
    then obtain i where i: "i \<in> set sources" "nat \<lfloor>i\<rfloor> = ?j" by auto
    have "of_nat ?j = to_index" using guards(2,4) by (simp add: isInteger_def)
    with ints [OF i(1)] i(2) show False by metis
  qed
  have "fst (cs' ! ?j) = fst (cs ! ?j)" using g notin j by blast
  moreover have sum: "sum_list (map fst ?new) = 1" using g j assms(2) sum_update [of ?j cs'] by simp
  moreover have "map snd ?new = map snd cs"
    using snd_relay [of ?least ?is amount cs] rel by (simp add: map_snd_update)
  moreover have "findSplitById (ly_content (op_layout (transferSplitFractionRelay l sid sources to_index amount))) sid = Some ?new"
    using split_changed [OF eq assms(3,1)] by (simp add: normalize_exact [OF sum])
  moreover have "i = ?j \<or> fst (?new ! i) = fst (cs ! i) \<or> of_nat i \<in> set sources \<and> fst (?new ! i) < fst (cs ! i) \<and> ?least \<le> fst (?new ! i)"
    if "i < length cs" for i
    using g that ints by (auto simp: nth_list_update)
  ultimately show ?thesis
    using g j guards(7) by (intro exI [of _ ?new] exI [of _ "amount - rem"]) auto
qed

lemma relay_balances_witness:
  "\<exists>new given. findSplitById (ly_content (op_layout (transferSplitFractionRelay createDefaultLayout (js ''root'') [1] 0 (3 / 10)))) (js ''root'') = Some new
    \<and> fst (new ! 0) = 1 / 2 + given \<and> given \<le> 3 / 10"
proof -
  obtain cs where cs: "findSplitById (ly_content createDefaultLayout) (js ''root'') = Some cs" "sum_list (map fst cs) = 1" "fst (cs ! 0) = 1 / 2"
    by (simp add: createDefaultLayout_def)
  let ?moved = "createDefaultLayout\<lparr>ly_content := Split (js ''root'') Row
    [(4 / 5, Pane (plain_pane (js ''chat'') chat_main (Some (JNumber 400)))), (1 / 5, Pane (plain_pane (js ''right'') right_tabs None))]\<rparr>"
  have "transferSplitFractionRelay createDefaultLayout (js ''root'') [1] 0 (3 / 10) = finishOp createDefaultLayout ?moved"
    by (simp add: transferSplitFractionRelay_def createDefaultLayout_def isInteger_def with_split_def Let_def normalizeSplitFractions_def
        MIN_SPLIT_CHILD_FRACTION_def FRACTION_TOLERANCE_def)
  moreover have "wf_layout ?moved" by code_simp
  ultimately have "op_applied (transferSplitFractionRelay createDefaultLayout (js ''root'') [1] 0 (3 / 10))"
    by (simp only: finishOp_applied_iff)
  from relay_balances [OF cs(1,2) this] obtain new given where
    "findSplitById (ly_content (op_layout (transferSplitFractionRelay createDefaultLayout (js ''root'') [1] 0 (3 / 10)))) (js ''root'') = Some new"
    "fst (new ! nat \<lfloor>0 :: number\<rfloor>) = fst (cs ! nat \<lfloor>0 :: number\<rfloor>) + given" "given \<le> 3 / 10"
    by (elim exE conjE) (rule that)
  with cs(3) show ?thesis by (intro exI [of _ new] exI [of _ given]) simp
qed

section \<open>Resetting\<close>

lemma plain_pane_sel [simp]:
  "pn_id (plain_pane i k w) = i" "pn_panelKind (plain_pane i k w) = k" "pn_collapsed (plain_pane i k w) = None"
  "pn_minWidth (plain_pane i k w) = w"
  by (simp_all add: plain_pane_def)

abbreviation is_ghost :: "pane \<Rightarrow> bool" where
  "is_ghost p \<equiv> starts_with (pn_panelKind p) (js ''ghost:'')"

definition ghost_base :: "jsstring \<Rightarrow> jsstring" where
  "ghost_base kind = js ''ghost-'' @ drop 6 kind"

lemma ghost_base_inj: "starts_with a (js ''ghost:'') \<Longrightarrow> starts_with b (js ''ghost:'') \<Longrightarrow> ghost_base a = ghost_base b \<Longrightarrow> a = b"
  by (auto simp: ghost_base_def starts_with_iff)

text \<open>With distinct kinds every panel gets the id made of its kind.\<close>

lemma ghost_children_plain:
  "distinct (map pn_panelKind ps) \<Longrightarrow> \<forall>p \<in> set ps. is_ghost p \<and> ghost_base (pn_panelKind p) \<notin> set used \<Longrightarrow>
    ghost_children f k used ps = map (\<lambda>p. (f, Pane (plain_pane (ghost_base (pn_panelKind p)) (pn_panelKind p) (pn_minWidth p)))) ps"
proof (induction f k used ps rule: ghost_children.induct)
  case (2 f k used p ps)
  have free: "free_id (Suc (length used)) used (ghost_base (pn_panelKind p)) (ghost_base (pn_panelKind p)) (Suc k) = ghost_base (pn_panelKind p)"
    using 2(3) by simp
  have "ghost_children f (Suc k) (ghost_base (pn_panelKind p) # used) ps
      = map (\<lambda>p. (f, Pane (plain_pane (ghost_base (pn_panelKind p)) (pn_panelKind p) (pn_minWidth p)))) ps"
  proof (rule 2(1) [OF refl])
    show "ghost_base (pn_panelKind p) = free_id (Suc (length used)) used (js ''ghost-'' @ drop 6 (pn_panelKind p)) (js ''ghost-'' @ drop 6 (pn_panelKind p)) (Suc k)"
      using free by (simp add: ghost_base_def)
    show "distinct (map pn_panelKind ps)" using 2(2) by simp
    show "\<forall>q \<in> set ps. is_ghost q \<and> ghost_base (pn_panelKind q) \<notin> set (ghost_base (pn_panelKind p) # used)"
    proof
      fix q assume q: "q \<in> set ps"
      then have "pn_panelKind q \<noteq> pn_panelKind p" using 2(2) by (metis distinct.simps(2) image_eqI list.simps(9) set_map)
      then have "ghost_base (pn_panelKind q) \<noteq> ghost_base (pn_panelKind p)" using 2(3) q ghost_base_inj by (metis list.set_intros)
      with 2(3) q show "is_ghost q \<and> ghost_base (pn_panelKind q) \<notin> set (ghost_base (pn_panelKind p) # used)" by simp
    qed
  qed
  with free show ?case by (simp add: Let_def ghost_base_def del: free_id.simps)
qed simp

lemma ghost_not_builtin: "ghost_base kind \<notin> set [js ''sessions'', js ''root'', js ''chat'', js ''right'']"
  by (simp add: ghost_base_def)

lemma sum_replicate_map: "sum_list (map (\<lambda>p. c) ps) = of_nat (length ps) * (c :: number)"
  by (induction ps) (simp_all add: algebra_simps)

lemma reset_content:
  assumes "distinct (map pn_panelKind (filter is_ghost (walkPanes l)))" "filter is_ghost (walkPanes l) \<noteq> []"
  shows "\<exists>f g. 0 < f \<and> 0 < g \<and> of_nat (length (filter is_ghost (walkPanes l))) * f + 2 * g = 1
    \<and> createDefaultLayoutPreservingGhostPanels l = createDefaultLayout\<lparr>ly_content := Split (js ''root'') Row
        (map (\<lambda>p. (f, Pane (plain_pane (ghost_base (pn_panelKind p)) (pn_panelKind p) (pn_minWidth p)))) (filter is_ghost (walkPanes l))
         @ [(g, Pane (plain_pane (js ''chat'') chat_main (Some (JNumber 400)))), (g, Pane (plain_pane (js ''right'') right_tabs None))])\<rparr>"
proof -
  let ?ps = "filter is_ghost (walkPanes l)"
  define n :: number where "n = of_nat (length ?ps)"
  define t :: number where "t = min (3 / 5) (n * (1 / 5))"
  have n: "0 < n" using assms(2) by (simp add: n_def)
  then have t: "0 < t" "t \<le> 3 / 5" by (simp_all add: t_def)
  let ?ghosts = "map (\<lambda>p. (t / n, Pane (plain_pane (ghost_base (pn_panelKind p)) (pn_panelKind p) (pn_minWidth p)))) ?ps"
  let ?cs = "?ghosts @ [((1 - t) / 2, Pane (plain_pane (js ''chat'') chat_main (Some (JNumber 400)))),
            ((1 - t) / 2, Pane (plain_pane (js ''right'') right_tabs None))]"
  have "sum_list (map fst ?cs) = n * (t / n) + (1 - t)"
    by (simp add: comp_def sum_replicate_map n_def)
  then have sum: "sum_list (map fst ?cs) = 1" using n by simp
  have "ghost_children (t / n) 0 [js ''sessions'', js ''root'', js ''chat'', js ''right''] ?ps = ?ghosts"
    using assms(1) ghost_not_builtin by (intro ghost_children_plain) auto
  then have "createDefaultLayoutPreservingGhostPanels l = createDefaultLayout\<lparr>ly_content := Split (js ''root'') Row (normalizeSplitFractions ?cs)\<rparr>"
    using assms(2) unfolding createDefaultLayoutPreservingGhostPanels_def Let_def n_def [symmetric] t_def [symmetric]
    by (simp add: createDefaultLayout_def plain_pane_def)
  then have eq: "createDefaultLayoutPreservingGhostPanels l = createDefaultLayout\<lparr>ly_content := Split (js ''root'') Row ?cs\<rparr>"
    by (simp only: normalize_exact [OF sum])
  have "0 < t / n" "0 < (1 - t) / 2" "n * (t / n) + 2 * ((1 - t) / 2) = 1" using n t by (simp_all add: field_simps)
  with eq show ?thesis unfolding n_def [symmetric] by blast
qed

lemma wf_panes: "wf_node d n \<Longrightarrow> p \<in> set (walkContentPanes n) \<Longrightarrow> wf_pane p"
proof (induction n arbitrary: d)
  case (Split i dir cs)
  then obtain f m where "(f, m) \<in> set cs" "p \<in> set (walkContentPanes m)" by (auto simp: child_panes_def)
  with Split.IH [of "(f, m)" m "Suc d"] Split.prems(1) show ?case by auto
qed simp

lemma ghosts_in_content: "wf_layout l \<Longrightarrow> filter is_ghost (walkPanes l) = filter is_ghost (walkContentPanes (ly_content l))"
  by (simp add: wf_layout_def walkPanes_def)

lemma ghost_base_length: "starts_with kind (js ''ghost:'') \<Longrightarrow> length (ghost_base kind) = length kind"
  by (auto simp: ghost_base_def starts_with_iff)

lemma ghost_pane_ok:
  assumes "wf_pane p" "is_ghost p"
  shows "wf_pane (plain_pane (ghost_base (pn_panelKind p)) (pn_panelKind p) (pn_minWidth p))"
  using assms ghost_base_length [OF assms(2)]
  by (simp add: wf_pane_def plain_pane_def valid_id_def valid_kind_def MAX_PANEL_KIND_LENGTH_def boolean_or_absent_def)

lemma not_builtin_kind: "is_ghost p \<Longrightarrow> pn_panelKind p \<noteq> chat_main \<and> pn_panelKind p \<noteq> session_list \<and> pn_panelKind p \<noteq> right_tabs"
  by (auto simp: starts_with_iff)

lemma ghost_part:
  fixes f :: number and ps :: "pane list"
  defines "gs \<equiv> map (\<lambda>p. (f, Pane (plain_pane (ghost_base (pn_panelKind p)) (pn_panelKind p) (pn_minWidth p)))) ps"
  shows "child_ids gs = map (\<lambda>p. ghost_base (pn_panelKind p)) ps"
    and "child_panes gs = map (\<lambda>p. plain_pane (ghost_base (pn_panelKind p)) (pn_panelKind p) (pn_minWidth p)) ps"
    and "sum_list (map fst gs) = of_nat (length ps) * f"
  unfolding gs_def by (induction ps) (simp_all add: plain_pane_def algebra_simps)

lemma distinct_ghost_ids:
  assumes "distinct (map pn_panelKind ps)" "\<forall>p \<in> set ps. is_ghost p"
  shows "distinct (map (\<lambda>p. ghost_base (pn_panelKind p)) ps)"
proof -
  have "inj_on ghost_base (pn_panelKind ` set ps)" using assms(2) ghost_base_inj by (auto intro!: inj_onI)
  with assms(1) have "distinct (map ghost_base (map pn_panelKind ps))" by (subst distinct_map) simp
  then show ?thesis unfolding map_map comp_def .
qed

lemma reset_parts:
  fixes f g :: number
  assumes "distinct (map pn_panelKind ps)" "\<forall>p \<in> set ps. is_ghost p \<and> wf_pane p" "0 < f" "0 < g" "of_nat (length ps) * f + 2 * g = 1"
  shows "wf_layout (createDefaultLayout\<lparr>ly_content := Split (js ''root'') Row
        (map (\<lambda>p. (f, Pane (plain_pane (ghost_base (pn_panelKind p)) (pn_panelKind p) (pn_minWidth p)))) ps
         @ [(g, Pane (plain_pane (js ''chat'') chat_main (Some (JNumber 400)))), (g, Pane (plain_pane (js ''right'') right_tabs None))])\<rparr>)"
    and "map (\<lambda>p. (pn_panelKind p, pn_minWidth p)) (filter is_ghost (walkPanes (createDefaultLayout\<lparr>ly_content := Split (js ''root'') Row
        (map (\<lambda>p. (f, Pane (plain_pane (ghost_base (pn_panelKind p)) (pn_panelKind p) (pn_minWidth p)))) ps
         @ [(g, Pane (plain_pane (js ''chat'') chat_main (Some (JNumber 400)))), (g, Pane (plain_pane (js ''right'') right_tabs None))])\<rparr>)))
      = map (\<lambda>p. (pn_panelKind p, pn_minWidth p)) ps"
proof -
  note fg = assms(3-5)
  have ps: "\<forall>p \<in> set ps. is_ghost p \<and> wf_pane (plain_pane (ghost_base (pn_panelKind p)) (pn_panelKind p) (pn_minWidth p))"
    using assms(2) ghost_pane_ok by blast
  note parts = ghost_part [of f ps]
  have ids: "distinct (map (\<lambda>p. ghost_base (pn_panelKind p)) ps)" using distinct_ghost_ids [OF assms(1)] ps by simp
  have none: "filter (\<lambda>p. pn_panelKind p = chat_main) (map (\<lambda>p. plain_pane (ghost_base (pn_panelKind p)) (pn_panelKind p) (pn_minWidth p)) ps) = []"
    "\<forall>p \<in> set ps. pn_panelKind p \<noteq> session_list"
    using not_builtin_kind ps by (auto simp: filter_empty_conv)
  let ?gs = "map (\<lambda>p. (f, Pane (plain_pane (ghost_base (pn_panelKind p)) (pn_panelKind p) (pn_minWidth p)))) ps"
  let ?bs = "[(g, Pane (plain_pane (js ''chat'') chat_main (Some (JNumber 400)))), (g, Pane (plain_pane (js ''right'') right_tabs None))]"
  have "\<bar>sum_list (map fst (?gs @ ?bs)) - 1\<bar> \<le> 1 / 100" using parts(3) fg(3) by (simp add: algebra_simps)
  moreover have "\<forall>(h, n) \<in> set ?bs. wf_node (Suc 1) n"
    by (simp add: wf_pane_def valid_id_def valid_kind_def boolean_or_absent_def MAX_TREE_DEPTH_def MAX_PANEL_KIND_LENGTH_def)
  ultimately have node: "wf_node 1 (Split (js ''root'') Row (?gs @ ?bs))"
    using ps fg(1,2) by (auto simp: MAX_TREE_DEPTH_def valid_id_def)
  have all: "collectLayoutNodeIds (Split (js ''root'') Row (?gs @ ?bs))
      = js ''root'' # map (\<lambda>p. ghost_base (pn_panelKind p)) ps @ [js ''chat'', js ''right'']" by (simp add: parts(1))
  have distinct: "distinct (js ''sessions'' # collectLayoutNodeIds (Split (js ''root'') Row (?gs @ ?bs)))"
    using ids unfolding all by (auto simp: ghost_base_def)
  have chats: "filter (\<lambda>p. pn_panelKind p = chat_main) (walkContentPanes (Split (js ''root'') Row (?gs @ ?bs)))
      = [plain_pane (js ''chat'') chat_main (Some (JNumber 400))]"
    using none(1) by (simp add: parts(2))
  have sessions: "\<forall>p \<in> set (walkContentPanes (Split (js ''root'') Row (?gs @ ?bs))). pn_panelKind p \<noteq> session_list"
    using none(2) by (auto simp: parts(2))
  have content: "ly_content (createDefaultLayout\<lparr>ly_content := Split (js ''root'') Row (?gs @ ?bs)\<rparr>) = Split (js ''root'') Row (?gs @ ?bs)"
    by simp
  show "wf_layout (createDefaultLayout\<lparr>ly_content := Split (js ''root'') Row (?gs @ ?bs)\<rparr>)"
    unfolding wf_layout_def
  proof (intro conjI)
    show "case filter (\<lambda>p. pn_panelKind p = chat_main) (walkContentPanes (ly_content (createDefaultLayout\<lparr>ly_content := Split (js ''root'') Row (?gs @ ?bs)\<rparr>))) of
          [c] \<Rightarrow> pn_collapsed c \<noteq> Some (JBool True) | _ \<Rightarrow> False"
      unfolding content chats by simp
  qed (use node distinct sessions in \<open>simp_all add: createDefaultLayout_def valid_id_def del: collect_Split wf_node.simps\<close>)
  show "map (\<lambda>p. (pn_panelKind p, pn_minWidth p)) (filter is_ghost (walkPanes (createDefaultLayout\<lparr>ly_content := Split (js ''root'') Row (?gs @ ?bs)\<rparr>)))
      = map (\<lambda>p. (pn_panelKind p, pn_minWidth p)) ps"
  proof -
    have "filter is_ghost (map (\<lambda>p. plain_pane (ghost_base (pn_panelKind p)) (pn_panelKind p) (pn_minWidth p)) ps)
        = map (\<lambda>p. plain_pane (ghost_base (pn_panelKind p)) (pn_panelKind p) (pn_minWidth p)) ps"
      by (rule filter_True) (use ps in auto)
    then show ?thesis by (simp add: walkPanes_def parts(2) createDefaultLayout_def)
  qed
qed

lemma reset_correct:
  assumes "wf_layout l" "distinct (map pn_panelKind (filter is_ghost (walkPanes l)))"
  shows "wf_layout (createDefaultLayoutPreservingGhostPanels l)
    \<and> map (\<lambda>p. (pn_panelKind p, pn_minWidth p)) (filter is_ghost (walkPanes (createDefaultLayoutPreservingGhostPanels l)))
      = map (\<lambda>p. (pn_panelKind p, pn_minWidth p)) (filter is_ghost (walkPanes l))"
proof (cases "filter is_ghost (walkPanes l) = []")
  case True
  then have eq: "createDefaultLayoutPreservingGhostPanels l = createDefaultLayout"
    by (simp add: createDefaultLayoutPreservingGhostPanels_def Let_def split: layout_node.split)
  have "filter is_ghost (walkPanes createDefaultLayout) = []" by (simp add: createDefaultLayout_def walkPanes_def)
  with True wf_default show ?thesis by (simp add: eq)
next
  case False
  let ?ps = "filter is_ghost (walkPanes l)"
  obtain f g where fg: "0 < f" "0 < g" "of_nat (length ?ps) * f + 2 * g = 1"
    and eq: "createDefaultLayoutPreservingGhostPanels l = createDefaultLayout\<lparr>ly_content := Split (js ''root'') Row
        (map (\<lambda>p. (f, Pane (plain_pane (ghost_base (pn_panelKind p)) (pn_panelKind p) (pn_minWidth p)))) ?ps
         @ [(g, Pane (plain_pane (js ''chat'') chat_main (Some (JNumber 400)))), (g, Pane (plain_pane (js ''right'') right_tabs None))])\<rparr>"
    using reset_content [OF assms(2) False] by blast
  have "wf_node 1 (ly_content l)" using assms(1) by (simp add: wf_layout_def)
  then have "\<forall>p \<in> set ?ps. is_ghost p \<and> wf_pane p"
    using wf_panes unfolding ghosts_in_content [OF assms(1)] by auto
  from reset_parts [OF assms(2) this fg] show ?thesis unfolding eq by simp
qed

text \<open>
  Resetting is a way out that loses no plugin panel. The reset of a well-formed layout whose plugin
  panels have distinct kinds is well formed, and it has the same plugin panels, in the same order
  and with the same minimal widths.
\<close>

theorem reset_keeps_ghosts:
  assumes "wf_layout l" "distinct (map pn_panelKind (filter is_ghost (walkPanes l)))"
  shows "wf_layout (createDefaultLayoutPreservingGhostPanels l)
    \<and> map (\<lambda>p. (pn_panelKind p, pn_minWidth p)) (filter is_ghost (walkPanes (createDefaultLayoutPreservingGhostPanels l)))
      = map (\<lambda>p. (pn_panelKind p, pn_minWidth p)) (filter is_ghost (walkPanes l))"
  using assms by (rule reset_correct)

lemma reset_keeps_ghosts_witness:
  "map (\<lambda>p. (pn_panelKind p, pn_minWidth p)) (filter is_ghost (walkPanes (createDefaultLayoutPreservingGhostPanels two_ghosts)))
    = map (\<lambda>p. (pn_panelKind p, pn_minWidth p)) (filter is_ghost (walkPanes two_ghosts))"
proof -
  have "wf_layout two_ghosts" by (rule run_wf [OF run_two_ghosts wf_default])
  moreover have "distinct (map pn_panelKind (filter is_ghost (walkPanes two_ghosts)))" by code_simp
  ultimately show ?thesis using reset_keeps_ghosts by blast
qed

end
