(* ===== verification/LayoutStore.thy ===== *)
theory LayoutStore
  imports LayoutFractions
begin

text \<open>
  The layout store of the desktop main process (\<open>src/apps/desktop/src/main/layout/LayoutStore.ts\<close>):
  the cached layout, the file, and every method. The file is what \<open>readFileSync\<close> and \<open>JSON.parse\<close>
  make of it. Whether a write succeeds is an argument of the method, one per write; a write goes to a
  temporary file that is renamed, so a failed one leaves the file as it was. \<open>onChanged\<close> appends to
  the list of layouts announced; logging is left out.
\<close>

section \<open>State and methods\<close>

datatype layout_file = Missing | Unreadable | Contains json

record layout_store =
  ls_cached :: "layout option"
  ls_file :: layout_file
  ls_announced :: "layout list"

type_synonym mutation = "layout \<times> bool"

definition started :: "layout_file \<Rightarrow> layout_store" where
  "started f = \<lparr>ls_cached = None, ls_file = f, ls_announced = []\<rparr>"

definition persist_layout :: "bool \<Rightarrow> layout \<Rightarrow> layout_store \<Rightarrow> layout_store \<times> bool" where
  "persist_layout writable l st = (if writable then (st\<lparr>ls_file := Contains (json_of_layout l)\<rparr>, True) else (st, False))"

definition raw_layout :: "layout_file \<Rightarrow> json" where
  "raw_layout f = (case f of Contains raw \<Rightarrow> raw | _ \<Rightarrow> JNull)"

definition getLayout :: "bool \<Rightarrow> layout_store \<Rightarrow> layout_store \<times> layout" where
  "getLayout writable st = (case ls_cached st of
       Some l \<Rightarrow> (st, l)
     | None \<Rightarrow> (let (l, reason) = coerceLayout (raw_layout (ls_file st)); st = st\<lparr>ls_cached := Some l\<rparr>
               in (if reason \<noteq> None then fst (persist_layout writable l st) else st, l)))"

text \<open>The argument of \<open>setLayout\<close> is \<open>None\<close> where \<open>structuredClone\<close> throws.\<close>

definition setLayout :: "bool \<Rightarrow> json option \<Rightarrow> layout_store \<Rightarrow> layout_store \<times> (layout_error + mutation)" where
  "setLayout writable raw st = (case raw of
       None \<Rightarrow> (st, Inl Not_cloneable)
     | Some v \<Rightarrow> (case validateLayout v of
           Some reason \<Rightarrow> (st, Inl reason)
         | None \<Rightarrow> (let l = layout_of v; (st, persisted) = persist_layout writable l (st\<lparr>ls_cached := Some l\<rparr>)
                   in (st\<lparr>ls_announced := ls_announced st @ [l]\<rparr>, Inr (l, persisted)))))"

definition reset_layout :: "bool \<Rightarrow> bool \<Rightarrow> layout_store \<Rightarrow> layout_store \<times> mutation" where
  "reset_layout healed writable st =
     (let (st, old) = getLayout healed st; l = createDefaultLayoutPreservingGhostPanels old;
          (st, persisted) = persist_layout writable l (st\<lparr>ls_cached := Some l\<rparr>)
      in (st\<lparr>ls_announced := ls_announced st @ [l]\<rparr>, (l, persisted)))"

definition ensurePersisted :: "bool \<Rightarrow> bool \<Rightarrow> layout_store \<Rightarrow> layout_store" where
  "ensurePersisted healed writable st =
     (if ls_file st \<noteq> Missing then fst (getLayout healed st)
      else (let (st, l) = getLayout healed st in fst (persist_layout writable l st)))"

text \<open>A new process has only the file.\<close>

definition restart :: "layout_store \<Rightarrow> layout_store" where
  "restart st = started (ls_file st)"


section \<open>Runs\<close>

datatype layout_event = Get bool | Set bool "json option" | Reset bool bool | Ensure bool bool | Restart

datatype layout_response = Gives layout | Set_gives "layout_error + mutation" | Reset_gives mutation | Quiet

fun perform :: "layout_event \<Rightarrow> layout_store \<Rightarrow> layout_store \<times> layout_response" where
  "perform (Get h) st = map_prod id Gives (getLayout h st)"
| "perform (Set w raw) st = map_prod id Set_gives (setLayout w raw st)"
| "perform (Reset h w) st = map_prod id Reset_gives (reset_layout h w st)"
| "perform (Ensure h w) st = (ensurePersisted h w st, Quiet)"
| "perform Restart st = (restart st, Quiet)"

fun perform_all :: "layout_event list \<Rightarrow> layout_store \<Rightarrow> layout_store \<times> layout_response list" where
  "perform_all [] st = (st, [])"
| "perform_all (e # es) st = (let (st, r) = perform e st; (st, rs) = perform_all es st in (st, r # rs))"

section \<open>What the store promises\<close>

text \<open>
  Two cells of layouts: the one in use, once it was asked for, and the one a new process will find.
  The broken and missing files of the code are not seen at this level.
\<close>

record layout_cells =
  lc_in_use :: "layout option"
  lc_saved :: layout
  lc_announced :: "layout list"

definition current_layout :: "layout_cells \<Rightarrow> layout" where
  "current_layout c = (case lc_in_use c of Some l \<Rightarrow> l | None \<Rightarrow> lc_saved c)"

definition put_layout :: "bool \<Rightarrow> layout \<Rightarrow> layout_cells \<Rightarrow> layout_cells" where
  "put_layout w l c = c\<lparr>lc_in_use := Some l, lc_saved := (if w then l else lc_saved c), lc_announced := lc_announced c @ [l]\<rparr>"

inductive promised :: "layout_cells \<Rightarrow> layout_event \<Rightarrow> layout_response \<Rightarrow> layout_cells \<Rightarrow> bool" for c where
  promised_get: "promised c (Get h) (Gives (current_layout c)) (c\<lparr>lc_in_use := Some (current_layout c)\<rparr>)"
| promised_refusal: "(case raw of None \<Rightarrow> e = Not_cloneable | Some v \<Rightarrow> validateLayout v = Some e)
    \<Longrightarrow> promised c (Set w raw) (Set_gives (Inl e)) c"
| promised_set: "validateLayout v = None \<Longrightarrow> wf_layout l \<Longrightarrow> l = layout_of v
    \<Longrightarrow> promised c (Set w (Some v)) (Set_gives (Inr (l, w))) (put_layout w l c)"
| promised_reset: "wf_layout l \<Longrightarrow> l = createDefaultLayoutPreservingGhostPanels (current_layout c)
    \<Longrightarrow> promised c (Reset h w) (Reset_gives (l, w)) (put_layout w l c)"
| promised_ensure: "s = lc_saved c \<or> w \<and> s = current_layout c
    \<Longrightarrow> promised c (Ensure h w) Quiet (c\<lparr>lc_in_use := Some (current_layout c), lc_saved := s\<rparr>)"
| promised_restart: "promised c Restart Quiet (c\<lparr>lc_in_use := None, lc_announced := []\<rparr>)"

inductive promised_all :: "layout_event list \<Rightarrow> layout_cells \<Rightarrow> layout_response list \<Rightarrow> layout_cells \<Rightarrow> bool" where
  "promised_all [] c [] c"
| "promised c e r d \<Longrightarrow> promised_all es d rs c' \<Longrightarrow> promised_all (e # es) c (r # rs) c'"

definition reads_as :: "layout_file \<Rightarrow> layout" where
  "reads_as f = fst (coerceLayout (raw_layout f))"

definition cells_of :: "layout_store \<Rightarrow> layout_cells" where
  "cells_of st = \<lparr>lc_in_use = ls_cached st, lc_saved = reads_as (ls_file st), lc_announced = ls_announced st\<rparr>"

definition layout_store_ok :: "layout_store \<Rightarrow> bool" where
  "layout_store_ok st \<longleftrightarrow> (case ls_cached st of Some l \<Rightarrow> wf_layout l | None \<Rightarrow> True)"

section \<open>The store keeps the promise\<close>

lemma reads_as_wf: "wf_layout (reads_as f)"
  using validateLayout_sound [of "raw_layout f"] wf_default by (simp add: reads_as_def coerceLayout_def split: option.split)

lemma reads_as_written: "wf_layout l \<Longrightarrow> reads_as (Contains (json_of_layout l)) = l"
  using validateLayout_complete [of l] by (simp add: reads_as_def raw_layout_def coerceLayout_def)

lemma reads_as_default: "reads_as (Contains (json_of_layout createDefaultLayout)) = createDefaultLayout"
  by (rule reads_as_written [OF wf_default])

text \<open>Healing the file changes neither cell: the default is what the broken file read as.\<close>

lemma healed: "snd (coerceLayout (raw_layout f)) \<noteq> None \<Longrightarrow> reads_as f = createDefaultLayout"
  by (auto simp: reads_as_def coerceLayout_def split: if_splits option.splits)

lemma getLayout_cells:
  "snd (getLayout h st) = current_layout (cells_of st)"
  "cells_of (fst (getLayout h st)) = (cells_of st)\<lparr>lc_in_use := Some (current_layout (cells_of st))\<rparr>"
  "ls_file (fst (getLayout h st)) = Missing \<Longrightarrow> ls_file st = Missing"
  using healed [of "ls_file st"] reads_as_default
  by (auto simp: getLayout_def cells_of_def current_layout_def persist_layout_def reads_as_def Let_def split_beta split: option.splits if_splits)

lemma current_wf: "layout_store_ok st \<Longrightarrow> wf_layout (current_layout (cells_of st))"
  by (simp add: layout_store_ok_def current_layout_def cells_of_def reads_as_wf split: option.splits)

lemma persist_cells:
  "wf_layout l \<Longrightarrow> cells_of (fst (persist_layout w l st)) = (cells_of st)\<lparr>lc_saved := (if w then l else lc_saved (cells_of st))\<rparr>"
  "snd (persist_layout w l st) = w"
  by (simp_all add: persist_layout_def cells_of_def reads_as_written)

lemmas cells_simps = getLayout_cells(1,2) persist_cells

definition reset_allowed :: "layout \<Rightarrow> bool" where
  "reset_allowed l \<longleftrightarrow> distinct (map pn_panelKind (filter is_ghost (walkPanes l)))"

fun event_allowed :: "layout_event \<Rightarrow> layout_store \<Rightarrow> bool" where
  "event_allowed (Reset h w) st = reset_allowed (current_layout (cells_of st))"
| "event_allowed _ st = True"

lemma getLayout_ok: "layout_store_ok st \<Longrightarrow> layout_store_ok (fst (getLayout h st))"
  using current_wf [of st] arg_cong [OF getLayout_cells(2) [of h st], of lc_in_use]
  by (simp add: layout_store_ok_def cells_of_def)

lemma set_keeps_promise:
  assumes "setLayout w raw st = (st', r)"
  shows "promised (cells_of st) (Set w raw) (Set_gives r) (cells_of st') \<and> (layout_store_ok st \<longrightarrow> layout_store_ok st')"
proof (cases raw)
  case None
  with assms show ?thesis by (auto simp: setLayout_def intro: promised_refusal)
next
  case (Some v)
  show ?thesis
  proof (cases "validateLayout v")
    case (Some e)
    with assms \<open>raw = Some v\<close> show ?thesis by (auto simp: setLayout_def intro: promised_refusal)
  next
    case None
    have wf: "wf_layout (layout_of v)" by (rule validateLayout_sound [OF None])
    from assms Some None have r: "r = Inr (layout_of v, w)" and st': "cells_of st' = put_layout w (layout_of v) (cells_of st)"
      and "ls_cached st' = Some (layout_of v)"
      by (auto simp: setLayout_def persist_layout_def Let_def cells_of_def put_layout_def reads_as_written [OF wf] split: if_splits)
    with wf None Some show ?thesis by (auto simp: layout_store_ok_def intro: promised_set)
  qed
qed

lemma reset_keeps_promise:
  assumes "reset_layout h w st = (st', r)" "layout_store_ok st" "reset_allowed (current_layout (cells_of st))"
  shows "promised (cells_of st) (Reset h w) (Reset_gives r) (cells_of st') \<and> layout_store_ok st'"
proof -
  define l where l: "l = createDefaultLayoutPreservingGhostPanels (current_layout (cells_of st))"
  have wf: "wf_layout l" using reset_correct current_wf [OF assms(2)] assms(3) by (simp add: reset_allowed_def l)
  define m where "m = fst (getLayout h st)"
  have m: "cells_of m = (cells_of st)\<lparr>lc_in_use := Some (current_layout (cells_of st))\<rparr>" by (simp add: m_def getLayout_cells)
  from assms(1) have st': "st' = (fst (persist_layout w l (m\<lparr>ls_cached := Some l\<rparr>)))\<lparr>ls_announced := ls_announced m @ [l]\<rparr>"
    and r: "r = (l, w)"
    by (auto simp: reset_layout_def Let_def split_beta m_def getLayout_cells persist_layout_def l split: if_splits)
  have "lc_saved (cells_of m) = lc_saved (cells_of st)" "lc_announced (cells_of m) = lc_announced (cells_of st)" by (simp_all add: m)
  then have "cells_of st' = put_layout w l (cells_of st)"
    by (simp add: st' persist_layout_def cells_of_def put_layout_def reads_as_written [OF wf])
  moreover have "ls_cached st' = Some l" by (simp add: st' persist_layout_def)
  ultimately show ?thesis using wf promised_reset [OF wf l] by (simp add: r layout_store_ok_def)
qed

lemma ensure_keeps_promise:
  assumes "layout_store_ok st"
  shows "promised (cells_of st) (Ensure h w) Quiet (cells_of (ensurePersisted h w st)) \<and> layout_store_ok (ensurePersisted h w st)"
proof -
  let ?c = "cells_of st" and ?m = "fst (getLayout h st)" and ?l = "current_layout (cells_of st)"
  have s: "promised ?c (Ensure h w) Quiet (?c\<lparr>lc_in_use := Some ?l, lc_saved := s\<rparr>)" if "s = lc_saved ?c \<or> w \<and> s = ?l" for s
    by (rule promised_ensure [OF that])
  have "cells_of (fst (persist_layout w ?l ?m)) = ?c\<lparr>lc_in_use := Some ?l, lc_saved := (if w then ?l else lc_saved ?c)\<rparr>"
    by (simp add: persist_cells(1) [OF current_wf [OF assms]] getLayout_cells)
  moreover have "cells_of ?m = ?c\<lparr>lc_in_use := Some ?l, lc_saved := lc_saved ?c\<rparr>" by (simp add: getLayout_cells)
  ultimately have "cells_of (ensurePersisted h w st)
      = ?c\<lparr>lc_in_use := Some ?l, lc_saved := (if ls_file st = Missing \<and> w then ?l else lc_saved ?c)\<rparr>"
    by (simp add: ensurePersisted_def split_beta getLayout_cells(1))
  moreover have "layout_store_ok (fst (persist_layout w ?l ?m))" using getLayout_ok [OF assms, of h]
    by (simp add: persist_layout_def layout_store_ok_def)
  then have "layout_store_ok (ensurePersisted h w st)" using getLayout_ok [OF assms, of h]
    by (simp add: ensurePersisted_def split_beta getLayout_cells(1))
  ultimately show ?thesis using s [of "if ls_file st = Missing \<and> w then ?l else lc_saved ?c"] by simp
qed

lemma step_keeps_promise:
  assumes "perform e st = (st', r)" "layout_store_ok st" "event_allowed e st"
  shows "promised (cells_of st) e r (cells_of st') \<and> layout_store_ok st'"
proof (cases e)
  case (Get h)
  with assms have "r = Gives (current_layout (cells_of st))" "st' = fst (getLayout h st)"
    using getLayout_cells(1) [of h st] by (auto simp: map_prod_def split: prod.splits)
  with Get getLayout_ok [OF assms(2), of h] promised_get [of "cells_of st" h] show ?thesis by (simp add: getLayout_cells)
next
  case (Set w raw)
  with assms set_keeps_promise [of w raw st] show ?thesis by (auto simp: map_prod_def split: prod.splits)
next
  case (Reset h w)
  with assms reset_keeps_promise [of h w st] show ?thesis by (auto simp: map_prod_def split: prod.splits)
next
  case (Ensure h w)
  with assms ensure_keeps_promise [of st h w] show ?thesis by auto
next
  case Restart
  with assms have "r = Quiet" "cells_of st' = (cells_of st)\<lparr>lc_in_use := None, lc_announced := []\<rparr>" "ls_cached st' = None"
    by (auto simp: restart_def started_def cells_of_def)
  with Restart promised_restart [of "cells_of st"] show ?thesis by (simp add: layout_store_ok_def)
qed

fun all_allowed :: "layout_event list \<Rightarrow> layout_store \<Rightarrow> bool" where
  "all_allowed [] st \<longleftrightarrow> True"
| "all_allowed (e # es) st \<longleftrightarrow> event_allowed e st \<and> all_allowed es (fst (perform e st))"

lemma run_keeps_promise:
  "perform_all es st = (st', rs) \<Longrightarrow> layout_store_ok st \<Longrightarrow> all_allowed es st
    \<Longrightarrow> promised_all es (cells_of st) rs (cells_of st') \<and> layout_store_ok st'"
proof (induction es arbitrary: st rs)
  case (Cons e es)
  obtain st1 r where one: "perform e st = (st1, r)" by (cases "perform e st")
  obtain rs1 where rest: "perform_all es st1 = (st', rs1)" "rs = r # rs1"
    using Cons.prems(1) one by (auto simp: Let_def split: prod.splits)
  have "promised (cells_of st) e r (cells_of st1)" "layout_store_ok st1"
    using step_keeps_promise [OF one Cons.prems(2)] Cons.prems(3) by simp_all
  then show ?case using Cons.IH [OF rest(1)] Cons.prems(3) one rest(2) by (auto intro: promised_all.intros)
qed (simp add: promised_all.intros)

text \<open>
  C31: The store refines two cells of layouts. Starting from any file, broken or missing ones included, and
  with writes failing or not, every run of its methods and of restarts answers what two cells
  answer that always hold a well-formed layout each: the one in use and the one a new process finds.
  Healing a broken file is invisible there. Resets are assumed on layouts whose plugin panels have distinct kinds.
\<close>

theorem layout_store_refines:
  assumes "perform_all es (started f) = (st, rs)" "all_allowed es (started f)"
  shows "promised_all es \<lparr>lc_in_use = None, lc_saved = reads_as f, lc_announced = []\<rparr> rs (cells_of st)
    \<and> wf_layout (current_layout (cells_of st)) \<and> wf_layout (lc_saved (cells_of st))"
proof -
  have ok: "layout_store_ok (started f)" by (simp add: layout_store_ok_def started_def)
  have start: "cells_of (started f) = \<lparr>lc_in_use = None, lc_saved = reads_as f, lc_announced = []\<rparr>"
    by (simp add: cells_of_def started_def)
  from run_keeps_promise [OF assms(1) ok assms(2)] start current_wf [of st] show ?thesis
    by (simp add: cells_of_def reads_as_wf)
qed

definition one_day :: "layout_event list" where
  "one_day = [Reset False True, Set True (Some (json_of_layout two_ghosts)), Set False (Some JNull), Restart, Ensure True False, Get True]"

lemma default_resettable: "reset_allowed createDefaultLayout"
  by (simp add: reset_allowed_def createDefaultLayout_def walkPanes_def)

lemma layout_store_refines_witness:
  "\<exists>st rs. perform_all one_day (started Unreadable) = (st, rs)
    \<and> promised_all one_day \<lparr>lc_in_use = None, lc_saved = reads_as Unreadable, lc_announced = []\<rparr> rs (cells_of st)"
proof -
  obtain st rs where run: "perform_all one_day (started Unreadable) = (st, rs)"
    by (cases "perform_all one_day (started Unreadable)")
  have "current_layout (cells_of (started Unreadable)) = createDefaultLayout"
    by (simp add: started_def cells_of_def current_layout_def reads_as_def raw_layout_def coerceLayout_def isRecord_def)
  then have "all_allowed one_day (started Unreadable)"
    using default_resettable by (simp add: one_day_def del: perform.simps)
  with run show ?thesis using layout_store_refines by blast
qed

definition harmless :: "layout_event \<Rightarrow> bool" where
  "harmless e = (case e of Get _ \<Rightarrow> True | Ensure _ _ \<Rightarrow> True | Restart \<Rightarrow> True
     | Set _ raw \<Rightarrow> (case raw of None \<Rightarrow> True | Some v \<Rightarrow> validateLayout v \<noteq> None) | Reset _ _ \<Rightarrow> False)"

definition settled :: "layout \<Rightarrow> layout_store \<Rightarrow> bool" where
  "settled l st \<longleftrightarrow> layout_store_ok st \<and> current_layout (cells_of st) = l \<and> lc_saved (cells_of st) = l"

inductive_cases promised_cases:
  "promised c (Get h) r d" "promised c (Set w raw) r d" "promised c (Ensure h w) r d" "promised c Restart r d"

lemma harmless_settled:
  assumes "perform e st = (st', r)" "settled l st" "harmless e"
  shows "settled l st'"
proof -
  have "event_allowed e st" using assms(3) by (cases e) (simp_all add: harmless_def)
  with step_keeps_promise [OF assms(1)] assms(2) have p: "promised (cells_of st) e r (cells_of st')" and ok: "layout_store_ok st'"
    by (auto simp: settled_def)
  have "current_layout (cells_of st') = l \<and> lc_saved (cells_of st') = l"
    using assms(2,3) p
    by (cases e) (auto simp: settled_def harmless_def current_layout_def elim!: promised_cases split: option.splits)
  with ok show ?thesis by (simp add: settled_def)
qed

lemma harmless_run_settled:
  "settled l st \<Longrightarrow> list_all harmless es \<Longrightarrow> settled l (fst (perform_all es st))"
proof (induction es arbitrary: st)
  case (Cons e es)
  obtain st1 r where "perform e st = (st1, r)" by (cases "perform e st")
  with Cons harmless_settled [of e st st1 r l] show ?case by (auto simp: Let_def split_beta)
qed simp

lemma set_settles:
  assumes "validateLayout v = None" "setLayout True (Some v) st = (st', r)"
  shows "settled (layout_of v) st'"
  using assms validateLayout_sound [OF assms(1)]
  by (auto simp: setLayout_def persist_layout_def Let_def settled_def layout_store_ok_def cells_of_def current_layout_def reads_as_written)

text \<open>
  A layout that was stored is the layout of every later reader. After a successful \<open>setLayout\<close> the
  answers to \<open>getLayout\<close> give that layout, whatever restarts, checks of the file, refused layouts and
  failing writes come between.
\<close>

theorem stored_layout_read_back:
  assumes "validateLayout v = None" "list_all harmless es"
  shows "snd (getLayout h (fst (perform_all (Set True (Some v) # es) st))) = layout_of v"
proof -
  obtain st1 r where one: "setLayout True (Some v) st = (st1, r)" by (cases "setLayout True (Some v) st")
  then have "fst (perform_all (Set True (Some v) # es) st) = fst (perform_all es st1)" by (simp add: Let_def split_beta)
  with harmless_run_settled [OF set_settles [OF assms(1) one] assms(2)] show ?thesis
    by (simp add: getLayout_cells settled_def)
qed

lemma stored_layout_read_back_witness:
  "snd (getLayout True (fst (perform_all [Set True (Some (json_of_layout two_ghosts)), Restart, Ensure True True, Set True (Some JNull), Restart]
      (started Unreadable)))) = layout_of (json_of_layout two_ghosts)"
proof -
  have "validateLayout (json_of_layout two_ghosts) = None"
    by (rule validateLayout_complete [OF run_wf [OF run_two_ghosts wf_default]])
  moreover have "validateLayout JNull \<noteq> None" by (simp add: validateLayout_def isRecord_def)
  then have "list_all harmless [Restart, Ensure True True, Set True (Some JNull), Restart]" by (simp add: harmless_def)
  ultimately show ?thesis by (rule stored_layout_read_back)
qed

section \<open>A reset that is not validated\<close>

definition long_kind :: jsstring where
  "long_kind = js ''ghost:'' @ replicate 122 97"

definition twins :: layout where
  "twins = createDefaultLayout\<lparr>ly_content := Split (js ''root'') Row
     [(1 / 4, Pane (plain_pane (js ''a'') long_kind None)), (1 / 4, Pane (plain_pane (js ''b'') long_kind None)),
      (1 / 2, Pane (plain_pane (js ''chat'') chat_main None))]\<rparr>"

lemma twins_wf: "wf_layout twins"
  by code_simp

lemma twins_reset_invalid: "\<not> wf_layout (createDefaultLayoutPreservingGhostPanels twins)"
  by code_simp

lemma invalid_reads_as_default: "\<not> wf_layout l \<Longrightarrow> reads_as (Contains (json_of_layout l)) = createDefaultLayout"
  using validateLayout_iff [of l] by (auto simp: reads_as_def raw_layout_def coerceLayout_def split: option.splits)

lemma twins_reset_ghosts: "filter is_ghost (walkPanes (createDefaultLayoutPreservingGhostPanels twins)) \<noteq> []"
  by code_simp

text \<open>
  A reset can store a layout that no later process accepts. Two plugin panels of one kind of 128
  code units are accepted by \<open>setLayout\<close>; the reset of that layout is announced and written
  although it is not valid (the second panel's id gets too long), and after a restart the default layout is
  in use and both panels are gone.
\<close>

theorem reset_stores_invalid_layout:
  "let st1 = fst (setLayout w (Some (json_of_layout twins)) st); (st2, l, persisted) = reset_layout h True st1 in
     snd (setLayout w (Some (json_of_layout twins)) st) = Inr (twins, w) \<and> persisted \<and> filter is_ghost (walkPanes l) \<noteq> [] \<and> \<not> wf_layout l
     \<and> snd (getLayout h (restart st2)) = createDefaultLayout \<and> filter is_ghost (walkPanes createDefaultLayout) = []"
proof -
  define l where l: "l = createDefaultLayoutPreservingGhostPanels twins"
  have set: "validateLayout (json_of_layout twins) = None" "layout_of (json_of_layout twins) = twins"
    using validateLayout_complete [OF twins_wf] by simp_all
  define st1 where "st1 = fst (setLayout w (Some (json_of_layout twins)) st)"
  have st1: "ls_cached st1 = Some twins" by (simp add: st1_def setLayout_def set persist_layout_def Let_def)
  have st2: "reset_layout h True st1 = (st1\<lparr>ls_cached := Some l, ls_file := Contains (json_of_layout l), ls_announced := ls_announced st1 @ [l]\<rparr>, l, True)"
    by (simp add: reset_layout_def getLayout_def st1 persist_layout_def l Let_def)
  have "\<not> wf_layout l" "filter is_ghost (walkPanes l) \<noteq> []" using twins_reset_invalid twins_reset_ghosts by (simp_all add: l)
  moreover have "filter is_ghost (walkPanes createDefaultLayout) = []" by (simp add: createDefaultLayout_def walkPanes_def)
  moreover have "snd (setLayout w (Some (json_of_layout twins)) st) = Inr (twins, w)" by (simp add: setLayout_def set persist_layout_def Let_def)
  ultimately show ?thesis
    unfolding st1_def [symmetric] Let_def st2
    by (simp add: getLayout_cells(1) restart_def started_def cells_of_def current_layout_def invalid_reads_as_default)
qed

end
