(* ===== verification/Js_Regex.thy ===== *)
theory Js_Regex
  imports Js_Prelude
begin

text \<open>
  The regular expressions the program uses, as the language defines them without the flags \<open>u\<close>
  and \<open>m\<close>. A position in a string is the code unit before it and the rest after it; \<open>ends\<close> lists the
  positions where a match from a position can stop. Which of them a matcher prefers does not matter for
  \<open>test\<close>, the only method used here on these expressions.
\<close>

type_synonym position = "code_unit option \<times> jsstring"

datatype regex =
    Empty
  | Chars "code_unit \<Rightarrow> bool"
  | Seq regex regex
  | Alt regex regex
  | Upto nat regex
  | Many regex
  | Boundary
  | Begin
  | End

text \<open>At most \<open>n\<close> repetitions.\<close>

primrec repeats :: "(position \<Rightarrow> position list) \<Rightarrow> nat \<Rightarrow> position \<Rightarrow> position list" where
  "repeats f 0 p = [p]"
| "repeats f (Suc n) p = p # concat (map (repeats f n) (f p))"

definition is_word :: "code_unit \<Rightarrow> bool" where
  "is_word c \<longleftrightarrow> 48 \<le> c \<and> c \<le> 57 \<or> 65 \<le> c \<and> c \<le> 90 \<or> c = 95 \<or> 97 \<le> c \<and> c \<le> 122"

definition word_before :: "position \<Rightarrow> bool" where
  "word_before p = (case fst p of None \<Rightarrow> False | Some c \<Rightarrow> is_word c)"

definition word_after :: "position \<Rightarrow> bool" where
  "word_after p = (case snd p of [] \<Rightarrow> False | c # _ \<Rightarrow> is_word c)"

text \<open>A match that repeats needs no more rounds than there are code units left.\<close>

primrec ends :: "regex \<Rightarrow> position \<Rightarrow> position list" where
  "ends Empty p = [p]"
| "ends (Chars P) p = (case snd p of [] \<Rightarrow> [] | c # s \<Rightarrow> if P c then [(Some c, s)] else [])"
| "ends (Seq r q) p = concat (map (ends q) (ends r p))"
| "ends (Alt r q) p = ends r p @ ends q p"
| "ends (Upto n r) p = repeats (ends r) n p"
| "ends (Many r) p = repeats (ends r) (length (snd p)) p"
| "ends Boundary p = (if word_before p \<noteq> word_after p then [p] else [])"
| "ends Begin p = (if fst p = None then [p] else [])"
| "ends End p = (if snd p = [] then [p] else [])"

primrec test_from :: "regex \<Rightarrow> code_unit option \<Rightarrow> jsstring \<Rightarrow> bool" where
  "test_from r b [] \<longleftrightarrow> ends r (b, []) \<noteq> []"
| "test_from r b (c # s) \<longleftrightarrow> ends r (b, c # s) \<noteq> [] \<or> test_from r (Some c) s"

text \<open>\<open>r.test(s)\<close>.\<close>

definition regex_test :: "regex \<Rightarrow> jsstring \<Rightarrow> bool" where
  "regex_test r s = test_from r None s"

section \<open>Building expressions\<close>

definition fold_case :: "code_unit \<Rightarrow> code_unit" where
  "fold_case c = (if 65 \<le> c \<and> c \<le> 90 then c + 32 else c)"

text \<open>
  A literal text, and the same under the flag \<open>i\<close>: a letter of ASCII is matched by its two cases only, since a code
  unit outside ASCII is never folded into ASCII.
\<close>

primrec units :: "jsstring \<Rightarrow> regex" where
  "units [] = Empty"
| "units (c # s) = Seq (Chars (\<lambda>d. d = c)) (units s)"

primrec iunits :: "jsstring \<Rightarrow> regex" where
  "iunits [] = Empty"
| "iunits (c # s) = Seq (Chars (\<lambda>d. fold_case d = fold_case c)) (iunits s)"

definition lit :: "string \<Rightarrow> regex" where "lit s = units (js s)"
definition ilit :: "string \<Rightarrow> regex" where "ilit s = iunits (js s)"

definition one_of :: "string \<Rightarrow> code_unit \<Rightarrow> bool" where
  "one_of s c \<longleftrightarrow> c \<in> set (js s)"

definition is_digit :: "code_unit \<Rightarrow> bool" where "is_digit c \<longleftrightarrow> 48 \<le> c \<and> c \<le> 57"
definition is_alnum :: "code_unit \<Rightarrow> bool" where "is_alnum c \<longleftrightarrow> is_digit c \<or> 65 \<le> c \<and> c \<le> 90 \<or> 97 \<le> c \<and> c \<le> 122"

primrec seqs :: "regex list \<Rightarrow> regex" where
  "seqs [] = Empty"
| "seqs (r # rs) = Seq r (seqs rs)"

fun alts :: "regex list \<Rightarrow> regex" where
  "alts [] = Chars (\<lambda>_. False)"
| "alts [r] = r"
| "alts (r # rs) = Alt r (alts rs)"

definition optional_re :: "regex \<Rightarrow> regex" where "optional_re r = Upto 1 r"
definition plus_re :: "regex \<Rightarrow> regex" where "plus_re r = Seq r (Many r)"
abbreviation (input) space_re :: regex where "space_re \<equiv> Chars is_space"
abbreviation (input) any_re :: regex where "any_re \<equiv> Chars (\<lambda>_. True)"

section \<open>Facts\<close>

lemma ends_units: "ends (units w) (b, s) \<noteq> [] \<longleftrightarrow> starts_with s w"
proof (induction w arbitrary: b s)
  case (Cons c w)
  then show ?case by (cases s) auto
qed simp

lemma test_from_units: "test_from (units w) b s \<longleftrightarrow> (\<exists>u v. s = u @ w @ v)"
proof (induction s arbitrary: b)
  case Nil
  then show ?case using ends_units [of w b "[]"] by (auto simp: starts_with_iff)
next
  case (Cons c s)
  have "(\<exists>u v. c # s = u @ w @ v) \<longleftrightarrow> (\<exists>v. c # s = w @ v) \<or> (\<exists>u v. s = u @ w @ v)"
    by (auto simp: Cons_eq_append_conv)
  then show ?case using Cons.IH ends_units [of w b "c # s"] by (simp add: starts_with_iff)
qed

text \<open>A literal expression is found exactly in the strings that include the literal.\<close>

lemma regex_test_lit: "regex_test (lit w) s \<longleftrightarrow> (\<exists>u v. s = u @ js w @ v)"
  by (simp add: regex_test_def lit_def test_from_units)

text \<open>An anchored expression is matched from the start only, and a repeated class is a class of strings.\<close>

lemma test_from_Begin: "test_from (Seq Begin r) b s \<longleftrightarrow> b = None \<and> ends r (b, s) \<noteq> []"
  by (induction s arbitrary: b) auto

lemma repeats_class: "length s \<le> n \<Longrightarrow> (\<exists>b'. (b', []) \<in> set (repeats (ends (Chars P)) n (b, s))) \<longleftrightarrow> list_all P s"
proof (induction s arbitrary: n b)
  case Nil
  then show ?case by (cases n) auto
next
  case (Cons c s)
  then obtain m where "n = Suc m" "length s \<le> m" by (cases n) auto
  with Cons.IH [of m "Some c"] show ?case by simp
qed

lemma regex_test_class: "regex_test (seqs [Begin, plus_re (Chars P), End]) s \<longleftrightarrow> s \<noteq> [] \<and> list_all P s"
proof (cases s)
  case (Cons c t)
  have *: "(\<exists>q \<in> set (ends (Many (Chars P)) (Some c, t)). snd q = []) \<longleftrightarrow> list_all P t"
    using repeats_class [of t "length t" P "Some c"] by (simp add: Bex_def split_paired_Ex)
  show ?thesis using * by (auto simp: regex_test_def test_from_Begin plus_re_def Cons)
qed (simp add: regex_test_def test_from_Begin plus_re_def)

lemma trim_empty: "trim s = [] \<longleftrightarrow> list_all is_space s"
proof -
  have "trim_start s = [] \<longleftrightarrow> list_all is_space s" for s by (simp add: trim_start_def list_all_iff)
  then have "trim s = [] \<longleftrightarrow> list_all is_space (trim_start s)" by (simp add: trim_def list_all_iff)
  also have "\<dots> \<longleftrightarrow> trim_start s = []"
  proof
    assume all: "list_all is_space (trim_start s)"
    show "trim_start s = []"
    proof (rule ccontr)
      assume ne: "trim_start s \<noteq> []"
      then have "\<not> is_space (hd (trim_start s))" unfolding trim_start_def by (rule hd_dropWhile)
      with all ne show False by (simp add: list_all_iff)
    qed
  qed simp
  also have "\<dots> \<longleftrightarrow> list_all is_space s" by (simp add: trim_start_def list_all_iff)
  finally show ?thesis .
qed

end
