(* ===== verification/CommandDisplay.thy ===== *)
theory CommandDisplay
  imports Js_Regex "HOL-Library.Monad_Syntax"
begin

text \<open>
  The reader of shell launchers (\<open>src/packages/maker-shared/src/commandDisplay.ts\<close>): from
  \<open>/bin/zsh -lc 'script'\<close> and the like it takes the script, and answers \<open>None\<close> (\<open>null\<close>) where the
  command is not such a launcher or the script is ambiguous. A position in the command is the rest of it that
  starts there: \<open>tk_rest\<close> is \<open>input.slice(token.end)\<close>.
\<close>

section \<open>Tokens\<close>

record shell_token =
  tk_text :: jsstring
  tk_rest :: jsstring

record posix_token = shell_token +
  pt_quoted :: bool
  pt_hasUnquotedLiteral :: bool

abbreviation (input) skip_spaces :: "jsstring \<Rightarrow> jsstring" where
  "skip_spaces s \<equiv> dropWhile is_space s"

definition consume :: "code_unit list \<Rightarrow> (jsstring \<times> jsstring) option \<Rightarrow> (jsstring \<times> jsstring) option" where
  "consume cs r = map_option (\<lambda>(t, rest). (cs @ t, rest)) r"

lemma consume_Some: "consume cs r = Some (t, rest) \<longleftrightarrow> (\<exists>t'. r = Some (t', rest) \<and> t = cs @ t')"
  by (cases r) (auto simp: consume_def)

lemma consume_simps [simp]: "consume cs None = None" "consume cs (Some (t, rest)) = Some (cs @ t, rest)"
  by (simp_all add: consume_def)

text \<open>
  The rest of a token after its opening quote, for the two Windows shells. A quote is written as two in
  a token in single quotes, and after \<open>\<close> or a backquote in one in double quotes.
\<close>

fun quoted_token :: "code_unit \<Rightarrow> jsstring \<Rightarrow> (jsstring \<times> jsstring) option" where
  "quoted_token q [] = None"
| "quoted_token q (c # s) =
     (if c = q then (if q = 39 \<and> starts_with s [39] then consume [39] (quoted_token q (tl s)) else Some ([], s))
      else if q = 34 \<and> c = 92 \<and> starts_with s [34] then consume [34] (quoted_token q (tl s))
      else if q = 34 \<and> c = 96 \<and> starts_with s [q] then consume [q] (quoted_token q (tl s))
      else consume [c] (quoted_token q s))"

definition readShellToken :: "jsstring \<Rightarrow> shell_token option" where
  "readShellToken input = (case skip_spaces input of
       [] \<Rightarrow> None
     | c # s \<Rightarrow>
         if c = 34 \<or> c = 39 then map_option (\<lambda>(t, rest). \<lparr>tk_text = t, tk_rest = rest\<rparr>) (quoted_token c s)
         else Some \<lparr>tk_text = takeWhile (Not \<circ> is_space) (c # s), tk_rest = dropWhile (Not \<circ> is_space) (c # s)\<rparr>)"

definition readCommandRemainder :: "jsstring \<Rightarrow> shell_token option" where
  "readCommandRemainder input = (case skip_spaces input of
       [] \<Rightarrow> None
     | c # s \<Rightarrow> if c \<noteq> 34 \<and> c \<noteq> 39 then Some \<lparr>tk_text = trim (c # s), tk_rest = []\<rparr> else readShellToken (c # s))"

text \<open>The parts of a POSIX word in quotes, after the opening quote.\<close>

fun single_quoted :: "jsstring \<Rightarrow> (jsstring \<times> jsstring) option" where
  "single_quoted [] = None"
| "single_quoted (c # s) = (if c = 39 then Some ([], s) else consume [c] (single_quoted s))"

definition escapable :: "code_unit \<Rightarrow> bool" where
  "escapable c \<longleftrightarrow> c = 36 \<or> c = 96 \<or> c = 34 \<or> c = 92 \<or> c = 10"

fun double_quoted :: "jsstring \<Rightarrow> (jsstring \<times> jsstring) option" where
  "double_quoted [] = None"
| "double_quoted (c # s) =
     (if c = 34 then Some ([], s)
      else if c = 92 then (case s of [] \<Rightarrow> None
        | n # s' \<Rightarrow> if escapable n then consume (if n = 10 then [] else [n]) (double_quoted s') else consume [c] (double_quoted s))
      else consume [c] (double_quoted s))"

definition rest_below :: "nat \<Rightarrow> (jsstring \<times> jsstring) option \<Rightarrow> bool" where
  "rest_below n r \<longleftrightarrow> (case r of None \<Rightarrow> True | Some (_, rest) \<Rightarrow> length rest < n)"

lemma rest_below_simps [simp]:
  "rest_below n None" "rest_below n (Some (t, rest)) \<longleftrightarrow> length rest < n" "rest_below n (consume cs r) \<longleftrightarrow> rest_below n r"
  by (auto simp: rest_below_def consume_def split: option.split)

lemma rest_below_mono: "rest_below n r \<Longrightarrow> n \<le> m \<Longrightarrow> rest_below m r"
  by (auto simp: rest_below_def split: option.splits)

lemma single_quoted_below: "rest_below (length s) (single_quoted s)"
  by (induction s) (auto intro: rest_below_mono)

lemma double_quoted_simps [simp]:
  "double_quoted (34 # s) = Some ([], s)"
  "double_quoted [92] = None"
  "escapable n \<Longrightarrow> double_quoted (92 # n # s) = consume (if n = 10 then [] else [n]) (double_quoted s)"
  "\<not> escapable n \<Longrightarrow> double_quoted (92 # n # s) = consume [92] (double_quoted (n # s))"
  "c \<noteq> 34 \<Longrightarrow> c \<noteq> 92 \<Longrightarrow> double_quoted (c # s) = consume [c] (double_quoted s)"
  by simp_all

declare double_quoted.simps(2) [simp del]

lemma double_quoted_cases:
  assumes "s = [] \<Longrightarrow> P" "\<And>r. s = 34 # r \<Longrightarrow> P" "s = [92] \<Longrightarrow> P" "\<And>n r. s = 92 # n # r \<Longrightarrow> escapable n \<Longrightarrow> P"
    "\<And>n r. s = 92 # n # r \<Longrightarrow> \<not> escapable n \<Longrightarrow> P" "\<And>c r. s = c # r \<Longrightarrow> c \<noteq> 34 \<Longrightarrow> c \<noteq> 92 \<Longrightarrow> P"
  shows P
  using assms by (metis list.exhaust)

lemma double_quoted_below: "rest_below (length s) (double_quoted s)"
proof (induction "length s" arbitrary: s rule: less_induct)
  case less
  show ?case
    by (rule double_quoted_cases [of s]) (auto intro!: rest_below_mono [OF less])
qed

lemma single_quoted_shorter: "single_quoted s = Some (t, rest) \<Longrightarrow> length rest < length s"
  using single_quoted_below [of s] by simp

lemma double_quoted_shorter: "double_quoted s = Some (t, rest) \<Longrightarrow> length rest < length s"
  using double_quoted_below [of s] by simp

text \<open>A whole POSIX word, from the state of the loop on.\<close>

function posix_word :: "jsstring \<Rightarrow> bool \<Rightarrow> bool \<Rightarrow> jsstring \<Rightarrow> posix_token option" where
  "posix_word text0 quoted unq [] = Some \<lparr>tk_text = text0, tk_rest = [], pt_quoted = quoted, pt_hasUnquotedLiteral = unq\<rparr>"
| "posix_word text0 quoted unq (c # s) =
     (if is_space c then Some \<lparr>tk_text = text0, tk_rest = c # s, pt_quoted = quoted, pt_hasUnquotedLiteral = unq\<rparr>
      else if c = 39 then (case single_quoted s of None \<Rightarrow> None | Some (t, rest) \<Rightarrow> posix_word (text0 @ t) True unq rest)
      else if c = 34 then (case double_quoted s of None \<Rightarrow> None | Some (t, rest) \<Rightarrow> posix_word (text0 @ t) True unq rest)
      else if c = 92 then (case s of [] \<Rightarrow> None
        | n # s' \<Rightarrow> posix_word (text0 @ (if n = 10 then [] else [n])) quoted unq s')
      else posix_word (text0 @ [c]) quoted True s)"
  by pat_completeness auto
termination
  by (relation "measure (\<lambda>(_, _, _, s). length s)")
     (auto dest: single_quoted_shorter double_quoted_shorter)

definition readPosixShellToken :: "jsstring \<Rightarrow> posix_token option" where
  "readPosixShellToken input = (case skip_spaces input of [] \<Rightarrow> None | c # s \<Rightarrow> posix_word [] False False (c # s))"

section \<open>Launchers\<close>

abbreviation (input) slash_re :: regex where "slash_re \<equiv> Chars (\<lambda>c. c = 92 \<or> c = 47)"

definition is_absolute_windows :: "jsstring \<Rightarrow> bool" where
  "is_absolute_windows binary \<longleftrightarrow>
     regex_test (seqs [Begin, Chars (\<lambda>c. 65 \<le> c \<and> c \<le> 90 \<or> 97 \<le> c \<and> c \<le> 122), lit '':'', slash_re]) binary
     \<or> regex_test (seqs [Begin, slash_re, slash_re]) binary"

definition isWindowsPowerShellWrapperExecutable :: "jsstring \<Rightarrow> bool" where
  "isWindowsPowerShellWrapperExecutable binary \<longleftrightarrow>
     regex_test (seqs [Alt Begin slash_re, Alt (ilit ''pwsh'') (ilit ''powershell''), ilit ''.exe'', End]) binary
     \<and> is_absolute_windows binary"

definition isWindowsCmdWrapperExecutable :: "jsstring \<Rightarrow> bool" where
  "isWindowsCmdWrapperExecutable binary \<longleftrightarrow>
     regex_test (seqs [Alt Begin slash_re, ilit ''cmd'', optional_re (ilit ''.exe''), End]) binary
     \<and> (92 \<notin> set binary \<and> 47 \<notin> set binary \<or> is_absolute_windows binary)"

definition isPosixShellWrapperExecutable :: "jsstring \<Rightarrow> bool" where
  "isPosixShellWrapperExecutable =
     regex_test (seqs [Begin, optional_re (Seq (alts [lit ''/bin'', lit ''/usr/bin'', lit ''/usr/local/bin'']) (lit ''/'')),
       alts [lit ''zsh'', lit ''bash'', lit ''sh''], End])"

definition isPosixEnvExecutable :: "jsstring \<Rightarrow> bool" where
  "isPosixEnvExecutable = regex_test (seqs [Begin, optional_re (Seq (Alt (lit ''/bin'') (lit ''/usr/bin'')) (lit ''/'')), lit ''env'', End])"

definition plain_path_unit :: "code_unit \<Rightarrow> bool" where
  "plain_path_unit c \<longleftrightarrow> is_alnum c \<or> one_of ''_./:@%+=,-'' c"

definition isUnambiguousBareScript :: "posix_token \<Rightarrow> bool" where
  "isUnambiguousBareScript script \<longleftrightarrow> \<not> pt_quoted script \<and> regex_test (seqs [Begin, plus_re (Chars plain_path_unit), End]) (tk_text script)"

definition posix_script :: "posix_token \<Rightarrow> jsstring option" where
  "posix_script executable =
     (if \<not> isPosixShellWrapperExecutable (tk_text executable) then None
      else do {
        opt \<leftarrow> readPosixShellToken (tk_rest executable);
        if tk_text opt \<noteq> js ''-lc'' \<and> tk_text opt \<noteq> js ''-c'' then None
        else do {
          script \<leftarrow> readPosixShellToken (tk_rest opt);
          if tk_text script = [] \<or> trim (tk_rest script) \<noteq> [] then None
          else if pt_quoted script then (if pt_hasUnquotedLiteral script then None else Some (tk_text script))
          else if \<not> isUnambiguousBareScript script then None
          else Some (tk_text script)
        }
      })"

definition displayCommandFromPosixShellWrapper :: "jsstring \<Rightarrow> jsstring option" where
  "displayCommandFromPosixShellWrapper command = do {
     executable \<leftarrow> readPosixShellToken command;
     if isPosixEnvExecutable (tk_text executable) then do {
       executable \<leftarrow> readPosixShellToken (tk_rest executable);
       posix_script executable
     } else posix_script executable
   }"

definition whole_remainder :: "jsstring \<Rightarrow> jsstring option" where
  "whole_remainder input = do {
     displayCommand \<leftarrow> readCommandRemainder input;
     if trim (tk_rest displayCommand) \<noteq> [] \<or> tk_text displayCommand = [] then None else Some (tk_text displayCommand)
   }"

text \<open>The loop over the options of PowerShell; every token ends behind the one before.\<close>

lemma quoted_token_below: "rest_below (length s) (quoted_token q s)"
proof (induction q s rule: quoted_token.induct)
  case (2 q c s)
  have tl: "rest_below (Suc (length s)) (quoted_token q (tl s))" if "rest_below (length (tl s)) (quoted_token q (tl s))"
    using that by (rule rest_below_mono) simp
  from 2 show ?case by (auto intro: tl rest_below_mono simp: rest_below_simps)
qed simp

lemma length_dropWhile_le': "length (dropWhile P s) \<le> length s"
  by (induction s) auto

lemma readShellToken_shorter: "readShellToken s = Some tok \<Longrightarrow> length (tk_rest tok) < length s"
proof -
  assume r: "readShellToken s = Some tok"
  then obtain c s1 where s: "dropWhile is_space s = c # s1" by (auto simp: readShellToken_def split: list.splits)
  have "\<not> is_space c" using s hd_dropWhile [of is_space s] by force
  moreover have "length (c # s1) \<le> length s" using length_dropWhile_le' [of is_space s] unfolding s .
  moreover have "length (dropWhile (Not \<circ> is_space) s1) \<le> length s1" by (rule length_dropWhile_le')
  ultimately show ?thesis using r s quoted_token_below [of s1 c]
    by (auto simp: readShellToken_def split: if_splits)
qed

definition is_command_option :: "jsstring \<Rightarrow> bool" where
  "is_command_option = regex_test (seqs [Begin, lit ''-'', Alt (ilit ''command'') (ilit ''c''), End])"

function powershell_options :: "jsstring \<Rightarrow> jsstring option" where
  "powershell_options input = (case readShellToken input of
       None \<Rightarrow> None
     | Some tok \<Rightarrow> if is_command_option (tk_text tok) then whole_remainder (tk_rest tok) else powershell_options (tk_rest tok))"
  by pat_completeness auto
termination by (relation "measure length") (auto dest: readShellToken_shorter)

declare powershell_options.simps [simp del]

definition displayCommandFromPowerShellWrapper :: "jsstring \<Rightarrow> jsstring option" where
  "displayCommandFromPowerShellWrapper command = do {
     executable \<leftarrow> readShellToken command;
     if isWindowsPowerShellWrapperExecutable (tk_text executable) then powershell_options (tk_rest executable) else None
   }"

definition displayCommandFromCmdWrapper :: "jsstring \<Rightarrow> jsstring option" where
  "displayCommandFromCmdWrapper command = do {
     executable \<leftarrow> readShellToken command;
     if isWindowsCmdWrapperExecutable (tk_text executable) then do {
       opt \<leftarrow> readShellToken (tk_rest executable);
       if regex_test (seqs [Begin, lit ''/'', ilit ''c'', End]) (tk_text opt) then whole_remainder (tk_rest opt) else None
     } else None
   }"

definition normalizeDisplayCommand :: "jsstring \<Rightarrow> jsstring option" where
  "normalizeDisplayCommand command =
     (if trim command = [] then None
      else case displayCommandFromPosixShellWrapper command of
        Some t \<Rightarrow> Some t
      | None \<Rightarrow> (case displayCommandFromPowerShellWrapper command of
          Some t \<Rightarrow> Some t
        | None \<Rightarrow> displayCommandFromCmdWrapper command))"

end
