(* ===== verification/CommandWords.thy ===== *)
theory CommandWords
  imports CommandDisplay
begin

text \<open>
  What the reader of shell launchers computes: a declarative description of the words of a POSIX command
  and of their meaning after quote removal, the proof that the token reader implements it, the
  resulting characterisation of the POSIX launcher, and the round trip through the two ways of quoting a script.
\<close>

section \<open>Words of a shell\<close>

text \<open>The inside of double quotes and its meaning.\<close>

inductive double_body :: "jsstring \<Rightarrow> jsstring \<Rightarrow> bool" where
  "double_body [] []"
| "escapable n \<Longrightarrow> double_body a b \<Longrightarrow> double_body (92 # n # a) ((if n = 10 then [] else [n]) @ b)"
| "\<not> escapable n \<Longrightarrow> double_body (n # a) b \<Longrightarrow> double_body (92 # n # a) (92 # b)"
| "c \<noteq> 34 \<Longrightarrow> c \<noteq> 92 \<Longrightarrow> double_body a b \<Longrightarrow> double_body (c # a) (c # b)"

text \<open>
  A word, its meaning, whether a part of it is in quotes and whether a part of it is neither in
  quotes nor escaped.
\<close>

inductive sh_word :: "jsstring \<Rightarrow> jsstring \<Rightarrow> bool \<Rightarrow> bool \<Rightarrow> bool" where
  sh_end: "sh_word [] [] False False"
| sh_single: "39 \<notin> set a \<Longrightarrow> sh_word w t q u \<Longrightarrow> sh_word (39 # a @ 39 # w) (a @ t) True u"
| sh_double: "double_body a b \<Longrightarrow> sh_word w t q u \<Longrightarrow> sh_word (34 # a @ 34 # w) (b @ t) True u"
| sh_escape: "sh_word w t q u \<Longrightarrow> sh_word (92 # n # w) ((if n = 10 then [] else [n]) @ t) q u"
| sh_plain: "\<not> is_space c \<Longrightarrow> c \<noteq> 39 \<Longrightarrow> c \<noteq> 34 \<Longrightarrow> c \<noteq> 92 \<Longrightarrow> sh_word w t q u \<Longrightarrow> sh_word (c # w) (c # t) q True"

type_synonym sh_part = "jsstring \<times> bool \<times> bool"

definition at_gap :: "jsstring \<Rightarrow> bool" where
  "at_gap s \<longleftrightarrow> (case s of [] \<Rightarrow> True | c # _ \<Rightarrow> is_space c)"

inductive sh_words :: "jsstring \<Rightarrow> sh_part list \<Rightarrow> bool" where
  sh_none: "list_all is_space s \<Longrightarrow> sh_words s []"
| sh_more: "list_all is_space v \<Longrightarrow> sh_word w t q u \<Longrightarrow> w \<noteq> [] \<Longrightarrow> at_gap rest \<Longrightarrow> sh_words rest ps
    \<Longrightarrow> sh_words (v @ w @ rest) ((t, q, u) # ps)"

section \<open>The reader finds the words\<close>

lemma single_quoted_iff: "single_quoted s = Some (t, rest) \<longleftrightarrow> s = t @ 39 # rest \<and> 39 \<notin> set t"
proof (induction s arbitrary: t)
  case (Cons c s)
  then show ?case by (cases t) (auto simp: consume_Some)
qed simp

lemma double_quoted_sound: "double_quoted s = Some (t, rest) \<Longrightarrow> \<exists>a. s = a @ 34 # rest \<and> double_body a t"
proof (induction "length s" arbitrary: s t rule: less_induct)
  case less
  show ?case
  proof (rule double_quoted_cases [of s])
    fix n r assume s: "s = 92 # n # r" "escapable n"
    with less.prems obtain t' where r: "double_quoted r = Some (t', rest)" "t = (if n = 10 then [] else [n]) @ t'"
      by (auto simp: consume_Some)
    with less.hyps [OF _ r(1)] s obtain a where "r = a @ 34 # rest" "double_body a t'" by auto
    with s r double_body.intros(2) [of n a t'] show ?thesis by (metis append_Cons)
  next
    fix n r assume s: "s = 92 # n # r" "\<not> escapable n"
    with less.prems obtain t' where r: "double_quoted (n # r) = Some (t', rest)" "t = 92 # t'" by (auto simp: consume_Some)
    with less.hyps [OF _ r(1)] s obtain a where a: "n # r = a @ 34 # rest" "double_body a t'" by auto
    from s a obtain a' where "a = n # a'" by (cases a) (auto simp: escapable_def)
    with s r a double_body.intros(3) [of n a' t'] show ?thesis by (metis append_Cons)
  next
    fix c r assume s: "s = c # r" "c \<noteq> 34" "c \<noteq> 92"
    with less.prems obtain t' where r: "double_quoted r = Some (t', rest)" "t = c # t'" by (auto simp: consume_Some)
    with less.hyps [OF _ r(1)] s obtain a where "r = a @ 34 # rest" "double_body a t'" by auto
    with s r double_body.intros(4) [of c a t'] show ?thesis by (metis append_Cons)
  qed (use less.prems in \<open>auto intro: double_body.intros\<close>)
qed

lemma double_quoted_complete: "double_body a t \<Longrightarrow> double_quoted (a @ 34 # rest) = Some (t, rest)"
  by (induction rule: double_body.induct) simp_all

lemma quotes_not_space [simp]: "\<not> is_space 39" "\<not> is_space 34" "\<not> is_space 92" "is_space 32"
  by (simp_all add: is_space_def)

lemma posix_word_simps [simp]:
  "at_gap s \<Longrightarrow> posix_word t q u s = Some \<lparr>tk_text = t, tk_rest = s, pt_quoted = q, pt_hasUnquotedLiteral = u\<rparr>"
  "posix_word t q u (39 # s) = (case single_quoted s of None \<Rightarrow> None | Some (a, rest) \<Rightarrow> posix_word (t @ a) True u rest)"
  "posix_word t q u (34 # s) = (case double_quoted s of None \<Rightarrow> None | Some (a, rest) \<Rightarrow> posix_word (t @ a) True u rest)"
  "posix_word t q u [92] = None"
  "posix_word t q u (92 # n # s) = posix_word (t @ (if n = 10 then [] else [n])) q u s"
  "\<not> is_space c \<Longrightarrow> c \<noteq> 39 \<Longrightarrow> c \<noteq> 34 \<Longrightarrow> c \<noteq> 92 \<Longrightarrow> posix_word t q u (c # s) = posix_word (t @ [c]) q True s"
  by (simp_all add: at_gap_def split: list.splits)

declare posix_word.simps(2) [simp del]

lemma posix_word_complete:
  "sh_word w t q u \<Longrightarrow> at_gap rest \<Longrightarrow> posix_word t0 q0 u0 (w @ rest)
    = Some \<lparr>tk_text = t0 @ t, tk_rest = rest, pt_quoted = q0 \<or> q, pt_hasUnquotedLiteral = u0 \<or> u\<rparr>"
proof (induction arbitrary: t0 q0 u0 rule: sh_word.induct)
  case (sh_single a w t q u)
  have "single_quoted (a @ 39 # w @ rest) = Some (a, w @ rest)" using sh_single.hyps by (simp add: single_quoted_iff)
  with sh_single show ?case by simp
qed (simp_all add: double_quoted_complete)

lemma posix_word_sound:
  "posix_word t0 q0 u0 s = Some tok \<Longrightarrow> \<exists>w t q u. s = w @ tk_rest tok \<and> sh_word w t q u \<and> at_gap (tk_rest tok)
    \<and> tk_text tok = t0 @ t \<and> pt_quoted tok = (q0 \<or> q) \<and> pt_hasUnquotedLiteral tok = (u0 \<or> u)"
proof (induction "length s" arbitrary: s t0 q0 u0 rule: less_induct)
  case less
  show ?case
  proof (cases "at_gap s")
    case True
    with less.prems sh_end show ?thesis by force
  next
    case False
    then obtain c r where s: "s = c # r" "\<not> is_space c" by (cases s) (auto simp: at_gap_def)
    consider "c = 39" | "c = 34" | "c = 92" | "c \<noteq> 39" "c \<noteq> 34" "c \<noteq> 92" by blast
    then show ?thesis
    proof cases
      case 1
      with less.prems s obtain a r' where a: "single_quoted r = Some (a, r')" "posix_word (t0 @ a) True u0 r' = Some tok"
        by (auto split: option.splits)
      with less.hyps [OF _ a(2)] single_quoted_shorter [OF a(1)] s obtain w t q u
        where w: "r' = w @ tk_rest tok" "sh_word w t q u" "at_gap (tk_rest tok)" "tk_text tok = t0 @ a @ t"
          "pt_quoted tok" "pt_hasUnquotedLiteral tok = (u0 \<or> u)" by auto
      from a(1) have "r = a @ 39 # r'" "39 \<notin> set a" by (auto simp: single_quoted_iff)
      with w s 1 sh_single [of a w t q u] show ?thesis
        by (intro exI [of _ "39 # a @ 39 # w"] exI [of _ "a @ t"] exI [of _ True] exI [of _ u]) simp
    next
      case 2
      with less.prems s obtain a r' where a: "double_quoted r = Some (a, r')" "posix_word (t0 @ a) True u0 r' = Some tok"
        by (auto split: option.splits)
      with less.hyps [OF _ a(2)] double_quoted_shorter [OF a(1)] s obtain w t q u
        where w: "r' = w @ tk_rest tok" "sh_word w t q u" "at_gap (tk_rest tok)" "tk_text tok = t0 @ a @ t"
          "pt_quoted tok" "pt_hasUnquotedLiteral tok = (u0 \<or> u)" by auto
      from double_quoted_sound [OF a(1)] obtain b where "r = b @ 34 # r'" "double_body b a" by blast
      with w s 2 sh_double [of b a w t q u] show ?thesis
        by (intro exI [of _ "34 # b @ 34 # w"] exI [of _ "a @ t"] exI [of _ True] exI [of _ u]) simp
    next
      case 3
      with less.prems s obtain n r' where r: "r = n # r'" "posix_word (t0 @ (if n = 10 then [] else [n])) q0 u0 r' = Some tok"
        by (cases r) auto
      with less.hyps [OF _ r(2)] s obtain w t q u
        where w: "r' = w @ tk_rest tok" "sh_word w t q u" "at_gap (tk_rest tok)" "tk_text tok = t0 @ (if n = 10 then [] else [n]) @ t"
          "pt_quoted tok = (q0 \<or> q)" "pt_hasUnquotedLiteral tok = (u0 \<or> u)" by auto
      with s 3 r sh_escape [of w t q u n] show ?thesis
        by (intro exI [of _ "92 # n # w"] exI [of _ "(if n = 10 then [] else [n]) @ t"] exI [of _ q] exI [of _ u]) simp
    next
      case 4
      with less.prems s have r: "posix_word (t0 @ [c]) q0 True r = Some tok" by simp
      with less.hyps [OF _ r] s obtain w t q u
        where w: "r = w @ tk_rest tok" "sh_word w t q u" "at_gap (tk_rest tok)" "tk_text tok = t0 @ c # t"
          "pt_quoted tok = (q0 \<or> q)" "pt_hasUnquotedLiteral tok" by auto
      with s 4 sh_plain [of c w t q u] show ?thesis
        by (intro exI [of _ "c # w"] exI [of _ "c # t"] exI [of _ q] exI [of _ True]) simp
    qed
  qed
qed

lemma sh_word_starts: "sh_word w t q u \<Longrightarrow> w \<noteq> [] \<Longrightarrow> \<not> is_space (hd w)"
  by (induction rule: sh_word.induct) auto

lemma skip_to_word: "list_all is_space v \<Longrightarrow> s = [] \<or> \<not> is_space (hd s) \<Longrightarrow> dropWhile is_space (v @ s) = s"
  by (induction v) (auto simp: dropWhile_eq_self_iff)

lemma skipped: "\<exists>v. s = v @ dropWhile is_space s \<and> list_all is_space v"
  by (metis takeWhile_dropWhile_id list_all_iff set_takeWhileD)

lemma readPosix_complete:
  assumes "list_all is_space v" "sh_word w t q u" "w \<noteq> []" "at_gap rest"
  shows "readPosixShellToken (v @ w @ rest) = Some \<lparr>tk_text = t, tk_rest = rest, pt_quoted = q, pt_hasUnquotedLiteral = u\<rparr>"
proof -
  have "dropWhile is_space (v @ w @ rest) = w @ rest"
    using assms(1,3) sh_word_starts [OF assms(2,3)] by (intro skip_to_word) auto
  with assms(3) posix_word_complete [OF assms(2,4), of "[]" False False] show ?thesis
    by (auto simp: readPosixShellToken_def split: list.splits)
qed

lemma readPosix_sound:
  assumes "readPosixShellToken s = Some tok"
  shows "\<exists>v w. s = v @ w @ tk_rest tok \<and> list_all is_space v \<and> w \<noteq> [] \<and> at_gap (tk_rest tok)
    \<and> sh_word w (tk_text tok) (pt_quoted tok) (pt_hasUnquotedLiteral tok)"
proof -
  obtain v where v: "s = v @ dropWhile is_space s" "list_all is_space v" using skipped by blast
  from assms have p: "posix_word [] False False (dropWhile is_space s) = Some tok" and ne: "dropWhile is_space s \<noteq> []"
    by (auto simp: readPosixShellToken_def simp del: dropWhile_eq_Nil_conv split: list.splits)
  from posix_word_sound [OF p] obtain w where w: "dropWhile is_space s = w @ tk_rest tok" "at_gap (tk_rest tok)"
    "sh_word w (tk_text tok) (pt_quoted tok) (pt_hasUnquotedLiteral tok)" by auto
  have "w \<noteq> []"
  proof
    assume "w = []"
    with w ne have "is_space (hd (dropWhile is_space s))" by (auto simp: at_gap_def split: list.splits)
    with hd_dropWhile [OF ne] show False by simp
  qed
  with v w show ?thesis by (metis)
qed

text \<open>
  C32: The POSIX token reader is quote removal. It finds a token exactly where, after spaces, a word of the
  shell stands that is followed by a space or the end: pieces in single quotes, pieces in double quotes with the
  escapes that are effective there, escaped units and plain units. The token is the word's meaning.
\<close>

theorem posix_reader_removes_quotes:
  "readPosixShellToken s = Some tok \<longleftrightarrow>
    (\<exists>v w t q u rest. s = v @ w @ rest \<and> list_all is_space v \<and> w \<noteq> [] \<and> sh_word w t q u \<and> at_gap rest
      \<and> tok = \<lparr>tk_text = t, tk_rest = rest, pt_quoted = q, pt_hasUnquotedLiteral = u\<rparr>)"
proof
  assume "readPosixShellToken s = Some tok"
  then obtain v w where "s = v @ w @ tk_rest tok" "list_all is_space v" "w \<noteq> []" "at_gap (tk_rest tok)"
    "sh_word w (tk_text tok) (pt_quoted tok) (pt_hasUnquotedLiteral tok)" using readPosix_sound by blast
  then show "\<exists>v w t q u rest. s = v @ w @ rest \<and> list_all is_space v \<and> w \<noteq> [] \<and> sh_word w t q u \<and> at_gap rest
      \<and> tok = \<lparr>tk_text = t, tk_rest = rest, pt_quoted = q, pt_hasUnquotedLiteral = u\<rparr>"
    by (intro exI [of _ v] exI [of _ w] exI [of _ "tk_text tok"] exI [of _ "pt_quoted tok"] exI [of _ "pt_hasUnquotedLiteral tok"]
      exI [of _ "tk_rest tok"]) simp
qed (auto simp: readPosix_complete)

section \<open>The launcher\<close>

lemma sh_words_Nil: "sh_words s [] \<longleftrightarrow> trim s = []"
  by (auto simp: trim_empty intro: sh_none elim: sh_words.cases)

definition part_of :: "posix_token \<Rightarrow> sh_part" where
  "part_of tok = (tk_text tok, pt_quoted tok, pt_hasUnquotedLiteral tok)"

lemma sh_words_Cons: "sh_words s (p # ps) \<longleftrightarrow> (\<exists>tok. readPosixShellToken s = Some tok \<and> p = part_of tok \<and> sh_words (tk_rest tok) ps)"
proof
  assume "sh_words s (p # ps)"
  then show "\<exists>tok. readPosixShellToken s = Some tok \<and> p = part_of tok \<and> sh_words (tk_rest tok) ps"
    by (cases rule: sh_words.cases) (auto simp: readPosix_complete part_of_def)
next
  assume "\<exists>tok. readPosixShellToken s = Some tok \<and> p = part_of tok \<and> sh_words (tk_rest tok) ps"
  then obtain tok where tok: "readPosixShellToken s = Some tok" "p = part_of tok" "sh_words (tk_rest tok) ps" by blast
  from readPosix_sound [OF tok(1)] obtain v w where "s = v @ w @ tk_rest tok" "list_all is_space v" "w \<noteq> []" "at_gap (tk_rest tok)"
    "sh_word w (tk_text tok) (pt_quoted tok) (pt_hasUnquotedLiteral tok)" by blast
  with tok(2,3) show "sh_words s (p # ps)" by (simp add: part_of_def sh_more)
qed

text \<open>Which words make a launcher, and its script.\<close>

fun posix_launch :: "sh_part list \<Rightarrow> jsstring option" where
  "posix_launch [(executable, _, _), (opt, _, _), (script, quoted, unquoted)] =
     (if isPosixShellWrapperExecutable executable \<and> (opt = js ''-lc'' \<or> opt = js ''-c'') \<and> script \<noteq> []
         \<and> (if quoted then \<not> unquoted else list_all plain_path_unit script)
      then Some script else None)"
| "posix_launch _ = None"

definition posix_command :: "sh_part list \<Rightarrow> jsstring option" where
  "posix_command ps = (case ps of (executable, _, _) # rest \<Rightarrow> if isPosixEnvExecutable executable then posix_launch rest else posix_launch ps
     | [] \<Rightarrow> None)"

lemma bare_script: "isUnambiguousBareScript tok \<longleftrightarrow> \<not> pt_quoted tok \<and> tk_text tok \<noteq> [] \<and> list_all plain_path_unit (tk_text tok)"
  unfolding isUnambiguousBareScript_def regex_test_class by simp

lemma posix_script_iff:
  "posix_script executable = Some t \<longleftrightarrow>
    (\<exists>opt script. sh_words (tk_rest executable) [opt, script] \<and> posix_launch [part_of executable, opt, script] = Some t)"
proof
  assume "posix_script executable = Some t"
  then obtain opt script where "readPosixShellToken (tk_rest executable) = Some opt" "readPosixShellToken (tk_rest opt) = Some script"
    "trim (tk_rest script) = []" "tk_text script = t" "t \<noteq> []" "isPosixShellWrapperExecutable (tk_text executable)"
    "tk_text opt = js ''-lc'' \<or> tk_text opt = js ''-c''"
    "if pt_quoted script then \<not> pt_hasUnquotedLiteral script else isUnambiguousBareScript script"
    by (auto simp: posix_script_def simp del: js_simps split: bind_splits if_splits)
  then have "sh_words (tk_rest executable) [part_of opt, part_of script]
      \<and> posix_launch [part_of executable, part_of opt, part_of script] = Some t"
    by (auto simp: sh_words_Cons sh_words_Nil part_of_def bare_script simp del: js_simps)
  then show "\<exists>opt script. sh_words (tk_rest executable) [opt, script] \<and> posix_launch [part_of executable, opt, script] = Some t"
    by blast
next
  assume "\<exists>opt script. sh_words (tk_rest executable) [opt, script] \<and> posix_launch [part_of executable, opt, script] = Some t"
  then show "posix_script executable = Some t"
    by (auto simp: posix_script_def sh_words_Cons sh_words_Nil part_of_def bare_script
        simp del: js_simps split: if_splits)
qed

lemma posix_launch_three: "posix_launch ps = Some t \<Longrightarrow> \<exists>a b c. ps = [a, b, c]"
  by (cases ps rule: posix_launch.cases) auto

text \<open>
  C33: What is unwrapped is the whole script of one launcher. The POSIX reader answers a script exactly for
  the commands that consist of the words of a launcher, with or without \<open>env\<close> before it: a known shell, \<open>-c\<close> or
  \<open>-lc\<close>, one script that is not empty and is either quoted throughout or a plain word, and nothing behind it.
\<close>

theorem posix_launcher_characterised:
  "displayCommandFromPosixShellWrapper command = Some t \<longleftrightarrow> (\<exists>ps. sh_words command ps \<and> posix_command ps = Some t)"
proof
  assume "displayCommandFromPosixShellWrapper command = Some t"
  then consider e x where "readPosixShellToken command = Some e" "isPosixEnvExecutable (tk_text e)"
      "readPosixShellToken (tk_rest e) = Some x" "posix_script x = Some t"
    | e where "readPosixShellToken command = Some e" "\<not> isPosixEnvExecutable (tk_text e)" "posix_script e = Some t"
    by (auto simp: displayCommandFromPosixShellWrapper_def split: bind_splits if_splits)
  then show "\<exists>ps. sh_words command ps \<and> posix_command ps = Some t"
  proof cases
    case 1
    then obtain opt script where "sh_words (tk_rest x) [opt, script]" "posix_launch [part_of x, opt, script] = Some t"
      using posix_script_iff by blast
    with 1 have "sh_words command [part_of e, part_of x, opt, script]" "posix_command [part_of e, part_of x, opt, script] = Some t"
      by (auto simp: sh_words_Cons posix_command_def part_of_def)
    then show ?thesis by blast
  next
    case 2
    then obtain opt script where "sh_words (tk_rest e) [opt, script]" "posix_launch [part_of e, opt, script] = Some t"
      using posix_script_iff by blast
    with 2 have "sh_words command [part_of e, opt, script]" "posix_command [part_of e, opt, script] = Some t"
      by (auto simp: sh_words_Cons posix_command_def part_of_def)
    then show ?thesis by blast
  qed
next
  assume "\<exists>ps. sh_words command ps \<and> posix_command ps = Some t"
  then obtain qs where "sh_words command qs" "posix_command qs = Some t" by blast
  then obtain p ps where ps: "sh_words command (p # ps)" "posix_command (p # ps) = Some t"
    by (cases qs) (auto simp: posix_command_def)
  then obtain e where e: "readPosixShellToken command = Some e" "p = part_of e" "sh_words (tk_rest e) ps" by (auto simp: sh_words_Cons)
  show "displayCommandFromPosixShellWrapper command = Some t"
  proof (cases "isPosixEnvExecutable (tk_text e)")
    case True
    with ps e have l: "posix_launch ps = Some t" by (simp add: posix_command_def part_of_def)
    then obtain a b c where "ps = [a, b, c]" using posix_launch_three by blast
    with e l obtain x where "readPosixShellToken (tk_rest e) = Some x" "a = part_of x" "sh_words (tk_rest x) [b, c]" "posix_launch [a, b, c] = Some t"
      by (auto simp: sh_words_Cons [of _ a])
    moreover from this have "posix_script x = Some t" using posix_script_iff by blast
    ultimately show ?thesis using e True by (simp add: displayCommandFromPosixShellWrapper_def)
  next
    case False
    with ps e have l: "posix_launch (part_of e # ps) = Some t" by (simp add: posix_command_def part_of_def)
    then obtain b c where "ps = [b, c]" using posix_launch_three by blast
    with e l have "posix_script e = Some t" using posix_script_iff by blast
    with e False show ?thesis by (simp add: displayCommandFromPosixShellWrapper_def)
  qed
qed

section \<open>Quoting a script\<close>

definition quote_single :: "jsstring \<Rightarrow> jsstring" where
  "quote_single s = 39 # concat (map (\<lambda>c. if c = 39 then [39, 92, 39, 39] else [c]) s) @ [39]"

definition quote_double :: "jsstring \<Rightarrow> jsstring" where
  "quote_double s = 34 # concat (map (\<lambda>c. if escapable c \<and> c \<noteq> 10 then [92, c] else [c]) s) @ [34]"

lemma quote_single_word: "sh_word (quote_single s) s True False"
proof -
  have "39 \<notin> set a \<Longrightarrow> sh_word (39 # a @ concat (map (\<lambda>c. if c = 39 then [39, 92, 39, 39] else [c]) s) @ [39]) (a @ s) True False" for a
  proof (induction s arbitrary: a)
    case Nil
    then show ?case using sh_single [OF _ sh_end] by simp
  next
    case (Cons c s)
    show ?case
    proof (cases "c = 39")
      case True
      have "sh_word (39 # concat (map (\<lambda>c. if c = 39 then [39, 92, 39, 39] else [c]) s) @ [39]) s True False"
        using Cons.IH [of "[]"] by simp
      from sh_single [OF Cons.prems sh_escape [OF this, of 39]] True show ?thesis by simp
    next
      case False
      with Cons.IH [of "a @ [c]"] Cons.prems show ?thesis by simp
    qed
  qed
  from this [of "[]"] show ?thesis by (simp add: quote_single_def)
qed

lemma quote_double_word: "sh_word (quote_double s) s True False"
proof -
  have "double_body (concat (map (\<lambda>c. if escapable c \<and> c \<noteq> 10 then [92, c] else [c]) s)) s"
  proof (induction s)
    case (Cons c s)
    then show ?case
    proof (cases "escapable c \<and> c \<noteq> 10")
      case True
      with double_body.intros(2) [OF _ Cons, of c] show ?thesis by simp
    next
      case False
      then have "c \<noteq> 34" "c \<noteq> 92" by (auto simp: escapable_def)
      moreover from False have "(if escapable c \<and> c \<noteq> 10 then [92, c] else [c]) = [c]" by simp
      ultimately show ?thesis using double_body.intros(4) [OF _ _ Cons, of c] by (simp only: list.map concat.simps append_Cons append_Nil simp_thms)
    qed
  qed (simp add: double_body.intros)
  from sh_double [OF this sh_end] show ?thesis by (simp add: quote_double_def)
qed

definition env_words :: "jsstring list" where
  "env_words = map js [''env'', ''/bin/env'', ''/usr/bin/env'']"

definition shell_words :: "jsstring list" where
  "shell_words = [js p @ js s. p \<leftarrow> [[], ''/bin/'', ''/usr/bin/'', ''/usr/local/bin/''], s \<leftarrow> [''zsh'', ''bash'', ''sh'']]"

definition plain_word :: "jsstring \<Rightarrow> bool" where
  "plain_word w \<longleftrightarrow> w \<noteq> [] \<and> list_all plain_path_unit w"

lemma plain_path_unit_plain: "plain_path_unit c \<Longrightarrow> \<not> is_space c \<and> c \<noteq> 39 \<and> c \<noteq> 34 \<and> c \<noteq> 92"
  by (auto simp: plain_path_unit_def is_alnum_def is_digit_def one_of_def is_space_def word_le_nat_alt)

lemma plain_word_word: "plain_word w \<Longrightarrow> sh_word w w False True"
proof -
  have "list_all plain_path_unit w \<Longrightarrow> sh_word w w False (w \<noteq> [])" for w
    by (induction w) (auto intro: sh_end sh_plain dest: plain_path_unit_plain)
  from this [of w] show "plain_word w \<Longrightarrow> sh_word w w False True" by (simp add: plain_word_def)
qed

lemma launcher_words:
  "list_all (\<lambda>w. plain_word w \<and> isPosixEnvExecutable w) env_words"
  "list_all (\<lambda>w. plain_word w \<and> isPosixShellWrapperExecutable w \<and> \<not> isPosixEnvExecutable w) shell_words"
  "list_all plain_word [js ''-c'', js ''-lc'']"
  by (simp_all add: env_words_def shell_words_def plain_word_def plain_path_unit_def is_alnum_def is_digit_def one_of_def
    isPosixEnvExecutable_def isPosixShellWrapperExecutable_def regex_test_def lit_def optional_re_def)

lemma plain_word_first:
  assumes "plain_word w" "sh_words s ps"
  shows "sh_words (w @ 32 # s) ((w, False, True) # ps)"
proof -
  have "sh_words (32 # s) ps" using assms(2)
  proof cases
    case (sh_more v w t q u rest qs)
    from this(3-7) sh_words.sh_more [of "32 # v" w t q u rest qs] sh_more(1,2) show ?thesis by simp
  qed (simp add: sh_none)
  with sh_words.sh_more [of "[]" w w False True "32 # s" ps] plain_word_word [OF assms(1)] assms(1) show ?thesis
    by (simp add: at_gap_def plain_word_def)
qed

lemma last_word: "sh_word w t q u \<Longrightarrow> w \<noteq> [] \<Longrightarrow> sh_words w [(t, q, u)]"
  using sh_words.sh_more [of "[]" w t q u "[]" "[]"] by (simp add: at_gap_def sh_none)

lemma posix_answer_wins: "displayCommandFromPosixShellWrapper command = Some t \<Longrightarrow> normalizeDisplayCommand command = Some t"
proof -
  assume d: "displayCommandFromPosixShellWrapper command = Some t"
  then have "dropWhile is_space command \<noteq> []"
    by (auto simp: displayCommandFromPosixShellWrapper_def readPosixShellToken_def simp del: dropWhile_eq_Nil_conv split: bind_splits list.splits)
  with d show ?thesis by (auto simp: normalizeDisplayCommand_def trim_empty list_all_iff)
qed

text \<open>
  C34: A script survives being quoted and unwrapped. For every script that is not empty, every known shell, with
  or without \<open>env\<close>, both options and both ways of quoting, the command shown is the script itself.
\<close>

theorem quoted_script_roundtrip:
  assumes "script \<noteq> []" "shell \<in> set shell_words" "env_word \<in> set env_words" "opt \<in> {js ''-c'', js ''-lc''}"
    "quoted \<in> {quote_single script, quote_double script}"
  shows "normalizeDisplayCommand (shell @ 32 # opt @ 32 # quoted) = Some script
    \<and> normalizeDisplayCommand (env_word @ 32 # shell @ 32 # opt @ 32 # quoted) = Some script"
proof -
  have q: "sh_words quoted [(script, True, False)]"
    using assms(5) last_word [OF quote_single_word [of script]] last_word [OF quote_double_word [of script]]
    by (auto simp: quote_single_def quote_double_def)
  have shell: "plain_word shell" "isPosixShellWrapperExecutable shell" "\<not> isPosixEnvExecutable shell"
    using launcher_words(2) assms(2) by (auto simp: list_all_iff)
  have env: "plain_word env_word" "isPosixEnvExecutable env_word" using launcher_words(1) assms(3) by (auto simp: list_all_iff)
  have "plain_word opt" using launcher_words(3) assms(4) by auto
  from plain_word_first [OF shell(1) plain_word_first [OF this q]]
  have w: "sh_words (shell @ 32 # opt @ 32 # quoted) [(shell, False, True), (opt, False, True), (script, True, False)]" .
  have "posix_command [(shell, False, True), (opt, False, True), (script, True, False)] = Some script"
    "posix_command [(env_word, False, True), (shell, False, True), (opt, False, True), (script, True, False)] = Some script"
    using assms(1,4) shell env by (auto simp: posix_command_def simp del: js_simps)
  with w plain_word_first [OF env(1) w] show ?thesis
    using posix_launcher_characterised posix_answer_wins by blast
qed

lemma quoted_script_roundtrip_witness:
  "normalizeDisplayCommand (js ''/bin/zsh'' @ 32 # js ''-lc'' @ 32 # quote_single (js ''can't'')) = Some (js ''can't'')"
proof -
  have "js ''can't'' \<noteq> []" by simp
  moreover have "js ''/bin/zsh'' \<in> set shell_words" "js ''env'' \<in> set env_words" by (simp_all add: shell_words_def env_words_def)
  ultimately show ?thesis using quoted_script_roundtrip [of "js ''can't''" "js ''/bin/zsh''" "js ''env''" "js ''-lc''"] by blast
qed

end
