(* ===== verification/ToolFingerprint.thy ===== *)
theory ToolFingerprint
  imports Js_Regex
begin

text \<open>
  The fingerprint of a tool call (\<open>fingerprintToolCall\<close> and \<open>writeStableValue\<close> of
  \<open>src/packages/maker-core/src/agents/shared/loop-guard.ts\<close>): a stable text of the call and its digest. The
  digest (SHA-256) and \<open>String(n)\<close> of a number are parameters. A tool's input is a value of \<open>JSON.parse\<close> or
  \<open>undefined\<close>, so the branches for big integers, symbols, functions and cycles are not
  reached, and an infinity is written without its sign.
\<close>

section \<open>The text of a string\<close>

definition hex_digit :: "nat \<Rightarrow> code_unit" where
  "hex_digit d = (if d < 10 then of_nat (48 + d) else of_nat (87 + d))"

definition unicode_escape :: "code_unit \<Rightarrow> jsstring" where
  "unicode_escape c = (let n = unat c in
     [92, 117, hex_digit (n div 4096), hex_digit (n div 256 mod 16), hex_digit (n div 16 mod 16), hex_digit (n mod 16)])"

definition high_surrogate :: "code_unit \<Rightarrow> bool" where "high_surrogate c \<longleftrightarrow> 55296 \<le> c \<and> c \<le> 56319"
definition low_surrogate :: "code_unit \<Rightarrow> bool" where "low_surrogate c \<longleftrightarrow> 56320 \<le> c \<and> c \<le> 57343"

definition escape_unit :: "code_unit \<Rightarrow> jsstring" where
  "escape_unit c =
     (if c = 34 \<or> c = 92 then [92, c]
      else if c = 8 then [92, 98] else if c = 9 then [92, 116] else if c = 10 then [92, 110]
      else if c = 12 then [92, 102] else if c = 13 then [92, 114]
      else if c < 32 \<or> high_surrogate c \<or> low_surrogate c then unicode_escape c
      else [c])"

text \<open>Surrogates are escaped unless they make a pair.\<close>

fun json_units :: "jsstring \<Rightarrow> jsstring" where
  "json_units [] = []"
| "json_units (c # d # s) =
     (if high_surrogate c \<and> low_surrogate d then c # d # json_units s else escape_unit c @ json_units (d # s))"
| "json_units [c] = escape_unit c"

text \<open>\<open>JSON.stringify(s)\<close> of a string.\<close>

definition json_string :: "jsstring \<Rightarrow> jsstring" where
  "json_string s = 34 # json_units s @ [34]"

section \<open>The text of a value\<close>

text \<open>The texts of the parts, separated by commas.\<close>

fun commas :: "jsstring list \<Rightarrow> jsstring" where
  "commas [] = []"
| "commas [x] = x"
| "commas (x # y # xs) = x @ 44 # commas (y # xs)"

definition by_key :: "jsstring \<times> 'a \<Rightarrow> jsstring \<times> 'a \<Rightarrow> bool" where
  "by_key a b \<longleftrightarrow> fst a \<le> fst b"

fun writeStableValue :: "(number \<Rightarrow> jsstring) \<Rightarrow> json \<Rightarrow> jsstring" where
  "writeStableValue num JNull = js ''null''"
| "writeStableValue num (JString s) = json_string s"
| "writeStableValue num (JNumber n) = num n"
| "writeStableValue num JNonFinite = js ''Infinity''"
| "writeStableValue num (JBool b) = (if b then js ''true'' else js ''false'')"
| "writeStableValue num (JArray vs) = 91 # commas (map (writeStableValue num) vs) @ [93]"
| "writeStableValue num (JObject es) =
     123 # commas (map (\<lambda>(k, v). json_string k @ 58 # v) (sort_by by_key (map (\<lambda>(k, v). (k, writeStableValue num v)) es))) @ [125]"

definition fingerprint_text :: "(number \<Rightarrow> jsstring) \<Rightarrow> jsstring \<Rightarrow> json option \<Rightarrow> jsstring option \<Rightarrow> jsstring" where
  "fingerprint_text num toolName input output =
     js ''tool:'' @ toolName @ 10 # js ''input:''
     @ (case input of None \<Rightarrow> js ''undefined'' | Some v \<Rightarrow> writeStableValue num v)
     @ (case output of None \<Rightarrow> [] | Some t \<Rightarrow> 10 # js ''output:'' @ t)"

record guard_host =
  gh_digest :: "jsstring \<Rightarrow> jsstring"
  gh_number :: "number \<Rightarrow> jsstring"

definition fingerprintToolCall :: "guard_host \<Rightarrow> jsstring \<Rightarrow> json option \<Rightarrow> jsstring option \<Rightarrow> jsstring" where
  "fingerprintToolCall h toolName input output = gh_digest h (fingerprint_text (gh_number h) toolName input output)"

section \<open>The text of a string can be read back\<close>

definition hex_value :: "code_unit \<Rightarrow> nat" where
  "hex_value c = (if c < 58 then unat c - 48 else unat c - 87)"

lemma hex_value_digit: "d < 16 \<Longrightarrow> hex_value (hex_digit d) = d"
proof -
  assume "d < 16"
  then have "d \<in> set [0..<16]" by simp
  moreover have "list_all (\<lambda>d. hex_value (hex_digit d) = d) [0..<16]" by code_simp
  ultimately show ?thesis by (simp only: list_all_iff)
qed

text \<open>Reading after an opening quote.\<close>

fun read_units :: "jsstring \<Rightarrow> (jsstring \<times> jsstring) option" where
  "read_units [] = None"
| "read_units (c # s) =
     (if c = 34 then Some ([], s)
      else if c \<noteq> 92 then map_option (apfst (Cons c)) (read_units s)
      else (case s of
          [] \<Rightarrow> None
        | e # t \<Rightarrow>
            if e = 117 then (case t of
                h1 # h2 # h3 # h4 # r \<Rightarrow>
                  map_option (apfst (Cons (of_nat (hex_value h1 * 4096 + hex_value h2 * 256 + hex_value h3 * 16 + hex_value h4)))) (read_units r)
              | _ \<Rightarrow> None)
            else map_option (apfst (Cons (if e = 98 then 8 else if e = 116 then 9 else if e = 110 then 10 else if e = 102 then 12
              else if e = 114 then 13 else e))) (read_units t)))"

lemma hex_parts: "n div 4096 * 4096 + n div 256 mod 16 * 256 + n div 16 mod 16 * 16 + n mod 16 = (n :: nat)"
proof -
  have d: "n div 256 = n div 16 div 16" "n div 4096 = n div 16 div 16 div 16" by (simp_all add: div_mult2_eq [symmetric])
  define a where "a = n div 16"
  define b where "b = a div 16"
  have "n = a * 16 + n mod 16" "a = b * 16 + a mod 16" "b = b div 16 * 16 + b mod 16" by (simp_all add: a_def b_def)
  moreover have "m = x * 16 + p \<Longrightarrow> x = y * 16 + q \<Longrightarrow> y = z * 16 + r \<Longrightarrow> z * 4096 + r * 256 + q * 16 + p = m" for m x y z p q r :: nat
    by simp
  ultimately show ?thesis unfolding d a_def [symmetric] b_def [symmetric] by blast
qed

lemma hex_word:
  "of_nat (unat c div 4096 * 4096 + unat c div 256 mod 16 * 256 + unat c div 16 mod 16 * 16 + unat c mod 16) = (c :: code_unit)"
  unfolding hex_parts by simp

lemma read_units_simps:
  "read_units (34 # s) = Some ([], s)"
  "c \<noteq> 34 \<Longrightarrow> c \<noteq> 92 \<Longrightarrow> read_units (c # s) = map_option (apfst (Cons c)) (read_units s)"
  "read_units (92 # 117 # h1 # h2 # h3 # h4 # s) =
    map_option (apfst (Cons (of_nat (hex_value h1 * 4096 + hex_value h2 * 256 + hex_value h3 * 16 + hex_value h4)))) (read_units s)"
  "e \<noteq> 117 \<Longrightarrow> read_units (92 # e # s) =
    map_option (apfst (Cons (if e = 98 then 8 else if e = 116 then 9 else if e = 110 then 10 else if e = 102 then 12
      else if e = 114 then 13 else e))) (read_units s)"
  by (simp_all del: of_nat_add of_nat_mult)

declare read_units.simps(2) [simp del] read_units_simps [simp]

lemma read_unicode_escape: "read_units (unicode_escape c @ s) = map_option (apfst (Cons c)) (read_units s)"
proof -
  have "unat c < 65536" using unsigned_less [of c, where ?'a = nat] by simp
  then have hex: "hex_value (hex_digit (unat c div 4096)) = unat c div 4096" by (intro hex_value_digit) simp
  show ?thesis unfolding unicode_escape_def Let_def append_Cons append_Nil read_units_simps(3)
    by (simp only: hex hex_value_digit [OF mod_less_divisor] zero_less_numeral hex_word)
qed

lemma read_escape_unit: "read_units (escape_unit c @ s) = map_option (apfst (Cons c)) (read_units s)"
  by (simp add: escape_unit_def read_unicode_escape)

lemma surrogate_plain: "high_surrogate c \<or> low_surrogate c \<Longrightarrow> c \<noteq> 34 \<and> c \<noteq> 92"
  by (auto simp: high_surrogate_def low_surrogate_def)

lemma read_json_units: "read_units (json_units s @ 34 # r) = Some (s, r)"
proof (induction s rule: json_units.induct)
  case (2 c d s)
  show ?case
  proof (cases "high_surrogate c \<and> low_surrogate d")
    case True
    with 2(1) surrogate_plain [of c] surrogate_plain [of d] show ?thesis by simp
  next
    case False
    then have "json_units (c # d # s) = escape_unit c @ json_units (d # s)"
      unfolding json_units.simps(2) by (rule if_not_P)
    with 2(2) [OF False] show ?thesis by (simp add: read_escape_unit del: json_units.simps)
  qed
qed (simp_all add: read_escape_unit)

lemma json_units_inject: "json_units s @ 34 # r = json_units t @ 34 # q \<longleftrightarrow> s = t \<and> r = q"
  by (metis read_json_units option.inject Pair_inject)

lemma json_string_inject [simp]: "json_string s @ r = json_string t @ q \<longleftrightarrow> s = t \<and> r = q"
  by (simp add: json_string_def json_units_inject)

section \<open>The text of a value determines the value\<close>

text \<open>The value with the keys of every object in order: what the text is of.\<close>

fun canon :: "json \<Rightarrow> json" where
  "canon (JArray vs) = JArray (map canon vs)"
| "canon (JObject es) = JObject (sort_by by_key (map (\<lambda>(k, v). (k, canon v)) es))"
| "canon v = v"

fun plain_text :: "(number \<Rightarrow> jsstring) \<Rightarrow> json \<Rightarrow> jsstring" where
  "plain_text num (JArray vs) = 91 # commas (map (plain_text num) vs) @ [93]"
| "plain_text num (JObject es) = 123 # commas (map (\<lambda>(k, v). json_string k @ 58 # plain_text num v) es) @ [125]"
| "plain_text num v = writeStableValue num v"

lemma insort_by_map: "(\<And>x y. le' (f x) (f y) = le x y) \<Longrightarrow> insort_by le' (f x) (map f xs) = map f (insort_by le x xs)"
  by (induction xs) auto

lemma sort_by_map: "(\<And>x y. le' (f x) (f y) = le x y) \<Longrightarrow> sort_by le' (map f xs) = map f (sort_by le xs)"
  by (induction xs) (simp_all add: sort_by_def insort_by_map)

lemma write_canon: "writeStableValue num v = plain_text num (canon v)"
proof (induction v)
  case (JArray vs)
  then have "map (writeStableValue num) vs = map (plain_text num) (map canon vs)" by simp
  then show ?case by (simp only: writeStableValue.simps canon.simps plain_text.simps)
next
  case (JObject es)
  let ?f = "map_prod id (plain_text num) :: jsstring \<times> json \<Rightarrow> _"
  have eq: "map (\<lambda>(k, v). (k, writeStableValue num v)) es = map ?f (map (\<lambda>(k, v). (k, canon v)) es)"
    using JObject by (force simp: snds.simps)
  have "sort_by by_key (map (\<lambda>(k, v). (k, writeStableValue num v)) es) = map ?f (sort_by by_key (map (\<lambda>(k, v). (k, canon v)) es))"
    unfolding eq by (rule sort_by_map) (simp add: by_key_def)
  then have "map (\<lambda>(k, v). json_string k @ 58 # v) (sort_by by_key (map (\<lambda>(k, v). (k, writeStableValue num v)) es))
      = map (\<lambda>(k, v). json_string k @ 58 # plain_text num v) (sort_by by_key (map (\<lambda>(k, v). (k, canon v)) es))"
    by (simp add: split_beta)
  then show ?case by (simp only: writeStableValue.simps canon.simps plain_text.simps)
qed simp_all

text \<open>What is known of \<open>String(n)\<close>: numbers have different texts, of digits, signs, a point and an exponent.\<close>

definition number_unit :: "code_unit \<Rightarrow> bool" where
  "number_unit c \<longleftrightarrow> one_of ''0123456789+-.e'' c"

definition number_texts :: "(number \<Rightarrow> jsstring) \<Rightarrow> bool" where
  "number_texts num \<longleftrightarrow> inj num \<and> (\<forall>n. num n \<noteq> [] \<and> list_all number_unit (num n))"

definition stops :: "jsstring \<Rightarrow> bool" where
  "stops s \<longleftrightarrow> (case s of [] \<Rightarrow> True | c # _ \<Rightarrow> c = 44 \<or> c = 93 \<or> c = 125 \<or> c = 10)"

lemma stops_simps [simp]: "stops []" "stops (44 # s)" "stops (93 # s)" "stops (125 # s)" "stops (10 # s)"
  by (simp_all add: stops_def)

lemma run_split:
  assumes "x @ r = y @ q" "list_all P x" "list_all P y" "r = [] \<or> \<not> P (hd r)" "q = [] \<or> \<not> P (hd q)"
  shows "x = y \<and> r = q"
proof -
  have "takeWhile P (z @ s) = z" if "list_all P z" "s = [] \<or> \<not> P (hd s)" for z s :: "'a list"
    using that by (cases s) (auto simp: list_all_iff takeWhile_tail)
  with assms have "x = y" by metis
  with assms(1) show ?thesis by simp
qed

lemma commas_Cons: "commas (x # xs) = x @ concat (map (Cons 44) xs)"
  by (induction xs arbitrary: x) auto

text \<open>A function whose texts, followed by something that stops them, determine their argument and what follows.\<close>

definition reads_back :: "('a \<Rightarrow> jsstring) \<Rightarrow> 'a \<Rightarrow> bool" where
  "reads_back f x \<longleftrightarrow> (\<forall>y r q. f x @ r = f y @ q \<longrightarrow> stops r \<longrightarrow> stops q \<longrightarrow> x = y \<and> r = q)"

lemma tail_reads_back:
  assumes "\<forall>x \<in> set xs. reads_back f x" "e = 93 \<or> e = 125"
    "concat (map (\<lambda>x. 44 # f x) xs) @ e # r = concat (map (\<lambda>x. 44 # f x) ys) @ e # q"
  shows "xs = ys \<and> r = q"
  using assms(1,3)
proof (induction xs arbitrary: ys)
  case Nil
  then show ?case using assms(2) by (cases ys) auto
next
  case (Cons x xs)
  have st: "stops (concat (map (\<lambda>x. 44 # f x) zs) @ e # s)" for zs s using assms(2) by (cases zs) auto
  from Cons.prems(2) assms(2) obtain y zs where ys: "ys = y # zs" by (cases ys) auto
  with Cons.prems(2) have "f x @ concat (map (\<lambda>x. 44 # f x) xs) @ e # r = f y @ concat (map (\<lambda>x. 44 # f x) zs) @ e # q" by simp
  with Cons.prems(1) st have "x = y \<and> concat (map (\<lambda>x. 44 # f x) xs) @ e # r = concat (map (\<lambda>x. 44 # f x) zs) @ e # q"
    unfolding reads_back_def list.set ball_simps by blast
  with Cons ys show ?case by simp
qed

lemma commas_reads_back:
  assumes "\<forall>x \<in> set xs. reads_back f x" "e = 93 \<or> e = 125" "\<And>x. f x \<noteq> [] \<and> hd (f x) \<noteq> e"
    "commas (map f xs) @ e # r = commas (map f ys) @ e # q"
  shows "xs = ys \<and> r = q"
proof -
  have st: "stops (concat (map (\<lambda>x. 44 # f x) zs) @ e # s)" for zs s using assms(2) by (cases zs) auto
  have head: "f z @ s \<noteq> e # s'" for z s s' using assms(3) [of z] by (cases "f z") auto
  have c: "concat (map ((#) 44) (map f zs)) = concat (map (\<lambda>x. 44 # f x) zs)" for zs by (simp add: comp_def)
  show ?thesis
  proof (cases xs)
    case Nil
    with assms(4) show ?thesis by (cases ys) (auto simp: commas_Cons c dest: head [THEN notE, OF sym])
  next
    case (Cons x xs')
    with assms(4) obtain y ys' where ys: "ys = y # ys'" by (cases ys) (auto simp: commas_Cons c head)
    with assms(4) Cons have "f x @ concat (map (\<lambda>x. 44 # f x) xs') @ e # r = f y @ concat (map (\<lambda>x. 44 # f x) ys') @ e # q"
      by (simp add: commas_Cons c del: map_map)
    with assms(1) Cons st have "x = y" "concat (map (\<lambda>x. 44 # f x) xs') @ e # r = concat (map (\<lambda>x. 44 # f x) ys') @ e # q"
      unfolding reads_back_def Cons list.set ball_simps by blast+
    with tail_reads_back [of xs' f e r ys' q] assms(1,2) Cons ys show ?thesis by simp
  qed
qed

lemma number_reads_back:
  assumes "number_texts num" "num m @ r = num n @ q" "stops r" "stops q"
  shows "m = n \<and> r = q"
proof -
  have *: "s = [] \<or> \<not> number_unit (hd s)" if "stops s" for s
    using that by (cases s) (auto simp: stops_def number_unit_def one_of_def)
  with assms run_split [OF assms(2), of number_unit] have "num m = num n \<and> r = q" by (auto simp: number_texts_def)
  with assms(1) show ?thesis by (auto simp: number_texts_def dest: injD)
qed

text \<open>The first code unit tells the kinds of value apart.\<close>

definition kind_of :: "json \<Rightarrow> code_unit" where
  "kind_of v = (case v of JNull \<Rightarrow> 110 | JBool b \<Rightarrow> (if b then 116 else 102) | JNumber _ \<Rightarrow> 48 | JNonFinite \<Rightarrow> 73
     | JString _ \<Rightarrow> 34 | JArray _ \<Rightarrow> 91 | JObject _ \<Rightarrow> 123)"

definition unit_kind :: "code_unit \<Rightarrow> code_unit" where
  "unit_kind c = (if number_unit c then 48 else c)"

lemma first_unit:
  assumes "number_texts num"
  shows "\<exists>c s. plain_text num v = c # s \<and> unit_kind c = kind_of v"
proof (cases v)
  case (JNumber n)
  from assms have "num n \<noteq> []" "list_all number_unit (num n)" by (auto simp: number_texts_def)
  with JNumber show ?thesis by (cases "num n") (auto simp: unit_kind_def kind_of_def)
qed (simp_all add: unit_kind_def kind_of_def number_unit_def one_of_def json_string_def)

lemma same_kind:
  assumes "number_texts num" "plain_text num v @ r = plain_text num w @ q"
  shows "kind_of v = kind_of w"
proof -
  obtain c s d t where "plain_text num v = c # s" "unit_kind c = kind_of v" "plain_text num w = d # t" "unit_kind d = kind_of w"
    using first_unit [OF assms(1)] by metis
  with assms(2) show ?thesis by simp
qed

lemma value_text_head: "number_texts num \<Longrightarrow> plain_text num v \<noteq> [] \<and> hd (plain_text num v) \<noteq> 93"
proof -
  assume "number_texts num"
  then obtain c s where cs: "plain_text num v = c # s" "unit_kind c = kind_of v" using first_unit by blast
  have "kind_of v \<noteq> 93" by (simp add: kind_of_def split: json.split)
  moreover have "unit_kind 93 = 93" by (simp add: unit_kind_def number_unit_def one_of_def)
  ultimately show ?thesis using cs by auto
qed

lemma scalar_reads_back:
  assumes "number_texts num" "\<And>w. kind_of w = kind_of v \<Longrightarrow> w = v"
  shows "reads_back (plain_text num) v"
  unfolding reads_back_def
proof (intro allI impI)
  fix w r q assume t: "plain_text num v @ r = plain_text num w @ q"
  with assms(2) same_kind [OF assms(1) t] have "w = v" by simp
  with t show "v = w \<and> r = q" by simp
qed

lemma other_kinds:
  "kind_of w = kind_of JNull \<Longrightarrow> w = JNull" "kind_of w = kind_of JNonFinite \<Longrightarrow> w = JNonFinite"
  "kind_of w = kind_of (JBool b) \<Longrightarrow> w = JBool b" "kind_of w = kind_of (JString s) \<Longrightarrow> \<exists>t. w = JString t"
  "kind_of w = kind_of (JArray vs) \<Longrightarrow> \<exists>ws. w = JArray ws" "kind_of w = kind_of (JObject es) \<Longrightarrow> \<exists>fs. w = JObject fs"
  "kind_of w = kind_of (JNumber n) \<Longrightarrow> \<exists>m. w = JNumber m"
  by (cases w; simp add: kind_of_def split: if_splits)+

lemma value_reads_back:
  assumes num: "number_texts num"
  shows "reads_back (plain_text num) v"
proof (induction v)
  case (JNumber n)
  show ?case unfolding reads_back_def
  proof (intro allI impI)
    fix w r q assume t: "plain_text num (JNumber n) @ r = plain_text num w @ q" "stops r" "stops q"
    obtain m where w: "w = JNumber m" using other_kinds(7) same_kind [OF num t(1)] by metis
    have "num n @ r = num m @ q" using t(1) unfolding w plain_text.simps writeStableValue.simps .
    from number_reads_back [OF num this t(2,3)] w show "JNumber n = w \<and> r = q" by simp
  qed
next
  case (JArray vs)
  show ?case unfolding reads_back_def
  proof (intro allI impI)
    fix w r q assume t: "plain_text num (JArray vs) @ r = plain_text num w @ q"
    obtain ws where w: "w = JArray ws" using other_kinds(5) same_kind [OF num t] by metis
    with t have "commas (map (plain_text num) vs) @ 93 # r = commas (map (plain_text num) ws) @ 93 # q" by simp
    with commas_reads_back [of vs "plain_text num" 93 r ws q] JArray value_text_head [OF num] w show "JArray vs = w \<and> r = q" by simp
  qed
next
  case (JObject es)
  let ?f = "\<lambda>(k, v). json_string k @ 58 # plain_text num v"
  have rb: "\<forall>e \<in> set es. reads_back ?f e"
  proof (intro ballI)
    fix e assume "e \<in> set es"
    then have e: "reads_back (plain_text num) (snd e)" using JObject [of e "snd e"] by (simp add: snds.simps)
    show "reads_back ?f e" unfolding reads_back_def
    proof (intro allI impI)
      fix y r q assume t: "?f e @ r = ?f y @ q" "stops r" "stops q"
      then have "json_string (fst e) @ 58 # plain_text num (snd e) @ r = json_string (fst y) @ 58 # plain_text num (snd y) @ q"
        by (simp add: split_beta)
      then have k: "fst e = fst y" "plain_text num (snd e) @ r = plain_text num (snd y) @ q" unfolding json_string_inject by simp_all
      with e t(2,3) have "snd e = snd y \<and> r = q" unfolding reads_back_def by blast
      with k(1) show "e = y \<and> r = q" by (simp add: prod_eq_iff)
    qed
  qed
  show ?case unfolding reads_back_def
  proof (intro allI impI)
    fix w r q assume t: "plain_text num (JObject es) @ r = plain_text num w @ q"
    obtain ws where w: "w = JObject ws" using other_kinds(6) same_kind [OF num t] by metis
    with t have "commas (map ?f es) @ 125 # r = commas (map ?f ws) @ 125 # q" by simp
    moreover have "?f e \<noteq> [] \<and> hd (?f e) \<noteq> 125" for e by (simp add: split_beta json_string_def)
    ultimately show "JObject es = w \<and> r = q" using commas_reads_back [OF rb, of 125 r ws q] w by simp
  qed
next
  case (JString s)
  show ?case unfolding reads_back_def
  proof (intro allI impI)
    fix w r q assume t: "plain_text num (JString s) @ r = plain_text num w @ q"
    obtain u where "w = JString u" using other_kinds(4) same_kind [OF num t] by metis
    with t show "JString s = w \<and> r = q" by simp
  qed
qed (rule scalar_reads_back [OF num], erule other_kinds)+

definition input_text :: "(number \<Rightarrow> jsstring) \<Rightarrow> json option \<Rightarrow> jsstring" where
  "input_text num input = (case input of None \<Rightarrow> js ''undefined'' | Some v \<Rightarrow> writeStableValue num v)"

definition output_text :: "jsstring option \<Rightarrow> jsstring" where
  "output_text output = (case output of None \<Rightarrow> [] | Some t \<Rightarrow> 10 # js ''output:'' @ t)"

lemma input_reads_back:
  assumes num: "number_texts num" and t: "input_text num v @ r = input_text num w @ q" "stops r" "stops q"
  shows "map_option canon v = map_option canon w \<and> r = q"
proof -
  have u: "hd (plain_text num v) \<noteq> 117" "plain_text num v \<noteq> []" for v
  proof -
    obtain c s where cs: "plain_text num v = c # s" "unit_kind c = kind_of v" using first_unit [OF num] by blast
    have "kind_of v \<noteq> 117" by (simp add: kind_of_def split: json.split)
    moreover have "unit_kind 117 = 117" by (simp add: unit_kind_def number_unit_def one_of_def)
    ultimately show "hd (plain_text num v) \<noteq> 117" "plain_text num v \<noteq> []" using cs by auto
  qed
  have undef: "js ''undefined'' @ r \<noteq> plain_text num v @ q" for v r q
    using u [of v] by (cases "plain_text num v") auto
  show ?thesis
  proof (cases v; cases w)
    fix x y assume vw: "v = Some x" "w = Some y"
    with t(1) have "plain_text num (canon x) @ r = plain_text num (canon y) @ q" by (simp add: input_text_def write_canon)
    with value_reads_back [OF num, of "canon x"] t(2,3) vw show ?thesis unfolding reads_back_def by simp
  qed (use t(1) undef undef [THEN not_sym] in \<open>simp_all add: input_text_def write_canon del: js_simps\<close>)
qed

lemma fingerprint_text_alt: "fingerprint_text num n i t = js ''tool:'' @ n @ 10 # js ''input:'' @ input_text num i @ output_text t"
  by (simp add: fingerprint_text_def input_text_def output_text_def)

lemma output_text_inject: "output_text t = output_text u \<longleftrightarrow> t = u"
  by (cases t; cases u) (simp_all add: output_text_def)

text \<open>
  C40: A fingerprint says which call it is. Two calls of tools whose names have no line break have the same
  text to be digested exactly when name, input and output are the same, where the input counts up to the order
  of the keys of its objects. So calls are confused only where the digest itself collides.
\<close>

theorem fingerprint_identifies_call:
  assumes "number_texts num" "10 \<notin> set n" "10 \<notin> set m"
  shows "fingerprint_text num n v t = fingerprint_text num m w u \<longleftrightarrow> n = m \<and> map_option canon v = map_option canon w \<and> t = u"
proof
  assume "fingerprint_text num n v t = fingerprint_text num m w u"
  then have e: "n @ 10 # js ''input:'' @ input_text num v @ output_text t = m @ 10 # js ''input:'' @ input_text num w @ output_text u"
    unfolding fingerprint_text_alt by simp
  have "n = m \<and> 10 # js ''input:'' @ input_text num v @ output_text t = 10 # js ''input:'' @ input_text num w @ output_text u"
    using assms(2,3) by (intro run_split [OF e, of "\<lambda>c. c \<noteq> 10"]) (auto simp: list_all_iff)
  moreover from this have "input_text num v @ output_text t = input_text num w @ output_text u" by simp
  moreover have "stops (output_text x)" for x by (simp add: output_text_def split: option.split)
  ultimately show "n = m \<and> map_option canon v = map_option canon w \<and> t = u"
    using input_reads_back [OF assms(1), of v "output_text t" w "output_text u"] output_text_inject by blast
next
  assume "n = m \<and> map_option canon v = map_option canon w \<and> t = u"
  moreover from this have "input_text num v = input_text num w" by (cases v; cases w) (simp_all add: input_text_def write_canon)
  ultimately show "fingerprint_text num n v t = fingerprint_text num m w u" by (simp add: fingerprint_text_alt)
qed

text \<open>A function with the properties assumed of \<open>String(n)\<close>.\<close>

definition tally_text :: "number \<Rightarrow> jsstring" where
  "tally_text x = (let (p, q) = quotient_of x in
     (if p < 0 then [45] else [43]) @ replicate (nat \<bar>p\<bar>) 49 @ 46 # replicate (nat q) 49)"

lemma tally_texts: "number_texts tally_text"
proof -
  have "x = y" if t: "tally_text x = tally_text y" for x y
  proof -
    obtain p q p' q' where xy: "quotient_of x = (p, q)" "quotient_of y = (p', q')" by (cases "quotient_of x"; cases "quotient_of y")
    then have pos: "0 < q" "0 < q'" using quotient_of_denom_pos by blast+
    from t xy have sign: "p < 0 \<longleftrightarrow> p' < 0"
      and r: "replicate (nat \<bar>p\<bar>) 49 @ 46 # replicate (nat q) (49 :: code_unit) = replicate (nat \<bar>p'\<bar>) 49 @ 46 # replicate (nat q') 49"
      by (auto simp: tally_text_def split: if_splits)
    have "replicate (nat \<bar>p\<bar>) (49 :: code_unit) = replicate (nat \<bar>p'\<bar>) 49
        \<and> 46 # replicate (nat q) (49 :: code_unit) = 46 # replicate (nat q') 49"
      by (rule run_split [OF r, of "\<lambda>c. c \<noteq> 46"]) (auto simp: list_all_iff)
    then have "nat \<bar>p\<bar> = nat \<bar>p'\<bar>" "nat q = nat q'" by (simp_all add: replicate_eq_replicate)
    with sign pos have "p = p'" "q = q'" by auto
    with xy show "x = y" by (simp add: quotient_of_inject)
  qed
  then show ?thesis
    by (auto simp: number_texts_def inj_def tally_text_def number_unit_def one_of_def list_all_iff split: prod.split)
qed

lemma fingerprint_identifies_call_witness:
  "fingerprint_text tally_text (js ''Read'') (Some (JObject [(js ''a'', JNumber 1), (js ''b'', JNull)])) None
      = fingerprint_text tally_text (js ''Read'') (Some (JObject [(js ''b'', JNull), (js ''a'', JNumber 1)])) None
    \<and> fingerprint_text tally_text (js ''Read'') (Some (JArray [])) None \<noteq> fingerprint_text tally_text (js ''Read'') None None"
proof -
  have n: "10 \<notin> set (js ''Read'')" by simp
  have "canon (JObject [(js ''a'', JNumber 1), (js ''b'', JNull)]) = canon (JObject [(js ''b'', JNull), (js ''a'', JNumber 1)])"
    by code_simp
  then show ?thesis using fingerprint_identifies_call [OF tally_texts n n] by simp
qed

end
