(* ===== verification/LoopGuard.thy ===== *)
theory LoopGuard
  imports ToolFingerprint CommandDisplay
begin

text \<open>
  The detector of tool loops (\<open>src/packages/maker-core/src/agents/shared/loop-guard.ts\<close>): the classification of
  error texts, the recognition of waiting tools, the evidence kept for a review, and the state
  machine \<open>ToolLoopGuard\<close> with every method. A tool's input is \<open>None\<close> for \<open>undefined\<close> or a value of \<open>JSON.parse\<close>,
  whose object entries are in the order of \<open>Object.entries\<close>. One call of a method reads the clock once.
\<close>

section \<open>Errors against a tool's contract\<close>

datatype contract_category = Missing_required_field | Invalid_pages | Stale_locator | Ambiguous_locator | No_changes

definition CONTRACT_ERROR_MAX_OUTPUT_LENGTH :: nat where "CONTRACT_ERROR_MAX_OUTPUT_LENGTH = 600"

abbreviation (input) gap_re :: "nat \<Rightarrow> regex" where "gap_re n \<equiv> Upto n any_re"

definition missing_field_re :: regex where
  "missing_field_re = Alt (seqs [ilit ''required parameter'', gap_re 80, Boundary, ilit ''missing'', Boundary])
     (ilit ''missing required parameter'')"

definition pages_re :: regex where
  "pages_re = Seq (ilit ''page'') (optional_re (ilit ''s''))"

definition invalid_pages_re :: regex where
  "invalid_pages_re = Alt
     (seqs [Boundary, pages_re, Boundary, gap_re 80, Boundary,
        alts [ilit ''invalid'', ilit ''only applicable'', ilit ''not applicable'', ilit ''out of range'', ilit ''must''], Boundary])
     (seqs [Boundary, ilit ''invalid'', Boundary, gap_re 40, Boundary, pages_re, Boundary])"

definition stale_locator_re :: regex where
  "stale_locator_re = Alt (ilit ''string to replace not found'') (seqs [ilit ''old_string'', gap_re 60, ilit ''not found''])"

definition ambiguous_locator_re :: regex where
  "ambiguous_locator_re = seqs [ilit ''found '', plus_re (Chars is_digit), ilit '' matches of the string'']"

definition no_changes_re :: regex where
  "no_changes_re = Alt (ilit ''old_string and new_string are exactly the same'') (ilit ''no changes to make'')"

definition edit_tools :: "jsstring list" where "edit_tools = [js ''Edit'', js ''NotebookEdit'']"

definition CONTRACT_ERROR_MATCHERS :: "(contract_category \<times> jsstring list \<times> regex) list" where
  "CONTRACT_ERROR_MATCHERS =
     [(Missing_required_field, [js ''Edit'', js ''Write'', js ''Read'', js ''NotebookEdit'', js ''AskUserQuestion''], missing_field_re),
      (Invalid_pages, [js ''Read''], invalid_pages_re),
      (Stale_locator, edit_tools, stale_locator_re),
      (Ambiguous_locator, edit_tools, ambiguous_locator_re),
      (No_changes, edit_tools, no_changes_re)]"

definition classifyToolContractError :: "jsstring \<Rightarrow> jsstring \<Rightarrow> contract_category option" where
  "classifyToolContractError toolName output =
     (if output = [] \<or> CONTRACT_ERROR_MAX_OUTPUT_LENGTH < length output then None
      else map_option fst (find (\<lambda>(_, tools, pattern). toolName \<in> set tools \<and> regex_test pattern output) CONTRACT_ERROR_MATCHERS))"

fun category_text :: "contract_category \<Rightarrow> jsstring" where
  "category_text Missing_required_field = js ''missing_required_field''"
| "category_text Invalid_pages = js ''invalid_pages''"
| "category_text Stale_locator = js ''stale_locator''"
| "category_text Ambiguous_locator = js ''ambiguous_locator''"
| "category_text No_changes = js ''no_changes''"

section \<open>Tools that wait\<close>

definition LOOP_GUARD_EXEMPT_TOOL_NAMES :: "jsstring list" where
  "LOOP_GUARD_EXEMPT_TOOL_NAMES = map js [''TaskOutput'', ''write_stdin'', ''wait'', ''sleep'', ''collab:wait'',
     ''dynamic:functions:write_stdin'', ''dynamic:functions:wait'', ''dynamic:clock:sleep'', ''mcp:clock:sleep'']"

definition log_unit :: "code_unit \<Rightarrow> bool" where "log_unit c \<longleftrightarrow> is_alnum c \<or> one_of ''_./:@%+=,-'' c"
definition windows_log_unit :: "code_unit \<Rightarrow> bool" where "windows_log_unit c \<longleftrightarrow> is_alnum c \<or> c = 92 \<or> one_of ''_./:@%+=-'' c"

text \<open>A path of a log file: bare, in single quotes or in double quotes, where blanks are allowed too.\<close>

definition log_path_re :: "(code_unit \<Rightarrow> bool) \<Rightarrow> regex \<Rightarrow> regex" where
  "log_path_re ok suffix = alts
     [Seq (plus_re (Chars ok)) suffix,
      seqs [Chars (\<lambda>c. c = 39), plus_re (Chars (\<lambda>c. ok c \<or> c = 32)), suffix, Chars (\<lambda>c. c = 39)],
      seqs [Chars (\<lambda>c. c = 34), plus_re (Chars (\<lambda>c. ok c \<or> c = 32)), suffix, Chars (\<lambda>c. c = 34)]]"

definition tail_re :: regex where
  "tail_re = (let logPath = log_path_re log_unit (lit ''.log'') in
     seqs [Begin, optional_re (Alt (lit ''/usr/bin/'') (lit ''/bin/'')), lit ''tail'', plus_re space_re,
       optional_re (Seq (Alt (Seq (lit ''-'') (plus_re (Chars is_digit)))
                             (seqs [lit ''-n'', plus_re space_re, plus_re (Chars is_digit)]))
                        (plus_re space_re)),
       logPath, Many (Seq (plus_re space_re) logPath), Many space_re, End])"

definition get_content_re :: regex where
  "get_content_re = (let target = Seq (optional_re (Seq (Alt (ilit ''-Path'') (ilit ''-LiteralPath'')) (plus_re space_re)))
                                      (log_path_re windows_log_unit (ilit ''.log''));
                         tail = seqs [ilit ''-Tail'', plus_re space_re, plus_re (Chars is_digit)] in
     seqs [Begin, ilit ''Get-Content'', plus_re space_re,
       Alt (seqs [tail, plus_re space_re, target]) (seqs [target, plus_re space_re, tail]), Many space_re, End])"

text \<open>\<open>script.split(/;|&&/)\<close>.\<close>

fun split_script :: "jsstring \<Rightarrow> jsstring list" where
  "split_script [] = [[]]"
| "split_script [c] = (if c = 59 then [[], []] else [[c]])"
| "split_script (c # d # s) =
     (if c = 59 then [] # split_script (d # s)
      else if c = 38 \<and> d = 38 then [] # split_script s
      else (case split_script (d # s) of p # ps \<Rightarrow> (c # p) # ps | [] \<Rightarrow> [[c]]))"

definition reads_logs_only :: "jsstring \<Rightarrow> bool" where
  "reads_logs_only command =
     (let script = (case normalizeDisplayCommand command of Some t \<Rightarrow> t | None \<Rightarrow> command)
      in list_all (\<lambda>part. regex_test tail_re (trim part) \<or> regex_test get_content_re (trim part)) (split_script script))"

text \<open>\<open>a ?? b\<close>.\<close>

definition coalesce :: "json option \<Rightarrow> json option \<Rightarrow> json option" where
  "coalesce a b = (if a = None \<or> a = Some JNull then b else a)"

definition is_object :: "json option \<Rightarrow> bool" where
  "is_object v \<longleftrightarrow> (case v of Some (JArray _) \<Rightarrow> True | Some (JObject _) \<Rightarrow> True | _ \<Rightarrow> False)"

definition isPollingTool :: "jsstring \<Rightarrow> json option \<Rightarrow> bool \<Rightarrow> bool" where
  "isPollingTool name input isError \<longleftrightarrow>
     (if name \<in> set LOOP_GUARD_EXEMPT_TOOL_NAMES then True
      else if \<not> is_object input then False
      else if \<not> isError \<and> name \<in> set (map js [''exec'', ''Bash'', ''bash'', ''powershell''])
        \<and> (case coalesce (member input ''command'') (member input ''cmd'') of Some (JString command) \<Rightarrow> reads_logs_only command | _ \<Rightarrow> False)
      then True
      else name = js ''subagent'' \<and> (member input ''action'' = Some (JString (js ''status'')) \<or> member input ''action'' = Some (JString (js ''list''))))"

section \<open>Evidence\<close>

definition EVIDENCE_SIZE :: nat where "EVIDENCE_SIZE = 12"
definition EVIDENCE_CAPTURE_LIMIT :: nat where "EVIDENCE_CAPTURE_LIMIT = 4000"
definition EVIDENCE_MAX_DEPTH :: nat where "EVIDENCE_MAX_DEPTH = 6"
definition EVIDENCE_MAX_ENTRIES :: nat where "EVIDENCE_MAX_ENTRIES = 50"

definition token_unit :: "code_unit \<Rightarrow> bool" where
  "token_unit c \<longleftrightarrow> is_alnum c \<or> one_of ''_-+/=.:@%~'' c"

text \<open>The text before the last occurrence of a unit, and the number of its occurrences.\<close>

definition before_last :: "code_unit \<Rightarrow> jsstring \<Rightarrow> jsstring" where
  "before_last q s = rev (tl (dropWhile (\<lambda>c. c \<noteq> q) (rev s)))"

definition drop_open_quote :: "code_unit \<Rightarrow> jsstring \<Rightarrow> jsstring" where
  "drop_open_quote q kept = (if odd (count_list kept q) then before_last q kept else kept)"

definition kept_evidence :: "jsstring \<Rightarrow> jsstring" where
  "kept_evidence txt =
     (let cut = take EVIDENCE_CAPTURE_LIMIT txt in
      if 10 \<in> set cut then before_last 10 cut @ [10]
      else drop_open_quote 39 (drop_open_quote 34 (rev (dropWhile token_unit (rev cut)))))"

definition captureEvidence :: "jsstring \<Rightarrow> jsstring" where
  "captureEvidence txt =
     (if length txt \<le> EVIDENCE_CAPTURE_LIMIT then txt
      else (let kept = kept_evidence txt in
        kept @ 8230 # js ''(+'' @ toString10 (length txt - length kept) @ js '' chars)''))"

text \<open>Assigning to \<open>__proto__\<close> sets the prototype of the copy, which is no entry of it.\<close>

function captureEvidenceValue :: "json \<Rightarrow> nat \<Rightarrow> json" where
  "captureEvidenceValue (JString s) depth = JString (captureEvidence s)"
| "captureEvidenceValue (JArray vs) depth =
     (if EVIDENCE_MAX_DEPTH \<le> depth then JString (js ''[nested]'')
      else JArray (map (\<lambda>v. captureEvidenceValue v (Suc depth)) (take EVIDENCE_MAX_ENTRIES vs)))"
| "captureEvidenceValue (JObject es) depth =
     (if EVIDENCE_MAX_DEPTH \<le> depth then JString (js ''[nested]'')
      else JObject (filter (\<lambda>(k, _). k \<noteq> js ''__proto__'')
        (map (\<lambda>(k, v). (k, captureEvidenceValue v (Suc depth))) (take EVIDENCE_MAX_ENTRIES es))))"
| "captureEvidenceValue JNull depth = JNull"
| "captureEvidenceValue (JBool b) depth = JBool b"
| "captureEvidenceValue (JNumber n) depth = JNumber n"
| "captureEvidenceValue JNonFinite depth = JNonFinite"
  by pat_completeness auto
termination
proof (relation "measure (size \<circ> fst)")
  fix vs :: "json list" and depth v assume "v \<in> set (take EVIDENCE_MAX_ENTRIES vs)"
  then have "v \<in> set vs" by (rule in_set_takeD)
  then have "size v \<le> size_list size vs" by (induction vs) auto
  then show "((v, Suc depth), JArray vs, depth) \<in> measure (size \<circ> fst)" by simp
next
  fix es :: "(jsstring \<times> json) list" and depth e k v assume "e \<in> set (take EVIDENCE_MAX_ENTRIES es)" "(k, v) = e"
  then have "(k, v) \<in> set es" by (auto dest: in_set_takeD)
  then have "size v \<le> size_list (size_prod (\<lambda>_. 0) size) es"
    by (induction es) auto
  then show "((v, Suc depth), JObject es, depth) \<in> measure (size \<circ> fst)" by simp
qed simp

section \<open>The guard\<close>

record pending_use =
  pu_name :: jsstring
  pu_input :: "json option"
  pu_startedAt :: number

record evidence =
  te_toolName :: jsstring
  te_input :: "json option"
  te_output :: jsstring
  te_isError :: bool
  te_startedAt :: number
  te_finishedAt :: number

record guard_options =
  go_consecutiveLimit :: nat
  go_windowSize :: nat
  go_windowDistinctLimit :: nat
  go_rotationWindowSize :: nat
  go_rotationDistinctLimit :: nat
  go_contractConsecutiveLimit :: nat
  go_pacedIntervalMs :: number
  go_finalConsecutiveLimit :: nat
  go_finalStreakMs :: number

definition default_guard_options :: guard_options where
  "default_guard_options = \<lparr>go_consecutiveLimit = 4, go_windowSize = 12, go_windowDistinctLimit = 2, go_rotationWindowSize = 16,
     go_rotationDistinctLimit = 4, go_contractConsecutiveLimit = 3, go_pacedIntervalMs = 30000, go_finalConsecutiveLimit = 30,
     go_finalStreakMs = 3600000\<rparr>"

definition STABLE_READ_WINDOW_SIZE :: nat where "STABLE_READ_WINDOW_SIZE = 128"
definition STABLE_READ_DISTINCT_LIMIT :: nat where "STABLE_READ_DISTINCT_LIMIT = 32"
definition STABLE_READ_MIN_REPEATS :: nat where "STABLE_READ_MIN_REPEATS = 4"
definition READ_ONLY_TOOL_NAMES :: "jsstring list" where
  "READ_ONLY_TOOL_NAMES = map js [''Read'', ''Grep'', ''Glob'', ''read'', ''grep'', ''find'', ''ls'']"

datatype loop_reason = Consecutive | Pingpong | Rotation | Contract contract_category

datatype verdict = Fine | Hard loop_reason nat jsstring bool

record guard =
  tg_pendingToolUses :: "(jsstring, pending_use) fmap"
  tg_lastResultObserved :: bool
  tg_lastResultCallFingerprint :: "jsstring option"
  tg_lastSuspectPattern :: "jsstring set"
  tg_lastOrdinaryStartedAt :: "number option"
  tg_evidence :: "evidence list"
  tg_suspicionGraceResults :: int
  tg_lastFullFingerprint :: "jsstring option"
  tg_consecutiveStreak :: nat
  tg_streakResults :: nat
  tg_streakStartedAt :: number
  tg_callWindow :: "jsstring list"
  tg_stableReadWindow :: "jsstring list"
  tg_lastContractKey :: "jsstring option"
  tg_contractStreak :: nat
  tg_activeContractBatchId :: "jsstring option"
  tg_activeContractKeys :: "jsstring set"
  tg_previousContractKeys :: "jsstring set"
  tg_contractStreakByKey :: "(jsstring, nat) fmap"

definition new_guard :: guard where
  "new_guard = \<lparr>tg_pendingToolUses = fmempty, tg_lastResultObserved = False, tg_lastResultCallFingerprint = None, tg_lastSuspectPattern = {},
     tg_lastOrdinaryStartedAt = None, tg_evidence = [], tg_suspicionGraceResults = 0, tg_lastFullFingerprint = None,
     tg_consecutiveStreak = 0, tg_streakResults = 0, tg_streakStartedAt = 0, tg_callWindow = [], tg_stableReadWindow = [],
     tg_lastContractKey = None, tg_contractStreak = 0, tg_activeContractBatchId = None, tg_activeContractKeys = {},
     tg_previousContractKeys = {}, tg_contractStreakByKey = fmempty\<rparr>"

text \<open>The name is \<open>None\<close> where it is not a string.\<close>

definition onToolUse :: "number \<Rightarrow> jsstring \<Rightarrow> jsstring option \<Rightarrow> json option \<Rightarrow> guard \<Rightarrow> guard" where
  "onToolUse now toolUseId toolName input g =
     (if toolUseId = [] then g
      else (case toolName of
          None \<Rightarrow> g
        | Some name \<Rightarrow>
            if name = [] then g
            else (let startedAt = (case fmlookup (tg_pendingToolUses g) toolUseId of Some u \<Rightarrow> pu_startedAt u | None \<Rightarrow> now)
                  in g\<lparr>tg_pendingToolUses := fmupd toolUseId \<lparr>pu_name = name, pu_input = input, pu_startedAt = startedAt\<rparr> (tg_pendingToolUses g)\<rparr>)))"

definition hasPendingCallOutside :: "guard_host \<Rightarrow> guard \<Rightarrow> jsstring set \<Rightarrow> bool" where
  "hasPendingCallOutside h g pattern =
     list_ex (\<lambda>call. \<not> isPollingTool (pu_name call) (pu_input call) False
       \<and> fingerprintToolCall h (pu_name call) (pu_input call) None \<notin> pattern) (obj_values (tg_pendingToolUses g))"

definition acceptCurrentPattern :: "int \<Rightarrow> guard \<Rightarrow> guard" where
  "acceptCurrentPattern graceResults g = g\<lparr>tg_suspicionGraceResults := max (tg_suspicionGraceResults g) graceResults\<rparr>"

definition observeStreak :: "number \<Rightarrow> jsstring \<Rightarrow> bool \<Rightarrow> guard \<Rightarrow> guard" where
  "observeStreak now fingerprint counted g =
     (if tg_lastFullFingerprint g = Some fingerprint
      then g\<lparr>tg_consecutiveStreak := (if counted then tg_consecutiveStreak g + 1 else tg_consecutiveStreak g),
             tg_streakResults := tg_streakResults g + 1\<rparr>
      else g\<lparr>tg_lastFullFingerprint := Some fingerprint, tg_consecutiveStreak := (if counted then 1 else 0),
             tg_streakResults := 1, tg_streakStartedAt := now\<rparr>)"

definition finalVerdict :: "guard_options \<Rightarrow> number \<Rightarrow> jsstring \<Rightarrow> guard \<Rightarrow> verdict" where
  "finalVerdict opt now toolName g =
     (if go_finalConsecutiveLimit opt \<le> tg_consecutiveStreak g then Hard Consecutive (tg_consecutiveStreak g) toolName True
      else if go_consecutiveLimit opt \<le> tg_streakResults g \<and> go_finalStreakMs opt \<le> now - tg_streakStartedAt g
      then Hard Consecutive (tg_streakResults g) toolName True
      else Fine)"

definition recordEvidence :: "number \<Rightarrow> pending_use \<Rightarrow> jsstring \<Rightarrow> bool \<Rightarrow> guard \<Rightarrow> guard" where
  "recordEvidence now use output isError g =
     (let es = tg_evidence g @ [\<lparr>te_toolName = pu_name use, te_input = map_option (\<lambda>v. captureEvidenceValue v 0) (pu_input use),
          te_output = captureEvidence output, te_isError = isError, te_startedAt = pu_startedAt use, te_finishedAt = now\<rparr>]
      in g\<lparr>tg_evidence := (if EVIDENCE_SIZE < length es then tl es else es)\<rparr>)"

definition resetContractBatchState :: "guard \<Rightarrow> guard" where
  "resetContractBatchState g = g\<lparr>tg_activeContractBatchId := None, tg_activeContractKeys := {}, tg_previousContractKeys := {},
     tg_contractStreakByKey := fmempty\<rparr>"

definition resetPatternState :: "guard \<Rightarrow> guard" where
  "resetPatternState g = resetContractBatchState (g\<lparr>tg_lastFullFingerprint := None, tg_consecutiveStreak := 0, tg_streakResults := 0,
     tg_streakStartedAt := 0, tg_lastOrdinaryStartedAt := None, tg_evidence := [], tg_suspicionGraceResults := 0, tg_callWindow := [],
     tg_stableReadWindow := [], tg_lastContractKey := None, tg_contractStreak := 0\<rparr>)"

definition resetTurn :: "guard \<Rightarrow> guard" where
  "resetTurn g = resetPatternState (g\<lparr>tg_pendingToolUses := fmempty\<rparr>)"

definition beginContractBatch :: "jsstring \<Rightarrow> guard \<Rightarrow> guard" where
  "beginContractBatch batchId g =
     (if tg_activeContractBatchId g = Some batchId then g
      else g\<lparr>tg_lastContractKey := None, tg_contractStreak := 0, tg_previousContractKeys := tg_activeContractKeys g,
             tg_activeContractKeys := {},
             tg_contractStreakByKey := fmfilter (\<lambda>key. key \<in> tg_activeContractKeys g) (tg_contractStreakByKey g),
             tg_activeContractBatchId := Some batchId\<rparr>)"

text \<open>
  The branches of \<open>onToolResult\<close>. \<open>suspect\<close> reports a suspicion unless a review has granted grace.
\<close>

definition suspect :: "bool \<Rightarrow> guard \<Rightarrow> verdict \<Rightarrow> jsstring list \<Rightarrow> guard \<times> verdict" where
  "suspect inGrace g v pattern = (if inGrace then (g, Fine) else (g\<lparr>tg_lastSuspectPattern := set pattern\<rparr>, v))"

definition contract_key :: "jsstring \<Rightarrow> contract_category \<Rightarrow> jsstring" where
  "contract_key toolName category = toolName @ 10 # category_text category"

text \<open>The fourth layer: the new state and the streak, where the limit is reached.\<close>

definition contract_layer :: "guard_options \<Rightarrow> jsstring \<Rightarrow> contract_category option \<Rightarrow> jsstring option \<Rightarrow> guard \<Rightarrow> guard \<times> nat option" where
  "contract_layer opt toolName category batch g = (case batch of
       Some batchId \<Rightarrow>
         (let g = beginContractBatch batchId g in
          case category of
            None \<Rightarrow> (g, None)
          | Some cat \<Rightarrow>
              (let key = contract_key toolName cat in
               if key \<in> tg_activeContractKeys g then (g, None)
               else (let streak = (if key \<in> tg_previousContractKeys g
                                   then (case fmlookup (tg_contractStreakByKey g) key of Some n \<Rightarrow> n | None \<Rightarrow> 0) + 1 else 1);
                         g = g\<lparr>tg_activeContractKeys := insert key (tg_activeContractKeys g),
                               tg_contractStreakByKey := fmupd key streak (tg_contractStreakByKey g)\<rparr>
                     in (g, if go_contractConsecutiveLimit opt \<le> streak then Some streak else None))))
     | None \<Rightarrow>
         (let g = resetContractBatchState g in
          case category of
            None \<Rightarrow> (g\<lparr>tg_lastContractKey := None, tg_contractStreak := 0\<rparr>, None)
          | Some cat \<Rightarrow>
              (let key = contract_key toolName cat;
                   streak = (if tg_lastContractKey g = Some key then tg_contractStreak g + 1 else 1);
                   g = g\<lparr>tg_contractStreak := streak, tg_lastContractKey := Some key\<rparr>
               in (g, if go_contractConsecutiveLimit opt \<le> streak then Some streak else None))))"

text \<open>The window of read-only calls: the new window, and whether it is a stable rotation.\<close>

definition push_window :: "nat \<Rightarrow> 'a \<Rightarrow> 'a list \<Rightarrow> 'a list" where
  "push_window limit x w = (let w = w @ [x] in if limit < length w then tl w else w)"

definition stable_rotation :: "jsstring list \<Rightarrow> bool" where
  "stable_rotation w =
     (let distinct_ones = remdups w;
          repeated = sum_list (map (\<lambda>f. let n = count_list w f in if STABLE_READ_MIN_REPEATS \<le> n then n else 0) distinct_ones)
      in length w = STABLE_READ_WINDOW_SIZE \<and> length distinct_ones \<le> STABLE_READ_DISTINCT_LIMIT 
           \<and> \<lceil>of_nat STABLE_READ_WINDOW_SIZE * (9 / 10 :: number)\<rceil> \<le> int repeated)"

definition last_n :: "nat \<Rightarrow> 'a list \<Rightarrow> 'a list" where
  "last_n n xs = (if n = 0 then xs else drop (length xs - n) xs)"

text \<open>The second and the third layer.\<close>

definition window_layers :: "guard_options \<Rightarrow> bool \<Rightarrow> jsstring \<Rightarrow> jsstring \<Rightarrow> guard \<Rightarrow> guard \<times> verdict" where
  "window_layers opt inGrace toolName callFingerprint g =
     (let w = push_window (max (go_windowSize opt) (go_rotationWindowSize opt)) callFingerprint (tg_callWindow g);
          g = g\<lparr>tg_callWindow := w\<rparr>;
          recent = last_n (go_windowSize opt) w;
          rotation = last_n (go_rotationWindowSize opt) w
      in if go_windowSize opt \<le> length w \<and> length (remdups recent) \<le> go_windowDistinctLimit opt
         then suspect inGrace g (Hard Pingpong (length recent) toolName False) recent
         else if go_rotationWindowSize opt \<le> length w \<and> length (remdups rotation) \<le> go_rotationDistinctLimit opt
         then suspect inGrace g (Hard Rotation (length rotation) toolName False) rotation
         else (g, Fine))"

text \<open>The first layer and the two final limits.\<close>

definition streak_layer :: "guard_options \<Rightarrow> number \<Rightarrow> bool \<Rightarrow> jsstring \<Rightarrow> jsstring \<Rightarrow> jsstring \<Rightarrow> guard \<Rightarrow> guard \<times> verdict" where
  "streak_layer opt now inGrace toolName fullFingerprint callFingerprint g =
     (let g = observeStreak now fullFingerprint True g;
          final = finalVerdict opt now toolName g
      in if final \<noteq> Fine then (g, final)
         else if go_consecutiveLimit opt \<le> tg_consecutiveStreak g
         then suspect inGrace g (Hard Consecutive (tg_consecutiveStreak g) toolName False) [callFingerprint]
         else window_layers opt inGrace toolName callFingerprint g)"

text \<open>What is noted of every ordinary result.\<close>

definition note_result :: "number \<Rightarrow> pending_use \<Rightarrow> jsstring \<Rightarrow> bool \<Rightarrow> jsstring \<Rightarrow> guard \<Rightarrow> guard" where
  "note_result now use output isError callFingerprint g =
     (let g = g\<lparr>tg_lastOrdinaryStartedAt := Some (case tg_lastOrdinaryStartedAt g of None \<Rightarrow> pu_startedAt use
                   | Some t \<Rightarrow> max t (pu_startedAt use))\<rparr>;
          g = recordEvidence now use output isError g
      in g\<lparr>tg_lastResultCallFingerprint := Some callFingerprint,
           tg_suspicionGraceResults := (if 0 < tg_suspicionGraceResults g then tg_suspicionGraceResults g - 1 else tg_suspicionGraceResults g)\<rparr>)"

definition paced_result :: "guard_options \<Rightarrow> number \<Rightarrow> jsstring \<Rightarrow> jsstring \<Rightarrow> guard \<Rightarrow> guard \<times> verdict" where
  "paced_result opt now toolName fullFingerprint g =
     (let g = (if toolName \<in> set READ_ONLY_TOOL_NAMES then g else g\<lparr>tg_stableReadWindow := []\<rparr>);
          g = observeStreak now fullFingerprint False g
      in (g, finalVerdict opt now toolName g))"

text \<open>The first three layers, for results that pass the fourth.\<close>

definition repetition_layers :: "guard_options \<Rightarrow> number \<Rightarrow> bool \<Rightarrow> jsstring \<Rightarrow> jsstring \<Rightarrow> jsstring \<Rightarrow> guard \<Rightarrow> guard \<times> verdict" where
  "repetition_layers opt now inGrace toolName fullFingerprint callFingerprint g =
     (let w = (if toolName \<in> set READ_ONLY_TOOL_NAMES
               then push_window STABLE_READ_WINDOW_SIZE fullFingerprint (tg_stableReadWindow g) else []);
          g = g\<lparr>tg_stableReadWindow := w\<rparr>
      in if toolName \<in> set READ_ONLY_TOOL_NAMES \<and> stable_rotation w then (g, Hard Rotation STABLE_READ_WINDOW_SIZE toolName True)
         else streak_layer opt now inGrace toolName fullFingerprint callFingerprint g)"

definition fast_result :: "guard_options \<Rightarrow> number \<Rightarrow> bool \<Rightarrow> jsstring \<Rightarrow> jsstring \<Rightarrow> jsstring \<Rightarrow> contract_category option \<Rightarrow> jsstring option
    \<Rightarrow> guard \<Rightarrow> guard \<times> verdict" where
  "fast_result opt now inGrace toolName fullFingerprint callFingerprint category batch g =
     (case contract_layer opt toolName category batch g of
        (g, Some streak) \<Rightarrow> suspect inGrace g (Hard (Contract (the category)) streak toolName False) [callFingerprint]
      | (g, None) \<Rightarrow> repetition_layers opt now inGrace toolName fullFingerprint callFingerprint g)"

definition is_paced :: "guard_options \<Rightarrow> pending_use \<Rightarrow> guard \<Rightarrow> bool" where
  "is_paced opt use g = (case tg_lastOrdinaryStartedAt g of None \<Rightarrow> False | Some t \<Rightarrow> go_pacedIntervalMs opt \<le> pu_startedAt use - t)"

definition ordinary_result :: "guard_host \<Rightarrow> guard_options \<Rightarrow> number \<Rightarrow> pending_use \<Rightarrow> jsstring \<Rightarrow> bool \<Rightarrow> jsstring option \<Rightarrow> guard \<Rightarrow> guard \<times> verdict" where
  "ordinary_result h opt now use output isError batch g =
     (let name = pu_name use;
          fullFingerprint = fingerprintToolCall h name (pu_input use) (Some output);
          callFingerprint = fingerprintToolCall h name (pu_input use) None;
          g1 = note_result now use output isError callFingerprint g
      in if is_paced opt use g then paced_result opt now name fullFingerprint g1
         else fast_result opt now (0 < tg_suspicionGraceResults g) name fullFingerprint callFingerprint
           (if isError then classifyToolContractError name output else None) batch g1)"

definition onToolResult :: "guard_host \<Rightarrow> guard_options \<Rightarrow> number \<Rightarrow> jsstring \<Rightarrow> jsstring \<Rightarrow> bool \<Rightarrow> jsstring option \<Rightarrow> guard \<Rightarrow> guard \<times> verdict" where
  "onToolResult h opt now toolUseId output isError batch g =
     (let toolUse = fmlookup (tg_pendingToolUses g) toolUseId;
          g = g\<lparr>tg_pendingToolUses := fmdrop toolUseId (tg_pendingToolUses g), tg_lastResultObserved := False,
                tg_lastResultCallFingerprint := None\<rparr>
      in case toolUse of
           None \<Rightarrow> (g, Fine)
         | Some use \<Rightarrow>
             if isPollingTool (pu_name use) (pu_input use) isError then (g, Fine)
             else ordinary_result h opt now use output isError batch (g\<lparr>tg_lastResultObserved := True\<rparr>))"

end
