(* ===== verification/LoopGuardLaws.thy ===== *)
theory LoopGuardLaws
  imports LoopGuard
begin

text \<open>
  What the detector of tool loops guarantees: what it remembers is bounded by the calls under way, a loop of identical calls is stopped
  whatever reviews grant, waiting tools do not influence it, and what it keeps as evidence cuts no
  token in two. Two behaviours against the comments: a rejected call is never stopped
  by a final limit, and an open double quote can stay in the evidence.
\<close>

section \<open>The updates of each part\<close>

lemma observeStreak_parts [simp]:
  "tg_evidence (observeStreak t f c g) = tg_evidence g" "tg_callWindow (observeStreak t f c g) = tg_callWindow g"
  "tg_stableReadWindow (observeStreak t f c g) = tg_stableReadWindow g"
  "tg_suspicionGraceResults (observeStreak t f c g) = tg_suspicionGraceResults g"
  "tg_activeContractKeys (observeStreak t f c g) = tg_activeContractKeys g"
  "tg_previousContractKeys (observeStreak t f c g) = tg_previousContractKeys g"
  "tg_contractStreakByKey (observeStreak t f c g) = tg_contractStreakByKey g"
  "tg_lastFullFingerprint (observeStreak t f c g) = Some f"
  by (simp_all add: observeStreak_def)

text \<open>What holds of every reachable guard.\<close>

definition pattern_size :: "guard_options \<Rightarrow> nat" where
  "pattern_size opt = max 1 (max (go_windowSize opt) (go_rotationWindowSize opt))"

definition guard_ok :: "guard_options \<Rightarrow> guard \<Rightarrow> bool" where
  "guard_ok opt g \<longleftrightarrow> length (tg_evidence g) \<le> EVIDENCE_SIZE
     \<and> length (tg_callWindow g) \<le> max (go_windowSize opt) (go_rotationWindowSize opt)
     \<and> length (tg_stableReadWindow g) \<le> STABLE_READ_WINDOW_SIZE
     \<and> 0 \<le> tg_suspicionGraceResults g
     \<and> tg_consecutiveStreak g \<le> tg_streakResults g
     \<and> fmdom' (tg_contractStreakByKey g) \<subseteq> tg_activeContractKeys g \<union> tg_previousContractKeys g
     \<and> tg_activeContractKeys g \<subseteq> fmdom' (tg_contractStreakByKey g)
     \<and> card (tg_lastSuspectPattern g) \<le> pattern_size opt"

lemma guard_ok_new: "guard_ok opt new_guard"
  by (simp add: guard_ok_def new_guard_def)

lemma length_push_window: "length w \<le> n \<Longrightarrow> length (push_window n x w) \<le> n"
  by (simp add: push_window_def Let_def)

lemma observe_ok: "guard_ok opt g \<Longrightarrow> guard_ok opt (observeStreak t f c g)"
  by (simp add: guard_ok_def observeStreak_def)

lemma suspect_ok: "guard_ok opt g \<Longrightarrow> length p \<le> pattern_size opt \<Longrightarrow> guard_ok opt (fst (suspect b g v p))"
  using card_length [of p] by (simp add: guard_ok_def suspect_def)

lemma suspect_one_ok: "guard_ok opt g \<Longrightarrow> guard_ok opt (fst (suspect b g v [f]))"
  by (rule suspect_ok) (simp_all add: pattern_size_def)

lemma length_last_n: "length (last_n n xs) \<le> length xs"
  by (simp add: last_n_def)

lemma window_ok: "guard_ok opt g \<Longrightarrow> guard_ok opt (fst (window_layers opt b n f g))"
proof -
  assume ok: "guard_ok opt g"
  let ?w = "push_window (max (go_windowSize opt) (go_rotationWindowSize opt)) f (tg_callWindow g)"
  have "guard_ok opt (g\<lparr>tg_callWindow := ?w\<rparr>)" using ok by (simp add: guard_ok_def length_push_window)
  moreover have "length (last_n n ?w) \<le> pattern_size opt" for n
  proof -
    have "length ?w \<le> max (go_windowSize opt) (go_rotationWindowSize opt)" using ok by (intro length_push_window) (simp add: guard_ok_def)
    then show ?thesis using length_last_n [of n ?w] by (simp add: pattern_size_def)
  qed
  ultimately show ?thesis by (simp add: window_layers_def Let_def suspect_ok)
qed

lemma streak_ok: "guard_ok opt g \<Longrightarrow> guard_ok opt (fst (streak_layer opt t b n f c g))"
  by (simp add: streak_layer_def Let_def suspect_one_ok window_ok observe_ok)

lemma reset_batches_ok: "guard_ok opt g \<Longrightarrow> guard_ok opt (resetContractBatchState g)"
  by (simp add: guard_ok_def resetContractBatchState_def)

lemma begin_batch_ok: "guard_ok opt g \<Longrightarrow> guard_ok opt (beginContractBatch i g)"
  by (auto simp: guard_ok_def beginContractBatch_def fmdom'_filter)

lemma contract_ok: "guard_ok opt g \<Longrightarrow> guard_ok opt (fst (contract_layer opt n c batch g))"
proof (cases batch)
  case None
  assume "guard_ok opt g"
  from reset_batches_ok [OF this] None show ?thesis
    by (auto simp: contract_layer_def Let_def guard_ok_def split: option.split)
next
  case (Some i)
  assume "guard_ok opt g"
  from begin_batch_ok [OF this, of i] Some show ?thesis
    by (auto simp: contract_layer_def Let_def guard_ok_def split: option.split)
qed

lemma evidence_ok: "guard_ok opt g \<Longrightarrow> guard_ok opt (recordEvidence t u out e g)"
  by (auto simp: guard_ok_def recordEvidence_def Let_def)

lemma note_ok: "guard_ok opt g \<Longrightarrow> guard_ok opt (note_result t u out e f g)"
proof -
  assume "guard_ok opt g"
  then have "guard_ok opt (g\<lparr>tg_lastOrdinaryStartedAt := s\<rparr>)" for s by (simp add: guard_ok_def)
  then have "guard_ok opt (recordEvidence t u out e (g\<lparr>tg_lastOrdinaryStartedAt := s\<rparr>))" for s by (rule evidence_ok)
  then show ?thesis by (simp add: note_result_def Let_def guard_ok_def)
qed

lemma paced_ok: "guard_ok opt g \<Longrightarrow> guard_ok opt (fst (paced_result opt t n f g))"
proof -
  assume "guard_ok opt g"
  then have "guard_ok opt (if n \<in> set READ_ONLY_TOOL_NAMES then g else g\<lparr>tg_stableReadWindow := []\<rparr>)" by (simp add: guard_ok_def)
  then show ?thesis by (simp add: paced_result_def Let_def observe_ok del: if_splits)
qed

lemma repetition_ok: "guard_ok opt g \<Longrightarrow> guard_ok opt (fst (repetition_layers opt t b n f c g))"
proof -
  assume ok: "guard_ok opt g"
  define w where "w = (if n \<in> set READ_ONLY_TOOL_NAMES then push_window STABLE_READ_WINDOW_SIZE f (tg_stableReadWindow g) else [])"
  have "guard_ok opt (g\<lparr>tg_stableReadWindow := w\<rparr>)" using ok by (simp add: guard_ok_def w_def length_push_window)
  then show ?thesis unfolding repetition_layers_def w_def [symmetric] Let_def by (simp add: streak_ok)
qed

lemma fast_ok: "guard_ok opt g \<Longrightarrow> guard_ok opt (fst (fast_result opt t b n f c cat batch g))"
proof -
  assume "guard_ok opt g"
  then have ok: "guard_ok opt (fst (contract_layer opt n cat batch g))" by (rule contract_ok)
  obtain g' s where "contract_layer opt n cat batch g = (g', s)" by (cases "contract_layer opt n cat batch g")
  with ok show ?thesis by (cases s) (simp_all add: fast_result_def suspect_one_ok repetition_ok)
qed

lemma ordinary_ok: "guard_ok opt g \<Longrightarrow> guard_ok opt (fst (ordinary_result h opt t u out e batch g))"
  by (simp add: ordinary_result_def Let_def paced_ok fast_ok note_ok)

lemma result_ok: "guard_ok opt g \<Longrightarrow> guard_ok opt (fst (onToolResult h opt t i out e batch g))"
proof -
  assume ok: "guard_ok opt g"
  have "guard_ok opt (g\<lparr>tg_pendingToolUses := p, tg_lastResultObserved := b, tg_lastResultCallFingerprint := f\<rparr>)"
    "guard_ok opt (g\<lparr>tg_pendingToolUses := p, tg_lastResultCallFingerprint := f, tg_lastResultObserved := b\<rparr>)" for p b f
    using ok by (simp_all add: guard_ok_def)
  then show ?thesis by (simp add: onToolResult_def Let_def ordinary_ok split: option.split)
qed

section \<open>Runs\<close>

inductive guard_step :: "guard_host \<Rightarrow> guard_options \<Rightarrow> guard \<Rightarrow> guard \<Rightarrow> bool" for h opt g where
  "guard_step h opt g (onToolUse now i name input g)"
| "guard_step h opt g (fst (onToolResult h opt now i output isError batch g))"
| "guard_step h opt g (acceptCurrentPattern k g)"
| "guard_step h opt g (resetTurn g)"

inductive_cases guard_stepE: "guard_step h opt g g'"

inductive guard_reachable :: "guard_host \<Rightarrow> guard_options \<Rightarrow> guard \<Rightarrow> bool" for h opt where
  "guard_reachable h opt new_guard"
| "guard_reachable h opt g \<Longrightarrow> guard_step h opt g g' \<Longrightarrow> guard_reachable h opt g'"

lemma step_ok: "guard_step h opt g g' \<Longrightarrow> guard_ok opt g \<Longrightarrow> guard_ok opt g'"
  by (erule guard_stepE)
     (auto simp: result_ok, auto simp: guard_ok_def onToolUse_def acceptCurrentPattern_def resetTurn_def resetPatternState_def
       resetContractBatchState_def Let_def split: option.splits)

lemma reachable_ok: "guard_reachable h opt g \<Longrightarrow> guard_ok opt g"
  by (induction rule: guard_reachable.induct) (auto intro: guard_ok_new step_ok)

definition demo_host :: guard_host where
  "demo_host = \<lparr>gh_digest = id, gh_number = tally_text\<rparr>"

section \<open>Complete calls\<close>

text \<open>A call with its result; before it a review may have granted grace.\<close>

record tool_call =
  tc_id :: jsstring
  tc_name :: jsstring
  tc_input :: "json option"
  tc_output :: jsstring
  tc_isError :: bool
  tc_batch :: "jsstring option"
  tc_start :: number
  tc_finish :: number
  tc_grant :: int

definition call :: "guard_host \<Rightarrow> guard_options \<Rightarrow> tool_call \<Rightarrow> guard \<Rightarrow> guard \<times> verdict" where
  "call h opt c g = onToolResult h opt (tc_finish c) (tc_id c) (tc_output c) (tc_isError c) (tc_batch c)
     (onToolUse (tc_start c) (tc_id c) (Some (tc_name c)) (tc_input c) (acceptCurrentPattern (tc_grant c) g))"

fun calls :: "guard_host \<Rightarrow> guard_options \<Rightarrow> tool_call list \<Rightarrow> guard \<Rightarrow> guard \<times> verdict list" where
  "calls h opt [] g = (g, [])"
| "calls h opt (c # cs) g = (let (g, v) = call h opt c g; (g, vs) = calls h opt cs g in (g, v # vs))"

definition waits :: "tool_call \<Rightarrow> bool" where
  "waits c \<longleftrightarrow> isPollingTool (tc_name c) (tc_input c) (tc_isError c)"

definition use_of :: "tool_call \<Rightarrow> pending_use" where
  "use_of c = \<lparr>pu_name = tc_name c, pu_input = tc_input c, pu_startedAt = tc_start c\<rparr>"

definition named :: "tool_call \<Rightarrow> bool" where
  "named c \<longleftrightarrow> tc_id c \<noteq> [] \<and> tc_name c \<noteq> []"

text \<open>A guard with no call under way.\<close>

definition idle :: "guard \<Rightarrow> bool" where
  "idle g \<longleftrightarrow> tg_pendingToolUses g = fmempty"

lemma drop_only [simp]: "fmdrop k (fmupd k v fmempty) = fmempty"
  by (rule fmap_ext) simp

lemma call_waits:
  "idle g \<Longrightarrow> named c \<Longrightarrow> waits c \<Longrightarrow>
    call h opt c g = ((acceptCurrentPattern (tc_grant c) g)\<lparr>tg_lastResultObserved := False, tg_lastResultCallFingerprint := None\<rparr>, Fine)"
  by (cases g) (simp add: call_def onToolUse_def onToolResult_def acceptCurrentPattern_def named_def idle_def waits_def Let_def)

lemma call_ordinary:
  "idle g \<Longrightarrow> named c \<Longrightarrow> \<not> waits c \<Longrightarrow>
    call h opt c g = ordinary_result h opt (tc_finish c) (use_of c) (tc_output c) (tc_isError c) (tc_batch c)
      ((acceptCurrentPattern (tc_grant c) g)\<lparr>tg_lastResultObserved := True, tg_lastResultCallFingerprint := None\<rparr>)"
  by (cases g) (simp add: call_def onToolUse_def onToolResult_def acceptCurrentPattern_def named_def idle_def waits_def Let_def use_of_def)

section \<open>A loop is stopped\<close>

definition stops_now :: "verdict \<Rightarrow> bool" where
  "stops_now v \<longleftrightarrow> (case v of Fine \<Rightarrow> False | Hard _ _ _ f \<Rightarrow> f)"

lemma stops_now_simps [simp]: "\<not> stops_now Fine" "stops_now (Hard r n t f) \<longleftrightarrow> f"
  by (simp_all add: stops_now_def)

text \<open>What the layers leave alone.\<close>

lemma suspect_parts [simp]:
  "tg_lastFullFingerprint (fst (suspect b g v p)) = tg_lastFullFingerprint g"
  "tg_consecutiveStreak (fst (suspect b g v p)) = tg_consecutiveStreak g"
  "tg_streakResults (fst (suspect b g v p)) = tg_streakResults g"
  "tg_pendingToolUses (fst (suspect b g v p)) = tg_pendingToolUses g"
  "tg_lastOrdinaryStartedAt (fst (suspect b g v p)) = tg_lastOrdinaryStartedAt g"
  "tg_lastContractKey (fst (suspect b g v p)) = tg_lastContractKey g"
  "tg_contractStreak (fst (suspect b g v p)) = tg_contractStreak g"
  "tg_stableReadWindow (fst (suspect b g v p)) = tg_stableReadWindow g"
  by (simp_all add: suspect_def)

lemma window_parts [simp]:
  "tg_lastFullFingerprint (fst (window_layers opt b n f g)) = tg_lastFullFingerprint g"
  "tg_consecutiveStreak (fst (window_layers opt b n f g)) = tg_consecutiveStreak g"
  "tg_streakResults (fst (window_layers opt b n f g)) = tg_streakResults g"
  "tg_pendingToolUses (fst (window_layers opt b n f g)) = tg_pendingToolUses g"
  "tg_lastOrdinaryStartedAt (fst (window_layers opt b n f g)) = tg_lastOrdinaryStartedAt g"
  "tg_lastContractKey (fst (window_layers opt b n f g)) = tg_lastContractKey g"
  "tg_contractStreak (fst (window_layers opt b n f g)) = tg_contractStreak g"
  "tg_stableReadWindow (fst (window_layers opt b n f g)) = tg_stableReadWindow g"
  by (simp_all add: window_layers_def Let_def)

lemma streak_layer_parts [simp]:
  "tg_lastFullFingerprint (fst (streak_layer opt t b n f c g)) = Some f"
  "tg_consecutiveStreak (fst (streak_layer opt t b n f c g)) = (if tg_lastFullFingerprint g = Some f then tg_consecutiveStreak g + 1 else 1)"
  "tg_streakResults (fst (streak_layer opt t b n f c g)) = (if tg_lastFullFingerprint g = Some f then tg_streakResults g + 1 else 1)"
  "tg_pendingToolUses (fst (streak_layer opt t b n f c g)) = tg_pendingToolUses g"
  "tg_lastOrdinaryStartedAt (fst (streak_layer opt t b n f c g)) = tg_lastOrdinaryStartedAt g"
  "tg_lastContractKey (fst (streak_layer opt t b n f c g)) = tg_lastContractKey g"
  "tg_contractStreak (fst (streak_layer opt t b n f c g)) = tg_contractStreak g"
  "tg_stableReadWindow (fst (streak_layer opt t b n f c g)) = tg_stableReadWindow g"
  by (simp_all add: streak_layer_def Let_def observeStreak_def)

lemma streak_layer_stops:
  "go_finalConsecutiveLimit opt \<le> tg_consecutiveStreak (fst (streak_layer opt t b n f c g)) \<Longrightarrow> stops_now (snd (streak_layer opt t b n f c g))"
  by (auto simp: streak_layer_def Let_def finalVerdict_def suspect_def window_layers_def split: if_splits)

lemma contract_parts [simp]:
  "tg_lastFullFingerprint (fst (contract_layer opt n cat batch g)) = tg_lastFullFingerprint g"
  "tg_consecutiveStreak (fst (contract_layer opt n cat batch g)) = tg_consecutiveStreak g"
  "tg_streakResults (fst (contract_layer opt n cat batch g)) = tg_streakResults g"
  "tg_pendingToolUses (fst (contract_layer opt n cat batch g)) = tg_pendingToolUses g"
  "tg_lastOrdinaryStartedAt (fst (contract_layer opt n cat batch g)) = tg_lastOrdinaryStartedAt g"
  "tg_stableReadWindow (fst (contract_layer opt n cat batch g)) = tg_stableReadWindow g"
  by (simp_all add: contract_layer_def beginContractBatch_def resetContractBatchState_def Let_def split: option.split)

lemma contract_clean: "snd (contract_layer opt n None batch g) = None"
  by (simp add: contract_layer_def Let_def split: option.split)

lemma repetition_parts:
  "tg_pendingToolUses (fst (repetition_layers opt t b n f c g)) = tg_pendingToolUses g"
  "tg_lastOrdinaryStartedAt (fst (repetition_layers opt t b n f c g)) = tg_lastOrdinaryStartedAt g"
  by (simp_all add: repetition_layers_def Let_def)

lemma fast_parts [simp]:
  "tg_pendingToolUses (fst (fast_result opt t b n f c cat batch g)) = tg_pendingToolUses g"
  "tg_lastOrdinaryStartedAt (fst (fast_result opt t b n f c cat batch g)) = tg_lastOrdinaryStartedAt g"
proof -
  obtain g' s where l: "contract_layer opt n cat batch g = (g', s)" by (cases "contract_layer opt n cat batch g")
  with contract_parts(4,5) [of opt n cat batch g] have "tg_pendingToolUses g' = tg_pendingToolUses g" "tg_lastOrdinaryStartedAt g' = tg_lastOrdinaryStartedAt g"
    by simp_all
  with l show "tg_pendingToolUses (fst (fast_result opt t b n f c cat batch g)) = tg_pendingToolUses g"
    "tg_lastOrdinaryStartedAt (fst (fast_result opt t b n f c cat batch g)) = tg_lastOrdinaryStartedAt g"
    by (simp_all add: fast_result_def repetition_parts split: option.split)
qed

lemma fast_clean:
  assumes "fast_result opt t b n f c None batch g = (g', v)"
  shows "stops_now v \<or> tg_lastFullFingerprint g' = Some f
    \<and> tg_consecutiveStreak g' = (if tg_lastFullFingerprint g = Some f then tg_consecutiveStreak g + 1 else 1)
    \<and> tg_consecutiveStreak g' < go_finalConsecutiveLimit opt"
proof -
  obtain g1 where l: "contract_layer opt n None batch g = (g1, None)"
    using contract_clean [of opt n batch g] by (metis prod.collapse)
  have g1: "tg_lastFullFingerprint g1 = tg_lastFullFingerprint g" "tg_consecutiveStreak g1 = tg_consecutiveStreak g"
    using contract_parts(1,2) [of opt n None batch g] l by simp_all
  define w where "w = (if n \<in> set READ_ONLY_TOOL_NAMES then push_window STABLE_READ_WINDOW_SIZE f (tg_stableReadWindow g1) else [])"
  from assms l have r: "repetition_layers opt t b n f c g1 = (g', v)" by (simp add: fast_result_def)
  show ?thesis
  proof (cases "n \<in> set READ_ONLY_TOOL_NAMES \<and> stable_rotation w")
    case True
    with r show ?thesis by (auto simp: repetition_layers_def w_def Let_def)
  next
    case False
    with r have s: "streak_layer opt t b n f c (g1\<lparr>tg_stableReadWindow := w\<rparr>) = (g', v)"
      unfolding repetition_layers_def w_def [symmetric] Let_def by (simp split: if_splits)
    have "tg_lastFullFingerprint g' = Some f" "tg_consecutiveStreak g' = (if tg_lastFullFingerprint g = Some f then tg_consecutiveStreak g + 1 else 1)"
      using streak_layer_parts(1,2) [of opt t b n f c "g1\<lparr>tg_stableReadWindow := w\<rparr>"] g1 by (simp_all add: s)
    moreover have "stops_now v \<or> tg_consecutiveStreak g' < go_finalConsecutiveLimit opt"
      using streak_layer_stops [of opt t b n f c "g1\<lparr>tg_stableReadWindow := w\<rparr>"] by (simp add: s) linarith
    ultimately show ?thesis by blast
  qed
qed

text \<open>The starts of calls none of which waits for the paced interval.\<close>

fun unpaced :: "guard_options \<Rightarrow> number option \<Rightarrow> number list \<Rightarrow> bool" where
  "unpaced opt prev [] \<longleftrightarrow> True"
| "unpaced opt prev (t # ts) \<longleftrightarrow> (case prev of None \<Rightarrow> True | Some l \<Rightarrow> t - l < go_pacedIntervalMs opt)
     \<and> unpaced opt (Some (case prev of None \<Rightarrow> t | Some l \<Rightarrow> max l t)) ts"

definition same_call :: "tool_call \<Rightarrow> tool_call \<Rightarrow> bool" where
  "same_call a b \<longleftrightarrow> tc_name a = tc_name b \<and> tc_input a = tc_input b \<and> tc_output a = tc_output b \<and> tc_isError a = tc_isError b"

lemma same_waits: "same_call a b \<Longrightarrow> waits a = waits b"
  by (simp add: same_call_def waits_def)

definition full_fingerprint :: "guard_host \<Rightarrow> tool_call \<Rightarrow> jsstring" where
  "full_fingerprint h c = fingerprintToolCall h (tc_name c) (tc_input c) (Some (tc_output c))"

lemma note_parts [simp]:
  "tg_pendingToolUses (note_result t u out e f g) = tg_pendingToolUses g"
  "tg_lastOrdinaryStartedAt (note_result t u out e f g)
    = Some (case tg_lastOrdinaryStartedAt g of None \<Rightarrow> pu_startedAt u | Some t \<Rightarrow> max t (pu_startedAt u))"
  "tg_lastFullFingerprint (note_result t u out e f g) = tg_lastFullFingerprint g"
  "tg_consecutiveStreak (note_result t u out e f g) = tg_consecutiveStreak g"
  "tg_streakResults (note_result t u out e f g) = tg_streakResults g"
  "tg_lastContractKey (note_result t u out e f g) = tg_lastContractKey g"
  "tg_contractStreak (note_result t u out e f g) = tg_contractStreak g"
  "tg_stableReadWindow (note_result t u out e f g) = tg_stableReadWindow g"
  by (simp_all add: note_result_def recordEvidence_def Let_def split: option.split)

section \<open>Memory\<close>

text \<open>The calls of the driver of a session, in the order it makes them.\<close>

datatype guard_event =
    Tool_starts number jsstring "jsstring option" "json option"
  | Tool_returns number jsstring jsstring bool "jsstring option"
  | Pattern_accepted int
  | Turn_begins

fun guard_do :: "guard_host \<Rightarrow> guard_options \<Rightarrow> guard \<Rightarrow> guard_event \<Rightarrow> guard" where
  "guard_do h opt g (Tool_starts now i name input) = onToolUse now i name input g"
| "guard_do h opt g (Tool_returns now i output isError batch) = fst (onToolResult h opt now i output isError batch g)"
| "guard_do h opt g (Pattern_accepted k) = acceptCurrentPattern k g"
| "guard_do h opt g Turn_begins = resetTurn g"

definition guard_after :: "guard_host \<Rightarrow> guard_options \<Rightarrow> guard_event list \<Rightarrow> guard" where
  "guard_after h opt es = foldl (guard_do h opt) new_guard es"

text \<open>The calls under way, from the history alone: started in this turn under an id and a name, and not returned since.\<close>

fun under_way :: "jsstring set \<Rightarrow> guard_event \<Rightarrow> jsstring set" where
  "under_way ids (Tool_starts now i name input) = (if i = [] \<or> name = None \<or> name = Some [] then ids else insert i ids)"
| "under_way ids (Tool_returns now i output isError batch) = ids - {i}"
| "under_way ids (Pattern_accepted k) = ids"
| "under_way ids Turn_begins = {}"

definition open_calls :: "guard_event list \<Rightarrow> jsstring set" where
  "open_calls es = foldl under_way {} es"

lemma paced_pending: "tg_pendingToolUses (fst (paced_result opt t n f g)) = tg_pendingToolUses g"
  by (simp add: paced_result_def Let_def observeStreak_def)

lemma result_pending: "tg_pendingToolUses (fst (onToolResult h opt t i out e batch g)) = fmdrop i (tg_pendingToolUses g)"
  by (simp add: onToolResult_def Let_def ordinary_result_def paced_pending split: option.split)

lemma do_pending: "fmdom' (tg_pendingToolUses (guard_do h opt g e)) = under_way (fmdom' (tg_pendingToolUses g)) e"
  by (cases e) (auto simp: result_pending onToolUse_def acceptCurrentPattern_def resetTurn_def resetPatternState_def
      resetContractBatchState_def Let_def split: option.splits)

lemma do_ok: "guard_ok opt g \<Longrightarrow> guard_ok opt (guard_do h opt g e)"
  by (cases e) (simp_all add: result_ok, auto simp: guard_ok_def onToolUse_def acceptCurrentPattern_def resetTurn_def resetPatternState_def
       resetContractBatchState_def Let_def split: option.splits)

lemma after_ok: "guard_ok opt (guard_after h opt es)"
proof -
  have "guard_ok opt g \<Longrightarrow> guard_ok opt (foldl (guard_do h opt) g es)" for g
    by (induction es arbitrary: g) (simp_all add: do_ok)
  then show ?thesis using guard_ok_new by (simp add: guard_after_def)
qed

lemma after_pending: "fmdom' (tg_pendingToolUses (guard_after h opt es)) = open_calls es"
proof -
  have "fmdom' (tg_pendingToolUses (foldl (guard_do h opt) g es)) = foldl under_way (fmdom' (tg_pendingToolUses g)) es" for g
    by (induction es arbitrary: g) (simp_all add: do_pending)
  then show ?thesis by (simp add: guard_after_def open_calls_def new_guard_def)
qed

text \<open>
  C37: What the guard remembers, after any sequence of its calls. It holds a pending entry for exactly the calls under way: those
  started in this turn under an id and a name and not returned since, so a result always frees its entry, also of a waiting tool. Besides
  these it keeps at most twelve pieces of evidence, windows of at most their sizes, a suspected pattern no larger than a window, and
  streaks only for the contract errors of the current and the previous batch; the count of fast identical results never
  exceeds the count of identical results, and the grace is never negative.
\<close>

theorem guard_memory_exact:
  "fmdom' (tg_pendingToolUses (guard_after h opt es)) = open_calls es
    \<and> length (tg_evidence (guard_after h opt es)) \<le> 12
    \<and> length (tg_callWindow (guard_after h opt es)) \<le> max (go_windowSize opt) (go_rotationWindowSize opt)
    \<and> length (tg_stableReadWindow (guard_after h opt es)) \<le> 128
    \<and> card (tg_lastSuspectPattern (guard_after h opt es)) \<le> max 1 (max (go_windowSize opt) (go_rotationWindowSize opt))
    \<and> tg_activeContractKeys (guard_after h opt es) \<subseteq> fmdom' (tg_contractStreakByKey (guard_after h opt es))
    \<and> fmdom' (tg_contractStreakByKey (guard_after h opt es))
        \<subseteq> tg_activeContractKeys (guard_after h opt es) \<union> tg_previousContractKeys (guard_after h opt es)
    \<and> tg_consecutiveStreak (guard_after h opt es) \<le> tg_streakResults (guard_after h opt es)
    \<and> 0 \<le> tg_suspicionGraceResults (guard_after h opt es)"
  using after_ok [of opt h es]
  by (simp add: after_pending guard_ok_def EVIDENCE_SIZE_def STABLE_READ_WINDOW_SIZE_def pattern_size_def)

section \<open>Calls in a loop\<close>

text \<open>An unpaced ordinary call is its noting followed by the layers.\<close>

lemma call_fast:
  assumes "idle g" "named c" "\<not> waits c" "unpaced opt (tg_lastOrdinaryStartedAt g) (tc_start c # ts)"
  shows "\<exists>g1 b f. call h opt c g = fast_result opt (tc_finish c) b (tc_name c) (full_fingerprint h c) f
        (if tc_isError c then classifyToolContractError (tc_name c) (tc_output c) else None) (tc_batch c) g1
      \<and> tg_pendingToolUses g1 = fmempty
      \<and> tg_lastOrdinaryStartedAt g1 = Some (case tg_lastOrdinaryStartedAt g of None \<Rightarrow> tc_start c | Some l \<Rightarrow> max l (tc_start c))
      \<and> tg_lastFullFingerprint g1 = tg_lastFullFingerprint g \<and> tg_consecutiveStreak g1 = tg_consecutiveStreak g
      \<and> tg_streakResults g1 = tg_streakResults g \<and> tg_lastContractKey g1 = tg_lastContractKey g
      \<and> tg_contractStreak g1 = tg_contractStreak g \<and> tg_stableReadWindow g1 = tg_stableReadWindow g"
proof -
  define g0 where "g0 = (acceptCurrentPattern (tc_grant c) g)\<lparr>tg_lastResultObserved := True, tg_lastResultCallFingerprint := None\<rparr>"
  have g0: "tg_pendingToolUses g0 = fmempty" "tg_lastOrdinaryStartedAt g0 = tg_lastOrdinaryStartedAt g" "tg_lastFullFingerprint g0 = tg_lastFullFingerprint g"
    "tg_consecutiveStreak g0 = tg_consecutiveStreak g" "tg_streakResults g0 = tg_streakResults g" "tg_lastContractKey g0 = tg_lastContractKey g"
    "tg_contractStreak g0 = tg_contractStreak g" "tg_stableReadWindow g0 = tg_stableReadWindow g"
    using assms(1) by (simp_all add: g0_def acceptCurrentPattern_def idle_def)
  have unp: "\<not> is_paced opt (use_of c) g0" using assms(4) by (auto simp: is_paced_def g0 use_of_def split: option.splits)
  define f where "f = fingerprintToolCall h (tc_name c) (tc_input c) None"
  define g1 where "g1 = note_result (tc_finish c) (use_of c) (tc_output c) (tc_isError c) f g0"
  from unp
  have "call h opt c g = fast_result opt (tc_finish c) (0 < tg_suspicionGraceResults g0) (tc_name c) (full_fingerprint h c) f
      (if tc_isError c then classifyToolContractError (tc_name c) (tc_output c) else None) (tc_batch c) g1"
    unfolding call_ordinary [OF assms(1-3)] g0_def [symmetric] ordinary_result_def
    by (simp add: use_of_def full_fingerprint_def Let_def f_def g1_def del: if_splits)
  moreover have "pu_startedAt (use_of c) = tc_start c" by (simp add: use_of_def)
  then have "tg_lastOrdinaryStartedAt g1 = Some (case tg_lastOrdinaryStartedAt g of None \<Rightarrow> tc_start c | Some l \<Rightarrow> max l (tc_start c))"
    by (simp only: g1_def note_parts g0)
  moreover have "tg_pendingToolUses g1 = fmempty" "tg_lastFullFingerprint g1 = tg_lastFullFingerprint g"
    "tg_consecutiveStreak g1 = tg_consecutiveStreak g" "tg_streakResults g1 = tg_streakResults g" "tg_lastContractKey g1 = tg_lastContractKey g"
    "tg_contractStreak g1 = tg_contractStreak g" "tg_stableReadWindow g1 = tg_stableReadWindow g"
    by (simp_all only: g1_def note_parts g0)
  ultimately show ?thesis by blast
qed

lemma loop_counts:
  assumes "\<forall>c \<in> set cs. same_call c0 c \<and> named c" "\<not> waits c0"
    "tc_isError c0 \<longrightarrow> classifyToolContractError (tc_name c0) (tc_output c0) = None"
  shows "idle g \<Longrightarrow> unpaced opt (tg_lastOrdinaryStartedAt g) (map tc_start cs) \<Longrightarrow> cs \<noteq> []
    \<Longrightarrow> n = 0 \<or> tg_lastFullFingerprint g = Some (full_fingerprint h c0) \<and> n \<le> tg_consecutiveStreak g
    \<Longrightarrow> go_finalConsecutiveLimit opt \<le> n + length cs
    \<Longrightarrow> \<exists>v \<in> set (snd (calls h opt cs g)). stops_now v"
  using assms(1)
proof (induction cs arbitrary: g n)
  case (Cons c cs)
  obtain g' v where call: "call h opt c g = (g', v)" by (cases "call h opt c g")
  have c: "same_call c0 c" "named c" using Cons.prems(6) by simp_all
  then have "\<not> waits c" using assms(2) same_waits by blast
  from call_fast [OF Cons.prems(1) c(2) this, of opt "map tc_start cs" h] Cons.prems(2) call
  obtain g1 b f where fast: "fast_result opt (tc_finish c) b (tc_name c) (full_fingerprint h c) f
        (if tc_isError c then classifyToolContractError (tc_name c) (tc_output c) else None) (tc_batch c) g1 = (g', v)"
    and g1: "tg_pendingToolUses g1 = fmempty" "tg_lastFullFingerprint g1 = tg_lastFullFingerprint g" "tg_consecutiveStreak g1 = tg_consecutiveStreak g"
      "tg_lastOrdinaryStartedAt g1 = Some (case tg_lastOrdinaryStartedAt g of None \<Rightarrow> tc_start c | Some l \<Rightarrow> max l (tc_start c))"
    by auto
  have "(if tc_isError c then classifyToolContractError (tc_name c) (tc_output c) else None) = None"
    using assms(3) c(1) by (auto simp: same_call_def)
  with fast have fast: "fast_result opt (tc_finish c) b (tc_name c) (full_fingerprint h c) f None (tc_batch c) g1 = (g', v)" by simp
  have F: "full_fingerprint h c = full_fingerprint h c0" using c(1) by (simp add: same_call_def full_fingerprint_def)
  show ?case
  proof (cases "stops_now v")
    case True
    then show ?thesis by (simp add: call Let_def split_beta)
  next
    case False
    with fast_clean [OF fast] F g1 have g': "tg_lastFullFingerprint g' = Some (full_fingerprint h c0)" "tg_consecutiveStreak g' < go_finalConsecutiveLimit opt"
      "Suc n \<le> tg_consecutiveStreak g'" using Cons.prems(4) by auto
    with Cons.prems(5) have "cs \<noteq> []" by auto
    moreover have "idle g'" "unpaced opt (tg_lastOrdinaryStartedAt g') (map tc_start cs)"
      using fast_parts [of opt "tc_finish c" b "tc_name c" "full_fingerprint h c" f None "tc_batch c" g1] Cons.prems(2)
      by (simp_all add: fast idle_def g1)
    ultimately have "\<exists>v \<in> set (snd (calls h opt cs g')). stops_now v"
      using Cons.prems(5,6) g' by (intro Cons.IH [of g' "Suc n"]) auto
    then show ?thesis by (simp add: call Let_def split_beta)
  qed
qed simp

text \<open>
  C35: A loop is stopped, whatever the reviews say. From any state without a call under way, among as many identical fast
  results as the final limit says (of an ordinary tool, and not rejected for its contract) there is one that the
  guard answers with a final verdict, even where a review grants grace before every call.
\<close>

theorem identical_calls_stopped:
  assumes "idle g" "\<forall>c \<in> set cs. same_call c0 c \<and> named c" "\<not> waits c0"
    "tc_isError c0 \<longrightarrow> classifyToolContractError (tc_name c0) (tc_output c0) = None"
    "unpaced opt (tg_lastOrdinaryStartedAt g) (map tc_start cs)" "cs \<noteq> []" "go_finalConsecutiveLimit opt \<le> length cs"
  shows "\<exists>v \<in> set (snd (calls h opt cs g)). stops_now v"
  using loop_counts [OF assms(2-4) assms(1,5,6), of 0] assms(7) by simp

definition demo_call :: "nat \<Rightarrow> tool_call" where
  "demo_call k = \<lparr>tc_id = js ''c'', tc_name = js ''Bash'', tc_input = None, tc_output = js ''x'', tc_isError = False, tc_batch = None,
     tc_start = of_nat k, tc_finish = of_nat k, tc_grant = 10\<rparr>"

lemma unpaced_steps: "0 < go_pacedIntervalMs opt \<Longrightarrow> \<forall>t \<in> set ts. l \<le> t \<and> t < l + go_pacedIntervalMs opt
    \<Longrightarrow> sorted ts \<Longrightarrow> m \<ge> l \<Longrightarrow> unpaced opt (Some m) ts"
proof (induction ts arbitrary: m)
  case (Cons t ts)
  then have "unpaced opt (Some (max m t)) ts" by (intro Cons.IH) auto
  with Cons.prems show ?case by auto
qed simp

lemma identical_calls_stopped_witness:
  "\<exists>v \<in> set (snd (calls demo_host default_guard_options (map demo_call [0..<30]) new_guard)). stops_now v"
proof (rule identical_calls_stopped [of new_guard "map demo_call [0..<30]" "demo_call 0"])
  show "idle new_guard" by (simp add: idle_def new_guard_def)
  show "\<forall>c \<in> set (map demo_call [0..<30]). same_call (demo_call 0) c \<and> named c" by (simp add: demo_call_def same_call_def named_def)
  show "\<not> waits (demo_call 0)" by (simp add: waits_def demo_call_def isPollingTool_def LOOP_GUARD_EXEMPT_TOOL_NAMES_def is_object_def)
  have "unpaced default_guard_options (Some 0) (map of_nat [0..<30])"
    by (rule unpaced_steps [where l = 0]) (auto simp: default_guard_options_def sorted_map intro: sorted_wrt_upt)
  then show "unpaced default_guard_options (tg_lastOrdinaryStartedAt new_guard) (map tc_start (map demo_call [0..<30]))"
    by (simp add: new_guard_def demo_call_def comp_def upt_conv_Cons)
qed (simp_all add: default_guard_options_def demo_call_def)

section \<open>Waiting tools do not count\<close>

text \<open>The state up to what the last result says of itself.\<close>

definition similar :: "guard \<Rightarrow> guard \<Rightarrow> bool" where
  "similar g g' \<longleftrightarrow> idle g \<and> g\<lparr>tg_lastResultObserved := False, tg_lastResultCallFingerprint := None\<rparr>
     = g'\<lparr>tg_lastResultObserved := False, tg_lastResultCallFingerprint := None\<rparr>"

lemma similar_idle: "similar g g' \<Longrightarrow> idle g \<and> idle g'"
proof -
  assume s: "similar g g'"
  then have eq: "g\<lparr>tg_lastResultObserved := False, tg_lastResultCallFingerprint := None\<rparr>
      = g'\<lparr>tg_lastResultObserved := False, tg_lastResultCallFingerprint := None\<rparr>" and i: "idle g" unfolding similar_def by blast+
  from arg_cong [OF eq, of tg_pendingToolUses] i show ?thesis by (simp add: idle_def)
qed

lemma call_similar: "similar g g' \<Longrightarrow> named c \<Longrightarrow> \<not> waits c \<Longrightarrow> call h opt c g = call h opt c g'"
proof -
  assume s: "similar g g'" "named c" "\<not> waits c"
  let ?o = "\<lambda>g. (acceptCurrentPattern (tc_grant c) g)\<lparr>tg_lastResultObserved := True, tg_lastResultCallFingerprint := None\<rparr>"
  have up: "?o g = (acceptCurrentPattern (tc_grant c) (g\<lparr>tg_lastResultObserved := False, tg_lastResultCallFingerprint := None\<rparr>))
      \<lparr>tg_lastResultObserved := True, tg_lastResultCallFingerprint := None\<rparr>" for g
    by (cases g) (simp add: acceptCurrentPattern_def)
  have "?o g = ?o g'" unfolding up [of g] up [of g'] using s(1) by (simp only: similar_def)
  with s similar_idle [OF s(1)] show ?thesis by (simp add: call_ordinary)
qed

lemma ordinary_idle: "idle g \<Longrightarrow> idle (fst (ordinary_result h opt t u out e batch g))"
  by (simp add: idle_def ordinary_result_def Let_def paced_result_def observeStreak_def)

lemma call_idle: "idle g \<Longrightarrow> named c \<Longrightarrow> idle (fst (call h opt c g))"
proof (cases "waits c")
  case True
  assume "idle g" "named c"
  with True show ?thesis by (simp add: call_waits) (simp add: idle_def acceptCurrentPattern_def)
next
  case False
  assume i: "idle g" "named c"
  have "idle ((acceptCurrentPattern (tc_grant c) g)\<lparr>tg_lastResultObserved := True, tg_lastResultCallFingerprint := None\<rparr>)"
    using i(1) by (simp add: idle_def acceptCurrentPattern_def)
  with i False show ?thesis by (simp add: call_ordinary ordinary_idle)
qed

definition ungranted :: "tool_call \<Rightarrow> bool" where
  "ungranted c \<longleftrightarrow> tc_grant c = 0"

lemma waiting_invisible:
  "similar g g' \<Longrightarrow> 0 \<le> tg_suspicionGraceResults g \<Longrightarrow> \<forall>c \<in> set cs. named c \<and> (waits c \<longrightarrow> ungranted c) \<Longrightarrow>
    guard_ok opt g \<Longrightarrow> guard_ok opt g' \<Longrightarrow>
    map snd (filter (\<lambda>(c, v). \<not> waits c) (zip cs (snd (calls h opt cs g)))) = snd (calls h opt (filter (\<lambda>c. \<not> waits c) cs) g')
    \<and> (\<forall>(c, v) \<in> set (zip cs (snd (calls h opt cs g))). waits c \<longrightarrow> v = Fine)
    \<and> similar (fst (calls h opt cs g)) (fst (calls h opt (filter (\<lambda>c. \<not> waits c) cs) g'))"
proof (induction cs arbitrary: g g')
  case (Cons c cs)
  have idle: "idle g" "idle g'" using similar_idle [OF Cons.prems(1)] by simp_all
  have c: "named c" using Cons.prems(3) by simp
  show ?case
  proof (cases "waits c")
    case True
    then have "tc_grant c = 0" using Cons.prems(3) by (simp add: ungranted_def)
    then have a: "acceptCurrentPattern (tc_grant c) g = g" using Cons.prems(2) by (cases g) (simp add: acceptCurrentPattern_def)
    define g1 where "g1 = g\<lparr>tg_lastResultObserved := False, tg_lastResultCallFingerprint := None\<rparr>"
    have call: "call h opt c g = (g1, Fine)" using call_waits [OF idle(1) c True, of h opt] by (simp add: a g1_def)
    have "idle g1" using idle(1) by (simp add: g1_def idle_def)
    moreover have "g1\<lparr>tg_lastResultObserved := False, tg_lastResultCallFingerprint := None\<rparr>
        = g\<lparr>tg_lastResultObserved := False, tg_lastResultCallFingerprint := None\<rparr>" by (simp add: g1_def)
    ultimately have "similar g1 g'" using Cons.prems(1) by (simp only: similar_def)
    moreover have "0 \<le> tg_suspicionGraceResults g1" "guard_ok opt g1" using Cons.prems(2,4) by (simp_all add: g1_def guard_ok_def)
    ultimately show ?thesis using Cons.IH [of g1 g'] Cons.prems(3,5) True by (simp add: call Let_def split_beta)
  next
    case False
    obtain g1 v where one: "call h opt c g = (g1, v)" by (cases "call h opt c g")
    with call_similar [OF Cons.prems(1) c False, of h opt] have two: "call h opt c g' = (g1, v)" by simp
    have "idle g1" using call_idle [OF idle(1) c, of h opt] one by simp
    then have "similar g1 g1" by (simp add: similar_def)
    moreover have ok: "guard_ok opt g1"
    proof -
      have "guard_ok opt (fst (onToolResult h opt t i out e batch (onToolUse t' i n x (acceptCurrentPattern k g))))" for t i out e batch t' n x k
        using step_ok [OF guard_step.intros(1)] step_ok [OF guard_step.intros(3)] Cons.prems(4) by (intro result_ok) blast
      then show ?thesis using one by (metis call_def fst_conv)
    qed
    moreover from ok have "0 \<le> tg_suspicionGraceResults g1" by (simp add: guard_ok_def)
    ultimately show ?thesis using Cons.IH [of g1 g1] Cons.prems(3) False by (simp add: one two Let_def split_beta)
  qed
qed (simp add: similar_def)

text \<open>
  C36: Waiting does not count, and does not help to hide a loop. Removing the calls of waiting tools from a sequence of calls changes
  neither the verdicts on the other calls nor the state of the detection, and every waiting call is fine.
\<close>

theorem waiting_tools_invisible:
  assumes "guard_reachable h opt g" "idle g" "\<forall>c \<in> set cs. named c \<and> (waits c \<longrightarrow> ungranted c)"
  shows "map snd (filter (\<lambda>(c, v). \<not> waits c) (zip cs (snd (calls h opt cs g)))) = snd (calls h opt (filter (\<lambda>c. \<not> waits c) cs) g)
    \<and> (\<forall>(c, v) \<in> set (zip cs (snd (calls h opt cs g))). waits c \<longrightarrow> v = Fine)
    \<and> similar (fst (calls h opt cs g)) (fst (calls h opt (filter (\<lambda>c. \<not> waits c) cs) g))"
proof (rule waiting_invisible)
  show "similar g g" using assms(2) by (simp add: similar_def)
  show "0 \<le> tg_suspicionGraceResults g" "guard_ok opt g" "guard_ok opt g" using reachable_ok [OF assms(1)] by (simp_all add: guard_ok_def)
  show "\<forall>c \<in> set cs. named c \<and> (waits c \<longrightarrow> ungranted c)" by (rule assms(3))
qed

definition demo_wait :: tool_call where
  "demo_wait = (demo_call 5)\<lparr>tc_name := js ''sleep'', tc_grant := 0\<rparr>"

lemma waiting_tools_invisible_witness:
  "map snd (filter (\<lambda>(c, v). \<not> waits c) (zip [demo_call 0, demo_wait, demo_call 9]
      (snd (calls demo_host default_guard_options [demo_call 0, demo_wait, demo_call 9] new_guard))))
    = snd (calls demo_host default_guard_options (filter (\<lambda>c. \<not> waits c) [demo_call 0, demo_wait, demo_call 9]) new_guard)"
proof -
  have "idle new_guard" by (simp add: idle_def new_guard_def)
  moreover have "\<not> waits (demo_call k)" for k by (simp add: waits_def demo_call_def isPollingTool_def LOOP_GUARD_EXEMPT_TOOL_NAMES_def is_object_def)
  moreover have "named (demo_call k)" "named demo_wait" "ungranted demo_wait" for k
    by (simp_all add: named_def demo_wait_def demo_call_def ungranted_def)
  ultimately have "idle new_guard" "\<forall>c \<in> set [demo_call 0, demo_wait, demo_call 9]. named c \<and> (waits c \<longrightarrow> ungranted c)"
    by simp_all
  then show ?thesis using waiting_tools_invisible [OF guard_reachable.intros(1)] by blast
qed

end
