(* ===== verification/LoopContracts.thy ===== *)
theory LoopContracts
  imports LoopGuardLaws
begin

text \<open>
  The fourth layer of the detector of tool loops, errors against a tool's contract: with batches the streak of
  an error is the number of batches in a row that have it, whatever the order of results in a batch;
  and identical calls that keep being rejected never meet the final limit.
\<close>

section \<open>Rejected calls and the final limit\<close>

lemma streak_layer_not_final:
  assumes "tg_consecutiveStreak (fst (streak_layer opt t b n f c g)) < go_finalConsecutiveLimit opt"
    "tg_streakResults (fst (streak_layer opt t b n f c g)) < go_consecutiveLimit opt"
  shows "\<not> stops_now (snd (streak_layer opt t b n f c g))"
  using assms by (auto simp: streak_layer_def Let_def finalVerdict_def suspect_def window_layers_def split: if_splits)

text \<open>After \<open>k\<close> identical rejections.\<close>

definition rejected :: "jsstring \<Rightarrow> nat \<Rightarrow> guard \<Rightarrow> bool" where
  "rejected key k g \<longleftrightarrow> idle g \<and> tg_lastContractKey g = (if k = 0 then None else Some key) \<and> tg_contractStreak g = k
     \<and> (k \<le> 2 \<longrightarrow> tg_streakResults g \<le> k \<and> tg_consecutiveStreak g \<le> k \<and> length (tg_stableReadWindow g) \<le> k)"

lemma rejection_layer:
  assumes "tg_lastContractKey g = (if k = 0 then None else Some (contract_key n cat))" "tg_contractStreak g = k"
  shows "contract_layer opt n (Some cat) None g =
    ((resetContractBatchState g)\<lparr>tg_contractStreak := Suc k, tg_lastContractKey := Some (contract_key n cat)\<rparr>,
     if go_contractConsecutiveLimit opt \<le> Suc k then Some (Suc k) else None)"
  using assms by (auto simp: contract_layer_def resetContractBatchState_def Let_def)

lemma length_push: "length (push_window l x w) \<le> Suc (length w)"
  by (simp add: push_window_def Let_def)

lemma repetition_short:
  assumes "length (tg_stableReadWindow g) < 100" "go_finalConsecutiveLimit opt > Suc (tg_consecutiveStreak g)" "go_finalConsecutiveLimit opt > 1"
    "go_consecutiveLimit opt > Suc (tg_streakResults g)" "go_consecutiveLimit opt > 1"
  shows "\<not> stops_now (snd (repetition_layers opt t b n f c g))
    \<and> tg_consecutiveStreak (fst (repetition_layers opt t b n f c g)) \<le> Suc (tg_consecutiveStreak g)
    \<and> tg_streakResults (fst (repetition_layers opt t b n f c g)) \<le> Suc (tg_streakResults g)
    \<and> length (tg_stableReadWindow (fst (repetition_layers opt t b n f c g))) \<le> Suc (length (tg_stableReadWindow g))
    \<and> tg_lastContractKey (fst (repetition_layers opt t b n f c g)) = tg_lastContractKey g
    \<and> tg_contractStreak (fst (repetition_layers opt t b n f c g)) = tg_contractStreak g"
proof -
  define w where "w = (if n \<in> set READ_ONLY_TOOL_NAMES then push_window STABLE_READ_WINDOW_SIZE f (tg_stableReadWindow g) else [])"
  have w: "length w \<le> Suc (length (tg_stableReadWindow g))" by (simp add: w_def length_push)
  with assms(1) have "\<not> stable_rotation w" by (simp add: stable_rotation_def Let_def STABLE_READ_WINDOW_SIZE_def)
  then have eq: "repetition_layers opt t b n f c g = streak_layer opt t b n f c (g\<lparr>tg_stableReadWindow := w\<rparr>)"
    unfolding repetition_layers_def w_def [symmetric] Let_def by simp
  show ?thesis unfolding eq using assms w streak_layer_not_final [of opt t b n f c "g\<lparr>tg_stableReadWindow := w\<rparr>"] by simp
qed

lemma rejection_step:
  assumes "rejected (contract_key (tc_name c) cat) k g" "named c" "\<not> waits c" "tc_isError c" "tc_batch c = None"
    "classifyToolContractError (tc_name c) (tc_output c) = Some cat"
    "unpaced default_guard_options (tg_lastOrdinaryStartedAt g) (tc_start c # ts)" "call h default_guard_options c g = (g', v)"
  shows "\<not> stops_now v \<and> rejected (contract_key (tc_name c) cat) (Suc k) g' \<and> unpaced default_guard_options (tg_lastOrdinaryStartedAt g') ts"
proof -
  let ?opt = default_guard_options
  have idle: "idle g" using assms(1) by (simp add: rejected_def)
  from call_fast [OF idle assms(2,3,7), of h] assms(4-6,8) obtain g1 b f
    where fast: "fast_result ?opt (tc_finish c) b (tc_name c) (full_fingerprint h c) f (Some cat) None g1 = (g', v)"
      and g1: "tg_pendingToolUses g1 = fmempty" "tg_lastContractKey g1 = tg_lastContractKey g" "tg_contractStreak g1 = tg_contractStreak g"
        "tg_streakResults g1 = tg_streakResults g" "tg_consecutiveStreak g1 = tg_consecutiveStreak g"
        "tg_stableReadWindow g1 = tg_stableReadWindow g"
        "tg_lastOrdinaryStartedAt g1 = Some (case tg_lastOrdinaryStartedAt g of None \<Rightarrow> tc_start c | Some l \<Rightarrow> max l (tc_start c))"
    by auto
  define g2 where "g2 = (resetContractBatchState g1)\<lparr>tg_contractStreak := Suc k, tg_lastContractKey := Some (contract_key (tc_name c) cat)\<rparr>"
  have layer: "contract_layer ?opt (tc_name c) (Some cat) None g1 = (g2, if 3 \<le> Suc k then Some (Suc k) else None)"
    unfolding g2_def using assms(1) rejection_layer [of g1 k "tc_name c" cat ?opt]
    by (simp add: rejected_def g1 default_guard_options_def)
  have g2: "tg_contractStreak g2 = Suc k" "tg_lastContractKey g2 = Some (contract_key (tc_name c) cat)" "tg_streakResults g2 = tg_streakResults g"
    "tg_consecutiveStreak g2 = tg_consecutiveStreak g" "tg_stableReadWindow g2 = tg_stableReadWindow g"
    by (simp_all add: g2_def resetContractBatchState_def g1)
  have "unpaced ?opt (tg_lastOrdinaryStartedAt g') ts" "idle g'"
    using fast_parts [of ?opt "tc_finish c" b "tc_name c" "full_fingerprint h c" f "Some cat" None g1] assms(7)
    by (simp_all add: fast g1 idle_def)
  moreover have "\<not> stops_now v \<and> tg_contractStreak g' = Suc k \<and> tg_lastContractKey g' = Some (contract_key (tc_name c) cat)
    \<and> (Suc k \<le> 2 \<longrightarrow> tg_streakResults g' \<le> Suc k \<and> tg_consecutiveStreak g' \<le> Suc k \<and> length (tg_stableReadWindow g') \<le> Suc k)"
  proof (cases "3 \<le> Suc k")
    case True
    with fast layer have s: "suspect b g2 (Hard (Contract cat) (Suc k) (tc_name c) False) [f] = (g', v)" by (simp add: fast_result_def)
    then have "\<not> stops_now v" by (auto simp: suspect_def split: if_splits)
    moreover have "tg_contractStreak g' = Suc k" "tg_lastContractKey g' = Some (contract_key (tc_name c) cat)"
      using suspect_parts(6,7) [of b g2 "Hard (Contract cat) (Suc k) (tc_name c) False" "[f]"] by (simp_all add: s g2)
    ultimately show ?thesis using True by simp
  next
    case False
    with fast layer have r: "repetition_layers ?opt (tc_finish c) b (tc_name c) (full_fingerprint h c) f g2 = (g', v)" by (simp add: fast_result_def)
    from assms(1) False have "tg_streakResults g2 \<le> k" "tg_consecutiveStreak g2 \<le> k" "length (tg_stableReadWindow g2) \<le> k" "k \<le> 1"
      by (auto simp: rejected_def g2)
    then show ?thesis using repetition_short [of g2 ?opt "tc_finish c" b "tc_name c" "full_fingerprint h c" f] unfolding r
      by (simp add: default_guard_options_def g2)
  qed
  ultimately show ?thesis by (simp add: rejected_def)
qed

lemma rejections_run:
  assumes "\<not> waits c0" "tc_isError c0" "classifyToolContractError (tc_name c0) (tc_output c0) = Some cat"
  shows "rejected (contract_key (tc_name c0) cat) k g \<Longrightarrow> \<forall>c \<in> set cs. same_call c0 c \<and> named c \<and> tc_batch c = None
    \<Longrightarrow> unpaced default_guard_options (tg_lastOrdinaryStartedAt g) (map tc_start cs)
    \<Longrightarrow> \<forall>v \<in> set (snd (calls h default_guard_options cs g)). \<not> stops_now v"
proof (induction cs arbitrary: g k)
  case (Cons c cs)
  obtain g' v where call: "call h default_guard_options c g = (g', v)" by (cases "call h default_guard_options c g")
  have c: "same_call c0 c" "named c" "tc_batch c = None" using Cons.prems(2) by simp_all
  then have w: "\<not> waits c" and e: "tc_name c = tc_name c0" "tc_isError c" "classifyToolContractError (tc_name c) (tc_output c) = Some cat"
    using assms same_waits [of c0 c] by (auto simp: same_call_def)
  from rejection_step [of c cat k g "map tc_start cs" h g' v] Cons.prems c w e call
  have step: "\<not> stops_now v" "rejected (contract_key (tc_name c0) cat) (Suc k) g'" "unpaced default_guard_options (tg_lastOrdinaryStartedAt g') (map tc_start cs)"
    by simp_all
  with Cons.IH [OF step(2) _ step(3)] Cons.prems(2) show ?case by (simp add: call Let_def split_beta)
qed simp

text \<open>
  A rejected call is never stopped without a review. However often one call is repeated at full speed in a turn, if it is
  rejected each time with an error against the tool's contract no verdict is final: the fourth layer
  answers before the results are counted, so the final limit on identical calls is never reached.
\<close>

theorem rejected_calls_never_final:
  assumes "\<forall>c \<in> set cs. same_call c0 c \<and> named c \<and> tc_batch c = None" "\<not> waits c0" "tc_isError c0"
    "classifyToolContractError (tc_name c0) (tc_output c0) = Some cat" "unpaced default_guard_options None (map tc_start cs)"
  shows "\<forall>v \<in> set (snd (calls h default_guard_options cs (resetTurn g))). \<not> stops_now v"
proof -
  have "rejected (contract_key (tc_name c0) cat) 0 (resetTurn g)" "tg_lastOrdinaryStartedAt (resetTurn g) = None"
    by (simp_all add: rejected_def idle_def resetTurn_def resetPatternState_def resetContractBatchState_def)
  with rejections_run [OF assms(2-4)] assms(1,5) show ?thesis by metis
qed

definition demo_rejection :: "nat \<Rightarrow> tool_call" where
  "demo_rejection k = (demo_call k)\<lparr>tc_name := js ''Write'', tc_isError := True, tc_output := js ''missing required parameter''\<rparr>"

lemma demo_rejection_class: "classifyToolContractError (js ''Write'') (js ''missing required parameter'') = Some Missing_required_field"
  by code_simp

lemma rejected_calls_never_final_witness:
  "list_all (\<lambda>v. \<not> stops_now v) (snd (calls demo_host default_guard_options (map demo_rejection [0..<40]) (resetTurn new_guard)))"
  unfolding list_all_iff
proof (rule rejected_calls_never_final [of "map demo_rejection [0..<40]" "demo_rejection 0" Missing_required_field])
  show "\<forall>c \<in> set (map demo_rejection [0..<40]). same_call (demo_rejection 0) c \<and> named c \<and> tc_batch c = None"
    by (simp add: demo_rejection_def demo_call_def same_call_def named_def)
  show "\<not> waits (demo_rejection 0)"
    by (simp add: waits_def demo_rejection_def demo_call_def isPollingTool_def LOOP_GUARD_EXEMPT_TOOL_NAMES_def is_object_def)
  show "classifyToolContractError (tc_name (demo_rejection 0)) (tc_output (demo_rejection 0)) = Some Missing_required_field"
    using demo_rejection_class by (simp add: demo_rejection_def del: js_simps)
  have "unpaced default_guard_options (Some 0) (map of_nat [0..<40])"
    by (rule unpaced_steps [where l = 0]) (auto simp: default_guard_options_def sorted_map intro: sorted_wrt_upt)
  then show "unpaced default_guard_options None (map tc_start (map demo_rejection [0..<40]))"
    by (simp add: demo_rejection_def demo_call_def comp_def upt_conv_Cons)
qed (simp add: demo_rejection_def)

section \<open>Batches\<close>

text \<open>What reaches the fourth layer of a batch: the tool and the kind of error of each result.\<close>

type_synonym batch_results = "(jsstring \<times> contract_category option) list"

definition batch_step :: "guard_options \<Rightarrow> jsstring \<Rightarrow> jsstring \<times> contract_category option \<Rightarrow> guard \<Rightarrow> guard" where
  "batch_step opt i r g = fst (contract_layer opt (fst r) (snd r) (Some i) g)"

definition run_batch :: "guard_options \<Rightarrow> jsstring \<times> batch_results \<Rightarrow> guard \<Rightarrow> guard" where
  "run_batch opt b g = fold (batch_step opt (fst b)) (snd b) g"

definition run_batches :: "guard_options \<Rightarrow> (jsstring \<times> batch_results) list \<Rightarrow> guard \<Rightarrow> guard" where
  "run_batches opt bs g = fold (run_batch opt) bs g"

definition batch_keys :: "batch_results \<Rightarrow> jsstring set" where
  "batch_keys rs = {contract_key n c |n c. (n, Some c) \<in> set rs}"

lemma batch_keys_simps [simp]:
  "batch_keys [] = {}" "batch_keys (rs @ [(n, None)]) = batch_keys rs"
  "batch_keys (rs @ [(n, Some c)]) = insert (contract_key n c) (batch_keys rs)"
  by (auto simp: batch_keys_def)

lemma contract_key_inject: "contract_key n c = contract_key m d \<longleftrightarrow> n = m \<and> c = d"
proof
  assume k: "contract_key n c = contract_key m d"
  have "rev (category_text c) @ 10 # rev n = rev (category_text d) @ 10 # rev m"
    using arg_cong [OF k, of rev] by (simp add: contract_key_def)
  then have "rev (category_text c) = rev (category_text d) \<and> 10 # rev n = 10 # rev m"
    by (rule run_split [where P = "\<lambda>c. c \<noteq> 10"]) (cases c; cases d; simp)+
  then show "n = m \<and> c = d" by (cases c; cases d; simp)
qed simp

lemma key_in_batch [simp]: "contract_key n c \<in> batch_keys rs \<longleftrightarrow> (n, Some c) \<in> set rs"
  by (auto simp: batch_keys_def contract_key_inject)

definition next_streak :: "guard \<Rightarrow> jsstring \<Rightarrow> nat" where
  "next_streak g key = (if key \<in> tg_previousContractKeys g
     then (case fmlookup (tg_contractStreakByKey g) key of Some n \<Rightarrow> n | None \<Rightarrow> 0) + 1 else 1)"

lemma begin_again: "beginContractBatch i (beginContractBatch i g) = beginContractBatch i g"
  by (simp add: beginContractBatch_def)

lemma layer_begin: "contract_layer opt n c (Some i) g = contract_layer opt n c (Some i) (beginContractBatch i g)"
  by (simp add: contract_layer_def begin_again)

lemma run_batch_begin: "rs \<noteq> [] \<Longrightarrow> run_batch opt (i, rs) g = run_batch opt (i, rs) (beginContractBatch i g)"
  using layer_begin [of opt _ _ i g] by (cases rs) (simp_all add: run_batch_def batch_step_def)

text \<open>Within a batch that has begun.\<close>

lemma within_batch:
  assumes "tg_activeContractBatchId g = Some i"
  shows "tg_activeContractBatchId (run_batch opt (i, rs) g) = Some i
    \<and> tg_previousContractKeys (run_batch opt (i, rs) g) = tg_previousContractKeys g
    \<and> tg_activeContractKeys (run_batch opt (i, rs) g) = tg_activeContractKeys g \<union> batch_keys rs
    \<and> (\<forall>key. fmlookup (tg_contractStreakByKey (run_batch opt (i, rs) g)) key =
        (if key \<in> batch_keys rs \<and> key \<notin> tg_activeContractKeys g then Some (next_streak g key) else fmlookup (tg_contractStreakByKey g) key))"
proof (induction rs rule: rev_induct)
  case Nil
  then show ?case using assms by (simp add: run_batch_def)
next
  case (snoc r rs)
  define g1 where "g1 = run_batch opt (i, rs) g"
  obtain n c where r: "r = (n, c)" by (cases r)
  have "run_batch opt (i, rs @ [r]) g = fst (contract_layer opt n c (Some i) g1)" by (simp add: run_batch_def g1_def batch_step_def r)
  moreover from snoc have b: "beginContractBatch i g1 = g1" by (simp add: g1_def beginContractBatch_def)
  moreover have "next_streak g1 key = next_streak g key" if "key \<notin> batch_keys rs \<or> key \<in> tg_activeContractKeys g" for key
    using snoc that by (auto simp: next_streak_def g1_def simp del: key_in_batch)
  ultimately show ?case using snoc [folded g1_def]
    by (cases c) (auto simp: contract_layer_def Let_def r next_streak_def simp del: key_in_batch)
qed

text \<open>The reference: how many of the last batches in a row have the error.\<close>

definition trailing_batches :: "jsstring \<Rightarrow> contract_category \<Rightarrow> (jsstring \<times> batch_results) list \<Rightarrow> nat" where
  "trailing_batches n c bs = length (takeWhile (\<lambda>b. (n, Some c) \<in> set (snd b)) (rev bs))"

lemma trailing_snoc [simp]:
  "trailing_batches n c [] = 0"
  "trailing_batches n c (bs @ [b]) = (if (n, Some c) \<in> set (snd b) then Suc (trailing_batches n c bs) else 0)"
  by (simp_all add: trailing_batches_def)

definition after_batches :: "(jsstring \<times> batch_results) list \<Rightarrow> guard \<Rightarrow> bool" where
  "after_batches bs g \<longleftrightarrow> tg_activeContractBatchId g = (if bs = [] then None else Some (fst (last bs)))
     \<and> (\<forall>n c. contract_key n c \<in> tg_activeContractKeys g \<longleftrightarrow> trailing_batches n c bs > 0)
     \<and> (\<forall>n c. contract_key n c \<in> tg_activeContractKeys g \<longrightarrow> fmlookup (tg_contractStreakByKey g) (contract_key n c) = Some (trailing_batches n c bs))"

lemma begun_batch:
  assumes "after_batches bs g" "bs = [] \<or> fst (last bs) \<noteq> i"
  shows "tg_activeContractBatchId (beginContractBatch i g) = Some i" "tg_activeContractKeys (beginContractBatch i g) = {}"
    "next_streak (beginContractBatch i g) (contract_key n c) = Suc (trailing_batches n c bs)"
proof -
  have "tg_activeContractBatchId g \<noteq> Some i" using assms by (auto simp: after_batches_def)
  then show "tg_activeContractBatchId (beginContractBatch i g) = Some i" "tg_activeContractKeys (beginContractBatch i g) = {}"
    "next_streak (beginContractBatch i g) (contract_key n c) = Suc (trailing_batches n c bs)"
    using assms(1) by (auto simp: beginContractBatch_def next_streak_def after_batches_def)
qed

lemma batches_run:
  "after_batches [] g \<Longrightarrow> distinct_adj (map fst bs) \<Longrightarrow> \<forall>b \<in> set bs. snd b \<noteq> [] \<Longrightarrow> after_batches bs (run_batches opt bs g)"
proof (induction bs rule: rev_induct)
  case Nil
  then show ?case by (simp add: run_batches_def)
next
  case (snoc b bs)
  obtain i rs where b: "b = (i, rs)" by (cases b)
  define g1 where "g1 = run_batches opt bs g"
  have g1: "after_batches bs g1" unfolding g1_def using snoc by (auto simp: distinct_adj_append_iff)
  have fresh: "bs = [] \<or> fst (last bs) \<noteq> i"
    using snoc.prems(2) b by (auto simp: distinct_adj_append_iff last_map)
  let ?g2 = "beginContractBatch i g1"
  note begun = begun_batch [OF g1 fresh]
  have "run_batches opt (bs @ [b]) g = run_batch opt (i, rs) ?g2"
    using run_batch_begin [of rs opt i g1] snoc.prems(3) b by (simp add: run_batches_def g1_def)
  with within_batch [OF begun(1), of opt rs] begun(2,3) show ?case by (simp add: after_batches_def b)
qed

text \<open>
  C38: The fourth layer counts batches, not results. When an error against a tool's contract arrives in a new batch, it is reported
  at the first result with that error in the batch, with the number of batches in a row that had it,
  if that reaches the limit; a second one in the batch is not counted, and neither the order of the results nor
  what else is in the batches matters.
\<close>

theorem contract_streak_counts_batches:
  assumes "distinct_adj (map fst bs)" "\<forall>b \<in> set bs. snd b \<noteq> []" "bs = [] \<or> fst (last bs) \<noteq> i"
  shows "snd (contract_layer opt n (Some c) (Some i) (run_batch opt (i, rs) (run_batches opt bs (resetTurn g)))) =
    (if (n, Some c) \<in> set rs \<or> Suc (trailing_batches n c bs) < go_contractConsecutiveLimit opt then None
     else Some (Suc (trailing_batches n c bs)))"
proof -
  have "after_batches [] (resetTurn g)"
    by (simp add: after_batches_def resetTurn_def resetPatternState_def resetContractBatchState_def)
  from batches_run [OF this assms(1,2)] have bs: "after_batches bs (run_batches opt bs (resetTurn g))" .
  define g1 where "g1 = beginContractBatch i (run_batches opt bs (resetTurn g))"
  note begun = begun_batch [OF bs assms(3), folded g1_def]
  define g2 where "g2 = run_batch opt (i, rs) g1"
  have "contract_layer opt n (Some c) (Some i) (run_batch opt (i, rs) (run_batches opt bs (resetTurn g))) = contract_layer opt n (Some c) (Some i) g2"
  proof (cases "rs = []")
    case True
    then show ?thesis using layer_begin [of opt n "Some c" i] by (simp add: g2_def g1_def run_batch_def)
  next
    case False
    then show ?thesis using run_batch_begin [of rs opt i "run_batches opt bs (resetTurn g)"] by (simp add: g2_def g1_def)
  qed
  moreover have "tg_activeContractBatchId g2 = Some i" "contract_key n c \<in> tg_activeContractKeys g2 \<longleftrightarrow> (n, Some c) \<in> set rs"
    "(n, Some c) \<notin> set rs \<Longrightarrow> next_streak g2 (contract_key n c) = Suc (trailing_batches n c bs)"
    using within_batch [OF begun(1), of opt rs] begun(2) begun(3) [of n c] by (auto simp: g2_def next_streak_def split: if_splits)
  ultimately show ?thesis by (auto simp: contract_layer_def Let_def beginContractBatch_def next_streak_def)
qed

lemma contract_streak_counts_batches_witness:
  "snd (contract_layer default_guard_options (js ''Edit'') (Some Stale_locator) (Some (js ''3''))
      (run_batch default_guard_options (js ''3'', [(js ''Read'', None)])
        (run_batches default_guard_options [(js ''1'', [(js ''Edit'', Some Stale_locator), (js ''Bash'', None)]), (js ''2'', [(js ''Bash'', None), (js ''Edit'', Some Stale_locator)])]
          (resetTurn new_guard)))) = Some 3"
  using contract_streak_counts_batches [of "[(js ''1'', [(js ''Edit'', Some Stale_locator), (js ''Bash'', None)]), (js ''2'', [(js ''Bash'', None), (js ''Edit'', Some Stale_locator)])]"
      "js ''3''" default_guard_options "js ''Edit''" Stale_locator "[(js ''Read'', None)]" new_guard]
  by (simp add: trailing_batches_def default_guard_options_def)

end
