(* ===== verification/LoopEvidence.thy ===== *)
theory LoopEvidence
  imports LoopGuard
begin

text \<open>
  What the detector of tool loops keeps of a long text: a prefix that cuts no token in two, so that a
  redactor that runs later sees every token it could recognise whole; and a case in which the
  beginning of a quoted text stays although its closing quote is gone.
\<close>

section \<open>The prefix that is kept\<close>

lemma before_last_split:
  assumes "q \<in> set s"
  shows "\<exists>r. s = before_last q s @ q # r \<and> q \<notin> set r"
proof -
  let ?d = "dropWhile (\<lambda>c. c \<noteq> q) (rev s)" and ?t = "takeWhile (\<lambda>c. c \<noteq> q) (rev s)"
  have ne: "?d \<noteq> []" using assms by (simp add: dropWhile_eq_Nil_conv)
  then have "?d = q # tl ?d" using hd_dropWhile [of "\<lambda>c. c \<noteq> q" "rev s"] by (cases ?d) auto
  then have "rev s = ?t @ q # tl ?d" by (metis takeWhile_dropWhile_id)
  then have "rev (rev s) = rev (?t @ q # tl ?d)" by (rule arg_cong)
  then have "s = rev (tl ?d) @ q # rev ?t" by simp
  moreover have "q \<notin> set (rev ?t)" by (auto dest: set_takeWhileD)
  ultimately show ?thesis unfolding before_last_def by blast
qed

text \<open>A proper prefix of at most the limit that does not end inside a token.\<close>

definition clean_prefix :: "jsstring \<Rightarrow> jsstring \<Rightarrow> bool" where
  "clean_prefix txt kept \<longleftrightarrow> (\<exists>rest. txt = kept @ rest \<and> rest \<noteq> [] \<and> length kept \<le> EVIDENCE_CAPTURE_LIMIT
     \<and> (kept = [] \<or> \<not> (token_unit (last kept) \<and> token_unit (hd rest))))"

lemma not_tokens [simp]: "\<not> token_unit 10" "\<not> token_unit 34" "\<not> token_unit 39"
  by (simp_all add: token_unit_def is_alnum_def is_digit_def one_of_def)

lemma clean_drop_quote:
  assumes "clean_prefix txt kept" "q = 34 \<or> q = 39"
  shows "clean_prefix txt (drop_open_quote q kept)"
proof (cases "odd (count_list kept q)")
  case True
  then have "q \<in> set kept" using count_list_0_iff [of kept q] by (metis odd_pos less_not_refl)
  then obtain r where r: "kept = before_last q kept @ q # r" using before_last_split by blast
  obtain rest where rest: "txt = kept @ rest" "length kept \<le> EVIDENCE_CAPTURE_LIMIT" using assms(1) unfolding clean_prefix_def by blast
  have "txt = before_last q kept @ q # r @ rest" using rest(1) r by (metis append.assoc append_Cons)
  moreover have "length (before_last q kept) \<le> EVIDENCE_CAPTURE_LIMIT" using rest(2) arg_cong [OF r, of length] by simp
  moreover have "\<not> token_unit (hd (q # r @ rest))" using assms(2) by auto
  ultimately have "clean_prefix txt (before_last q kept)" unfolding clean_prefix_def by blast
  with True show ?thesis by (simp add: drop_open_quote_def)
qed (use assms in \<open>simp add: drop_open_quote_def\<close>)

lemma clean_strip:
  assumes "EVIDENCE_CAPTURE_LIMIT < length txt"
  shows "clean_prefix txt (rev (dropWhile token_unit (rev (take EVIDENCE_CAPTURE_LIMIT txt))))"
proof -
  let ?cut = "take EVIDENCE_CAPTURE_LIMIT txt"
  let ?kept = "rev (dropWhile token_unit (rev ?cut))" and ?gone = "rev (takeWhile token_unit (rev ?cut))"
  have cut: "?cut = ?kept @ ?gone" by (metis rev_append rev_rev_ident takeWhile_dropWhile_id)
  have "txt = ?kept @ ?gone @ drop EVIDENCE_CAPTURE_LIMIT txt" using cut by (metis append.assoc append_take_drop_id)
  moreover have "?kept = [] \<or> \<not> token_unit (last ?kept)"
    using hd_dropWhile [of token_unit "rev ?cut"] by (cases "dropWhile token_unit (rev ?cut) = []") (simp_all add: last_rev)
  moreover have "length ?kept \<le> EVIDENCE_CAPTURE_LIMIT" using arg_cong [OF cut, of length] by simp
  ultimately show ?thesis unfolding clean_prefix_def using assms by (metis append_is_Nil_conv drop_eq_Nil linorder_not_less)
qed

lemma clean_lines:
  assumes "EVIDENCE_CAPTURE_LIMIT < length txt" "10 \<in> set (take EVIDENCE_CAPTURE_LIMIT txt)"
  shows "clean_prefix txt (before_last 10 (take EVIDENCE_CAPTURE_LIMIT txt) @ [10])"
proof -
  let ?cut = "take EVIDENCE_CAPTURE_LIMIT txt"
  obtain r where r: "?cut = before_last 10 ?cut @ 10 # r" using before_last_split [OF assms(2)] by blast
  have "txt = (before_last 10 ?cut @ [10]) @ r @ drop EVIDENCE_CAPTURE_LIMIT txt" using r
    by (metis append.assoc append_Cons append_Nil append_take_drop_id)
  moreover have "length (before_last 10 ?cut @ [10]) \<le> EVIDENCE_CAPTURE_LIMIT" using arg_cong [OF r, of length] assms(1) by simp
  moreover have "r @ drop EVIDENCE_CAPTURE_LIMIT txt \<noteq> []" using assms(1) by simp
  ultimately show ?thesis unfolding clean_prefix_def by (metis last_snoc not_tokens(1))
qed

lemma kept_clean: "EVIDENCE_CAPTURE_LIMIT < length txt \<Longrightarrow> clean_prefix txt (kept_evidence txt)"
  by (simp add: kept_evidence_def Let_def clean_lines clean_strip clean_drop_quote)

text \<open>
  C39: Evidence shows no part of a token. What is kept of a text that is too long is a prefix of it within the limit,
  the cut is never between two units of one token, and the note behind it counts exactly what is missing.
\<close>

theorem evidence_cuts_no_token:
  assumes "EVIDENCE_CAPTURE_LIMIT < length txt"
  shows "\<exists>kept rest. txt = kept @ rest \<and> captureEvidence txt = kept @ 8230 # js ''(+'' @ toString10 (length rest) @ js '' chars)''
    \<and> length kept \<le> EVIDENCE_CAPTURE_LIMIT \<and> (kept = [] \<or> \<not> (token_unit (last kept) \<and> token_unit (hd rest)))"
proof -
  from kept_clean [OF assms] obtain rest where rest: "txt = kept_evidence txt @ rest" "length (kept_evidence txt) \<le> EVIDENCE_CAPTURE_LIMIT"
    "kept_evidence txt = [] \<or> \<not> (token_unit (last (kept_evidence txt)) \<and> token_unit (hd rest))" unfolding clean_prefix_def by blast
  have "length txt - length (kept_evidence txt) = length rest" using arg_cong [OF rest(1), of length] by simp
  with assms have "captureEvidence txt = kept_evidence txt @ 8230 # js ''(+'' @ toString10 (length rest) @ js '' chars)''"
    by (simp add: captureEvidence_def Let_def del: js_simps)
  with rest show ?thesis by blast
qed

lemma evidence_cuts_no_token_witness:
  "\<exists>kept rest. replicate 5000 (97 :: code_unit) = kept @ rest
    \<and> captureEvidence (replicate 5000 97) = kept @ 8230 # js ''(+'' @ toString10 (length rest) @ js '' chars)''
    \<and> length kept \<le> EVIDENCE_CAPTURE_LIMIT \<and> (kept = [] \<or> \<not> (token_unit (last kept) \<and> token_unit (hd rest)))"
  by (rule evidence_cuts_no_token) (simp add: EVIDENCE_CAPTURE_LIMIT_def)

section \<open>An open quote that stays\<close>

lemma count_absent: "q \<notin> set s \<Longrightarrow> count_list s q = 0"
  by (induction s) auto

lemma before_last_unique: "q \<notin> set r \<Longrightarrow> before_last q (s @ q # r) = s"
proof -
  assume "q \<notin> set r"
  then have "dropWhile (\<lambda>c. c \<noteq> q) (rev r @ q # rev s) = q # rev s" by (subst dropWhile_append2) auto
  then show ?thesis by (simp add: before_last_def)
qed

text \<open>
  The beginning of a secret can stay. In a text without line breaks that has a single quote inside double quotes, such as
  \<open>"pass'word" ...\<close>, the double quotes are balanced, so only the single quote is taken for open and dropped with
  what follows; the evidence then ends inside the double quotes, with the first part of the quoted text.
\<close>

theorem open_quote_kept:
  assumes "set first \<inter> {10, 34, 39} = {}" "set second \<inter> {10, 34, 39} = {}" "length first + length second \<le> 3000" "0 < n"
  shows "kept_evidence (34 # first @ 39 # second @ [34, 32] @ replicate (4000 + n) 97) = 34 # first"
proof -
  define s where "s = 34 # first @ 39 # second @ [34, 32 :: code_unit]"
  have len: "length s \<le> 4000" using assms(3) by (simp add: s_def)
  have cut: "take EVIDENCE_CAPTURE_LIMIT (34 # first @ 39 # second @ [34, 32] @ replicate (4000 + n) 97) = s @ replicate (4000 - length s) 97"
    using len by (simp add: s_def EVIDENCE_CAPTURE_LIMIT_def take_Cons' min_def)
  have nl: "10 \<notin> set (s @ replicate (4000 - length s) 97)" using assms(1,2) by (auto simp: s_def)
  have tok: "token_unit 97" "\<not> token_unit 32" by (simp_all add: token_unit_def is_alnum_def is_digit_def one_of_def)
  have "dropWhile token_unit (replicate k 97 @ rev s) = rev s" for k
    using tok by (subst dropWhile_append2) (auto simp: s_def)
  then have strip: "rev (dropWhile token_unit (rev (s @ replicate (4000 - length s) 97))) = s" by simp
  have "count_list s 34 = 2" "count_list s 39 = 1"
    using assms(1,2) count_absent [of 34 first] count_absent [of 34 second] count_absent [of 39 first] count_absent [of 39 second]
    by (auto simp: s_def)
  then have d34: "drop_open_quote 34 s = s" and d39: "drop_open_quote 39 s = before_last 39 s" by (simp_all add: drop_open_quote_def)
  have "before_last 39 s = 34 # first"
    using before_last_unique [of 39 "second @ [34, 32]" "34 # first"] assms(2) by (simp add: s_def)
  then show ?thesis unfolding kept_evidence_def cut Let_def using nl by (simp only: strip d34 d39 if_False)
qed

lemma open_quote_kept_witness:
  "kept_evidence (34 # js ''pass'' @ 39 # js ''word'' @ [34, 32] @ replicate 4001 97) = 34 # js ''pass''"
  using open_quote_kept [of "js ''pass''" "js ''word''" 1] by simp

end
