(* ===== verification/CivilTime.thy ===== *)
theory CivilTime
  imports Js_Prelude
begin

text \<open>
  Calendar and wall clocks of \<open>maker-scheduler/src/engine/cron.ts\<close>. The first section is the part of
  the standard library the source uses: the proleptic Gregorian calendar of ECMA-262 and
  \<open>Date.UTC\<close>. The second section is the source's conversion between instants and wall clocks in
  a time zone; the zone's table of offsets, which \<open>Intl.DateTimeFormat\<close> reads from the host, is a
  parameter. Instants are milliseconds since 1970 in UTC, as in the source.
\<close>

section \<open>The calendar of ECMA-262\<close>

definition leap_year :: "int \<Rightarrow> bool" where
  "leap_year y \<longleftrightarrow> y mod 4 = 0 \<and> y mod 100 \<noteq> 0 \<or> y mod 400 = 0"

text \<open>\<open>DayFromYear\<close>: the number of the first day of a year.\<close>

definition day_from_year :: "int \<Rightarrow> int" where
  "day_from_year y = 365 * (y - 1970) + (y - 1969) div 4 - (y - 1901) div 100 + (y - 1601) div 400"

text \<open>The first day of each month within its year, months counted from \<open>0\<close>.\<close>

definition month_starts :: "bool \<Rightarrow> int list" where
  "month_starts leap = (if leap then [0, 31, 60, 91, 121, 152, 182, 213, 244, 274, 305, 335]
     else [0, 31, 59, 90, 120, 151, 181, 212, 243, 273, 304, 334])"

definition month_length :: "int \<Rightarrow> int \<Rightarrow> int" where
  "month_length y mo = (if mo = 2 then (if leap_year y then 29 else 28)
     else if mo \<in> {4, 6, 9, 11} then 30 else 31)"

text \<open>\<open>MakeDay\<close>: months outside \<open>0..11\<close> carry into the year, days outside the month into the month.\<close>

definition make_day :: "int \<Rightarrow> int \<Rightarrow> int \<Rightarrow> int" where
  "make_day y month day = (let ym = y + month div 12; mn = month mod 12
     in day_from_year ym + month_starts (leap_year ym) ! nat mn + day - 1)"

text \<open>\<open>Date.UTC\<close>: a year of two digits is one of the twentieth century.\<close>

definition Date_UTC :: "int \<Rightarrow> int \<Rightarrow> int \<Rightarrow> int \<Rightarrow> int \<Rightarrow> int \<Rightarrow> int" where
  "Date_UTC y month day h mi s =
     (make_day (if 0 \<le> y \<and> y \<le> 99 then 1900 + y else y) month day * 86400 + h * 3600 + mi * 60 + s) * 1000"

text \<open>\<open>YearFromTime\<close>, \<open>MonthFromTime\<close> and \<open>DateFromTime\<close> of the day \<open>n\<close>.\<close>

definition year_of_day :: "int \<Rightarrow> int" where
  "year_of_day n = (let y = 1970 + 400 * n div 146097
     in if n < day_from_year y then y - 1 else if day_from_year (y + 1) \<le> n then y + 1 else y)"

definition civil_of_day :: "int \<Rightarrow> int \<times> int \<times> int" where
  "civil_of_day n = (let y = year_of_day n; k = n - day_from_year y; ss = month_starts (leap_year y);
       mo = length (takeWhile (\<lambda>s. s \<le> k) ss)
     in (y, int mo, k - ss ! (mo - 1) + 1))"

definition valid_date :: "int \<Rightarrow> int \<Rightarrow> int \<Rightarrow> bool" where
  "valid_date y mo d \<longleftrightarrow> 1 \<le> mo \<and> mo \<le> 12 \<and> 1 \<le> d \<and> d \<le> month_length y mo"

text \<open>The day of a date whose month is counted from \<open>1\<close>.\<close>

abbreviation day_of :: "int \<Rightarrow> int \<Rightarrow> int \<Rightarrow> int" where
  "day_of y mo d \<equiv> make_day y (mo - 1) d"

lemma div_bounds: "0 < m \<Longrightarrow> m * (k div m) \<le> k \<and> k < m * (k div m) + (m :: int)"
  using mult_div_mod_eq [of m k] pos_mod_bound [of m k] pos_mod_sign [of m k] by linarith

lemma div_bounds_unique:
  assumes "m * q \<le> k" "k < m * q + (m :: int)"
  shows "k div m = q"
proof (rule int_div_pos_eq)
  show "k = m * q + (k - m * q)" by simp
qed (use assms in auto)

lemma div_step:
  assumes "0 < m"
  shows "(k + 1) div m = k div m + (if (k + 1) mod m = 0 then 1 else (0 :: int))"
proof (cases "(k + 1) mod m = 0")
  case True
  then have "m * ((k + 1) div m) = k + 1" using mult_div_mod_eq [of m "k + 1"] by simp
  then have "k div m = (k + 1) div m - 1"
    by (intro div_bounds_unique) (use assms in \<open>auto simp: algebra_simps\<close>)
  with True show ?thesis by simp
next
  case False
  with assms have "0 < (k + 1) mod m" by (simp add: order_less_le)
  then have "m * ((k + 1) div m) \<le> k" using mult_div_mod_eq [of m "k + 1"] by linarith
  moreover have "k < m * ((k + 1) div m) + m" using div_bounds [OF assms, of "k + 1"] by linarith
  ultimately show ?thesis using False div_bounds_unique by simp
qed

lemma mod_diff_multiple: "(y - k * m) mod m = y mod (m :: int)"
  using mod_mult_self1 [of y "- k" m] by simp

lemma day_from_year_Suc:
  "day_from_year (y + 1) = day_from_year y + (if leap_year y then 366 else 365)"
proof -
  have a: "(y + 1 - 1969) div 4 = (y - 1969) div 4 + (if y mod 4 = 0 then 1 else 0)"
    using div_step [of 4 "y - 1969"] mod_diff_multiple [of y 492 4] by simp
  have b: "(y + 1 - 1901) div 100 = (y - 1901) div 100 + (if y mod 100 = 0 then 1 else 0)"
    using div_step [of 100 "y - 1901"] mod_diff_multiple [of y 19 100] by simp
  have c: "(y + 1 - 1601) div 400 = (y - 1601) div 400 + (if y mod 400 = 0 then 1 else 0)"
    using div_step [of 400 "y - 1601"] mod_diff_multiple [of y 4 400] by simp
  have d: "y mod 100 = 0 \<longrightarrow> y mod 4 = 0" "y mod 400 = 0 \<longrightarrow> y mod 100 = 0"
    by (auto simp: mod_0_imp_dvd dvd_imp_mod_0 intro: dvd_trans [of 4 100 y] dvd_trans [of 100 400 y])
  have f: "(if leap_year y then 366 else 365)
    = (365 :: int) + (if y mod 4 = 0 then 1 else 0) - (if y mod 100 = 0 then 1 else 0) + (if y mod 400 = 0 then 1 else 0)"
    unfolding leap_year_def using d
    by (cases "y mod 4 = 0"; cases "y mod 100 = 0"; cases "y mod 400 = 0") simp_all
  show ?thesis
    unfolding f day_from_year_def a b c by (simp add: algebra_simps)
qed

lemma day_from_year_strict_mono: "y < y' \<Longrightarrow> day_from_year (y + 1) \<le> day_from_year y'"
proof (induction "nat (y' - y - 1)" arbitrary: y')
  case 0
  then have "y' = y + 1" by simp
  then show ?case by simp
next
  case (Suc k)
  then have "k = nat (y' - 1 - y - 1)" "y < y' - 1" by simp_all
  from Suc.hyps(1) [OF this] have "day_from_year (y + 1) \<le> day_from_year (y' - 1)" .
  also have "\<dots> \<le> day_from_year (y' - 1 + 1)"
    using day_from_year_Suc [of "y' - 1"] by (simp split: if_splits)
  finally show ?case by simp
qed

lemma year_of_day_unique:
  assumes "day_from_year y \<le> n" "n < day_from_year (y + 1)" "day_from_year y' \<le> n" "n < day_from_year (y' + 1)"
  shows "y = y'"
proof (rule ccontr)
  assume "y \<noteq> y'"
  then consider "y < y'" | "y' < y" by linarith
  then show False
    using day_from_year_strict_mono [of y y'] day_from_year_strict_mono [of y' y] assms by cases auto
qed

lemma year_of_day: "day_from_year (year_of_day n) \<le> n \<and> n < day_from_year (year_of_day n + 1)"
proof -
  define q where "q = 400 * n div 146097"
  have q: "146097 * q \<le> 400 * n" "400 * n < 146097 * q + 146097"
    using div_bounds [of 146097 "400 * n"] unfolding q_def by simp_all
  have b: "400 * day_from_year y \<le> 146097 * (y - 1970) + 800 \<and> 146097 * (y - 1970) - 800 \<le> 400 * day_from_year y" for y
  proof -
    define u v w where "u = (y - 1969) div 4" and "v = (y - 1901) div 100" and "w = (y - 1601) div 400"
    have "4 * u \<le> y - 1969" "y - 1969 \<le> 4 * u + 3" "100 * v \<le> y - 1901" "y - 1901 \<le> 100 * v + 99"
      "400 * w \<le> y - 1601" "y - 1601 \<le> 400 * w + 399"
      using div_bounds [of 4 "y - 1969"] div_bounds [of 100 "y - 1901"] div_bounds [of 400 "y - 1601"]
      unfolding u_def v_def w_def by simp_all
    then show ?thesis
      unfolding day_from_year_def u_def [symmetric] v_def [symmetric] w_def [symmetric] by (simp add: algebra_simps)
  qed
  define y where "y = 1970 + q"
  have "day_from_year (y - 1) \<le> n"
    using q b [of "y - 1", THEN conjunct1] unfolding y_def by simp
  moreover have "n < day_from_year (y + 1 + 1)"
    using q b [of "y + 1 + 1", THEN conjunct2] unfolding y_def by simp
  ultimately show ?thesis
    unfolding year_of_day_def q_def [symmetric] y_def [symmetric] Let_def by auto
qed

lemma year_of_day_eq: "day_from_year y \<le> n \<Longrightarrow> n < day_from_year (y + 1) \<Longrightarrow> year_of_day n = y"
  using year_of_day year_of_day_unique by blast

subsection \<open>Days and dates\<close>

lemma month_starts_nth_mono:
  "i < j \<Longrightarrow> j < 12 \<Longrightarrow> month_starts l ! i + 28 \<le> month_starts l ! j"
  by (auto simp: month_starts_def less_Suc_eq numeral_nat nth_Cons')

lemma length_month_starts [simp]: "length (month_starts l) = 12"
  by (simp add: month_starts_def)

lemma month_cases:
  assumes "1 \<le> (mo :: int)" "mo \<le> 12"
  obtains "mo = 1" | "mo = 2" | "mo = 3" | "mo = 4" | "mo = 5" | "mo = 6" | "mo = 7" | "mo = 8"
    | "mo = 9" | "mo = 10" | "mo = 11" | "mo = 12"
proof -
  have "mo \<in> set [1..12]" using assms by simp
  then show ?thesis using that by (auto simp: upto.simps)
qed

lemma month_length_bounds: "28 \<le> month_length y mo \<and> month_length y mo \<le> 31"
  by (simp add: month_length_def)

text \<open>The end of a month is the start of the next, or the end of the year.\<close>

lemma month_starts_step:
  assumes "1 \<le> mo" "mo < 12"
  shows "month_starts (leap_year y) ! nat mo = month_starts (leap_year y) ! nat (mo - 1) + month_length y mo"
proof -
  have "mo \<le> 12" using assms(2) by simp
  with assms(1) show ?thesis
    using assms(2) by (cases rule: month_cases) (simp_all add: month_starts_def month_length_def numeral_nat)
qed

lemma month_starts_last:
  "month_starts (leap_year y) ! 11 + month_length y 12 = (if leap_year y then 366 else 365)"
  by (simp add: month_starts_def month_length_def)

lemma day_of_month: "1 \<le> mo \<Longrightarrow> mo \<le> 12 \<Longrightarrow>
    day_of y mo d = day_from_year y + month_starts (leap_year y) ! nat (mo - 1) + d - 1"
  by (simp add: make_day_def Let_def div_pos_pos_trivial mod_pos_pos_trivial)

lemma month_starts_bounds:
  assumes "1 \<le> mo" "mo \<le> 12"
  shows "0 \<le> month_starts (leap_year y) ! nat (mo - 1)"
    and "month_starts (leap_year y) ! nat (mo - 1) + month_length y mo \<le> (if leap_year y then 366 else 365)"
  using assms by (cases rule: month_cases, simp_all add: month_starts_def month_length_def numeral_nat)+

lemma day_of_in_year:
  assumes "valid_date y mo d"
  shows "day_from_year y \<le> day_of y mo d \<and> day_of y mo d < day_from_year (y + 1)"
  using assms month_starts_bounds [of mo y] by (simp add: valid_date_def day_of_month day_from_year_Suc)

lemma takeWhile_starts:
  assumes "1 \<le> mo" "mo \<le> 12" "0 < d" "d \<le> month_length y mo"
  shows "length (takeWhile (\<lambda>s. s \<le> month_starts (leap_year y) ! nat (mo - 1) + d - 1)
    (month_starts (leap_year y))) = nat mo"
  using assms(1,2)
  by (cases rule: month_cases)
    (use assms(3,4) in \<open>simp_all add: month_starts_def month_length_def numeral_nat split: if_splits\<close>)

text \<open>A date is read back from its day, and every day is the day of one date.\<close>

lemma civil_of_day_of:
  assumes "valid_date y mo d"
  shows "civil_of_day (day_of y mo d) = (y, mo, d)"
proof -
  have y: "year_of_day (day_of y mo d) = y"
    using day_of_in_year [OF assms] year_of_day_eq by blast
  have m: "1 \<le> mo" "mo \<le> 12" "0 < d" "d \<le> month_length y mo"
    using assms by (simp_all add: valid_date_def)
  have k: "day_of y mo d - day_from_year y = month_starts (leap_year y) ! nat (mo - 1) + d - 1"
    using m by (simp add: day_of_month)
  have "nat mo - 1 = nat (mo - 1)" by simp
  then show ?thesis
    unfolding civil_of_day_def Let_def y k takeWhile_starts [OF m] using m(1) by simp
qed

lemma date_exists:
  assumes "0 \<le> k" "k < (if leap_year y then 366 else 365)"
  shows "\<exists>mo d. valid_date y mo d \<and> day_of y mo d = day_from_year y + k"
proof -
  define P where "P mo \<longleftrightarrow> month_starts (leap_year y) ! nat (mo - 1) \<le> k" for mo :: int
  have "\<exists>mo. 1 \<le> mo \<and> mo \<le> 12 \<and> P mo \<and> (mo = 12 \<or> \<not> P (mo + 1))"
  proof (rule ccontr)
    assume n: "\<not> ?thesis"
    have "1 \<le> i \<Longrightarrow> i \<le> 12 \<Longrightarrow> P (int i)" for i :: nat
    proof (induction i)
      case (Suc i)
      show ?case
      proof (cases "i = 0")
        case True
        then show ?thesis using assms(1) by (simp add: P_def month_starts_def)
      next
        case False
        with Suc have "P (int i)" by simp
        with n False Suc.prems show ?thesis by (auto simp: add.commute)
      qed
    qed simp
    from this [of 12] n show False by force
  qed
  then obtain mo where m: "1 \<le> mo" "mo \<le> 12" "P mo" "mo = 12 \<or> \<not> P (mo + 1)" by blast
  have "k < month_starts (leap_year y) ! nat (mo - 1) + month_length y mo"
  proof (cases "mo = 12")
    case True
    then show ?thesis using month_starts_last [of y] assms(2) by simp
  next
    case False
    with m month_starts_step [of mo y] show ?thesis by (simp add: P_def)
  qed
  with m have "valid_date y mo (k - month_starts (leap_year y) ! nat (mo - 1) + 1)"
    by (simp add: valid_date_def P_def)
  with m show ?thesis
    by (intro exI [of _ mo] exI [of _ "k - month_starts (leap_year y) ! nat (mo - 1) + 1"]) (simp add: day_of_month)
qed

lemma day_of_surj:
  obtains y mo d where "valid_date y mo d" "day_of y mo d = n"
proof -
  define y where "y = year_of_day n"
  have "day_from_year y \<le> n" "n < day_from_year (y + 1)"
    using year_of_day [of n] by (simp_all add: y_def)
  then have "\<exists>mo d. valid_date y mo d \<and> day_of y mo d = day_from_year y + (n - day_from_year y)"
    by (intro date_exists) (simp_all add: day_from_year_Suc)
  then show ?thesis using that by auto
qed

lemma day_of_civil:
  assumes "civil_of_day n = (y, mo, d)"
  shows "valid_date y mo d" "day_of y mo d = n"
proof -
  obtain y' mo' d' where *: "valid_date y' mo' d'" "day_of y' mo' d' = n" by (rule day_of_surj)
  with civil_of_day_of [OF *(1)] assms show "valid_date y mo d" "day_of y mo d = n" by simp_all
qed

lemma day_of_less_year:
  assumes "valid_date y mo d" "valid_date y' mo' d'" "y < y'"
  shows "day_of y mo d < day_of y' mo' d'"
  using day_of_in_year [OF assms(1)] day_of_in_year [OF assms(2)] day_from_year_strict_mono [OF assms(3)]
  by linarith

lemma month_starts_less:
  assumes "1 \<le> mo" "mo < mo'" "mo' \<le> 12"
  shows "month_starts (leap_year y) ! nat (mo - 1) + month_length y mo \<le> month_starts (leap_year y) ! nat (mo' - 1)"
proof -
  have "month_starts (leap_year y) ! nat mo \<le> month_starts (leap_year y) ! nat (mo' - 1)"
  proof (cases "mo' = mo + 1")
    case False
    with assms have "nat mo < nat (mo' - 1)" "nat (mo' - 1) < 12" by linarith+
    from month_starts_nth_mono [OF this, of "leap_year y"] show ?thesis by linarith
  qed simp
  with month_starts_step [of mo y] assms show ?thesis by simp
qed

lemma day_of_less_month:
  assumes "valid_date y mo d" "valid_date y mo' d'" "mo < mo'"
  shows "day_of y mo d < day_of y mo' d'"
  using assms month_starts_less [of mo mo' y] by (simp add: valid_date_def day_of_month)

lemma day_of_less_day: "valid_date y mo d \<Longrightarrow> valid_date y mo d' \<Longrightarrow> day_of y mo d < day_of y mo d' \<longleftrightarrow> d < d'"
  by (simp add: valid_date_def day_of_month)

text \<open>Days are ordered as their dates.\<close>

lemma day_of_less_iff:
  assumes "valid_date y mo d" "valid_date y' mo' d'"
  shows "day_of y mo d < day_of y' mo' d' \<longleftrightarrow> y < y' \<or> y = y' \<and> (mo < mo' \<or> mo = mo' \<and> d < d')"
proof -
  consider "y < y'" | "y' < y" | "y = y'" "mo < mo'" | "y = y'" "mo' < mo" | "y = y'" "mo = mo'" by linarith
  then show ?thesis
  proof cases
    case 1 with day_of_less_year [OF assms] show ?thesis by simp
  next
    case 2 with day_of_less_year [OF assms(2,1)] show ?thesis by simp
  next
    case 3 with day_of_less_month [of y mo d mo' d'] assms show ?thesis by simp
  next
    case 4 with day_of_less_month [of y mo' d' mo d] assms show ?thesis by simp
  next
    case 5 with day_of_less_day [of y mo d d'] assms show ?thesis by simp
  qed
qed

section \<open>Wall clocks\<close>

text \<open>
  What the host knows of a time zone: the offset of its clocks from UTC in seconds, by the second
  of the instant, and whether it writes midnight as hour \<open>24\<close>. Time zone names have been resolved
  to this record before; a name the host does not know throws inside \<open>Intl\<close>.
\<close>

record host_zone =
  hz_offset :: "int \<Rightarrow> int"
  hz_midnight24 :: bool

text \<open>\<open>formatToParts\<close> with the options of the source: the numbers and the short weekday.\<close>

record format_parts =
  fp_year :: int
  fp_month :: int
  fp_day :: int
  fp_hour :: int
  fp_minute :: int
  fp_second :: int
  fp_weekday :: string

definition weekday_names :: "string list" where
  "weekday_names = [''Sun'', ''Mon'', ''Tue'', ''Wed'', ''Thu'', ''Fri'', ''Sat'']"

definition formatToParts :: "host_zone \<Rightarrow> int \<Rightarrow> format_parts" where
  "formatToParts z epochMs =
     (let second = epochMs div 1000; local = second + hz_offset z second; day = local div 86400;
          (y, mo, d) = civil_of_day day; h = local mod 86400 div 3600
      in \<lparr>fp_year = y, fp_month = mo, fp_day = d,
          fp_hour = (if h = 0 \<and> hz_midnight24 z then 24 else h),
          fp_minute = local mod 3600 div 60, fp_second = local mod 60,
          fp_weekday = weekday_names ! nat ((day + 4) mod 7)\<rparr>)"

record wall_clock =
  wc_y :: int
  wc_mo :: int
  wc_d :: int
  wc_h :: int
  wc_mi :: int
  wc_s :: int
  wc_dow :: int

definition DOW_MAP :: "string \<Rightarrow> int option" where
  "DOW_MAP = map_of [(''Sun'', 0), (''Mon'', 1), (''Tue'', 2), (''Wed'', 3), (''Thu'', 4), (''Fri'', 5), (''Sat'', 6)]"

definition wallClock :: "int \<Rightarrow> host_zone \<Rightarrow> wall_clock" where
  "wallClock epochMs tz =
     (let p = formatToParts tz epochMs; h = fp_hour p; h = (if h = 24 then 0 else h)
      in \<lparr>wc_y = fp_year p, wc_mo = fp_month p, wc_d = fp_day p, wc_h = h, wc_mi = fp_minute p,
          wc_s = fp_second p, wc_dow = (case DOW_MAP (fp_weekday p) of Some n \<Rightarrow> n | None \<Rightarrow> 0)\<rparr>)"

definition tzOffsetMs :: "int \<Rightarrow> host_zone \<Rightarrow> int" where
  "tzOffsetMs epochMs tz =
     (let w = wallClock epochMs tz;
          wallAsUtc = Date_UTC (wc_y w) (wc_mo w - 1) (wc_d w) (wc_h w) (wc_mi w) (wc_s w);
          epochSec = epochMs div 1000 * 1000
      in wallAsUtc - epochSec)"

definition wallClockEquals :: "int \<Rightarrow> int \<Rightarrow> int \<Rightarrow> int \<Rightarrow> int \<Rightarrow> int \<Rightarrow> host_zone \<Rightarrow> bool" where
  "wallClockEquals epochMs year month day hour minute timeZone =
     (let wall = wallClock epochMs timeZone
      in wc_y wall = year \<and> wc_mo wall = month \<and> wc_d wall = day \<and> wc_h wall = hour \<and> wc_mi wall = minute)"

definition fromWallClock :: "int \<Rightarrow> int \<Rightarrow> int \<Rightarrow> int \<Rightarrow> int \<Rightarrow> host_zone \<Rightarrow> int" where
  "fromWallClock y mo d h mi tz =
     (let guess = Date_UTC y (mo - 1) d h mi 0;
          off1 = tzOffsetMs guess tz;
          candidate = guess - off1;
          off2 = tzOffsetMs candidate tz
      in if off2 = off1 then
           (let offAfter = tzOffsetMs (candidate + 3600000) tz; later = guess - offAfter
            in if offAfter \<noteq> off1 \<and> wallClockEquals later y mo d h mi tz then later else candidate)
         else
           (let corrected = guess - off2
            in if wallClockEquals corrected y mo d h mi tz then corrected else guess - min off1 off2))"

subsection \<open>Clocks at a fixed offset\<close>

text \<open>The clock that shows the local second \<open>l\<close>, counted from 1970.\<close>

definition clock_of :: "int \<Rightarrow> wall_clock" where
  "clock_of l = (let (y, mo, d) = civil_of_day (l div 86400)
     in \<lparr>wc_y = y, wc_mo = mo, wc_d = d, wc_h = l mod 86400 div 3600, wc_mi = l mod 3600 div 60,
         wc_s = l mod 60, wc_dow = (l div 86400 + 4) mod 7\<rparr>)"

lemma DOW_MAP_weekday: "DOW_MAP (weekday_names ! nat (k mod 7)) = Some (k mod 7)"
proof -
  have "k mod 7 \<in> set [0..6]" by auto
  then show ?thesis by (auto simp: upto.simps DOW_MAP_def weekday_names_def numeral_nat)
qed

lemma wallClock_clock_of: "wallClock t tz = clock_of (t div 1000 + hz_offset tz (t div 1000))"
proof -
  define l where "l = t div 1000 + hz_offset tz (t div 1000)"
  obtain y mo d where c: "civil_of_day (l div 86400) = (y, mo, d)" by (cases "civil_of_day (l div 86400)")
  have "l mod 86400 div 3600 < 24"
    using pos_mod_bound [of 86400 l] div_bounds [of 3600 "l mod 86400"] by simp
  then have h: "(let h = if l mod 86400 div 3600 = 0 \<and> b then 24 else l mod 86400 div 3600 in if h = 24 then 0 else h)
      = l mod 86400 div 3600" for b
    by (simp add: Let_def)
  show ?thesis
    unfolding l_def [symmetric] wallClock_def formatToParts_def clock_of_def
    by (simp add: Let_def l_def [symmetric] c h [unfolded Let_def] DOW_MAP_weekday)
qed

lemma clock_of_sel:
  "valid_date (wc_y (clock_of l)) (wc_mo (clock_of l)) (wc_d (clock_of l))"
  "day_of (wc_y (clock_of l)) (wc_mo (clock_of l)) (wc_d (clock_of l)) = l div 86400"
  "wc_h (clock_of l) = l mod 86400 div 3600" "wc_mi (clock_of l) = l mod 3600 div 60"
  "wc_s (clock_of l) = l mod 60" "wc_dow (clock_of l) = (l div 86400 + 4) mod 7"
  using day_of_civil [of "l div 86400"] by (cases "civil_of_day (l div 86400)"; simp add: clock_of_def Let_def)+

lemma clock_of_ranges:
  "0 \<le> wc_h (clock_of l)" "wc_h (clock_of l) < 24" "0 \<le> wc_mi (clock_of l)" "wc_mi (clock_of l) < 60"
  "0 \<le> wc_dow (clock_of l)" "wc_dow (clock_of l) < 7"
  using pos_mod_bound [of 86400 l] pos_mod_sign [of 86400 l] pos_mod_bound [of 3600 l] pos_mod_sign [of 3600 l]
    div_bounds [of 3600 "l mod 86400"] div_bounds [of 60 "l mod 3600"]
  by (simp_all add: clock_of_sel)

text \<open>The local second at which a clock shows a date and a time of day.\<close>

definition local_second :: "int \<Rightarrow> int \<Rightarrow> int \<Rightarrow> int \<Rightarrow> int \<Rightarrow> int \<Rightarrow> int" where
  "local_second y mo d h mi s = day_of y mo d * 86400 + h * 3600 + mi * 60 + s"

lemma local_second_clock_of:
  "local_second (wc_y (clock_of l)) (wc_mo (clock_of l)) (wc_d (clock_of l)) (wc_h (clock_of l))
     (wc_mi (clock_of l)) (wc_s (clock_of l)) = l"
proof -
  have a: "l mod 86400 mod 3600 = l mod 3600" "l mod 3600 mod 60 = l mod 60"
    by (rule mod_mod_cancel, simp)+
  show ?thesis
    unfolding local_second_def clock_of_sel
    using div_mult_mod_eq [of l 86400] div_mult_mod_eq [of "l mod 86400" 3600]
      div_mult_mod_eq [of "l mod 3600" 60] a by linarith
qed

lemma time_of_day_divs:
  fixes h mi s k :: int
  assumes "0 \<le> h" "h < 24" "0 \<le> mi" "mi < 60" "0 \<le> s" "s < 60"
  defines "l \<equiv> k * 86400 + h * 3600 + mi * 60 + s"
  shows "l div 86400 = k" "l mod 86400 div 3600 = h" "l mod 3600 div 60 = mi" "l mod 60 = s"
    "l div 3600 = k * 24 + h"
proof -
  have 1: "l div 86400 = k" by (rule div_bounds_unique) (use assms in auto)
  show "l div 86400 = k" by (rule 1)
  have 2: "l mod 86400 = h * 3600 + mi * 60 + s"
    using minus_div_mult_eq_mod [of l 86400] by (simp add: 1) (simp add: l_def)
  show "l mod 86400 div 3600 = h" unfolding 2 by (rule div_bounds_unique) (use assms in auto)
  show 3: "l div 3600 = k * 24 + h" by (rule div_bounds_unique) (use assms in auto)
  have 4: "l mod 3600 = mi * 60 + s"
    using minus_div_mult_eq_mod [of l 3600] by (simp add: 3) (simp add: l_def)
  show "l mod 3600 div 60 = mi" unfolding 4 by (rule div_bounds_unique) (use assms in auto)
  have 5: "l div 60 = k * 1440 + h * 60 + mi" by (rule div_bounds_unique) (use assms in auto)
  show "l mod 60 = s"
    using minus_div_mult_eq_mod [of l 60] by (simp add: 5) (simp add: l_def)
qed

lemma clock_of_local_second:
  assumes "valid_date y mo d" "0 \<le> h" "h < 24" "0 \<le> mi" "mi < 60" "0 \<le> s" "s < 60"
  shows "clock_of (local_second y mo d h mi s) =
    \<lparr>wc_y = y, wc_mo = mo, wc_d = d, wc_h = h, wc_mi = mi, wc_s = s, wc_dow = (day_of y mo d + 4) mod 7\<rparr>"
  unfolding clock_of_def local_second_def time_of_day_divs [OF assms(2-7)] civil_of_day_of [OF assms(1)]
    Let_def prod.case ..

lemma day_of_1970: "day_from_year 1969 = -365" "day_from_year 1970 = 0"
  by (simp_all add: day_from_year_def)

lemma year_not_short:
  assumes "valid_date y mo d" "-1 \<le> day_of y mo d"
  shows "1969 \<le> y"
proof (rule ccontr)
  assume "\<not> ?thesis"
  then have "day_from_year (y + 1) \<le> -365"
    using day_from_year_strict_mono [of y 1969] day_of_1970 by simp
  with day_of_in_year [OF assms(1)] assms(2) show False by linarith
qed

lemma Date_UTC_local_second:
  assumes "valid_date y mo d" "-1 \<le> day_of y mo d"
  shows "Date_UTC y (mo - 1) d h mi s = local_second y mo d h mi s * 1000"
  using year_not_short [OF assms] by (simp add: Date_UTC_def local_second_def)

text \<open>The computed offset is the offset of the zone, since 1970.\<close>

lemma tzOffsetMs_offset:
  assumes "-86400 \<le> t div 1000 + hz_offset tz (t div 1000)"
  shows "tzOffsetMs t tz = hz_offset tz (t div 1000) * 1000"
proof -
  define l where "l = t div 1000 + hz_offset tz (t div 1000)"
  have "-1 \<le> l div 86400"
    using assms div_bounds [of 86400 l] by (simp add: l_def)
  then have "-1 \<le> day_of (wc_y (clock_of l)) (wc_mo (clock_of l)) (wc_d (clock_of l))"
    by (simp add: clock_of_sel)
  from Date_UTC_local_second [OF clock_of_sel(1) this] show ?thesis
    by (simp add: tzOffsetMs_def wallClock_clock_of l_def [symmetric] Let_def local_second_clock_of)
       (simp add: l_def algebra_simps)
qed

text \<open>
  A stretch of time in which the zone changes no clock: the seconds from \<open>a\<close> to \<open>b\<close>, after 1970,
  all have the offset \<open>c\<close>, which is a number of minutes below sixteen hours (no zone has had
  more).
\<close>

definition steady_between :: "host_zone \<Rightarrow> int \<Rightarrow> int \<Rightarrow> int \<Rightarrow> bool" where
  "steady_between z c a b \<longleftrightarrow> 0 \<le> a \<and> \<bar>c\<bar> < 57600 \<and> c mod 60 = 0
     \<and> (\<forall>s. a \<le> s \<and> s \<le> b \<longrightarrow> hz_offset z s = c)"

definition fixed_zone :: "int \<Rightarrow> host_zone" where
  "fixed_zone c = \<lparr>hz_offset = (\<lambda>_. c), hz_midnight24 = False\<rparr>"

lemma steady_fixed_zone:
  "0 \<le> a \<Longrightarrow> \<bar>c\<bar> < 57600 \<Longrightarrow> c mod 60 = 0 \<Longrightarrow> steady_between (fixed_zone c) c a b"
  by (simp add: steady_between_def fixed_zone_def)

locale steady_zone =
  fixes z :: host_zone and c a b :: int
  assumes since_1970: "0 \<le> a"
    and offset_bound: "\<bar>c\<bar> < 57600"
    and offset_minutes: "c mod 60 = 0"
    and offset_between: "a \<le> s \<Longrightarrow> s \<le> b \<Longrightarrow> hz_offset z s = c"
begin

lemma wall_clock:
  assumes "a \<le> t div 1000" "t div 1000 \<le> b"
  shows "wallClock t z = clock_of (t div 1000 + c)"
  using offset_between [OF assms] by (simp add: wallClock_clock_of)

lemma offset_ms:
  assumes "a \<le> t div 1000" "t div 1000 \<le> b"
  shows "tzOffsetMs t z = c * 1000"
  using tzOffsetMs_offset [of t z] offset_between [OF assms] since_1970 offset_bound assms(1) by simp

text \<open>A wall clock is turned back into the instant that shows it.\<close>

lemma from_wall_clock:
  assumes "valid_date y mo d" and r: "0 \<le> h" "h < 24" "0 \<le> mi" "mi < 60"
    and l: "l = local_second y mo d h mi 0" "a + 86400 \<le> l - c" "l - c + 86400 \<le> b"
  shows "fromWallClock y mo d h mi z = (l - c) * 1000"
proof -
  have "0 \<le> l" using l(2) since_1970 offset_bound by simp
  moreover have d: "l div 86400 = day_of y mo d"
    unfolding l(1) local_second_def using time_of_day_divs(1) [OF r, of 0] by simp
  ultimately have "-1 \<le> day_of y mo d" using div_bounds [of 86400 l] by simp
  from Date_UTC_local_second [OF assms(1) this]
  have g: "Date_UTC y (mo - 1) d h mi 0 = l * 1000" by (simp add: l(1))
  have o: "tzOffsetMs (l * 1000) z = c * 1000" "tzOffsetMs (l * 1000 - c * 1000) z = c * 1000"
    "tzOffsetMs (l * 1000 - c * 1000 + 3600000) z = c * 1000"
  proof -
    have e: "l * 1000 - c * 1000 = (l - c) * 1000" "l * 1000 - c * 1000 + 3600000 = (l - c + 3600) * 1000"
      by (simp_all add: algebra_simps)
    show "tzOffsetMs (l * 1000) z = c * 1000"
      by (rule offset_ms) (use l(2,3) offset_bound in simp_all)
    show "tzOffsetMs (l * 1000 - c * 1000) z = c * 1000" "tzOffsetMs (l * 1000 - c * 1000 + 3600000) z = c * 1000"
      unfolding e by (rule offset_ms; use l(2,3) in simp)+
  qed
  show ?thesis
    unfolding fromWallClock_def Let_def g o by (simp add: algebra_simps)
qed

lemma from_wall_clock_of:
  assumes "l mod 60 = 0" "a + 86400 \<le> l - c" "l - c + 86400 \<le> b"
  shows "fromWallClock (wc_y (clock_of l)) (wc_mo (clock_of l)) (wc_d (clock_of l)) (wc_h (clock_of l)) (wc_mi (clock_of l)) z
    = (l - c) * 1000"
  using assms local_second_clock_of [of l]
  by (intro from_wall_clock clock_of_sel(1) clock_of_ranges) (simp_all add: clock_of_sel(5))

end

lemma steady_zone_iff: "steady_zone z c a b \<longleftrightarrow> steady_between z c a b"
  by (auto simp: steady_zone_def steady_between_def)

interpretation utc: steady_zone "fixed_zone 0" 0 0 b for b
  by (simp add: steady_zone_iff steady_fixed_zone)

text \<open>The clocks of New York in the summer of 2026, between the changes of March 8 and November 1.\<close>

definition new_york_2026 :: host_zone where
  "new_york_2026 = \<lparr>hz_offset = (\<lambda>s. if 1772953200 \<le> s \<and> s < 1793512800 then -14400 else -18000),
     hz_midnight24 = True\<rparr>"

interpretation summer: steady_zone new_york_2026 "-14400" 1772953200 1793512799
  by (simp add: steady_zone_iff steady_between_def new_york_2026_def)

end
