(* ===== verification/CronParse.thy ===== *)
theory CronParse
  imports DictText
begin

text \<open>
  The expressions of \<open>maker-scheduler/src/engine/cron.ts\<close>: five fields, each a list of segments, parsed
  into lists of numbers, and their description in English. The second half gives the grammar of a
  segment as an inductive relation and proves that the parser accepts exactly the grammar and
  returns exactly the numbers it denotes.
\<close>

section \<open>The parser\<close>

record parsed_cron =
  pc_minute :: "int list"
  pc_hour :: "int list"
  pc_dayOfMonth :: "int list"
  pc_month :: "int list"
  pc_dayOfWeek :: "int list"
  pc_domRestricted :: bool
  pc_dowRestricted :: bool
  pc_expr :: jsstring

record field_range =
  fr_min :: int
  fr_max :: int

definition range_minute :: field_range where "range_minute = \<lparr>fr_min = 0, fr_max = 59\<rparr>"
definition range_hour :: field_range where "range_hour = \<lparr>fr_min = 0, fr_max = 23\<rparr>"
definition range_dayOfMonth :: field_range where "range_dayOfMonth = \<lparr>fr_min = 1, fr_max = 31\<rparr>"
definition range_month :: field_range where "range_month = \<lparr>fr_min = 1, fr_max = 12\<rparr>"
definition range_dayOfWeek :: field_range where "range_dayOfWeek = \<lparr>fr_min = 0, fr_max = 6\<rparr>"

lemmas field_ranges = range_minute_def range_hour_def range_dayOfMonth_def range_month_def range_dayOfWeek_def

text \<open>The errors thrown, with what their messages quote.\<close>

datatype cron_error =
    NeedFiveFields jsstring
  | EmptySegment jsstring
  | InvalidStepSyntax jsstring
  | InvalidStep jsstring jsstring
  | InvalidRange jsstring jsstring
  | InvalidValue jsstring jsstring
  | FieldOutOfRange jsstring int int

text \<open>
  \<open>/^\d+$/\<close> and \<open>Number\<close>. A numeral that rounds to infinity is not an integer; below that
  the value is kept exactly, since the code only compares it and steps beyond a range of at most sixty
  numbers.
\<close>

definition is_digit :: "code_unit \<Rightarrow> bool" where
  "is_digit c \<longleftrightarrow> 48 \<le> c \<and> c \<le> 57"

definition decimal_value :: "jsstring \<Rightarrow> int" where
  "decimal_value s = foldl (\<lambda>n c. 10 * n + (uint c - 48)) 0 s"

definition parseDecimalInteger :: "jsstring \<Rightarrow> int option" where
  "parseDecimalInteger s =
     (if s \<noteq> [] \<and> list_all is_digit s \<and> decimal_value s < 2 ^ 1024 - 2 ^ 970 then Some (decimal_value s) else None)"

text \<open>One comma-separated part of a field: first and last number and the step.\<close>

definition segment_step :: "jsstring \<Rightarrow> jsstring option \<Rightarrow> cron_error + int" where
  "segment_step part stepPart = (case stepPart of
     None \<Rightarrow> Inr 1
   | Some sp \<Rightarrow> (case parseDecimalInteger sp of
       Some n \<Rightarrow> if n \<le> 0 then Inl (InvalidStep sp part) else Inr n
     | None \<Rightarrow> Inl (InvalidStep sp part)))"

definition segment_bounds :: "field_range \<Rightarrow> int \<Rightarrow> jsstring \<Rightarrow> jsstring \<Rightarrow> bool \<Rightarrow> cron_error + int \<times> int" where
  "segment_bounds rng effectiveMax part rangePart stepped =
     (if rangePart = js ''*'' then Inr (fr_min rng, fr_max rng)
      else if 45 \<in> set rangePart then
        (case split_on (\<lambda>c. c = 45) rangePart of
           [a, b] \<Rightarrow> (case (parseDecimalInteger a, parseDecimalInteger b) of
               (Some lo, Some hi) \<Rightarrow> if hi < lo then Inl (InvalidRange rangePart part) else Inr (lo, hi)
             | _ \<Rightarrow> Inl (InvalidRange rangePart part))
         | _ \<Rightarrow> Inl (InvalidRange rangePart part))
      else (case parseDecimalInteger rangePart of
          Some v \<Rightarrow> Inr (v, if stepped then effectiveMax else v)
        | None \<Rightarrow> Inl (InvalidValue rangePart part)))"

definition parse_segment :: "field_range \<Rightarrow> int \<Rightarrow> jsstring \<Rightarrow> jsstring \<Rightarrow> cron_error + int \<times> int \<times> int" where
  "parse_segment rng effectiveMax token part =
     (if part = [] then Inl (EmptySegment token)
      else (let segs = split_on (\<lambda>c. c = 47) part
        in if 2 < length segs then Inl (InvalidStepSyntax part)
           else (let rangePart = hd segs; stepPart = (if length segs = 2 then Some (segs ! 1) else None)
             in case segment_step part stepPart of Inl e \<Rightarrow> Inl e
                | Inr step \<Rightarrow> (case segment_bounds rng effectiveMax part rangePart (stepPart \<noteq> None) of Inl e \<Rightarrow> Inl e
                   | Inr (lo, hi) \<Rightarrow>
                       if lo < fr_min rng \<or> effectiveMax < hi
                       then Inl (FieldOutOfRange part (fr_min rng) effectiveMax)
                       else Inr (lo, hi, step)))))"

text \<open>\<open>for (let v = lo; v <= hi; v += step)\<close>; the step is positive.\<close>

function step_values :: "int \<Rightarrow> int \<Rightarrow> int \<Rightarrow> int list" where
  "step_values v hi step = (if v \<le> hi \<and> 0 < step then v # step_values (v + step) hi step else [])"
  by pat_completeness auto
termination
  by (relation "measure (\<lambda>(v, hi, step). nat (hi - v + 1))") auto

declare step_values.simps [simp del]

text \<open>\<open>out.add(v)\<close> of a \<open>Set\<close>, listed in the order of insertion.\<close>

definition set_add :: "'a list \<Rightarrow> 'a \<Rightarrow> 'a list" where
  "set_add out v = (if v \<in> set out then out else out @ [v])"

fun field_loop :: "field_range \<Rightarrow> bool \<Rightarrow> int \<Rightarrow> jsstring \<Rightarrow> int list \<Rightarrow> jsstring list \<Rightarrow> cron_error + int list" where
  "field_loop rng allowDowSeven effectiveMax token out [] = Inr out"
| "field_loop rng allowDowSeven effectiveMax token out (part # parts) =
     (case parse_segment rng effectiveMax token part of Inl e \<Rightarrow> Inl e
      | Inr (lo, hi, step) \<Rightarrow>
          field_loop rng allowDowSeven effectiveMax token
            (foldl (\<lambda>out v. set_add out (if allowDowSeven \<and> v = 7 then 0 else v)) out (step_values lo hi step)) parts)"

definition parseField :: "jsstring \<Rightarrow> field_range \<Rightarrow> bool \<Rightarrow> cron_error + int list" where
  "parseField token rng allowDowSeven =
     (let effectiveMax = (if allowDowSeven then 7 else fr_max rng)
      in case field_loop rng allowDowSeven effectiveMax token [] (split_on (\<lambda>c. c = 44) token) of
           Inl e \<Rightarrow> Inl e
         | Inr out \<Rightarrow> Inr (sort out))"

text \<open>\<open>s.split(/\s+/)\<close>.\<close>

function split_space_runs :: "jsstring \<Rightarrow> jsstring list" where
  "split_space_runs [] = [[]]"
| "split_space_runs (c # s) =
     (if is_space c then [] # split_space_runs (dropWhile is_space s)
      else (case split_space_runs s of [] \<Rightarrow> [[c]] | w # ws \<Rightarrow> (c # w) # ws))"
  by pat_completeness auto
termination
  by (relation "measure length") (auto simp: length_dropWhile_le le_imp_less_Suc)

text \<open>The day of week is parsed first, then the other fields from left to right.\<close>

definition parseCron :: "jsstring \<Rightarrow> cron_error + parsed_cron" where
  "parseCron expr =
     (let trimmed = trim expr; parts = split_space_runs trimmed
      in case parts of
        [mi, h, day, mo, dow] \<Rightarrow>
          (case parseField dow range_dayOfWeek True of Inl e \<Rightarrow> Inl e | Inr dowField \<Rightarrow>
          (case parseField mi range_minute False of Inl e \<Rightarrow> Inl e | Inr minute \<Rightarrow>
          (case parseField h range_hour False of Inl e \<Rightarrow> Inl e | Inr hour \<Rightarrow>
          (case parseField day range_dayOfMonth False of Inl e \<Rightarrow> Inl e | Inr dayOfMonth \<Rightarrow>
          (case parseField mo range_month False of Inl e \<Rightarrow> Inl e | Inr month \<Rightarrow>
             Inr \<lparr>pc_minute = minute, pc_hour = hour, pc_dayOfMonth = dayOfMonth, pc_month = month,
               pc_dayOfWeek = dowField, pc_domRestricted = (day \<noteq> js ''*''), pc_dowRestricted = (dow \<noteq> js ''*''),
               pc_expr = trimmed\<rparr>)))))
      | _ \<Rightarrow> Inl (NeedFiveFields expr))"

section \<open>The grammar\<close>

lemma split_on_join: "join_with k (split_on (\<lambda>c. c = k) s) = s"
proof (induction s)
  case (Cons c s)
  obtain w ws where w: "split_on (\<lambda>c. c = k) s = w # ws" by (cases "split_on (\<lambda>c. c = k) s") auto
  with Cons.IH have "join_with k (w # ws) = s" by simp
  with w show ?case by (cases ws) auto
qed simp

lemma split_on_parts: "w \<in> set (split_on (\<lambda>c. c = k) s) \<Longrightarrow> k \<notin> set w"
proof (induction s arbitrary: w)
  case (Cons c s)
  obtain v vs where v: "split_on (\<lambda>c. c = k) s = v # vs" by (cases "split_on (\<lambda>c. c = k) s") auto
  from Cons.IH [of v] Cons.IH [of w] Cons.prems show ?case by (auto simp: v split: if_splits)
qed simp

lemma split_on_step: "k \<notin> set a \<Longrightarrow> split_on (\<lambda>c. c = k) (a @ k # b) = a # split_on (\<lambda>c. c = k) b"
  by (induction a) auto

lemma split_on_none: "k \<notin> set a \<Longrightarrow> split_on (\<lambda>c. c = k) a = [a]"
  by (rule split_on_no) auto

lemma split_on_two:
  "split_on (\<lambda>c. c = k) s = [x, y] \<longleftrightarrow> s = x @ k # y \<and> k \<notin> set x \<and> k \<notin> set y"
proof
  assume "split_on (\<lambda>c. c = k) s = [x, y]"
  then show "s = x @ k # y \<and> k \<notin> set x \<and> k \<notin> set y"
    using split_on_join [of k s] split_on_parts [of x k s] split_on_parts [of y k s] by simp
qed (auto simp: split_on_step split_on_none)

lemma split_on_one: "split_on (\<lambda>c. c = k) s = [x] \<longleftrightarrow> s = x \<and> k \<notin> set x"
  using split_on_join [of k s] split_on_parts [of x k s] split_on_none [of k s] by auto

text \<open>A numeral is a run of digits; it contains none of the signs of the grammar.\<close>

lemma parseDecimalInteger_digits: "parseDecimalInteger t = Some n \<Longrightarrow> t \<noteq> [] \<and> (\<forall>c \<in> set t. 48 \<le> c \<and> c \<le> 57)"
  by (auto simp: parseDecimalInteger_def list_all_iff is_digit_def split: if_splits)

lemma numeral_no_sign:
  assumes "parseDecimalInteger t = Some n"
  shows "t \<noteq> []" "42 \<notin> set t" "44 \<notin> set t" "45 \<notin> set t" "47 \<notin> set t"
  using parseDecimalInteger_digits [OF assms] by (auto dest!: bspec simp: word_le_nat_alt)

inductive cron_range :: "field_range \<Rightarrow> int \<Rightarrow> jsstring \<Rightarrow> bool \<Rightarrow> int \<Rightarrow> int \<Rightarrow> bool" for r em where
  Star: "cron_range r em (js ''*'') stepped (fr_min r) (fr_max r)"
| Value: "parseDecimalInteger t = Some v \<Longrightarrow> cron_range r em t False v v"
| Onwards: "parseDecimalInteger t = Some v \<Longrightarrow> cron_range r em t True v em"
| Between: "parseDecimalInteger t = Some x \<Longrightarrow> parseDecimalInteger u = Some y \<Longrightarrow> x \<le> y
    \<Longrightarrow> cron_range r em (t @ 45 # u) stepped x y"

inductive cron_segment :: "field_range \<Rightarrow> int \<Rightarrow> jsstring \<Rightarrow> int \<Rightarrow> int \<Rightarrow> int \<Rightarrow> bool" for r em where
  Plain: "cron_range r em p False lo hi \<Longrightarrow> fr_min r \<le> lo \<Longrightarrow> hi \<le> em \<Longrightarrow> cron_segment r em p lo hi 1"
| Stepped: "cron_range r em p True lo hi \<Longrightarrow> parseDecimalInteger u = Some n \<Longrightarrow> 0 < n
    \<Longrightarrow> fr_min r \<le> lo \<Longrightarrow> hi \<le> em \<Longrightarrow> cron_segment r em (p @ 47 # u) lo hi n"

inductive_cases cron_segmentE: "cron_segment r em p lo hi st"

lemma segment_bounds_iff:
  "segment_bounds r em part p stepped = Inr (lo, hi) \<longleftrightarrow> cron_range r em p stepped lo hi"
proof
  assume *: "segment_bounds r em part p stepped = Inr (lo, hi)"
  show "cron_range r em p stepped lo hi"
  proof (cases "p = js ''*''")
    case True
    with * show ?thesis using cron_range.Star [of r em stepped] by (auto simp: segment_bounds_def)
  next
    case star: False
    show ?thesis
    proof (cases "45 \<in> set p")
      case True
      with * star obtain a b where ab: "split_on (\<lambda>c. c = 45) p = [a, b]"
        and n: "parseDecimalInteger a = Some lo" "parseDecimalInteger b = Some hi" "lo \<le> hi"
        by (auto simp: segment_bounds_def split: list.splits option.splits if_splits)
      with split_on_two [of 45 p a b] show ?thesis by (auto intro: Between)
    next
      case False
      with * star show ?thesis
        by (cases stepped) (auto simp: segment_bounds_def intro: Value Onwards split: option.splits)
    qed
  qed
next
  assume "cron_range r em p stepped lo hi"
  then show "segment_bounds r em part p stepped = Inr (lo, hi)"
  proof cases
    case Star
    then show ?thesis by (simp add: segment_bounds_def)
  next
    case Value
    from numeral_no_sign [OF Value(3)] have "p \<noteq> js ''*''" "45 \<notin> set p" by auto
    with Value show ?thesis by (simp add: segment_bounds_def)
  next
    case Onwards
    from numeral_no_sign [OF Onwards(3)] have "p \<noteq> js ''*''" "45 \<notin> set p" by auto
    with Onwards show ?thesis by (simp add: segment_bounds_def)
  next
    case (Between t u)
    have "p \<noteq> js ''*''" using numeral_no_sign [OF Between(2)] Between(1) by (auto simp: append_eq_Cons_conv)
    with Between numeral_no_sign [OF Between(2)] numeral_no_sign [OF Between(3)] show ?thesis
      by (simp add: segment_bounds_def split_on_two [THEN iffD2])
  qed
qed

lemma segment_step_iff: "segment_step part sp = Inr n \<longleftrightarrow>
    (case sp of None \<Rightarrow> n = 1 | Some u \<Rightarrow> parseDecimalInteger u = Some n \<and> 0 < n)"
  by (auto simp: segment_step_def split: option.splits)

lemma cron_range_no_slash:
  assumes "cron_range r em p stepped lo hi"
  shows "47 \<notin> set p" "p \<noteq> []"
  using assms by (cases; auto dest: numeral_no_sign)+

lemma parse_segment_iff: "parse_segment r em token p = Inr (lo, hi, st) \<longleftrightarrow> cron_segment r em p lo hi st"
proof
  assume *: "parse_segment r em token p = Inr (lo, hi, st)"
  then have p: "p \<noteq> []" "length (split_on (\<lambda>c. c = 47) p) \<le> 2"
    by (auto simp: parse_segment_def Let_def split: if_splits)
  show "cron_segment r em p lo hi st"
  proof (cases "split_on (\<lambda>c. c = 47) p")
    case Nil
    then show ?thesis by simp
  next
    case (Cons x xs)
    show ?thesis
    proof (cases xs)
      case Nil
      with Cons have "x = p" using split_on_one by metis
      with * p Cons Nil show ?thesis
        by (auto simp: parse_segment_def segment_step_iff segment_bounds_iff not_less intro: cron_segment.Plain
            split: sum.splits if_splits)
    next
      case (Cons y ys)
      with \<open>split_on (\<lambda>c. c = 47) p = x # xs\<close> p have xy: "split_on (\<lambda>c. c = 47) p = [x, y]" by simp
      then have "p = x @ 47 # y" using split_on_two by metis
      with * p xy show ?thesis
        by (auto simp: parse_segment_def Let_def segment_step_iff segment_bounds_iff not_less intro: cron_segment.Stepped
            split: sum.splits if_splits)
    qed
  qed
next
  assume "cron_segment r em p lo hi st"
  then show "parse_segment r em token p = Inr (lo, hi, st)"
  proof cases
    case Plain
    from cron_range_no_slash [OF Plain(2)] Plain show ?thesis
      by (simp add: parse_segment_def split_on_none segment_step_iff [THEN iffD2] segment_bounds_iff [THEN iffD2])
  next
    case (Stepped q u)
    have "split_on (\<lambda>c. c = 47) p = [q, u]"
      using Stepped cron_range_no_slash [OF Stepped(2)] numeral_no_sign [OF Stepped(3)] split_on_two by metis
    with Stepped show ?thesis
      by (simp add: parse_segment_def segment_step_iff [THEN iffD2] segment_bounds_iff [THEN iffD2])
  qed
qed

section \<open>The numbers of a field\<close>

text \<open>What a segment denotes: every \<open>st\<close>-th number from \<open>lo\<close> to \<open>hi\<close>.\<close>

definition segment_numbers :: "int \<times> int \<times> int \<Rightarrow> int set" where
  "segment_numbers seg = (case seg of (lo, hi, st) \<Rightarrow> {v. lo \<le> v \<and> v \<le> hi \<and> st dvd v - lo})"

definition sunday_alias :: "bool \<Rightarrow> int \<Rightarrow> int" where
  "sunday_alias allowDowSeven v = (if allowDowSeven \<and> v = 7 then 0 else v)"

definition effective_max :: "field_range \<Rightarrow> bool \<Rightarrow> int" where
  "effective_max r allowDowSeven = (if allowDowSeven then 7 else fr_max r)"

definition is_segment :: "field_range \<Rightarrow> bool \<Rightarrow> jsstring \<Rightarrow> int \<times> int \<times> int \<Rightarrow> bool" where
  "is_segment r al p seg \<longleftrightarrow> (case seg of (lo, hi, st) \<Rightarrow> cron_segment r (effective_max r al) p lo hi st)"

lemma set_step_values: "0 < st \<Longrightarrow> set (step_values lo hi st) = segment_numbers (lo, hi, st)"
proof (induction lo hi st rule: step_values.induct)
  case (1 v hi st)
  have ge: "v + st \<le> w" if "v \<le> w" "st dvd w - v" "w \<noteq> v" for w
    using that zdvd_imp_le [of st "w - v"] by simp
  have dvd: "st dvd w - (v + st) \<longleftrightarrow> st dvd w - v" for w
    using dvd_add_triv_right_iff [of st "w - (v + st)"] by (simp add: algebra_simps)
  show ?case
  proof (cases "v \<le> hi")
    case True
    have "w \<in> segment_numbers (v, hi, st) \<longleftrightarrow> w \<in> insert v (segment_numbers (v + st, hi, st))" for w
      using ge [of w] "1.prems" True by (cases "w = v") (auto simp: segment_numbers_def dvd)
    moreover have "set (step_values (v + st) hi st) = segment_numbers (v + st, hi, st)"
      using True 1 by simp
    ultimately show ?thesis
      using True "1.prems" by (auto simp: step_values.simps [of v])
  qed (simp add: step_values.simps [of v] segment_numbers_def)
qed

lemma cron_segment_step_pos: "cron_segment r em p lo hi st \<Longrightarrow> 0 < st"
  by (auto elim: cron_segmentE)

lemma set_foldl_add: "set (foldl (\<lambda>out v. set_add out (f v)) out vs) = set out \<union> f ` set vs"
  by (induction vs arbitrary: out) (auto simp: set_add_def)

lemma distinct_foldl_add: "distinct out \<Longrightarrow> distinct (foldl (\<lambda>out v. set_add out (f v)) out vs)"
  by (induction vs arbitrary: out) (auto simp: set_add_def)

definition add_numbers :: "(int \<Rightarrow> int) \<Rightarrow> int list \<Rightarrow> int \<times> int \<times> int \<Rightarrow> int list" where
  "add_numbers f out seg = (case seg of (lo, hi, st) \<Rightarrow> foldl (\<lambda>out v. set_add out (f v)) out (step_values lo hi st))"

lemma set_add_numbers: "0 < snd (snd seg) \<Longrightarrow> set (add_numbers f out seg) = set out \<union> f ` segment_numbers seg"
  by (cases seg) (simp add: add_numbers_def set_foldl_add set_step_values)

lemma distinct_add_numbers: "distinct out \<Longrightarrow> distinct (add_numbers f out seg)"
  by (cases seg) (simp add: add_numbers_def distinct_foldl_add)

lemma fold_add_numbers:
  "\<forall>seg \<in> set segs. 0 < snd (snd seg) \<Longrightarrow>
     set (foldl (add_numbers f) out segs) = set out \<union> f ` (\<Union>(segment_numbers ` set segs))"
  by (induction segs arbitrary: out) (auto simp: set_add_numbers)

lemma distinct_fold_add_numbers: "distinct out \<Longrightarrow> distinct (foldl (add_numbers f) out segs)"
  by (induction segs arbitrary: out) (auto simp: distinct_add_numbers)

lemma is_segment_step: "is_segment r al p seg \<Longrightarrow> 0 < snd (snd seg)"
  by (cases seg) (auto simp: is_segment_def dest: cron_segment_step_pos)

lemma is_segment_unique:
  assumes "parse_segment r (effective_max r al) token p = Inr t"
  shows "is_segment r al p seg \<longleftrightarrow> seg = t"
proof -
  obtain lo hi st where t: "t = (lo, hi, st)" by (cases t)
  obtain a b d where s: "seg = (a, b, d)" by (cases seg)
  show ?thesis
    using parse_segment_iff [of r "effective_max r al" token p a b d] assms by (auto simp: s t is_segment_def)
qed

lemma list_all2_right: "list_all2 P xs ys \<Longrightarrow> y \<in> set ys \<Longrightarrow> \<exists>x \<in> set xs. P x y"
  by (induction rule: list_all2_induct) auto

lemma field_loop_spec:
  "field_loop r al (effective_max r al) token out parts = Inr ns \<longleftrightarrow>
     (\<exists>segs. list_all2 (is_segment r al) parts segs \<and> ns = foldl (add_numbers (sunday_alias al)) out segs)"
proof (induction parts arbitrary: out)
  case (Cons p parts)
  show ?case
  proof (cases "parse_segment r (effective_max r al) token p")
    case (Inl e)
    then have "\<not> is_segment r al p seg" for seg
      using parse_segment_iff [of r "effective_max r al" token p] by (cases seg) (auto simp: is_segment_def)
    with Inl show ?thesis by (auto simp: list_all2_Cons1)
  next
    case (Inr t)
    obtain lo hi st where t: "t = (lo, hi, st)" by (cases t)
    have first: "field_loop r al (effective_max r al) token out (p # parts)
        = field_loop r al (effective_max r al) token (add_numbers (sunday_alias al) out t) parts"
      by (simp add: Inr t add_numbers_def sunday_alias_def)
    have one_point: "(\<exists>segs. (\<exists>u us. segs = u # us \<and> u = t \<and> P us) \<and> Q segs) \<longleftrightarrow> (\<exists>us. P us \<and> Q (t # us))" for P Q
      by blast
    show ?thesis
      unfolding first Cons.IH [of "add_numbers (sunday_alias al) out t"] list_all2_Cons1 is_segment_unique [OF Inr]
        one_point foldl_Cons ..
  qed
qed auto

lemma sort_fold_add_numbers:
  assumes "list_all2 (is_segment r al) parts segs"
  shows "sort (foldl (add_numbers f) [] segs) = sorted_list_of_set (f ` (\<Union>(segment_numbers ` set segs)))"
proof -
  have "\<forall>seg \<in> set segs. 0 < snd (snd seg)"
    using assms is_segment_step by (blast dest: list_all2_right)
  from fold_add_numbers [OF this, of f "[]"]
  have "sorted_list_of_set (f ` (\<Union>(segment_numbers ` set segs))) = sorted_list_of_set (set (foldl (add_numbers f) [] segs))"
    by simp
  also have "\<dots> = sort (foldl (add_numbers f) [] segs)"
    using distinct_fold_add_numbers [of "[]" f segs]
    by (simp add: sorted_list_of_set_sort_remdups distinct_remdups_id)
  finally show ?thesis by simp
qed

lemma parseField_iff:
  "parseField token r al = Inr ns \<longleftrightarrow>
     (\<exists>segs. list_all2 (is_segment r al) (split_on (\<lambda>c. c = 44) token) segs
        \<and> ns = sorted_list_of_set (sunday_alias al ` (\<Union>(segment_numbers ` set segs))))"
proof (cases "field_loop r al (effective_max r al) token [] (split_on (\<lambda>c. c = 44) token)")
  case (Inl e)
  then have "\<nexists>segs. list_all2 (is_segment r al) (split_on (\<lambda>c. c = 44) token) segs"
    using field_loop_spec [of r al token "[]" "split_on (\<lambda>c. c = 44) token"] by auto
  with Inl show ?thesis by (simp add: parseField_def effective_max_def [symmetric])
next
  case (Inr out)
  then obtain segs where l: "list_all2 (is_segment r al) (split_on (\<lambda>c. c = 44) token) segs"
    and out: "out = foldl (add_numbers (sunday_alias al)) [] segs"
    using field_loop_spec by blast
  have "segs' = segs" if "list_all2 (is_segment r al) (split_on (\<lambda>c. c = 44) token) segs'" for segs'
  proof (rule nth_equalityI)
    show "length segs' = length segs" using that l by (simp add: list_all2_conv_all_nth)
    fix i assume i: "i < length segs'"
    obtain lo hi st where s: "segs ! i = (lo, hi, st)" by (cases "segs ! i")
    have "is_segment r al (split_on (\<lambda>c. c = 44) token ! i) (segs ! i)"
      and *: "is_segment r al (split_on (\<lambda>c. c = 44) token ! i) (segs' ! i)"
      using that l i by (auto simp: list_all2_conv_all_nth)
    then have "parse_segment r (effective_max r al) [] (split_on (\<lambda>c. c = 44) token ! i) = Inr (segs ! i)"
      by (simp add: s is_segment_def parse_segment_iff)
    from is_segment_unique [OF this] * show "segs' ! i = segs ! i" by blast
  qed
  then have "(\<exists>segs'. list_all2 (is_segment r al) (split_on (\<lambda>c. c = 44) token) segs'
      \<and> ns = sorted_list_of_set (sunday_alias al ` (\<Union>(segment_numbers ` set segs'))))
    \<longleftrightarrow> ns = sort out"
    unfolding out sort_fold_add_numbers [OF l] using l by blast
  moreover have "parseField token r al = Inr ns \<longleftrightarrow> ns = sort out"
    using Inr by (auto simp: parseField_def effective_max_def [symmetric])
  ultimately show ?thesis by blast
qed

lemma parseField_range:
  assumes "parseField token r al = Inr ns" "al \<longrightarrow> r = range_dayOfWeek"
  shows "sorted ns" "distinct ns" "\<forall>n \<in> set ns. fr_min r \<le> n \<and> n \<le> fr_max r"
proof -
  obtain segs where l: "list_all2 (is_segment r al) (split_on (\<lambda>c. c = 44) token) segs"
    and ns: "ns = sorted_list_of_set (sunday_alias al ` (\<Union>(segment_numbers ` set segs)))"
    using assms(1) parseField_iff by blast
  show "sorted ns" "distinct ns" by (simp_all add: ns)
  have seg: "fr_min r \<le> lo \<and> hi \<le> effective_max r al" if m: "(lo, hi, st) \<in> set segs" for lo hi st
  proof -
    obtain p where "is_segment r al p (lo, hi, st)" using list_all2_right [OF l m] by blast
    then show ?thesis by (auto simp: is_segment_def elim: cron_segmentE)
  qed
  have fin: "finite (segment_numbers s)" for s
    by (rule finite_subset [of _ "{fst s .. fst (snd s)}"]) (auto simp: segment_numbers_def)
  then have "set ns = sunday_alias al ` (\<Union>(segment_numbers ` set segs))"
    unfolding ns by (intro set_sorted_list_of_set) simp
  moreover have "fr_min r \<le> sunday_alias al v \<and> sunday_alias al v \<le> fr_max r"
    if "s \<in> set segs" "v \<in> segment_numbers s" for s v
  proof -
    obtain lo hi st where s: "s = (lo, hi, st)" by (cases s)
    with that(2) have "lo \<le> v" "v \<le> hi" by (simp_all add: segment_numbers_def)
    with seg [of lo hi st] that(1) s have "fr_min r \<le> v" "v \<le> effective_max r al" by auto
    with assms(2) show ?thesis
      by (cases al) (auto simp: sunday_alias_def effective_max_def range_dayOfWeek_def)
  qed
  ultimately show "\<forall>n \<in> set ns. fr_min r \<le> n \<and> n \<le> fr_max r" by (simp add: ball_UN)
qed

text \<open>
  C24: The parser of a field accepts exactly the texts whose comma-separated parts are segments of
  the grammar (a star, a number, a range, each with an optional step, within the bounds of the field), and
  returns the numbers the segments denote, sorted and without repetition, with \<open>7\<close> read as \<open>0\<close> in the day of the week.
\<close>

theorem field_parser_exact:
  "parseField token r al = Inr ns \<longleftrightarrow>
     (\<exists>segs. list_all2 (is_segment r al) (split_on (\<lambda>c. c = 44) token) segs
        \<and> ns = sorted_list_of_set (sunday_alias al ` (\<Union>(segment_numbers ` set segs))))"
  by (rule parseField_iff)

end
