(* ===== verification/CronRun.thy ===== *)
theory CronRun
  imports CivilTime CronParse
begin

text \<open>
  \<open>nextRun\<close> of \<open>maker-scheduler/src/engine/cron.ts\<close>: the walk over wall clocks to the next minute an
  expression names. The definitions take any zone. What the walk finds is exact wherever the zone
  changes no clock (the locale \<open>steady_zone\<close>): each move skips no matching minute, and the rank of
  a clock bounds the number of moves.
\<close>

section \<open>The walk\<close>

text \<open>
  Every field of an expression is a list of numbers; the first one after \<open>current\<close>, or else the
  first. An empty list has no first element: \<open>undefined\<close>.
\<close>

definition nextOrWrap :: "int list \<Rightarrow> int \<Rightarrow> int option" where
  "nextOrWrap xs current = (case find (\<lambda>x. current < x) xs of
     Some x \<Rightarrow> Some x
   | None \<Rightarrow> (case xs of [] \<Rightarrow> None | x # _ \<Rightarrow> Some x))"

definition matchesDay :: "parsed_cron \<Rightarrow> wall_clock \<Rightarrow> bool" where
  "matchesDay cron w =
     (let domMatch = wc_d w \<in> set (pc_dayOfMonth cron); dowMatch = wc_dow w \<in> set (pc_dayOfWeek cron)
      in if pc_domRestricted cron \<and> pc_dowRestricted cron then domMatch \<or> dowMatch
         else if pc_domRestricted cron then domMatch
         else if pc_dowRestricted cron then dowMatch
         else True)"

text \<open>
  One pass of the loop: the current minute matches, or the walk moves to another instant. With an
  \<open>undefined\<close> field \<open>Date.UTC\<close> gives \<open>NaN\<close>, which \<open>formatToParts\<close> refuses with a \<open>RangeError\<close>.
\<close>

datatype walk_step = Fire | MoveTo int | InvalidTimeValue

definition walk :: "parsed_cron \<Rightarrow> host_zone \<Rightarrow> int \<Rightarrow> walk_step" where
  "walk cron tz cur =
     (let w = wallClock cur tz
      in if wc_mo w \<notin> set (pc_month cron) then
           (case nextOrWrap (pc_month cron) (wc_mo w) of
              None \<Rightarrow> InvalidTimeValue
            | Some next_mo \<Rightarrow> let wrapsYear = next_mo \<le> wc_mo w
                in MoveTo (fromWallClock (if wrapsYear then wc_y w + 1 else wc_y w) next_mo 1 0 0 tz))
         else if \<not> matchesDay cron w then
           (let sod = fromWallClock (wc_y w) (wc_mo w) (wc_d w) 0 0 tz;
                nextDay = sod + 26 * 3600 * 1000;
                w2 = wallClock nextDay tz
            in MoveTo (fromWallClock (wc_y w2) (wc_mo w2) (wc_d w2) 0 0 tz))
         else if wc_h w \<notin> set (pc_hour cron) then
           (case nextOrWrap (pc_hour cron) (wc_h w) of
              None \<Rightarrow> InvalidTimeValue
            | Some next_h \<Rightarrow>
                if wc_h w < next_h then MoveTo (fromWallClock (wc_y w) (wc_mo w) (wc_d w) next_h 0 tz)
                else (let sod = fromWallClock (wc_y w) (wc_mo w) (wc_d w) 0 0 tz;
                          nextDay = sod + 26 * 3600 * 1000;
                          w2 = wallClock nextDay tz
                      in MoveTo (fromWallClock (wc_y w2) (wc_mo w2) (wc_d w2) next_h 0 tz)))
         else if wc_mi w \<notin> set (pc_minute cron) then
           (case nextOrWrap (pc_minute cron) (wc_mi w) of
              None \<Rightarrow> InvalidTimeValue
            | Some next_mi \<Rightarrow>
                if wc_mi w < next_mi then MoveTo (fromWallClock (wc_y w) (wc_mo w) (wc_d w) (wc_h w) next_mi tz)
                else (let soh = fromWallClock (wc_y w) (wc_mo w) (wc_d w) (wc_h w) 0 tz + 3600000;
                          w2 = wallClock soh tz
                      in MoveTo (fromWallClock (wc_y w2) (wc_mo w2) (wc_d w2) (wc_h w2) next_mi tz)))
         else Fire)"

definition MAX_ITERATIONS :: nat where
  "MAX_ITERATIONS = 366 * 24 * 60"

datatype run_error = BadExpression cron_error | InvalidTime | NoRunWithinLimit jsstring

fun walk_loop :: "nat \<Rightarrow> jsstring \<Rightarrow> parsed_cron \<Rightarrow> host_zone \<Rightarrow> int \<Rightarrow> run_error + int" where
  "walk_loop 0 expr cron tz cur = Inl (NoRunWithinLimit expr)"
| "walk_loop (Suc i) expr cron tz cur = (case walk cron tz cur of
     Fire \<Rightarrow> Inr cur
   | MoveTo cur' \<Rightarrow> walk_loop i expr cron tz cur'
   | InvalidTimeValue \<Rightarrow> Inl InvalidTime)"

text \<open>The first minute after \<open>fromMs\<close>.\<close>

definition next_minute :: "int \<Rightarrow> int" where
  "next_minute fromMs = fromMs div 60000 * 60000 + 60000"

definition nextRun :: "jsstring \<Rightarrow> int \<Rightarrow> host_zone \<Rightarrow> run_error + int" where
  "nextRun expr fromMs tz = (case parseCron expr of
     Inl e \<Rightarrow> Inl (BadExpression e)
   | Inr cron \<Rightarrow> walk_loop MAX_ITERATIONS expr cron tz (next_minute fromMs))"

lemma walk_loop_numeral [simp]:
  "walk_loop (numeral k) expr cron tz cur = (case walk cron tz cur of
     Fire \<Rightarrow> Inr cur
   | MoveTo cur' \<Rightarrow> walk_loop (pred_numeral k) expr cron tz cur'
   | InvalidTimeValue \<Rightarrow> Inl InvalidTime)"
  by (simp add: numeral_eq_Suc)

section \<open>The specification\<close>

text \<open>A clock shows a minute that the expression names.\<close>

definition cron_matches :: "parsed_cron \<Rightarrow> wall_clock \<Rightarrow> bool" where
  "cron_matches cron w \<longleftrightarrow> wc_mo w \<in> set (pc_month cron) \<and> matchesDay cron w
     \<and> wc_h w \<in> set (pc_hour cron) \<and> wc_mi w \<in> set (pc_minute cron)"

text \<open>What the parser guarantees of an expression it accepts.\<close>

definition cron_fields_ok :: "parsed_cron \<Rightarrow> bool" where
  "cron_fields_ok cron \<longleftrightarrow> sorted (pc_minute cron) \<and> sorted (pc_hour cron) \<and> sorted (pc_month cron)
     \<and> (\<forall>n \<in> set (pc_minute cron). 0 \<le> n \<and> n < 60) \<and> (\<forall>n \<in> set (pc_hour cron). 0 \<le> n \<and> n < 24)
     \<and> (\<forall>n \<in> set (pc_month cron). 1 \<le> n \<and> n \<le> 12) \<and> (\<forall>n \<in> set (pc_dayOfMonth cron). 1 \<le> n \<and> n \<le> 31)
     \<and> (\<forall>n \<in> set (pc_dayOfWeek cron). 0 \<le> n \<and> n < 7)"

lemma parseCron_fields:
  assumes "parseCron expr = Inr cron"
  shows "cron_fields_ok cron"
proof -
  obtain mi h dm mo dw where p: "parseField dw range_dayOfWeek True = Inr (pc_dayOfWeek cron)"
    "parseField mi range_minute False = Inr (pc_minute cron)" "parseField h range_hour False = Inr (pc_hour cron)"
    "parseField dm range_dayOfMonth False = Inr (pc_dayOfMonth cron)" "parseField mo range_month False = Inr (pc_month cron)"
    using assms by (auto simp: parseCron_def Let_def split: list.splits sum.splits)
  from p [THEN parseField_range(1)] p [THEN parseField_range(3)] show ?thesis
    by (auto simp: cron_fields_ok_def field_ranges)
qed

lemma walk_Fire: "walk cron tz cur = Fire \<longleftrightarrow> cron_matches cron (wallClock cur tz)"
  by (auto simp: walk_def cron_matches_def Let_def split: option.splits)

lemma walk_loop_sound: "walk_loop n expr cron tz cur = Inr t \<Longrightarrow> cron_matches cron (wallClock t tz)"
  by (induction n arbitrary: cur) (auto simp: walk_Fire split: walk_step.splits)

lemma nextOrWrap_None: "nextOrWrap xs k = None \<longleftrightarrow> xs = []"
  by (auto simp: nextOrWrap_def split: option.splits list.splits)

lemma nextOrWrap_Some:
  assumes "nextOrWrap xs k = Some n" "sorted xs"
  shows "n \<in> set xs" "k < n \<Longrightarrow> x \<in> set xs \<Longrightarrow> k < x \<Longrightarrow> n \<le> x"
    "n \<le> k \<Longrightarrow> x \<in> set xs \<Longrightarrow> x \<le> k \<and> n \<le> x"
proof -
  have "n \<in> set xs \<and> (k < n \<longrightarrow> (\<forall>x \<in> set xs. k < x \<longrightarrow> n \<le> x)) \<and> (n \<le> k \<longrightarrow> (\<forall>x \<in> set xs. x \<le> k \<and> n \<le> x))"
  proof (cases "find (\<lambda>x. k < x) xs")
    case None
    then have "\<forall>x \<in> set xs. x \<le> k" by (auto simp: find_None_iff)
    with None assms show ?thesis by (cases xs) (auto simp: nextOrWrap_def)
  next
    case (Some m)
    with assms(1) have m: "m = n" by (simp add: nextOrWrap_def)
    obtain i where i: "i < length xs" "k < xs ! i" "n = xs ! i" "\<forall>j < i. \<not> k < xs ! j"
      using Some m by (auto simp: find_Some_iff)
    have "n \<le> x" if x: "x \<in> set xs" "k < x" for x
    proof -
      obtain j where j: "j < length xs" "xs ! j = x" using x(1) by (auto simp: in_set_conv_nth)
      with i(4) x(2) have "i \<le> j" using not_le by blast
      with sorted_nth_mono [OF assms(2) this j(1)] j(2) i(3) show ?thesis by simp
    qed
    with i show ?thesis by auto
  qed
  then show "n \<in> set xs" "k < n \<Longrightarrow> x \<in> set xs \<Longrightarrow> k < x \<Longrightarrow> n \<le> x"
    "n \<le> k \<Longrightarrow> x \<in> set xs \<Longrightarrow> x \<le> k \<and> n \<le> x" by blast+
qed

section \<open>Moves on the calendar\<close>

lemma hour_minute_divs:
  "l div 3600 = l div 86400 * 24 + wc_h (clock_of l)"
  "l = l div 86400 * 86400 + wc_h (clock_of l) * 3600 + wc_mi (clock_of l) * 60 + l mod 60"
proof -
  have l: "l div 86400 * 86400 + wc_h (clock_of l) * 3600 + wc_mi (clock_of l) * 60 + l mod 60 = l"
    using local_second_clock_of [of l] by (simp add: local_second_def clock_of_sel)
  then show "l = l div 86400 * 86400 + wc_h (clock_of l) * 3600 + wc_mi (clock_of l) * 60 + l mod 60" by simp
  have "0 \<le> l mod 60" "l mod 60 < 60" by simp_all
  from time_of_day_divs(5) [OF clock_of_ranges(1-4) [of l] this, where k = "l div 86400"] l
  show "l div 3600 = l div 86400 * 24 + wc_h (clock_of l)" by simp
qed

text \<open>A month that is not named: no match before the first day of the next one named.\<close>

lemma month_move_later:
  assumes n: "nextOrWrap ms (wc_mo (clock_of l)) = Some n" and ms: "sorted ms" "\<forall>m \<in> set ms. 1 \<le> m \<and> m \<le> 12"
    and out: "wc_mo (clock_of l) \<notin> set ms"
  defines "y \<equiv> (if n \<le> wc_mo (clock_of l) then wc_y (clock_of l) + 1 else wc_y (clock_of l))"
  shows "valid_date y n 1" "l div 86400 < day_of y n 1"
proof -
  note nw = nextOrWrap_Some [OF n ms(1)]
  have vl: "valid_date (wc_y (clock_of l)) (wc_mo (clock_of l)) (wc_d (clock_of l))" by (rule clock_of_sel(1))
  show v: "valid_date y n 1"
    using nw(1) ms(2) month_length_bounds [of y n] by (simp add: valid_date_def)
  have "day_of (wc_y (clock_of l)) (wc_mo (clock_of l)) (wc_d (clock_of l)) < day_of y n 1"
    unfolding day_of_less_iff [OF vl v] using nw(1) out by (auto simp: y_def)
  then show "l div 86400 < day_of y n 1" by (simp add: clock_of_sel)
qed

lemma month_move:
  assumes n: "nextOrWrap ms (wc_mo (clock_of l)) = Some n" and ms: "sorted ms" "\<forall>m \<in> set ms. 1 \<le> m \<and> m \<le> 12"
    and out: "wc_mo (clock_of l) \<notin> set ms" and t: "l \<le> t" "wc_mo (clock_of t) \<in> set ms"
  defines "y \<equiv> (if n \<le> wc_mo (clock_of l) then wc_y (clock_of l) + 1 else wc_y (clock_of l))"
  shows "day_of y n 1 \<le> t div 86400"
proof -
  note nw = nextOrWrap_Some [OF n ms(1)]
  have vl: "valid_date (wc_y (clock_of l)) (wc_mo (clock_of l)) (wc_d (clock_of l))"
    and vt: "valid_date (wc_y (clock_of t)) (wc_mo (clock_of t)) (wc_d (clock_of t))"
    by (rule clock_of_sel(1))+
  have v: "valid_date y n 1" using month_move_later(1) [OF n ms out] by (simp add: y_def)
  have "l div 86400 \<le> t div 86400" using t(1) by (rule zdiv_mono1) simp
  then have le: "\<not> day_of (wc_y (clock_of t)) (wc_mo (clock_of t)) (wc_d (clock_of t))
      < day_of (wc_y (clock_of l)) (wc_mo (clock_of l)) (wc_d (clock_of l))"
    by (simp add: clock_of_sel)
  have "\<not> day_of (wc_y (clock_of t)) (wc_mo (clock_of t)) (wc_d (clock_of t)) < day_of y n 1"
    using le nw(2) [of "wc_mo (clock_of t)"] nw(3) [of "wc_mo (clock_of t)"] t(2) out vt
    unfolding day_of_less_iff [OF vt v] day_of_less_iff [OF vt vl]
    by (cases "wc_mo (clock_of t) = wc_mo (clock_of l)") (auto simp: y_def valid_date_def split: if_splits)
  then show "day_of y n 1 \<le> t div 86400" by (simp add: clock_of_sel)
qed

text \<open>The fields of a clock that decide about a day depend on the day only.\<close>

lemma same_day_clock:
  assumes "l div 86400 = t div 86400"
  shows "wc_y (clock_of l) = wc_y (clock_of t)" "wc_mo (clock_of l) = wc_mo (clock_of t)"
    "wc_d (clock_of l) = wc_d (clock_of t)" "wc_dow (clock_of l) = wc_dow (clock_of t)"
    "matchesDay cron (clock_of l) = matchesDay cron (clock_of t)"
proof -
  show 1: "wc_y (clock_of l) = wc_y (clock_of t)" "wc_mo (clock_of l) = wc_mo (clock_of t)"
    "wc_d (clock_of l) = wc_d (clock_of t)" "wc_dow (clock_of l) = wc_dow (clock_of t)"
    by (simp_all add: clock_of_def assms split: prod.splits)
  show "matchesDay cron (clock_of l) = matchesDay cron (clock_of t)"
    unfolding matchesDay_def Let_def 1 ..
qed

lemma later_day:
  fixes l t :: int
  assumes "l \<le> t" "l div 86400 \<noteq> t div 86400"
  shows "(l div 86400 + 1) * 86400 \<le> t" "l < (l div 86400 + 1) * 86400"
proof -
  have "l div 86400 \<le> t div 86400" using assms(1) by (rule zdiv_mono1) simp
  with assms(2) have "l div 86400 + 1 \<le> t div 86400" by simp
  then show "(l div 86400 + 1) * 86400 \<le> t"
    using div_bounds [of 86400 t] by simp
  show "l < (l div 86400 + 1) * 86400" using div_bounds [of 86400 l] by simp
qed

text \<open>
  A digit of the clock that is not named, the hour of a day or the minute of an hour: no match
  before the next one named, in this round or the next. \<open>q\<close> is the length of a round and \<open>u\<close> that of a digit.
\<close>

definition digit_target :: "int \<Rightarrow> int \<Rightarrow> int \<Rightarrow> int \<Rightarrow> int" where
  "digit_target q u l n = (if l mod q div u < n then l div q else l div q + 1) * q + n * u"

lemma digit_move_later:
  fixes l q u m :: int
  assumes q: "q = m * u" "0 < u" "0 < m" and hs: "sorted hs" "\<forall>h \<in> set hs. 0 \<le> h \<and> h < m"
    and n: "nextOrWrap hs (l mod q div u) = Some n"
  shows "0 \<le> n" "n < m" "l < digit_target q u l n"
proof -
  have q0: "0 < q" using q by simp
  show n0: "0 \<le> n" "n < m" using nextOrWrap_Some(1) [OF n hs(1)] hs(2) by auto
  have nu: "0 \<le> n * u" using n0 q(2) by simp
  show "l < digit_target q u l n"
  proof (cases "l mod q div u < n")
    case True
    then have "(l mod q div u + 1) * u \<le> n * u" using q(2) by (intro mult_right_mono) auto
    moreover have "l mod q < (l mod q div u) * u + u"
      using div_bounds [OF q(2), of "l mod q"] by (simp add: mult.commute)
    ultimately have "l < l div q * q + n * u" using div_mult_mod_eq [of l q]
      unfolding distrib_right mult_1_left by linarith
    with True show ?thesis by (simp add: digit_target_def)
  next
    case False
    have "l < (l div q + 1) * q + n * u"
      using nu pos_mod_bound [OF q0, of l] div_mult_mod_eq [of l q] unfolding distrib_right mult_1_left by linarith
    with False show ?thesis by (simp add: digit_target_def)
  qed
qed

lemma digit_move:
  fixes l t q u m :: int
  assumes q: "q = m * u" "0 < u" "0 < m" and hs: "sorted hs" "\<forall>h \<in> set hs. 0 \<le> h \<and> h < m"
    and n: "nextOrWrap hs (l mod q div u) = Some n" and out: "l mod q div u \<notin> set hs"
    and t: "l \<le> t" "t mod q div u \<in> set hs"
  shows "digit_target q u l n \<le> t"
proof -
  note nw = nextOrWrap_Some [OF n hs(1)]
  have q0: "0 < q" using q by simp
  have n0: "0 \<le> n" "n < m" using digit_move_later [OF q hs n] by simp_all
  have nu: "0 \<le> n * u" "n * u + u \<le> q"
    using n0 q(2) mult_right_mono [of "n + 1" m u] by (simp_all add: q(1) distrib_right)
  have tb: "t div q * q + (t mod q div u) * u \<le> t"
    using div_bounds [OF q(2), of "t mod q", THEN conjunct1] div_mult_mod_eq [of t q] mult.commute [of u "t mod q div u"]
    by linarith
  have mono: "l div q \<le> t div q" using t(1) q0 by (rule zdiv_mono1)
  show ?thesis
  proof (cases "t div q = l div q")
    case True
    have "l mod q \<le> t mod q"
      using t(1) div_mult_mod_eq [of l q] div_mult_mod_eq [of t q] unfolding True by linarith
    then have "l mod q div u \<le> t mod q div u" using q(2) by (rule zdiv_mono1)
    moreover have "l mod q div u \<noteq> t mod q div u" using out t(2) by metis
    ultimately have "l mod q div u < n \<and> n \<le> t mod q div u"
      using nw(2) [OF _ t(2)] nw(3) [OF _ t(2)] by (cases "l mod q div u < n") auto
    moreover from this have "n * u \<le> (t mod q div u) * u" using q(2) by (intro mult_right_mono) auto
    ultimately show ?thesis using True tb by (simp add: digit_target_def)
  next
    case False
    with mono have "l div q + 1 \<le> t div q" by simp
    then have r: "(l div q + 1) * q \<le> t div q * q" using q0 by (intro mult_right_mono) auto
    show ?thesis
    proof (cases "l mod q div u < n")
      case True
      with r nu tb hs(2) t(2) q(2) have "0 \<le> (t mod q div u) * u" by (intro mult_nonneg_nonneg) auto
      with True r nu tb q(2) show ?thesis by (simp add: digit_target_def distrib_right)
    next
      case wrap: False
      then have "n \<le> t mod q div u" using nw(3) [OF _ t(2)] by simp
      then have "n * u \<le> (t mod q div u) * u" using q(2) by (intro mult_right_mono) auto
      with wrap r tb show ?thesis by (simp add: digit_target_def)
    qed
  qed
qed

lemmas hour_move_later = digit_move_later [where q = 86400 and u = 3600 and m = 24, simplified, folded clock_of_sel(3)]
lemmas minute_move_later = digit_move_later [where q = 3600 and u = 60 and m = 60, simplified, folded clock_of_sel(4)]
lemmas hour_move = digit_move [where q = 86400 and u = 3600 and m = 24, simplified, folded clock_of_sel(3)]
lemmas minute_move = digit_move [where q = 3600 and u = 60 and m = 60, simplified, folded clock_of_sel(4)]

section \<open>The walk between clock changes\<close>

text \<open>
  How far the clock \<open>l\<close> is from \<open>t\<close>: two for every hour, and one while the minute is not named.
\<close>

definition walk_rank :: "parsed_cron \<Rightarrow> int \<Rightarrow> int \<Rightarrow> nat" where
  "walk_rank cron t l = nat (2 * (t div 3600 - l div 3600)
     + (if wc_mi (clock_of l) \<in> set (pc_minute cron) then 0 else 1))"

lemma walk_rank_later_hour:
  assumes "l div 3600 < k div 3600" "k \<le> t"
  shows "walk_rank cron t k < walk_rank cron t l"
proof -
  have "k div 3600 \<le> t div 3600" using assms(2) by (rule zdiv_mono1) simp
  with assms(1) show ?thesis by (auto simp: walk_rank_def)
qed

lemma later_day_later_hour:
  fixes l k :: int
  assumes "l div 86400 < k div 86400"
  shows "l div 3600 < k div 3600"
  using assms clock_of_ranges(2) [of l] clock_of_ranges(1) [of k] hour_minute_divs(1) [of l] hour_minute_divs(1) [of k]
  by linarith

context steady_zone
begin

lemma from_day_time:
  assumes "k = l div 86400 * 86400 + h * 3600 + mi * 60" "0 \<le> h" "h < 24" "0 \<le> mi" "mi < 60"
    "a + 86400 \<le> k - c" "k - c + 86400 \<le> b"
  shows "fromWallClock (wc_y (clock_of l)) (wc_mo (clock_of l)) (wc_d (clock_of l)) h mi z = (k - c) * 1000"
  using assms by (intro from_wall_clock clock_of_sel(1)) (simp_all add: local_second_def clock_of_sel(2))

lemma wall_clock_at:
  assumes "a \<le> l - c" "l - c \<le> b"
  shows "wallClock ((l - c) * 1000) z = clock_of l"
  using wall_clock [of "(l - c) * 1000"] assms by simp

text \<open>The start of the next day, found from a point 26 hours after the start of this one.\<close>

lemma next_day:
  assumes "a + 172800 \<le> l - c" "(l div 86400 + 1) * 86400 - c + 172800 \<le> b"
  shows "wallClock (fromWallClock (wc_y (clock_of l)) (wc_mo (clock_of l)) (wc_d (clock_of l)) 0 0 z + 26 * 3600 * 1000) z
    = clock_of (l div 86400 * 86400 + 93600)"
    and "(l div 86400 * 86400 + 93600) div 86400 = l div 86400 + 1"
proof -
  have "fromWallClock (wc_y (clock_of l)) (wc_mo (clock_of l)) (wc_d (clock_of l)) 0 0 z = (l div 86400 * 86400 - c) * 1000"
    using assms div_bounds [of 86400 l] by (intro from_day_time) simp_all
  then have "fromWallClock (wc_y (clock_of l)) (wc_mo (clock_of l)) (wc_d (clock_of l)) 0 0 z + 26 * 3600 * 1000
      = ((l div 86400 * 86400 + 93600) - c) * 1000"
    by simp
  then show "wallClock (fromWallClock (wc_y (clock_of l)) (wc_mo (clock_of l)) (wc_d (clock_of l)) 0 0 z + 26 * 3600 * 1000) z
    = clock_of (l div 86400 * 86400 + 93600)"
    using assms div_bounds [of 86400 l] wall_clock_at [of "l div 86400 * 86400 + 93600"] by (simp only:) simp
  show "(l div 86400 * 86400 + 93600) div 86400 = l div 86400 + 1"
    by (rule div_bounds_unique) simp_all
qed

text \<open>
  One pass at the clock \<open>l\<close>, when some later clock \<open>t\<close> matches: either \<open>l\<close> matches, or the walk moves
  to a clock \<open>k\<close> that is closer to \<open>t\<close> and not after it.
\<close>

definition moves_towards :: "parsed_cron \<Rightarrow> int \<Rightarrow> int \<Rightarrow> bool" where
  "moves_towards cron t l \<longleftrightarrow> (\<exists>k. walk cron z ((l - c) * 1000) = MoveTo ((k - c) * 1000)
     \<and> k mod 60 = 0 \<and> l < k \<and> k \<le> t \<and> walk_rank cron t k < walk_rank cron t l)"

lemma moves_towards_later_day:
  assumes "walk cron z ((l - c) * 1000) = MoveTo ((k - c) * 1000)" "k mod 60 = 0"
    "l div 86400 < k div 86400" "k \<le> t"
  shows "moves_towards cron t l"
proof -
  have "l < k" using assms(3) by (metis not_less zdiv_mono1 zero_less_numeral)
  with assms walk_rank_later_hour [OF later_day_later_hour [OF assms(3)] assms(4)] show ?thesis
    by (auto simp: moves_towards_def)
qed

lemma walk_step_towards:
  assumes ok: "cron_fields_ok cron" and t: "cron_matches cron (clock_of t)" "l \<le> t"
    and w: "a + 172800 \<le> l - c" "t - c + 172800 \<le> b"
  shows "cron_matches cron (clock_of l) \<or> moves_towards cron t l"
proof -
  have wl: "wallClock ((l - c) * 1000) z = clock_of l" using w t(2) by (intro wall_clock_at) simp_all
  have mono: "l div 86400 \<le> t div 86400" using t(2) by (rule zdiv_mono1) simp
  consider (month) "wc_mo (clock_of l) \<notin> set (pc_month cron)"
    | (day) "wc_mo (clock_of l) \<in> set (pc_month cron)" "\<not> matchesDay cron (clock_of l)"
    | (hour) "wc_mo (clock_of l) \<in> set (pc_month cron)" "matchesDay cron (clock_of l)" "wc_h (clock_of l) \<notin> set (pc_hour cron)"
    | (minute) "wc_mo (clock_of l) \<in> set (pc_month cron)" "matchesDay cron (clock_of l)"
        "wc_h (clock_of l) \<in> set (pc_hour cron)" "wc_mi (clock_of l) \<notin> set (pc_minute cron)"
    | (match) "cron_matches cron (clock_of l)"
    by (auto simp: cron_matches_def)
  then show ?thesis
  proof cases
    case month
    obtain n where n: "nextOrWrap (pc_month cron) (wc_mo (clock_of l)) = Some n"
      using t(1) by (cases "nextOrWrap (pc_month cron) (wc_mo (clock_of l))") (auto simp: nextOrWrap_None cron_matches_def)
    define y where "y = (if n \<le> wc_mo (clock_of l) then wc_y (clock_of l) + 1 else wc_y (clock_of l))"
    define k where "k = day_of y n 1 * 86400"
    have m: "valid_date y n 1" "l div 86400 < day_of y n 1" "day_of y n 1 \<le> t div 86400"
      using month_move_later [OF n _ _ month] month_move [OF n _ _ month t(2)] ok t(1)
      by (auto simp: y_def cron_fields_ok_def cron_matches_def)
    have kl: "l < k" "k \<le> t"
      using m(2,3) div_bounds [of 86400 l] div_bounds [of 86400 t] by (simp_all add: k_def)
    have "fromWallClock y n 1 0 0 z = (k - c) * 1000"
      using m(1) kl w by (intro from_wall_clock) (simp_all add: local_second_def k_def)
    then have "walk cron z ((l - c) * 1000) = MoveTo ((k - c) * 1000)"
      unfolding walk_def wl Let_def y_def using month n by simp
    then show ?thesis
      using m(2) kl(2) by (intro disjI2 moves_towards_later_day [of cron l k]) (simp_all add: k_def mod_mult_right_eq)
  next
    case day
    have "l div 86400 \<noteq> t div 86400"
      using day(2) t(1) same_day_clock(5) [of l t cron] by (auto simp: cron_matches_def)
    note d = later_day [OF t(2) this]
    have b: "(l div 86400 + 1) * 86400 - c + 172800 \<le> b" using d(1) w(2) by simp
    note nd = next_day [OF w(1) b]
    define k where "k = (l div 86400 + 1) * 86400"
    have "fromWallClock (wc_y (clock_of (l div 86400 * 86400 + 93600))) (wc_mo (clock_of (l div 86400 * 86400 + 93600)))
        (wc_d (clock_of (l div 86400 * 86400 + 93600))) 0 0 z = (k - c) * 1000"
      using d w by (intro from_day_time) (simp_all add: nd(2) k_def)
    then have "walk cron z ((l - c) * 1000) = MoveTo ((k - c) * 1000)"
      unfolding walk_def wl Let_def nd(1) using day by simp
    then show ?thesis
      using d(1) by (intro disjI2 moves_towards_later_day [of cron l k]) (simp_all add: k_def)
  next
    case hour
    obtain n where n: "nextOrWrap (pc_hour cron) (wc_h (clock_of l)) = Some n"
      using t(1) by (cases "nextOrWrap (pc_hour cron) (wc_h (clock_of l))") (auto simp: nextOrWrap_None cron_matches_def)
    have hs: "sorted (pc_hour cron)" "\<forall>h \<in> set (pc_hour cron). 0 \<le> h \<and> h < 24" using ok by (simp_all add: cron_fields_ok_def)
    note later = hour_move_later [OF hs n]
    have n0: "0 \<le> n" "n < 24" by (rule later)+
    define k where "k = (if wc_h (clock_of l) < n then l div 86400 else l div 86400 + 1) * 86400 + n * 3600"
    have kl: "l < k" "k \<le> t"
      using later(3) hour_move [OF hs n hour(3) t(2)] t(1)
      by (simp_all add: k_def digit_target_def clock_of_sel(3) cron_matches_def)
    have "k div 3600 = (if wc_h (clock_of l) < n then l div 86400 else l div 86400 + 1) * 24 + n"
      unfolding k_def by (rule div_bounds_unique) simp_all
    then have "l div 3600 < k div 3600"
      using hour_minute_divs(1) [of l] clock_of_ranges(2) [of l] n0 by simp
    note rank = walk_rank_later_hour [OF this kl(2)]
    have "walk cron z ((l - c) * 1000) = MoveTo ((k - c) * 1000)"
    proof (cases "wc_h (clock_of l) < n")
      case True
      then have "fromWallClock (wc_y (clock_of l)) (wc_mo (clock_of l)) (wc_d (clock_of l)) n 0 z = (k - c) * 1000"
        using kl w n0 by (intro from_day_time) (simp_all add: k_def)
      then show ?thesis unfolding walk_def wl Let_def using hour n True by simp
    next
      case False
      then have k: "k = (l div 86400 + 1) * 86400 + n * 3600" by (simp add: k_def)
      have b: "(l div 86400 + 1) * 86400 - c + 172800 \<le> b" using kl(2) w(2) n0 by (simp add: k)
      note nd = next_day [OF w(1) b]
      have "fromWallClock (wc_y (clock_of (l div 86400 * 86400 + 93600))) (wc_mo (clock_of (l div 86400 * 86400 + 93600)))
          (wc_d (clock_of (l div 86400 * 86400 + 93600))) n 0 z = (k - c) * 1000"
        using kl w n0 by (intro from_day_time) (simp_all add: nd(2) k)
      then show ?thesis unfolding walk_def wl Let_def using hour n False by (simp add: nd(1) [simplified])
    qed
    with kl rank show ?thesis
      by (auto simp: moves_towards_def k_def intro!: exI [of _ k])
  next
    case minute
    obtain n where n: "nextOrWrap (pc_minute cron) (wc_mi (clock_of l)) = Some n"
      using t(1) by (cases "nextOrWrap (pc_minute cron) (wc_mi (clock_of l))") (auto simp: nextOrWrap_None cron_matches_def)
    have ms: "sorted (pc_minute cron)" "\<forall>m \<in> set (pc_minute cron). 0 \<le> m \<and> m < 60" using ok by (simp_all add: cron_fields_ok_def)
    note n1 = nextOrWrap_Some(1) [OF n ms(1)]
    have n0: "0 \<le> n" "n < 60" using n1 ms(2) by auto
    define k where "k = (if wc_mi (clock_of l) < n then l div 3600 else l div 3600 + 1) * 3600 + n * 60"
    have kl: "l < k" "k \<le> t"
      using minute_move_later(3) [OF ms n] minute_move [OF ms n minute(4) t(2)] t(1)
      by (simp_all add: k_def digit_target_def clock_of_sel(4) cron_matches_def)
    have kd: "k div 3600 = (if wc_mi (clock_of l) < n then l div 3600 else l div 3600 + 1)"
      unfolding k_def using n0 by (intro div_bounds_unique) simp_all
    have km: "wc_mi (clock_of k) = n"
    proof -
      have "k mod 3600 = n * 60" using minus_div_mult_eq_mod [of k 3600] by (simp add: kd) (simp add: k_def)
      then show ?thesis by (simp add: clock_of_sel)
    qed
    have rank: "walk_rank cron t k < walk_rank cron t l"
    proof (cases "wc_mi (clock_of l) < n")
      case True
      have "l div 3600 \<le> t div 3600" using t(2) by (rule zdiv_mono1) simp
      with True kd km n1 minute(4) show ?thesis by (simp add: walk_rank_def)
    next
      case False
      with kd have "l div 3600 < k div 3600" by simp
      from walk_rank_later_hour [OF this kl(2)] show ?thesis .
    qed
    have "walk cron z ((l - c) * 1000) = MoveTo ((k - c) * 1000)"
    proof (cases "wc_mi (clock_of l) < n")
      case True
      then have "fromWallClock (wc_y (clock_of l)) (wc_mo (clock_of l)) (wc_d (clock_of l)) (wc_h (clock_of l)) n z = (k - c) * 1000"
        using kl w n0 clock_of_ranges(1,2) [of l] hour_minute_divs(1) [of l] by (intro from_day_time) (simp_all add: k_def)
      then show ?thesis unfolding walk_def wl Let_def using minute n True by simp
    next
      case False
      define l2 where "l2 = (l div 3600 + 1) * 3600"
      have k: "k = l2 + n * 60" using False by (simp add: k_def l2_def)
      have l2: "l2 div 3600 = l div 3600 + 1" "l < l2" "l2 \<le> t"
        using div_bounds [of 3600 l] kl(2) n0 by (simp_all add: l2_def k)
      have "fromWallClock (wc_y (clock_of l)) (wc_mo (clock_of l)) (wc_d (clock_of l)) (wc_h (clock_of l)) 0 z
          = (l2 - 3600 - c) * 1000"
        using l2 w clock_of_ranges(1,2) [of l] hour_minute_divs(1) [of l] div_bounds [of 3600 l]
        by (intro from_day_time) (simp_all add: l2_def)
      then have so: "fromWallClock (wc_y (clock_of l)) (wc_mo (clock_of l)) (wc_d (clock_of l)) (wc_h (clock_of l)) 0 z
          + 3600000 = (l2 - c) * 1000"
        by simp
      have w2: "wallClock (fromWallClock (wc_y (clock_of l)) (wc_mo (clock_of l)) (wc_d (clock_of l)) (wc_h (clock_of l)) 0 z
          + 3600000) z = clock_of l2"
        unfolding so using l2 w by (intro wall_clock_at) simp_all
      have "fromWallClock (wc_y (clock_of l2)) (wc_mo (clock_of l2)) (wc_d (clock_of l2)) (wc_h (clock_of l2)) n z
          = (k - c) * 1000"
      proof (rule from_day_time)
        have "l2 = l2 div 3600 * 3600" unfolding l2(1) by (simp add: l2_def)
        then show "k = l2 div 86400 * 86400 + wc_h (clock_of l2) * 3600 + n * 60"
          using hour_minute_divs(1) [of l2] k by linarith
      qed (use kl w n0 clock_of_ranges(1,2) [of l2] in simp_all)
      then show ?thesis unfolding walk_def wl Let_def using minute n False by (simp add: w2)
    qed
    moreover have "k mod 60 = 0" by (simp add: k_def)
    ultimately show ?thesis using kl rank by (auto simp: moves_towards_def)
  qed simp
qed

text \<open>Fuel above the rank is enough to reach the first clock that matches.\<close>

lemma walk_loop_reaches:
  assumes ok: "cron_fields_ok cron" and t: "cron_matches cron (clock_of t)" "t - c + 172800 \<le> b"
  shows "l \<le> t \<Longrightarrow> l mod 60 = 0 \<Longrightarrow> a + 172800 \<le> l - c
    \<Longrightarrow> (\<And>k. l \<le> k \<Longrightarrow> k < t \<Longrightarrow> k mod 60 = 0 \<Longrightarrow> \<not> cron_matches cron (clock_of k))
    \<Longrightarrow> walk_rank cron t l < n \<Longrightarrow> walk_loop n expr cron z ((l - c) * 1000) = Inr ((t - c) * 1000)"
proof (induction n arbitrary: l)
  case (Suc n)
  have wl: "wallClock ((l - c) * 1000) z = clock_of l" using Suc.prems t(2) by (intro wall_clock_at) simp_all
  show ?case
  proof (cases "cron_matches cron (clock_of l)")
    case True
    with Suc.prems(1,2) Suc.prems(4) [of l] have "l = t" by (cases "l = t") auto
    moreover have "walk cron z ((l - c) * 1000) = Fire" unfolding walk_Fire wl by (rule True)
    ultimately show ?thesis by simp
  next
    case False
    with walk_step_towards [OF ok t(1) Suc.prems(1,3) t(2)] have "moves_towards cron t l" by blast
    then obtain k where k: "walk cron z ((l - c) * 1000) = MoveTo ((k - c) * 1000)" "k mod 60 = 0" "l < k" "k \<le> t"
      "walk_rank cron t k < walk_rank cron t l"
      unfolding moves_towards_def by (elim exE conjE)
    have "walk_loop n expr cron z ((k - c) * 1000) = Inr ((t - c) * 1000)"
    proof (rule Suc.IH [OF k(4,2)])
      show "a + 172800 \<le> k - c" using k(3) Suc.prems(3) by simp
      show "walk_rank cron t k < n" using k(5) Suc.prems(5) by simp
      show "\<not> cron_matches cron (clock_of i)" if "k \<le> i" "i < t" "i mod 60 = 0" for i
        using that k(3) Suc.prems(4) [of i] by simp
    qed
    then show ?thesis by (simp only: walk_loop.simps k(1) walk_step.case)
  qed
qed simp

lemma minute_clock:
  assumes "u mod 60000 = 0"
  shows "(u div 1000 + c) mod 60 = 0" "u = (u div 1000 + c - c) * 1000"
proof -
  obtain q where u: "u = q * 60000" using assms by (auto elim: dvdE simp: mult.commute)
  have "u div 1000 = q * 60" unfolding u by (rule div_bounds_unique) simp_all
  then show "(u div 1000 + c) mod 60 = 0" "u = (u div 1000 + c - c) * 1000"
    using offset_minutes by (simp_all add: u mod_add_eq [symmetric])
qed

lemma nextRun_reaches:
  assumes "parseCron expr = Inr cron" and t: "cron_matches cron (wallClock t z)" "t mod 60000 = 0" "fromMs < t"
    and first: "\<And>u. fromMs < u \<Longrightarrow> u < t \<Longrightarrow> u mod 60000 = 0 \<Longrightarrow> \<not> cron_matches cron (wallClock u z)"
    and w: "a + 172800 \<le> fromMs div 1000" "t div 1000 + 172800 \<le> b" and near: "t - fromMs \<le> 10000 * 86400000"
  shows "nextRun expr fromMs z = Inr t"
proof -
  define start where "start = next_minute fromMs"
  have s: "fromMs < start" "start \<le> t" "start mod 60000 = 0" "start \<le> fromMs + 60000"
  proof -
    show "fromMs < start" "start mod 60000 = 0" "start \<le> fromMs + 60000"
      using div_bounds [of 60000 fromMs] by (simp_all add: start_def next_minute_def)
    obtain q where q: "t = q * 60000" using t(2) by (auto elim: dvdE simp: mult.commute)
    have "fromMs div 60000 < q" using t(3) div_bounds [of 60000 fromMs] unfolding q by simp
    then show "start \<le> t" by (simp add: start_def next_minute_def q)
  qed
  define l where "l = start div 1000 + c"
  define k where "k = t div 1000 + c"
  note ms = minute_clock [OF s(3), folded l_def] and mt = minute_clock [OF t(2), folded k_def]
  have lk: "l \<le> k" "a + 172800 \<le> l - c" "k - c + 172800 \<le> b"
    using s(1,2) w zdiv_mono1 [of fromMs start 1000] zdiv_mono1 [of start t 1000] by (simp_all add: l_def k_def)
  have kk: "wallClock ((i - c) * 1000) z = clock_of i" if "l \<le> i" "i \<le> k" for i
    using that lk by (intro wall_clock_at) simp_all
  have "walk_loop MAX_ITERATIONS expr cron z ((l - c) * 1000) = Inr ((k - c) * 1000)"
  proof (rule walk_loop_reaches [OF parseCron_fields [OF assms(1)] _ lk(3,1) ms(1) lk(2)])
    show "cron_matches cron (clock_of k)" using t(1) kk [of k] lk(1) mt(2) by simp
    show "\<not> cron_matches cron (clock_of i)" if i: "l \<le> i" "i < k" "i mod 60 = 0" for i
    proof -
      have "60 dvd i - c" using i(3) offset_minutes by (auto simp: mod_eq_0_iff_dvd intro: dvd_diff)
      then obtain q where q: "i - c = 60 * q" by (rule dvdE)
      have "(i - c) * 1000 mod 60000 = 0" by (simp add: q)
      moreover have "start \<le> (i - c) * 1000" "(i - c) * 1000 < t"
        using i(1,2) ms(2) mt(2) by simp_all
      ultimately show ?thesis
        using first [of "(i - c) * 1000"] s(1) kk [of i] i by simp
    qed
    have "k div 3600 - l div 3600 \<le> 240000"
    proof -
      have "k - l \<le> 864000000" using near s(1) ms(2) mt(2) by simp
      then show ?thesis using div_bounds [of 3600 k] div_bounds [of 3600 l] by linarith
    qed
    then have "walk_rank cron k l \<le> 480001" by (simp add: walk_rank_def nat_le_iff)
    then show "walk_rank cron k l < MAX_ITERATIONS" by (simp add: MAX_ITERATIONS_def)
  qed
  then show ?thesis
    using ms(2) mt(2) by (simp add: nextRun_def assms(1) start_def [symmetric])
qed

end

end
