(* ===== verification/CronLaws.thy ===== *)
theory CronLaws
  imports CronRun
begin

text \<open>
  What \<open>nextRun\<close> promises: away from clock changes its result is the first matching minute, it returns
  exactly for the expressions that name a possible day, and nothing it returns fails to match. Where
  a clock is set back it can skip matching minutes or return an instant of the past.
\<close>

section \<open>Evaluation of concrete expressions\<close>

lemmas parse_eval = parseField_def parse_segment_def segment_step_def segment_bounds_def field_ranges
  parseDecimalInteger_def is_digit_def decimal_value_def set_add_def step_values.simps upto.simps

lemma star_fields:
  "parseField (js ''*'') range_minute False = Inr [0..59]"
  "parseField (js ''*'') range_hour False = Inr [0..23]"
  "parseField (js ''*'') range_dayOfMonth False = Inr [1..31]"
  "parseField (js ''*'') range_month False = Inr [1..12]"
  "parseField (js ''*'') range_dayOfWeek True = Inr [0..6]"
  by (simp_all add: parse_eval)

text \<open>An expression that restricts the minute only.\<close>

definition minutes_only :: "jsstring \<Rightarrow> int list \<Rightarrow> parsed_cron" where
  "minutes_only expr ms = \<lparr>pc_minute = ms, pc_hour = [0..23], pc_dayOfMonth = [1..31], pc_month = [1..12],
     pc_dayOfWeek = [0..6], pc_domRestricted = False, pc_dowRestricted = False, pc_expr = expr\<rparr>"

lemma parse_minutes_only:
  assumes "trim expr = expr" "split_space_runs expr = [m, js ''*'', js ''*'', js ''*'', js ''*'']"
    "parseField m range_minute False = Inr ms"
  shows "parseCron expr = Inr (minutes_only expr ms)"
  unfolding parseCron_def Let_def assms(1) using assms(2,3)
  by (simp only: list.case star_fields sum.case) (simp add: minutes_only_def)

lemma parse_every_fifth:
  "parseCron (js ''*/5 * * * *'') = Inr (minutes_only (js ''*/5 * * * *'') [0, 5, 10, 15, 20, 25, 30, 35, 40, 45, 50, 55])"
  by (rule parse_minutes_only [of _ "js ''*/5''"]) (simp_all add: trim_def trim_start_def is_space_def parse_eval)

lemma parse_quarter: "parseCron (js ''15 * * * *'') = Inr (minutes_only (js ''15 * * * *'') [15])"
  by (rule parse_minutes_only [of _ "js ''15''"]) (simp_all add: trim_def trim_start_def is_space_def parse_eval)

lemma parse_beyond: "parseCron (js ''70/5 * * * *'') = Inr (minutes_only (js ''70/5 * * * *'') [])"
  by (rule parse_minutes_only [of _ "js ''70/5''"]) (simp_all add: trim_def trim_start_def is_space_def parse_eval)

lemma wallClock_shows:
  assumes "t div 1000 + hz_offset z (t div 1000) = local_second y mo d h mi 0"
    and "valid_date y mo d" "0 \<le> h" "h < 24" "0 \<le> mi" "mi < 60"
  shows "wallClock t z = \<lparr>wc_y = y, wc_mo = mo, wc_d = d, wc_h = h, wc_mi = mi, wc_s = 0, wc_dow = (day_of y mo d + 4) mod 7\<rparr>"
  using clock_of_local_second [OF assms(2-6), of 0] by (simp add: wallClock_clock_of assms(1))

lemma days_2026: "make_day 2026 10 1 = 20758" "make_day 2026 3 5 = 20548" "make_day 2026 6 1 = 20635"
  "valid_date 2026 11 1" "valid_date 2026 4 5" "valid_date 2026 7 1"
  by (simp_all add: make_day_def day_from_year_def leap_year_def month_starts_def Let_def numeral_nat
      valid_date_def month_length_def)

section \<open>The first matching minute\<close>

text \<open>
  C19: Where a zone changes no clock from two days before \<open>fromMs\<close> until two days after \<open>t\<close>, \<open>nextRun\<close> returns \<open>t\<close>
  when \<open>t\<close> is the first minute after \<open>fromMs\<close> whose wall clock matches the expression: the jumps over months, days, hours and
  minutes pass over no match, and the iteration limit is never reached when \<open>t\<close> is less than 10000 days away.
\<close>

theorem next_run_is_first_match:
  assumes "parseCron expr = Inr cron" "steady_between z c a b"
    and "a + 172800 \<le> fromMs div 1000" "t div 1000 + 172800 \<le> b" "t - fromMs \<le> 10000 * 86400000"
    and "fromMs < t" "t mod 60000 = 0" "cron_matches cron (wallClock t z)"
    and "\<forall>u. fromMs < u \<and> u < t \<and> u mod 60000 = 0 \<longrightarrow> \<not> cron_matches cron (wallClock u z)"
  shows "nextRun expr fromMs z = Inr t"
  by (rule steady_zone.nextRun_reaches [OF assms(2) [folded steady_zone_iff] assms(1,8,7,6) _ assms(3,4,5)])
    (rule assms(9) [rule_format], intro conjI)

lemma next_run_is_first_match_witness:
  "nextRun (js ''*/5 * * * *'') 1782921840000 new_york_2026 = Inr 1782921900000"
proof -
  have w: "wallClock 1782921900000 new_york_2026
      = \<lparr>wc_y = 2026, wc_mo = 7, wc_d = 1, wc_h = 12, wc_mi = 5, wc_s = 0, wc_dow = 3\<rparr>"
    by (subst wallClock_shows [where y = 2026 and mo = 7 and d = 1 and h = 12])
      (simp_all add: new_york_2026_def local_second_def days_2026)
  have u: "\<forall>u. 1782921840000 < u \<and> u < 1782921900000 \<and> u mod 60000 = (0 :: int)
      \<longrightarrow> \<not> cron_matches (minutes_only (js ''*/5 * * * *'') [0, 5, 10, 15, 20, 25, 30, 35, 40, 45, 50, 55]) (wallClock u new_york_2026)"
  proof (intro allI impI, elim conjE)
    fix u :: int
    assume u: "1782921840000 < u" "u < 1782921900000" "u mod 60000 = 0"
    from u(3) obtain q where "u = 60000 * q" by (auto elim: dvdE)
    with u(1,2) show "\<not> cron_matches (minutes_only (js ''*/5 * * * *'') [0, 5, 10, 15, 20, 25, 30, 35, 40, 45, 50, 55]) (wallClock u new_york_2026)"
      by simp
  qed
  have s: "steady_between new_york_2026 (-14400) 1772953200 1793512799"
    by (simp add: steady_between_def new_york_2026_def)
  show ?thesis
    by (rule next_run_is_first_match [OF parse_every_fifth s _ _ _ _ _ _ u])
      (simp_all add: w cron_matches_def minutes_only_def matchesDay_def upto.simps)
qed

lemma nextRun_matches:
  assumes "parseCron expr = Inr cron" "nextRun expr fromMs z = Inr t"
  shows "cron_matches cron (wallClock t z)"
  using assms walk_loop_sound by (auto simp: nextRun_def)

section \<open>Expressions that never fire\<close>

text \<open>
  An expression can fire when no field is empty and some day exists: a day of the week, or a day of
  the month that one of the months has, in a leap year if need be.
\<close>

definition some_date :: "parsed_cron \<Rightarrow> bool" where
  "some_date cron \<longleftrightarrow> (\<exists>mo \<in> set (pc_month cron). \<exists>d \<in> set (pc_dayOfMonth cron). d \<le> month_length 2000 mo)"

definition can_fire :: "parsed_cron \<Rightarrow> bool" where
  "can_fire cron \<longleftrightarrow> pc_minute cron \<noteq> [] \<and> pc_hour cron \<noteq> [] \<and> pc_month cron \<noteq> []
     \<and> (if pc_domRestricted cron \<and> pc_dowRestricted cron then some_date cron \<or> pc_dayOfWeek cron \<noteq> []
        else if pc_domRestricted cron then some_date cron
        else pc_dowRestricted cron \<longrightarrow> pc_dayOfWeek cron \<noteq> [])"

lemma month_length_leap: "month_length y mo \<le> month_length 2000 mo"
  "leap_year y \<Longrightarrow> month_length y mo = month_length 2000 mo"
  by (simp_all add: month_length_def leap_year_def)

lemma match_can_fire:
  assumes "cron_matches cron (wallClock t z)"
  shows "can_fire cron"
proof -
  obtain l where l: "wallClock t z = clock_of l" using wallClock_clock_of by blast
  have "wc_d (clock_of l) \<le> month_length 2000 (wc_mo (clock_of l))"
    using clock_of_sel(1) [of l] month_length_leap(1) [of "wc_y (clock_of l)" "wc_mo (clock_of l)"]
    by (simp add: valid_date_def)
  with assms show ?thesis
    by (auto simp: l cron_matches_def matchesDay_def can_fire_def some_date_def Let_def split: if_splits)
qed

lemma leap_year_near: obtains y' where "y < y'" "y' \<le> y + 8" "leap_year y'"
proof -
  define q where "q = (y div 4 + 1) * 4"
  have q: "y < q" "q \<le> y + 4" "q mod 4 = 0"
    using div_bounds [of 4 y] by (simp_all add: q_def)
  show ?thesis
  proof (cases "q mod 100 = 0")
    case True
    then obtain k where "q = 100 * k" by (auto elim: dvdE)
    then have "(q + 4) mod 100 = 4" by simp
    moreover have "(q + 4) mod 4 = 0" using q(3) by simp
    ultimately show ?thesis using that [of "q + 4"] q(1,2) by (simp add: leap_year_def)
  next
    case False
    then show ?thesis using that [of q] q by (simp add: leap_year_def)
  qed
qed

lemma day_from_year_span: "day_from_year (y + int n) \<le> day_from_year y + 366 * int n"
proof (induction n)
  case (Suc n)
  have "day_from_year (y + int n + 1) \<le> day_from_year (y + int n) + 366"
    by (simp add: day_from_year_Suc)
  with Suc show ?case by (simp add: algebra_simps)
qed simp

text \<open>A date of a leap year that an expression matches.\<close>

lemma matching_date:
  assumes "can_fire cron" "cron_fields_ok cron" "leap_year y"
  obtains mo d where "valid_date y mo d" "mo \<in> set (pc_month cron)"
    "\<And>w. wc_d w = d \<Longrightarrow> wc_dow w = (day_of y mo d + 4) mod 7 \<Longrightarrow> matchesDay cron w"
proof -
  obtain m0 where m0: "m0 \<in> set (pc_month cron)" "1 \<le> m0" "m0 \<le> 12"
    using assms(1,2) by (cases "pc_month cron") (auto simp: can_fire_def cron_fields_ok_def)
  consider (dom) "pc_domRestricted cron" "some_date cron"
    | (dow) "pc_dowRestricted cron" "pc_dayOfWeek cron \<noteq> []"
    | (any) "\<not> pc_domRestricted cron" "\<not> pc_dowRestricted cron"
    using assms(1) by (auto simp: can_fire_def split: if_splits)
  then show ?thesis
  proof cases
    case dom
    then obtain mo d where "mo \<in> set (pc_month cron)" "d \<in> set (pc_dayOfMonth cron)" "d \<le> month_length 2000 mo"
      by (auto simp: some_date_def)
    with dom assms(2,3) month_length_leap(2) [of y mo] show ?thesis
      by (intro that [of mo d]) (auto simp: valid_date_def cron_fields_ok_def matchesDay_def Let_def)
  next
    case dow
    then obtain n where n: "n \<in> set (pc_dayOfWeek cron)" "0 \<le> n" "n < 7"
      using assms(2) by (cases "pc_dayOfWeek cron") (auto simp: cron_fields_ok_def)
    define d where "d = 1 + (n - (day_of y m0 1 + 4)) mod 7"
    have d: "1 \<le> d" "d \<le> 7" by (simp_all add: d_def)
    have e: "day_of y m0 d + 4 = day_of y m0 1 + 4 + (n - (day_of y m0 1 + 4)) mod 7"
      using m0 by (simp add: day_of_month d_def)
    have "(day_of y m0 d + 4) mod 7 = n"
      unfolding e mod_add_right_eq using n by simp
    with dow n d m0 month_length_bounds [of y m0] show ?thesis
      by (intro that [of m0 d]) (auto simp: valid_date_def matchesDay_def Let_def)
  next
    case any
    with m0 month_length_bounds [of y m0] show ?thesis
      by (intro that [of m0 1]) (auto simp: valid_date_def matchesDay_def Let_def)
  qed
qed

lemma match_near:
  assumes "can_fire cron" "cron_fields_ok cron"
  obtains t where "l < t" "t mod 60 = 0" "t \<le> l + 3296 * 86400" "cron_matches cron (clock_of t)"
proof -
  define y where "y = wc_y (clock_of l)"
  obtain y' where y': "y < y'" "y' \<le> y + 8" "leap_year y'" by (rule leap_year_near)
  obtain mo d where date: "valid_date y' mo d" "mo \<in> set (pc_month cron)"
    "\<And>w. wc_d w = d \<Longrightarrow> wc_dow w = (day_of y' mo d + 4) mod 7 \<Longrightarrow> matchesDay cron w"
    using matching_date [OF assms y'(3)] by blast
  obtain h mi where hm: "h \<in> set (pc_hour cron)" "mi \<in> set (pc_minute cron)" "0 \<le> h" "h < 24" "0 \<le> mi" "mi < 60"
    using assms by (cases "pc_hour cron"; cases "pc_minute cron") (auto simp: can_fire_def cron_fields_ok_def)
  define t where "t = local_second y' mo d h mi 0"
  have c: "clock_of t = \<lparr>wc_y = y', wc_mo = mo, wc_d = d, wc_h = h, wc_mi = mi, wc_s = 0, wc_dow = (day_of y' mo d + 4) mod 7\<rparr>"
    unfolding t_def using date(1) hm by (intro clock_of_local_second) simp_all
  have "matchesDay cron (clock_of t)" by (rule date(3)) (simp_all add: c)
  then have m: "cron_matches cron (clock_of t)"
    using date(2) hm by (simp add: cron_matches_def c)
  have vl: "valid_date y (wc_mo (clock_of l)) (wc_d (clock_of l))" and dl: "day_of y (wc_mo (clock_of l)) (wc_d (clock_of l)) = l div 86400"
    unfolding y_def by (rule clock_of_sel)+
  have lo: "l div 86400 < day_of y' mo d" using day_of_less_year [OF vl date(1) y'(1)] by (simp add: dl)
  have "day_of y' mo d < day_from_year (y' + 1)" using day_of_in_year [OF date(1)] by simp
  also have "\<dots> \<le> day_from_year (y + int 9 )"
    using day_from_year_strict_mono [of y' "y + 9"] y'(2) by simp
  also have "\<dots> \<le> day_from_year y + 3294" using day_from_year_span [of y 9] by simp
  also have "\<dots> \<le> l div 86400 + 3294" using day_of_in_year [OF vl] by (simp add: dl)
  finally have hi: "day_of y' mo d < l div 86400 + 3294" .
  have "t mod 60 = 0" by (simp add: t_def local_second_def)
  moreover have "l < t" using lo hm div_bounds [of 86400 l] by (simp add: t_def local_second_def)
  moreover have "t \<le> l + 3296 * 86400"
    using hi hm div_bounds [of 86400 l] by (simp add: t_def local_second_def)
  ultimately show ?thesis by (intro that [of t] m)
qed

lemma first_match:
  fixes f u :: int
  assumes "P u" "f < u"
  obtains t where "P t" "f < t" "t \<le> u" "\<forall>v. f < v \<and> v < t \<longrightarrow> \<not> P v"
proof -
  define S where "S = {v. f < v \<and> v \<le> u \<and> P v}"
  have f: "finite S" by (rule finite_subset [of _ "{f .. u}"]) (auto simp: S_def)
  have u: "u \<in> S" using assms by (simp add: S_def)
  with f have m: "Min S \<in> S" by (intro Min_in) auto
  have "\<not> P v" if v: "f < v" "v < Min S" for v
  proof
    assume "P v"
    have "v \<le> u" using v(2) Min_le [OF f u] by simp
    with v(1) \<open>P v\<close> have "v \<in> S" by (simp add: S_def)
    from Min_le [OF f this] v(2) show False by simp
  qed
  then have first: "\<forall>v. f < v \<and> v < Min S \<longrightarrow> \<not> P v" by (intro allI impI) (elim conjE)
  have "f < x \<and> x \<le> u \<and> P x" if "x \<in> S" for x using that by (simp add: S_def)
  from this [OF m] show ?thesis by (elim conjE) (rule that [OF _ _ _ first])
qed

text \<open>
  C20: At a fixed offset \<open>nextRun\<close> returns an instant exactly for the expressions that can fire, whatever the
  instant to start from (February 29 included, for which it may walk over eight years): its iteration limit is never
  the reason for a failure.
\<close>

theorem next_run_returns:
  assumes "parseCron expr = Inr cron" "\<bar>c\<bar> < 57600" "c mod 60 = 0" "172800000 \<le> fromMs"
  shows "(\<exists>t. nextRun expr fromMs (fixed_zone c) = Inr t) \<longleftrightarrow> can_fire cron"
proof
  assume "\<exists>t. nextRun expr fromMs (fixed_zone c) = Inr t"
  with nextRun_matches [OF assms(1)] match_can_fire show "can_fire cron" by blast
next
  assume fire: "can_fire cron"
  define P where "P u \<longleftrightarrow> u mod 60000 = 0 \<and> cron_matches cron (wallClock u (fixed_zone c))" for u
  obtain l where l: "fromMs div 1000 + c < l" "l mod 60 = 0" "l \<le> fromMs div 1000 + c + 3296 * 86400"
    "cron_matches cron (clock_of l)"
    using match_near [OF fire parseCron_fields [OF assms(1)]] by blast
  have "60 dvd l - c" using l(2) assms(3) by (auto simp: mod_eq_0_iff_dvd intro: dvd_diff)
  then obtain q where q: "l - c = 60 * q" by (rule dvdE)
  have "wallClock ((l - c) * 1000) (fixed_zone c) = clock_of l"
    by (simp add: wallClock_clock_of fixed_zone_def)
  with l(4) have p: "P ((l - c) * 1000)" by (simp add: P_def q)
  have f: "fromMs < (l - c) * 1000" "(l - c) * 1000 \<le> fromMs + 3297 * 86400000"
    using l(1,3) div_bounds [of 1000 fromMs] by simp_all
  obtain t where t: "P t" "fromMs < t" "t \<le> (l - c) * 1000" "\<forall>v. fromMs < v \<and> v < t \<longrightarrow> \<not> P v"
    by (rule first_match [where P = P, OF p f(1)])
  have "172800 \<le> fromMs div 1000" using assms(4) zdiv_mono1 [of 172800000 fromMs 1000] by simp
  then have "nextRun expr fromMs (fixed_zone c) = Inr t"
    using t f assms(2,3)
    by (intro next_run_is_first_match [OF assms(1), of _ c 0 "t div 1000 + 172800"] steady_fixed_zone)
      (auto simp: P_def)
  then show "\<exists>t. nextRun expr fromMs (fixed_zone c) = Inr t" ..
qed

lemma next_run_returns_witness:
  "\<exists>t. nextRun (js ''*/5 * * * *'') 1782921840000 (fixed_zone 28800) = Inr t"
  using next_run_returns [OF parse_every_fifth, of 28800 1782921840000]
  by (simp add: can_fire_def minutes_only_def)

end
