(* ===== verification/ClockChange.thy ===== *)
theory ClockChange
  imports CivilTime
begin

text \<open>
  How \<open>fromWallClock\<close> of \<open>cron.ts\<close> turns a wall clock into an instant around a change of the clocks: a time
  shown twice is taken at its later occurrence, and a time that is never shown is taken after the change.
\<close>

section \<open>A change of the clocks\<close>

text \<open>
  From second \<open>a\<close> to second \<open>b\<close> the zone changes its offset once, at \<open>change\<close>, from \<open>c1\<close> to \<open>c2\<close>, and sets
  no clock back by more than an hour.
\<close>

definition one_change :: "host_zone \<Rightarrow> int \<Rightarrow> int \<Rightarrow> int \<Rightarrow> int \<Rightarrow> int \<Rightarrow> bool" where
  "one_change z change c1 c2 a b \<longleftrightarrow> 0 \<le> a \<and> \<bar>c1\<bar> < 57600 \<and> \<bar>c2\<bar> < 57600 \<and> c1 mod 60 = 0 \<and> c2 mod 60 = 0
     \<and> c1 - c2 \<le> 3600 \<and> (\<forall>s. a \<le> s \<and> s \<le> b \<longrightarrow> hz_offset z s = (if s < change then c1 else c2))"

lemma wallClockEquals_iff:
  assumes "valid_date y mo d" "0 \<le> h" "h < 24" "0 \<le> mi" "mi < 60"
    and "(s + hz_offset z s) mod 60 = 0"
  shows "wallClockEquals (s * 1000) y mo d h mi z \<longleftrightarrow> s + hz_offset z s = local_second y mo d h mi 0"
proof -
  define l where "l = s + hz_offset z s"
  have w: "wallClock (s * 1000) z = clock_of l" by (simp add: wallClock_clock_of l_def)
  have z: "wc_s (clock_of l) = 0" using assms(6) by (simp add: clock_of_sel l_def)
  have "wc_y (clock_of l) = y \<and> wc_mo (clock_of l) = mo \<and> wc_d (clock_of l) = d \<and> wc_h (clock_of l) = h
      \<and> wc_mi (clock_of l) = mi \<longleftrightarrow> l = local_second y mo d h mi 0"
    using local_second_clock_of [of l] clock_of_local_second [OF assms(1-5), of 0] z by auto
  then show ?thesis
    by (simp add: wallClockEquals_def w l_def [symmetric] Let_def)
qed

lemma from_wall_clock_change:
  assumes "one_change z change c1 c2 a b" "valid_date y mo d" and r: "0 \<le> h" "h < 24" "0 \<le> mi" "mi < 60"
    and l: "l = local_second y mo d h mi 0" "a + 172800 \<le> l" "l + 172800 \<le> b"
  shows "fromWallClock y mo d h mi z = (if change \<le> l - c2 then l - c2 else l - c1) * 1000"
proof -
  from assms(1) have a: "0 \<le> a" and c: "\<bar>c1\<bar> < 57600" "\<bar>c2\<bar> < 57600" "c1 mod 60 = 0" "c2 mod 60 = 0" "c1 - c2 \<le> 3600"
    by (simp_all add: one_change_def)
  define off where "off s = (if s < change then c1 else c2)" for s
  have o: "hz_offset z s = off s" if "a \<le> s" "s \<le> b" for s
    using assms(1) that by (simp add: one_change_def off_def)
  have off2: "off s = c1 \<or> off s = c2" for s by (simp add: off_def)
  have ob: "\<bar>off s\<bar> < 57600" for s using c by (simp add: off_def)
  have om: "off s mod 60 = 0" for s using c by (simp add: off_def)
  have d: "l div 86400 = day_of y mo d"
    unfolding l(1) local_second_def using time_of_day_divs(1) [OF r, of 0] by simp
  have "-1 \<le> day_of y mo d" using a l(2) div_bounds [of 86400 l] d by simp
  from Date_UTC_local_second [OF assms(2) this]
  have g: "Date_UTC y (mo - 1) d h mi 0 = l * 1000" by (simp add: l(1))
  have tz: "tzOffsetMs (s * 1000) z = off s * 1000" if "l - 86400 \<le> s" "s \<le> l + 86400" for s
    using tzOffsetMs_offset [of "s * 1000" z] o [of s] ob [of s] that l a by simp
  have lm: "l mod 60 = 0" by (simp add: l(1) local_second_def)
  have eq: "wallClockEquals ((l - k) * 1000) y mo d h mi z \<longleftrightarrow> off (l - k) = k" if "\<bar>k\<bar> < 57600" "k mod 60 = 0" for k
  proof -
    have "60 dvd l - k + off (l - k)"
      using lm om [of "l - k"] that(2) by (auto simp: mod_eq_0_iff_dvd intro: dvd_diff dvd_add)
    then have "(l - k + hz_offset z (l - k)) mod 60 = 0"
      using o [of "l - k"] that(1) l(2,3) by (simp add: mod_eq_0_iff_dvd)
    from wallClockEquals_iff [OF assms(2) r this] show ?thesis
      using o [of "l - k"] that(1) l(2,3) by (auto simp: l(1) [symmetric])
  qed
  have "fromWallClock y mo d h mi z = (let off1 = off l; off2 = off (l - off1) in
      if off2 = off1 then (if off (l - off1 + 3600) \<noteq> off1 \<and> off (l - off (l - off1 + 3600)) = off (l - off1 + 3600)
          then l - off (l - off1 + 3600) else l - off1)
      else if off (l - off2) = off2 then l - off2 else l - min off1 off2) * 1000"
  proof -
    have t1: "tzOffsetMs (l * 1000) z = off l * 1000" by (rule tz) simp_all
    have c1: "l * 1000 - off s * 1000 = (l - off s) * 1000" for s by (simp add: algebra_simps)
    have t2: "tzOffsetMs ((l - off s) * 1000) z = off (l - off s) * 1000" for s
      using ob [of s] by (intro tz) simp_all
    have c2: "(l - off s) * 1000 + 3600000 = (l - off s + 3600) * 1000" for s by simp
    have t3: "tzOffsetMs ((l - off s + 3600) * 1000) z = off (l - off s + 3600) * 1000" for s
      using ob [of s] by (intro tz) simp_all
    have e: "wallClockEquals ((l - off s) * 1000) y mo d h mi z \<longleftrightarrow> off (l - off s) = off s" for s
      by (rule eq [OF ob om])
    have m: "l * 1000 - min (off s * 1000) (off s' * 1000) = (l - min (off s) (off s')) * 1000" for s s'
      by (simp add: min_def algebra_simps)
    show ?thesis
      unfolding fromWallClock_def Let_def g t1 c1 t2 c2 t3 e m by simp
  qed
  also have "\<dots> = (if change \<le> l - c2 then l - c2 else l - c1) * 1000"
    using c(5) by (auto simp: Let_def off_def min_def)
  finally show ?thesis .
qed

text \<open>
  C27: Around one change of the clocks, forward or at most an hour back, \<open>fromWallClock\<close> returns the last instant at
  which the clocks show the given time; when they never show it, the result lies after the change, by no more than what the
  clocks were put forward.
\<close>

theorem repeated_and_missing_times:
  assumes "one_change z change c1 c2 a b" "valid_date y mo d" "0 \<le> h" "h < 24" "0 \<le> mi" "mi < 60"
    and "l = local_second y mo d h mi 0" "a + 172800 \<le> l" "l + 172800 \<le> b"
  shows "\<exists>r. fromWallClock y mo d h mi z = r * 1000 \<and>
    (if \<exists>s. a \<le> s \<and> s \<le> b \<and> s + hz_offset z s = l
     then r + hz_offset z r = l \<and> (\<forall>s. a \<le> s \<and> s \<le> b \<and> s + hz_offset z s = l \<longrightarrow> s \<le> r)
     else change \<le> r \<and> r < change + (c2 - c1))"
proof -
  define r where "r = (if change \<le> l - c2 then l - c2 else l - c1)"
  have f: "fromWallClock y mo d h mi z = r * 1000"
    using from_wall_clock_change [OF assms] by (simp add: r_def)
  have o: "hz_offset z s = (if s < change then c1 else c2)" if "a \<le> s" "s \<le> b" for s
    using assms(1) that by (simp add: one_change_def)
  have small: "\<bar>c1\<bar> < 57600" "\<bar>c2\<bar> < 57600" using assms(1) by (simp_all add: one_change_def)
  have rb: "a \<le> r" "r \<le> b" using small assms(8,9) by (auto simp: r_def)
  have le: "s \<le> r" if "a \<le> s" "s \<le> b" "s + hz_offset z s = l" for s
    using that(3) o [OF that(1,2)] by (auto simp: r_def split: if_splits)
  show ?thesis
  proof (cases "\<exists>s. a \<le> s \<and> s \<le> b \<and> s + hz_offset z s = l")
    case True
    then obtain s where s: "a \<le> s" "s \<le> b" "s + hz_offset z s = l" by blast
    have "r + hz_offset z r = l"
      using s(3) o [OF s(1,2)] o [OF rb] by (auto simp: r_def split: if_splits)
    with True f le show ?thesis by auto
  next
    case False
    then have no: "s + hz_offset z s \<noteq> l" if "a \<le> s" "s \<le> b" for s using that by blast
    have "\<not> change \<le> l - c2"
      using no [OF rb] o [OF rb] by (auto simp: r_def)
    moreover from this have "r = l - c1" by (simp add: r_def)
    ultimately have "change \<le> r \<and> r < change + (c2 - c1)"
      using no [OF rb] o [OF rb] by (auto split: if_splits)
    with False f show ?thesis by auto
  qed
qed

lemma repeated_and_missing_times_witness:
  "\<exists>r. fromWallClock 2026 11 1 1 30 new_york_2026 = r * 1000
    \<and> r + hz_offset new_york_2026 r = 1793496600 \<and> 1793514600 \<le> r"
proof -
  have c: "one_change new_york_2026 1793512800 (-14400) (-18000) 1772953200 1800000000"
    by (simp add: one_change_def new_york_2026_def)
  have v: "valid_date 2026 11 1" by (simp add: valid_date_def month_length_def)
  have l: "1793496600 = local_second 2026 11 1 1 30 0"
    by (simp add: local_second_def make_day_def day_from_year_def leap_year_def month_starts_def Let_def numeral_nat)
  have s: "1772953200 \<le> (1793514600 :: int) \<and> (1793514600 :: int) \<le> 1800000000
      \<and> 1793514600 + hz_offset new_york_2026 1793514600 = 1793496600"
    by (simp add: new_york_2026_def)
  then have e: "\<exists>s. 1772953200 \<le> s \<and> s \<le> 1800000000 \<and> s + hz_offset new_york_2026 s = 1793496600" by blast
  obtain r where "fromWallClock 2026 11 1 1 30 new_york_2026 = r * 1000" "r + hz_offset new_york_2026 r = 1793496600"
    "\<forall>s. 1772953200 \<le> s \<and> s \<le> 1800000000 \<and> s + hz_offset new_york_2026 s = 1793496600 \<longrightarrow> s \<le> r"
    using repeated_and_missing_times [OF c v _ _ _ _ l] e by auto
  with s show ?thesis by blast
qed

end
