(* ===== verification/CronChange.thy ===== *)
theory CronChange
  imports CronLaws ClockChange
begin

text \<open>
  \<open>nextRun\<close> across a change of the clocks. Where clocks go forward, or back by one hour, the walk always moves on, so its
  result lies in the future. Where they go back by half an hour it can walk back to an instant that has passed, and where a
  wall hour is shown twice it passes over the first one.
\<close>

section \<open>Progress\<close>

text \<open>A zone that from second \<open>a\<close> on changes its clocks once, forward or by one hour back.\<close>

definition hourly_change :: "host_zone \<Rightarrow> int \<Rightarrow> int \<Rightarrow> int \<Rightarrow> int \<Rightarrow> bool" where
  "hourly_change z change c1 c2 a \<longleftrightarrow> (\<forall>b. one_change z change c1 c2 a b) \<and> (c1 \<le> c2 \<or> c1 - c2 = 3600)"

locale clock_change =
  fixes z :: host_zone and change c1 c2 a :: int
  assumes changes_once: "one_change z change c1 c2 a b"
    and by_an_hour: "c1 \<le> c2 \<or> c1 - c2 = 3600"
begin

definition off :: "int \<Rightarrow> int" where
  "off s = (if s < change then c1 else c2)"

definition resolve :: "int \<Rightarrow> int" where
  "resolve l = (if change \<le> l - c2 then l - c2 else l - c1)"

lemma offsets_small: "\<bar>c1\<bar> < 57600" "\<bar>c2\<bar> < 57600"
  using changes_once [of 0] by (simp_all add: one_change_def)

lemma wall_clock:
  assumes "a \<le> s"
  shows "wallClock (s * 1000) z = clock_of (s + off s)"
  using changes_once [of s] assms by (simp add: wallClock_clock_of one_change_def off_def)

lemma from_day_time:
  assumes "0 \<le> h" "h < 24" "0 \<le> mi" "mi < 60" "a + 172800 \<le> l div 86400 * 86400"
  shows "fromWallClock (wc_y (clock_of l)) (wc_mo (clock_of l)) (wc_d (clock_of l)) h mi z
    = resolve (l div 86400 * 86400 + h * 3600 + mi * 60) * 1000"
  unfolding resolve_def
proof (rule from_wall_clock_change [OF _ clock_of_sel(1) assms(1-4)])
  show "one_change z change c1 c2 a (l + 400000)" by (rule changes_once)
qed (use assms div_bounds [of 86400 l] in \<open>simp_all add: local_second_def clock_of_sel(2)\<close>)

lemma resolve_ge: "l - 57600 \<le> resolve l"
  using offsets_small unfolding resolve_def abs_less_iff by simp

lemma resolve_later: "s + off s < l \<Longrightarrow> s < resolve l"
  by (auto simp: off_def resolve_def split: if_splits)

lemma resolve_day: "l + 86400 \<le> resolve l + 93600 + off (resolve l + 93600)"
  using by_an_hour by (auto simp: off_def resolve_def)

lemma resolve_hour: "l + 3600 \<le> resolve l + 3600 + off (resolve l + 3600)"
  using by_an_hour by (auto simp: off_def resolve_def)

text \<open>The two clocks from which a move into the next day or hour starts.\<close>

lemma tomorrow:
  assumes "a + 172800 \<le> l div 86400 * 86400"
  obtains l2 where "wallClock (fromWallClock (wc_y (clock_of l)) (wc_mo (clock_of l)) (wc_d (clock_of l)) 0 0 z
    + 26 * 3600 * 1000) z = clock_of l2" "l div 86400 * 86400 + 86400 \<le> l2 div 86400 * 86400"
proof -
  define s where "s = resolve (l div 86400 * 86400) + 93600"
  have "fromWallClock (wc_y (clock_of l)) (wc_mo (clock_of l)) (wc_d (clock_of l)) 0 0 z + 26 * 3600 * 1000 = s * 1000"
    using from_day_time [of 0 0 l] assms by (simp add: s_def)
  moreover have "a \<le> s" using assms resolve_ge [of "l div 86400 * 86400"] by (simp add: s_def)
  ultimately have "wallClock (fromWallClock (wc_y (clock_of l)) (wc_mo (clock_of l)) (wc_d (clock_of l)) 0 0 z
      + 26 * 3600 * 1000) z = clock_of (s + off s)"
    using wall_clock [of s] by (simp only:)
  moreover have "l div 86400 * 86400 + 86400 \<le> (s + off s) div 86400 * 86400"
    using resolve_day [of "l div 86400 * 86400"] zdiv_mono1 [of "l div 86400 * 86400 + 86400" "s + off s" 86400]
    by (simp add: s_def)
  ultimately show ?thesis by (rule that)
qed

lemma next_hour:
  assumes "a + 172800 \<le> l div 86400 * 86400"
  obtains l2 where "wallClock (fromWallClock (wc_y (clock_of l)) (wc_mo (clock_of l)) (wc_d (clock_of l)) (wc_h (clock_of l)) 0 z
    + 3600000) z = clock_of l2" "l div 3600 * 3600 + 3600 \<le> l2 div 3600 * 3600"
proof -
  define s where "s = resolve (l div 3600 * 3600) + 3600"
  have h: "l div 3600 * 3600 = l div 86400 * 86400 + wc_h (clock_of l) * 3600"
    using hour_minute_divs(1) [of l] by simp
  have "fromWallClock (wc_y (clock_of l)) (wc_mo (clock_of l)) (wc_d (clock_of l)) (wc_h (clock_of l)) 0 z + 3600000 = s * 1000"
    using from_day_time [of "wc_h (clock_of l)" 0 l] clock_of_ranges(1,2) [of l] assms by (simp add: s_def h)
  moreover have "a \<le> s" using assms resolve_ge [of "l div 3600 * 3600"] clock_of_ranges(1) [of l] by (simp add: s_def h)
  ultimately have "wallClock (fromWallClock (wc_y (clock_of l)) (wc_mo (clock_of l)) (wc_d (clock_of l)) (wc_h (clock_of l)) 0 z
      + 3600000) z = clock_of (s + off s)"
    using wall_clock [of s] by (simp only:)
  moreover have "l div 3600 * 3600 + 3600 \<le> (s + off s) div 3600 * 3600"
    using resolve_hour [of "l div 3600 * 3600"] zdiv_mono1 [of "l div 3600 * 3600 + 3600" "s + off s" 3600]
    by (simp add: s_def)
  ultimately show ?thesis by (rule that)
qed

lemma walk_progress:
  assumes ok: "cron_fields_ok cron" and s: "a + 345600 \<le> s" and move: "walk cron z (s * 1000) = MoveTo u"
  shows "\<exists>s' > s. u = s' * 1000"
proof -
  define l where "l = s + off s"
  have wl: "wallClock (s * 1000) z = clock_of l" using wall_clock [of s] s by (simp add: l_def)
  have ld: "a + 172800 \<le> l div 86400 * 86400"
    using s offsets_small div_bounds [of 86400 l] by (auto simp: l_def off_def)
  have later_local: ?thesis if "u = resolve k * 1000" "l < k" for k
    using that resolve_later [of s k] by (auto simp: l_def)
  have "walk cron z (s * 1000) \<noteq> Fire" by (simp add: move)
  then have no: "\<not> cron_matches cron (clock_of l)" unfolding walk_Fire wl .
  consider (month) "wc_mo (clock_of l) \<notin> set (pc_month cron)"
    | (day) "wc_mo (clock_of l) \<in> set (pc_month cron)" "\<not> matchesDay cron (clock_of l)"
    | (hour) "wc_mo (clock_of l) \<in> set (pc_month cron)" "matchesDay cron (clock_of l)" "wc_h (clock_of l) \<notin> set (pc_hour cron)"
    | (minute) "wc_mo (clock_of l) \<in> set (pc_month cron)" "matchesDay cron (clock_of l)"
        "wc_h (clock_of l) \<in> set (pc_hour cron)" "wc_mi (clock_of l) \<notin> set (pc_minute cron)"
    using no by (auto simp: cron_matches_def)
  then show ?thesis
  proof cases
    case month
    then obtain n where n: "nextOrWrap (pc_month cron) (wc_mo (clock_of l)) = Some n"
      using move by (cases "nextOrWrap (pc_month cron) (wc_mo (clock_of l))") (auto simp: walk_def wl)
    define y where "y = (if n \<le> wc_mo (clock_of l) then wc_y (clock_of l) + 1 else wc_y (clock_of l))"
    have m: "valid_date y n 1" "l div 86400 < day_of y n 1"
      using month_move_later [OF n _ _ month] ok by (auto simp: y_def cron_fields_ok_def)
    have "fromWallClock y n 1 0 0 z = resolve (day_of y n 1 * 86400) * 1000"
      unfolding resolve_def
    proof (rule from_wall_clock_change [OF _ m(1)])
      show "one_change z change c1 c2 a (day_of y n 1 * 86400 + 400000)" by (rule changes_once)
    qed (use ld m(2) in \<open>simp_all add: local_second_def\<close>)
    moreover have "u = fromWallClock y n 1 0 0 z"
      using move unfolding walk_def wl Let_def y_def using month n by simp
    moreover have "l < day_of y n 1 * 86400"
      using m(2) div_bounds [of 86400 l, THEN conjunct2] by linarith
    ultimately show ?thesis by (intro later_local) simp_all
  next
    case day
    obtain l2 where l2: "wallClock (fromWallClock (wc_y (clock_of l)) (wc_mo (clock_of l)) (wc_d (clock_of l)) 0 0 z
        + 26 * 3600 * 1000) z = clock_of l2" "l div 86400 * 86400 + 86400 \<le> l2 div 86400 * 86400"
      using tomorrow [OF ld] .
    have "u = fromWallClock (wc_y (clock_of l2)) (wc_mo (clock_of l2)) (wc_d (clock_of l2)) 0 0 z"
      using move unfolding walk_def wl Let_def l2(1) using day by simp
    with from_day_time [of 0 0 l2] l2(2) ld div_bounds [of 86400 l] show ?thesis
      by (intro later_local [of "l2 div 86400 * 86400"]) simp_all
  next
    case hour
    then obtain n where n: "nextOrWrap (pc_hour cron) (wc_h (clock_of l)) = Some n"
      using move by (cases "nextOrWrap (pc_hour cron) (wc_h (clock_of l))") (auto simp: walk_def wl)
    have hs: "sorted (pc_hour cron)" "\<forall>h \<in> set (pc_hour cron). 0 \<le> h \<and> h < 24" using ok by (simp_all add: cron_fields_ok_def)
    note later = hour_move_later [OF hs n]
    show ?thesis
    proof (cases "wc_h (clock_of l) < n")
      case True
      have "u = fromWallClock (wc_y (clock_of l)) (wc_mo (clock_of l)) (wc_d (clock_of l)) n 0 z"
        using move unfolding walk_def wl Let_def using hour n True by simp
      with from_day_time [of n 0 l] later ld True show ?thesis
        by (intro later_local [of "l div 86400 * 86400 + n * 3600"]) (simp_all add: digit_target_def clock_of_sel(3))
    next
      case False
      obtain l2 where l2: "wallClock (fromWallClock (wc_y (clock_of l)) (wc_mo (clock_of l)) (wc_d (clock_of l)) 0 0 z
          + 26 * 3600 * 1000) z = clock_of l2" "l div 86400 * 86400 + 86400 \<le> l2 div 86400 * 86400"
        using tomorrow [OF ld] .
      have "u = fromWallClock (wc_y (clock_of l2)) (wc_mo (clock_of l2)) (wc_d (clock_of l2)) n 0 z"
        using move unfolding walk_def wl Let_def l2(1) using hour n False by simp
      with from_day_time [of n 0 l2] later(1,2) l2(2) ld div_bounds [of 86400 l] show ?thesis
        by (intro later_local [of "l2 div 86400 * 86400 + n * 3600"]) simp_all
    qed
  next
    case minute
    then obtain n where n: "nextOrWrap (pc_minute cron) (wc_mi (clock_of l)) = Some n"
      using move by (cases "nextOrWrap (pc_minute cron) (wc_mi (clock_of l))") (auto simp: walk_def wl)
    have ms: "sorted (pc_minute cron)" "\<forall>m \<in> set (pc_minute cron). 0 \<le> m \<and> m < 60" using ok by (simp_all add: cron_fields_ok_def)
    note later = minute_move_later [OF ms n]
    have h: "k div 3600 * 3600 = k div 86400 * 86400 + wc_h (clock_of k) * 3600" for k
      using hour_minute_divs(1) [of k] by simp
    show ?thesis
    proof (cases "wc_mi (clock_of l) < n")
      case True
      have "u = fromWallClock (wc_y (clock_of l)) (wc_mo (clock_of l)) (wc_d (clock_of l)) (wc_h (clock_of l)) n z"
        using move unfolding walk_def wl Let_def using minute n True by simp
      with from_day_time [of "wc_h (clock_of l)" n l] clock_of_ranges(1,2) [of l] later ld True show ?thesis
        by (intro later_local [of "l div 3600 * 3600 + n * 60"]) (simp_all add: digit_target_def clock_of_sel(4) h)
    next
      case False
      obtain l2 where l2: "wallClock (fromWallClock (wc_y (clock_of l)) (wc_mo (clock_of l)) (wc_d (clock_of l)) (wc_h (clock_of l)) 0 z
          + 3600000) z = clock_of l2" "l div 3600 * 3600 + 3600 \<le> l2 div 3600 * 3600"
        using next_hour [OF ld] .
      have ll: "l < l2 div 3600 * 3600"
        using l2(2) div_bounds [of 3600 l, THEN conjunct2] by linarith
      then have "l < l2" using div_bounds [of 3600 l2] by simp
      then have ld2: "a + 172800 \<le> l2 div 86400 * 86400"
        using ld zdiv_mono1 [of l l2 86400] by simp
      have "u = fromWallClock (wc_y (clock_of l2)) (wc_mo (clock_of l2)) (wc_d (clock_of l2)) (wc_h (clock_of l2)) n z"
        using move unfolding walk_def wl Let_def l2(1) using minute n False by simp
      with from_day_time [of "wc_h (clock_of l2)" n l2] clock_of_ranges(1,2) [of l2] later(1,2) ld2 ll
      show ?thesis
        by (intro later_local [of "l2 div 3600 * 3600 + n * 60"]) (simp_all add: h)
    qed
  qed
qed

lemma walk_loop_progress:
  assumes "cron_fields_ok cron"
  shows "a + 345600 \<le> s \<Longrightarrow> walk_loop n expr cron z (s * 1000) = Inr t \<Longrightarrow> s * 1000 \<le> t"
proof (induction n arbitrary: s)
  case (Suc n)
  show ?case
  proof (cases "walk cron z (s * 1000)")
    case Fire
    with Suc.prems show ?thesis by simp
  next
    case (MoveTo u)
    then obtain s' where s': "s < s'" "u = s' * 1000" using walk_progress [OF assms Suc.prems(1)] by blast
    with MoveTo Suc.prems have "walk_loop n expr cron z (s' * 1000) = Inr t" by simp
    with Suc.IH [of s'] Suc.prems(1) s'(1) show ?thesis by simp
  next
    case InvalidTimeValue
    with Suc.prems show ?thesis by simp
  qed
qed simp

lemma nextRun_future:
  assumes "a + 345600 \<le> fromMs div 1000" "nextRun expr fromMs z = Inr t"
  shows "fromMs < t"
proof -
  obtain cron where cron: "parseCron expr = Inr cron" and r: "walk_loop MAX_ITERATIONS expr cron z (next_minute fromMs) = Inr t"
    using assms(2) by (auto simp: nextRun_def split: sum.splits)
  define s where "s = (fromMs div 60000 + 1) * 60"
  have n: "next_minute fromMs = s * 1000" by (simp add: next_minute_def s_def)
  have f: "fromMs < s * 1000" using div_bounds [of 60000 fromMs] by (simp add: s_def)
  then have "a + 345600 \<le> s" using assms(1) div_bounds [of 1000 fromMs] by simp
  from walk_loop_progress [OF parseCron_fields [OF cron] this r [unfolded n]] f show ?thesis by simp
qed

end

text \<open>
  C21: Whatever \<open>nextRun\<close> returns lies after \<open>fromMs\<close>, also when the clocks are put forward or back by an
  hour in between: no jump of the walk leads back.
\<close>

theorem next_run_in_future:
  assumes "hourly_change z change c1 c2 a" "a + 345600 \<le> fromMs div 1000" "nextRun expr fromMs z = Inr t"
  shows "fromMs < t"
  by (rule clock_change.nextRun_future [OF clock_change.intro [of z change c1 c2 a] assms(2,3)])
    (use assms(1) in \<open>simp_all add: hourly_change_def\<close>)

text \<open>The change of November 1, 2026 in New York.\<close>

lemma new_york_change: "hourly_change new_york_2026 1793512800 (-14400) (-18000) 1772953200"
  by (simp add: hourly_change_def one_change_def new_york_2026_def)

interpretation autumn: clock_change new_york_2026 1793512800 "-14400" "-18000" 1772953200
  using new_york_change by (simp add: hourly_change_def clock_change_def)

lemma max_iterations: "MAX_ITERATIONS = Suc (Suc 527038)"
  by (simp add: MAX_ITERATIONS_def)

section \<open>Where the clocks are set back\<close>

text \<open>
  Every five minutes, at 1:10 on the morning of November 1, 2026: the next run is not five minutes
  later but an hour and five minutes later, at the second 1:15.
\<close>

lemma new_york_clocks:
  "wallClock 1793509860000 new_york_2026 = \<lparr>wc_y = 2026, wc_mo = 11, wc_d = 1, wc_h = 1, wc_mi = 11, wc_s = 0, wc_dow = 0\<rparr>"
  "wallClock 1793513700000 new_york_2026 = \<lparr>wc_y = 2026, wc_mo = 11, wc_d = 1, wc_h = 1, wc_mi = 15, wc_s = 0, wc_dow = 0\<rparr>"
  "wallClock 1793510100000 new_york_2026 = \<lparr>wc_y = 2026, wc_mo = 11, wc_d = 1, wc_h = 1, wc_mi = 15, wc_s = 0, wc_dow = 0\<rparr>"
  by (subst wallClock_shows [where y = 2026 and mo = 11 and d = 1 and h = 1],
      simp_all (no_asm_simp) add: new_york_2026_def local_second_def days_2026)+

lemma new_york_quarter: "fromWallClock 2026 11 1 1 15 new_york_2026 = 1793513700000"
proof -
  have "Date_UTC 2026 (11 - 1) 1 1 15 0 = 1793495700000" by (simp add: Date_UTC_def days_2026)
  moreover have "tzOffsetMs 1793495700000 new_york_2026 = -14400000" "tzOffsetMs 1793510100000 new_york_2026 = -14400000"
    "tzOffsetMs 1793513700000 new_york_2026 = -18000000"
    by (simp_all add: tzOffsetMs_offset new_york_2026_def)
  ultimately show ?thesis
    by (simp add: fromWallClock_def new_york_clocks wallClockEquals_def)
qed

lemma repeated_hour_skipped:
  "nextRun (js ''*/5 * * * *'') 1793509800000 new_york_2026 = Inr 1793513700000
    \<and> cron_matches (minutes_only (js ''*/5 * * * *'') [0, 5, 10, 15, 20, 25, 30, 35, 40, 45, 50, 55])
        (wallClock 1793510100000 new_york_2026)"
proof -
  have "walk (minutes_only (js ''*/5 * * * *'') [0, 5, 10, 15, 20, 25, 30, 35, 40, 45, 50, 55]) new_york_2026 1793509860000
      = MoveTo 1793513700000"
    unfolding walk_def new_york_clocks Let_def
    by (simp add: minutes_only_def matchesDay_def nextOrWrap_def upto.simps new_york_quarter)
  moreover have "walk (minutes_only (js ''*/5 * * * *'') [0, 5, 10, 15, 20, 25, 30, 35, 40, 45, 50, 55]) new_york_2026 1793513700000
      = Fire"
    unfolding walk_def new_york_clocks Let_def by (simp add: minutes_only_def matchesDay_def upto.simps)
  ultimately show ?thesis
    unfolding nextRun_def parse_every_fifth sum.case next_minute_def max_iterations walk_loop.simps
    by (simp add: new_york_clocks cron_matches_def minutes_only_def matchesDay_def upto.simps)
qed

lemma next_run_in_future_witness:
  "nextRun (js ''*/5 * * * *'') 1793509800000 new_york_2026 = Inr 1793513700000 \<and> (1793509800000 :: int) < 1793513700000"
  using next_run_in_future [OF new_york_change, of 1793509800000 "js ''*/5 * * * *''" 1793513700000] repeated_hour_skipped
  by simp

text \<open>The clocks of Lord Howe Island in 2026: on April 5 at 2:00 they are set back to 1:30.\<close>

definition lord_howe_2026 :: host_zone where
  "lord_howe_2026 = \<lparr>hz_offset = (\<lambda>s. if s < 1775314800 then 39600 else 37800), hz_midnight24 = False\<rparr>"

lemma lord_howe_clocks:
  "wallClock 1775312160000 lord_howe_2026 = \<lparr>wc_y = 2026, wc_mo = 4, wc_d = 5, wc_h = 1, wc_mi = 16, wc_s = 0, wc_dow = 0\<rparr>"
  "wallClock 1775314800000 lord_howe_2026 = \<lparr>wc_y = 2026, wc_mo = 4, wc_d = 5, wc_h = 1, wc_mi = 30, wc_s = 0, wc_dow = 0\<rparr>"
  "wallClock 1775312100000 lord_howe_2026 = \<lparr>wc_y = 2026, wc_mo = 4, wc_d = 5, wc_h = 1, wc_mi = 15, wc_s = 0, wc_dow = 0\<rparr>"
  "wallClock 1775311200000 lord_howe_2026 = \<lparr>wc_y = 2026, wc_mo = 4, wc_d = 5, wc_h = 1, wc_mi = 0, wc_s = 0, wc_dow = 0\<rparr>"
  by (subst wallClock_shows [where y = 2026 and mo = 4 and d = 5 and h = 1],
      simp_all (no_asm_simp) add: lord_howe_2026_def local_second_def days_2026)+

lemma lord_howe_change: "one_change lord_howe_2026 1775314800 39600 37800 0 b"
  by (simp add: one_change_def lord_howe_2026_def)

lemma lord_howe_hour:
  assumes "mi \<in> {0, 15}"
  shows "fromWallClock 2026 4 5 1 mi lord_howe_2026 = 1775311200000 + mi * 60000"
proof -
  have "local_second 2026 4 5 1 mi 0 = 1775350800 + mi * 60"
    by (simp add: local_second_def days_2026)
  then show ?thesis
    using from_wall_clock_change [OF lord_howe_change days_2026(5), of 1 mi "1775350800 + mi * 60" "1775350800 + mi * 60 + 172800"] assms
    by auto
qed

text \<open>
  C22: Where clocks go back by half an hour \<open>nextRun\<close> can return the instant it was asked about: on Lord
  Howe Island at 1:15, ``quarter past every hour'' is next due at 1:15. One hour after 1:00 the clocks show 1:30, so
  the jump into the next hour reads hour 1 again and goes back to its minute 15.
\<close>

theorem half_hour_change_not_future:
  "nextRun (js ''15 * * * *'') 1775312100000 lord_howe_2026 = Inr 1775312100000"
proof -
  have "walk (minutes_only (js ''15 * * * *'') [15]) lord_howe_2026 1775312160000 = MoveTo 1775312100000"
    unfolding walk_def lord_howe_clocks Let_def
    by (simp add: minutes_only_def matchesDay_def nextOrWrap_def upto.simps lord_howe_hour lord_howe_clocks)
  moreover have "walk (minutes_only (js ''15 * * * *'') [15]) lord_howe_2026 1775312100000 = Fire"
    unfolding walk_def lord_howe_clocks Let_def by (simp add: minutes_only_def matchesDay_def upto.simps)
  ultimately show ?thesis
    unfolding nextRun_def parse_quarter sum.case next_minute_def max_iterations walk_loop.simps by simp
qed

text \<open>
  C23: A first number beyond the range of the field is accepted when it has a step, and leaves an empty field: the expression
  parses, but no instant, zone or start makes it fire.
\<close>

theorem empty_field_accepted:
  "\<exists>cron. parseCron (js ''70/5 * * * *'') = Inr cron \<and> pc_minute cron = []
     \<and> (\<forall>fromMs z t. nextRun (js ''70/5 * * * *'') fromMs z \<noteq> Inr t)"
proof -
  have "\<not> can_fire (minutes_only (js ''70/5 * * * *'') [])" by (simp add: can_fire_def minutes_only_def)
  then have "nextRun (js ''70/5 * * * *'') fromMs z \<noteq> Inr t" for fromMs z t
    using nextRun_matches [OF parse_beyond] match_can_fire by blast
  with parse_beyond show ?thesis by (auto simp: minutes_only_def)
qed

end
