(* ===== verification/CronMonthly.thy ===== *)
theory CronMonthly
  imports CronChange
begin

text \<open>
  \<open>maker-scheduler/src/engine/monthlyClamp.ts\<close>: an expression that names one day of every month
  fires on the last day of a shorter month. The theorems show that between clock changes it fires
  exactly once a month, at the first such minute after the given instant.
\<close>

section \<open>The monthly preset\<close>

record monthly_preset =
  mp_minute :: int
  mp_hour :: int
  mp_day :: int

definition NUM :: "jsstring \<Rightarrow> bool" where
  "NUM s \<longleftrightarrow> s \<noteq> [] \<and> list_all is_digit s"

definition tryParseMonthlyPreset :: "jsstring \<Rightarrow> monthly_preset option" where
  "tryParseMonthlyPreset expr = (case split_space_runs (trim expr) of
     [mm, hh, dm, mon, dow] \<Rightarrow>
       (if mon \<noteq> js ''*'' \<or> dow \<noteq> js ''*'' then None
        else if \<not> NUM mm \<or> \<not> NUM hh \<or> \<not> NUM dm then None
        else (let minute = decimal_value mm; hour = decimal_value hh; day = decimal_value dm
          in if minute < 0 \<or> 59 < minute then None
             else if hour < 0 \<or> 23 < hour then None
             else if day < 1 \<or> 31 < day then None
             else Some \<lparr>mp_minute = minute, mp_hour = hour, mp_day = day\<rparr>))
   | _ \<Rightarrow> None)"

text \<open>\<open>new Date(Date.UTC(year, month, 0)).getUTCDate()\<close>: day \<open>0\<close> of the next month.\<close>

definition daysInMonth :: "int \<Rightarrow> int \<Rightarrow> int" where
  "daysInMonth year month = snd (snd (civil_of_day (Date_UTC year month 0 0 0 0 div 86400000)))"

datatype fire_error = NoCandidate int int | NoCronRun run_error

fun monthly_loop :: "nat \<Rightarrow> monthly_preset \<Rightarrow> int \<Rightarrow> int \<Rightarrow> host_zone \<Rightarrow> int \<Rightarrow> int \<Rightarrow> fire_error + int" where
  "monthly_loop 0 preset fromMs startMs tz y m = Inl (NoCandidate (mp_day preset) fromMs)"
| "monthly_loop (Suc i) preset fromMs startMs tz y m =
     (let actualDay = min (mp_day preset) (daysInMonth y m);
          candidate = fromWallClock y m actualDay (mp_hour preset) (mp_minute preset) tz
      in if startMs \<le> candidate then Inr candidate
         else if 12 < m + 1 then monthly_loop i preset fromMs startMs tz (y + 1) 1
         else monthly_loop i preset fromMs startMs tz y (m + 1))"

definition nextMonthlyFire :: "monthly_preset \<Rightarrow> int \<Rightarrow> host_zone \<Rightarrow> fire_error + int" where
  "nextMonthlyFire preset fromMs tz =
     (let startMs = next_minute fromMs; w = wallClock startMs tz
      in monthly_loop 13 preset fromMs startMs tz (wc_y w) (wc_mo w))"

definition nextCronOrMonthlyFire :: "jsstring \<Rightarrow> int \<Rightarrow> host_zone \<Rightarrow> fire_error + int" where
  "nextCronOrMonthlyFire expr fromMs tz = (case tryParseMonthlyPreset expr of
     Some preset \<Rightarrow> nextMonthlyFire preset fromMs tz
   | None \<Rightarrow> (case nextRun expr fromMs tz of Inl e \<Rightarrow> Inl (NoCronRun e) | Inr t \<Rightarrow> Inr t))"

section \<open>One instant a month\<close>

definition preset_ok :: "monthly_preset \<Rightarrow> bool" where
  "preset_ok p \<longleftrightarrow> 0 \<le> mp_minute p \<and> mp_minute p < 60 \<and> 0 \<le> mp_hour p \<and> mp_hour p < 24 \<and> 1 \<le> mp_day p \<and> mp_day p \<le> 31"

lemma tryParseMonthlyPreset_ok: "tryParseMonthlyPreset expr = Some p \<Longrightarrow> preset_ok p"
  by (auto simp: tryParseMonthlyPreset_def preset_ok_def Let_def split: list.splits if_splits)

text \<open>The clock shows the time of the preset on its day, or on the last day of a shorter month.\<close>

definition monthly_matches :: "monthly_preset \<Rightarrow> wall_clock \<Rightarrow> bool" where
  "monthly_matches p w \<longleftrightarrow> wc_d w = min (mp_day p) (month_length (wc_y w) (wc_mo w))
     \<and> wc_h w = mp_hour p \<and> wc_mi w = mp_minute p"

lemma daysInMonth_month_length:
  assumes "1969 \<le> y" "1 \<le> mo" "mo \<le> 12"
  shows "daysInMonth y mo = month_length y mo"
proof -
  have v: "valid_date y mo (month_length y mo)"
    using assms(2,3) month_length_bounds [of y mo] by (simp add: valid_date_def)
  have "make_day y mo 0 = day_of y mo (month_length y mo)"
  proof (cases "mo = 12")
    case True
    have "make_day y 12 0 = day_from_year (y + 1) - 1"
      by (simp add: make_day_def Let_def month_starts_def)
    then show ?thesis using True month_starts_last [of y] day_of_month [of 12 y "month_length y 12", simplified]
      by (simp add: day_from_year_Suc)
  next
    case False
    with assms have "mo < 12" by simp
    with assms month_starts_step [of mo y] show ?thesis
      by (simp add: make_day_def Let_def div_pos_pos_trivial mod_pos_pos_trivial)
  qed
  moreover have "Date_UTC y mo 0 0 0 0 div 86400000 = make_day y mo 0"
    using assms(1) by (simp add: Date_UTC_def)
  ultimately show ?thesis
    by (simp add: daysInMonth_def civil_of_day_of [OF v])
qed

text \<open>The local second of the preset in a month, and the month after.\<close>

definition monthly_second :: "monthly_preset \<Rightarrow> int \<Rightarrow> int \<Rightarrow> int" where
  "monthly_second p y mo = local_second y mo (min (mp_day p) (month_length y mo)) (mp_hour p) (mp_minute p) 0"

definition next_month :: "int \<Rightarrow> int \<Rightarrow> int \<times> int" where
  "next_month y mo = (if 12 < mo + 1 then (y + 1, 1) else (y, mo + 1))"

lemma preset_date:
  assumes "preset_ok p" "1 \<le> mo" "mo \<le> 12"
  shows "valid_date y mo (min (mp_day p) (month_length y mo))"
  using assms month_length_bounds [of y mo] by (auto simp: valid_date_def preset_ok_def)

lemma monthly_second_day:
  assumes "preset_ok p" "1 \<le> mo" "mo \<le> 12"
  shows "monthly_second p y mo div 86400 = day_of y mo (min (mp_day p) (month_length y mo))"
  unfolding monthly_second_def local_second_def
  using time_of_day_divs(1) [of "mp_hour p" "mp_minute p" 0] assms(1) by (simp add: preset_ok_def)

lemma monthly_matches_second:
  assumes "monthly_matches p (clock_of l)" "l mod 60 = 0"
  shows "l = monthly_second p (wc_y (clock_of l)) (wc_mo (clock_of l))"
  using local_second_clock_of [of l] assms by (simp add: monthly_second_def monthly_matches_def clock_of_sel(5))

lemma monthly_second_matches:
  assumes "preset_ok p" "1 \<le> mo" "mo \<le> 12"
  shows "monthly_matches p (clock_of (monthly_second p y mo))"
  using clock_of_local_second [OF preset_date [OF assms], of "mp_hour p" "mp_minute p" 0 y] assms(1)
  by (simp add: monthly_second_def monthly_matches_def preset_ok_def)

lemma monthly_second_less:
  assumes "preset_ok p" "1 \<le> mo" "mo \<le> 12" "1 \<le> mo'" "mo' \<le> 12" "y < y' \<or> y = y' \<and> mo < mo'"
  shows "monthly_second p y mo < monthly_second p y' mo'"
proof -
  have "day_of y mo (min (mp_day p) (month_length y mo)) < day_of y' mo' (min (mp_day p) (month_length y' mo'))"
    unfolding day_of_less_iff [OF preset_date [OF assms(1-3)] preset_date [OF assms(1,4,5)]] using assms(6) by auto
  then show ?thesis by (simp add: monthly_second_def local_second_def)
qed

text \<open>The months between a clock and the candidate of its month or the next.\<close>

lemma monthly_candidates:
  assumes p: "preset_ok p" and l: "l mod 60 = 0"
  defines "y \<equiv> wc_y (clock_of l)" and "mo \<equiv> wc_mo (clock_of l)"
  defines "n \<equiv> next_month y mo"
  shows "1 \<le> mo" "mo \<le> 12" "1 \<le> snd n" "snd n \<le> 12" "l < monthly_second p (fst n) (snd n)"
    "monthly_second p (fst n) (snd n) \<le> l + 63 * 86400" "l - 32 * 86400 \<le> monthly_second p y mo"
    "monthly_second p y mo \<le> l + 32 * 86400"
    "l \<le> k \<Longrightarrow> k mod 60 = 0 \<Longrightarrow> monthly_matches p (clock_of k) \<Longrightarrow>
      k = monthly_second p y mo \<or> monthly_second p (fst n) (snd n) \<le> k"
proof -
  have vl: "valid_date y mo (wc_d (clock_of l))" and dl: "day_of y mo (wc_d (clock_of l)) = l div 86400"
    unfolding y_def mo_def by (rule clock_of_sel)+
  from vl show mo: "1 \<le> mo" "mo \<le> 12" by (simp_all add: valid_date_def)
  then show n: "1 \<le> snd n" "snd n \<le> 12" by (simp_all add: n_def next_month_def)
  have later: "y < fst n \<or> y = fst n \<and> mo < snd n" by (simp add: n_def next_month_def)
  note dn = preset_date [OF p n, of "fst n"] and dm = preset_date [OF p mo, of y]
  have tod: "0 \<le> mp_hour p * 3600 + mp_minute p * 60" "mp_hour p * 3600 + mp_minute p * 60 < 86400"
    using p by (simp_all add: preset_ok_def)
  have lb: "l div 86400 * 86400 \<le> l" "l < l div 86400 * 86400 + 86400" using div_bounds [of 86400 l] by simp_all
  have "l div 86400 < day_of (fst n) (snd n) (min (mp_day p) (month_length (fst n) (snd n)))"
    unfolding dl [symmetric] day_of_less_iff [OF vl dn] using later by auto
  then show "l < monthly_second p (fst n) (snd n)" using lb tod by (simp add: monthly_second_def local_second_def)
  have start: "day_of y mo 1 \<le> l div 86400" "l div 86400 \<le> day_of y mo 1 + 30"
    using vl month_length_bounds [of y mo] mo unfolding dl [symmetric] by (auto simp: valid_date_def day_of_month)
  have d31: "day_of y mo 1 \<le> day_of y mo (min (mp_day p) (month_length y mo))"
    "day_of y mo (min (mp_day p) (month_length y mo)) \<le> day_of y mo 1 + 30"
    using mo p month_length_bounds [of y mo] by (auto simp: day_of_month preset_ok_def)
  show "l - 32 * 86400 \<le> monthly_second p y mo" "monthly_second p y mo \<le> l + 32 * 86400"
    using lb tod start d31 by (simp_all add: monthly_second_def local_second_def)
  have "day_of (fst n) (snd n) 1 \<le> day_of y mo 1 + 31"
  proof (cases "mo = 12")
    case True
    then have "n = (y + 1, 1)" by (simp add: n_def next_month_def)
    with True show ?thesis
      using day_of_month [of 12 y 1, simplified] day_of_month [of 1 "y + 1" 1, simplified]
      by (simp add: day_from_year_Suc month_starts_def split: if_splits)
  next
    case False
    with mo have "mo < 12" "n = (y, mo + 1)" by (simp_all add: n_def next_month_def)
    with mo month_starts_step [of mo y] month_length_bounds [of y mo] day_of_month [of "mo + 1" y 1, simplified]
    show ?thesis by (simp add: day_of_month)
  qed
  moreover have "day_of (fst n) (snd n) (min (mp_day p) (month_length (fst n) (snd n))) \<le> day_of (fst n) (snd n) 1 + 30"
    using n p month_length_bounds [of "fst n" "snd n"] by (auto simp: day_of_month preset_ok_def)
  ultimately show "monthly_second p (fst n) (snd n) \<le> l + 63 * 86400"
    using lb tod start by (simp add: monthly_second_def local_second_def)
  assume k: "l \<le> k" "k mod 60 = 0" "monthly_matches p (clock_of k)"
  define yk mk where "yk = wc_y (clock_of k)" and "mk = wc_mo (clock_of k)"
  have vk: "valid_date yk mk (wc_d (clock_of k))" and dk: "day_of yk mk (wc_d (clock_of k)) = k div 86400"
    unfolding yk_def mk_def by (rule clock_of_sel)+
  have ks: "k = monthly_second p yk mk" unfolding yk_def mk_def by (rule monthly_matches_second [OF k(3,2)])
  have "l div 86400 \<le> k div 86400" using k(1) by (rule zdiv_mono1) simp
  then have "\<not> day_of yk mk (wc_d (clock_of k)) < day_of y mo (wc_d (clock_of l))" by (simp add: dl dk)
  then have "\<not> (yk < y \<or> yk = y \<and> mk < mo)" unfolding day_of_less_iff [OF vk vl] by auto
  then have "yk = y \<and> mk = mo \<or> yk = fst n \<and> mk = snd n \<or> fst n < yk \<or> fst n = yk \<and> snd n < mk"
    using vk mo by (cases "mo = 12") (auto simp: n_def next_month_def valid_date_def)
  then consider "yk = y" "mk = mo" | "yk = fst n" "mk = snd n" | "fst n < yk \<or> fst n = yk \<and> snd n < mk"
    by blast
  then show "k = monthly_second p y mo \<or> monthly_second p (fst n) (snd n) \<le> k"
  proof cases
    case 3
    have "1 \<le> mk" "mk \<le> 12" using vk by (simp_all add: valid_date_def)
    from monthly_second_less [OF p n this 3] show ?thesis using ks by simp
  qed (use ks in auto)
qed

text \<open>In a stretch of steady clocks the loop needs two passes at most.\<close>

context steady_zone
begin

lemma monthly_loop_step:
  assumes p: "preset_ok p" and mo: "1 \<le> mo" "mo \<le> 12"
    and w: "a + 86400 \<le> monthly_second p y mo - c" "monthly_second p y mo - c + 86400 \<le> b"
  shows "monthly_loop (Suc i) p fromMs ((l - c) * 1000) z y mo =
    (if l \<le> monthly_second p y mo then Inr ((monthly_second p y mo - c) * 1000)
     else monthly_loop i p fromMs ((l - c) * 1000) z (fst (next_month y mo)) (snd (next_month y mo)))"
proof -
  have "0 \<le> monthly_second p y mo" using w(1) since_1970 offset_bound by simp
  then have "-1 \<le> day_of y mo (min (mp_day p) (month_length y mo))"
    using monthly_second_day [OF p mo, of y] div_bounds [of 86400 "monthly_second p y mo"] by simp
  from year_not_short [OF preset_date [OF p mo] this] have y: "1969 \<le> y" .
  have "fromWallClock y mo (min (mp_day p) (month_length y mo)) (mp_hour p) (mp_minute p) z
      = (monthly_second p y mo - c) * 1000"
    by (rule from_wall_clock [OF preset_date [OF p mo]]) (use p w in \<open>simp_all add: monthly_second_def preset_ok_def\<close>)
  then show ?thesis
    using daysInMonth_month_length [OF y mo] by (simp add: Let_def next_month_def)
qed

lemma nextMonthlyFire_exact:
  assumes p: "preset_ok p" and w: "a + 40 * 86400 \<le> fromMs div 1000" "fromMs div 1000 + 70 * 86400 \<le> b"
  obtains t where "nextMonthlyFire p fromMs z = Inr t" "fromMs < t" "t \<le> fromMs + 64 * 86400000" "t mod 60000 = 0"
    "monthly_matches p (wallClock t z)"
    "\<forall>u. fromMs < u \<and> u < t \<and> u mod 60000 = 0 \<longrightarrow> \<not> monthly_matches p (wallClock u z)"
proof -
  define start where "start = next_minute fromMs"
  have s: "fromMs < start" "start \<le> fromMs + 60000" "start mod 60000 = 0"
    using div_bounds [of 60000 fromMs] by (simp_all add: start_def next_minute_def)
  define l where "l = start div 1000 + c"
  note ms = minute_clock [OF s(3), folded l_def]
  define y mo n where "y = wc_y (clock_of l)" and "mo = wc_mo (clock_of l)" and "n = next_month y mo"
  note c = monthly_candidates [OF p ms(1), folded y_def mo_def, folded n_def]
  have lw: "a + 40 * 86400 \<le> l - c" "l - c + 70 * 86400 \<le> b + 120"
  proof -
    have "fromMs div 1000 \<le> start div 1000" "start div 1000 \<le> (fromMs + 60000) div 1000"
      using s(1,2) by (auto intro: zdiv_mono1)
    moreover have "(fromMs + 60000) div 1000 = fromMs div 1000 + 60" by simp
    ultimately show "a + 40 * 86400 \<le> l - c" "l - c + 70 * 86400 \<le> b + 120"
      using w by (simp_all add: l_def)
  qed
  define r where "r = (if l \<le> monthly_second p y mo then monthly_second p y mo else monthly_second p (fst n) (snd n))"
  have wl: "wallClock start z = clock_of l"
    using wall_clock_at [of l] lw ms(2) by simp
  have "monthly_loop 13 p fromMs ((l - c) * 1000) z y mo = Inr ((r - c) * 1000)"
  proof -
    have e: "(13 :: nat) = Suc (Suc 11)" by simp
    have 1: "a + 86400 \<le> monthly_second p y mo - c" "monthly_second p y mo - c + 86400 \<le> b"
      "a + 86400 \<le> monthly_second p (fst n) (snd n) - c" "monthly_second p (fst n) (snd n) - c + 86400 \<le> b"
      using c(5-8) lw by simp_all
    show ?thesis
      unfolding e monthly_loop_step [OF p c(1,2) 1(1,2)] n_def [symmetric] monthly_loop_step [OF p c(3,4) 1(3,4)]
      using c(5) by (simp add: r_def)
  qed
  then have fire: "nextMonthlyFire p fromMs z = Inr ((r - c) * 1000)"
    unfolding nextMonthlyFire_def Let_def start_def [symmetric] wl y_def [symmetric] mo_def [symmetric] ms(2) [symmetric] .
  have r: "l \<le> r" "r \<le> l + 63 * 86400" using c(5,6,8) by (auto simp: r_def)
  have rm: "r mod 60 = 0" "monthly_matches p (clock_of r)"
    using monthly_second_matches [OF p c(1,2), of y] monthly_second_matches [OF p c(3,4), of "fst n"]
    by (simp_all add: r_def monthly_second_def local_second_def)
  have wk: "wallClock ((k - c) * 1000) z = clock_of k" if "l \<le> k" "k \<le> r" for k
    using that lw r by (intro wall_clock_at) simp_all
  show ?thesis
  proof (rule that [OF fire])
    show "fromMs < (r - c) * 1000" "(r - c) * 1000 \<le> fromMs + 64 * 86400000" using s r ms(2) by simp_all
    have "60 dvd r - c" using rm(1) offset_minutes by (auto simp: mod_eq_0_iff_dvd intro: dvd_diff)
    then obtain q where q: "r - c = 60 * q" by (rule dvdE)
    then show "(r - c) * 1000 mod 60000 = 0" by simp
    show "monthly_matches p (wallClock ((r - c) * 1000) z)" using wk [of r] r(1) rm(2) by simp
    show "\<forall>u. fromMs < u \<and> u < (r - c) * 1000 \<and> u mod 60000 = 0 \<longrightarrow> \<not> monthly_matches p (wallClock u z)"
    proof (intro allI impI notI, elim conjE)
      fix u assume u: "fromMs < u" "u < (r - c) * 1000" "u mod 60000 = 0" "monthly_matches p (wallClock u z)"
      define k where "k = u div 1000 + c"
      note mk = minute_clock [OF u(3), folded k_def]
      have "start \<le> u"
      proof -
        obtain q where q: "u = q * 60000" using u(3) by (auto elim: dvdE simp: mult.commute)
        have "fromMs div 60000 < q" using u(1) div_bounds [of 60000 fromMs] unfolding q by simp
        then show ?thesis by (simp add: start_def next_minute_def q)
      qed
      then have k: "l \<le> k" "k < r" using ms(2) mk(2) u(2) by simp_all
      with u(4) wk [of k] mk(2) have "monthly_matches p (clock_of k)" by simp
      moreover have "monthly_second p y mo < monthly_second p (fst n) (snd n)"
        by (rule monthly_second_less [OF p c(1-4)]) (simp add: n_def next_month_def)
      ultimately show False
        using c(9) [OF k(1) mk(1)] k c(5) by (auto simp: r_def split: if_splits)
    qed
  qed
qed

end

text \<open>
  C25: An expression that names one day of every month always fires within 64 days, at the first minute
  after \<open>fromMs\<close> whose clock shows its time on its day, or on the last day of a shorter month; the
  clocks are steady from 40 days before until 70 days after.
\<close>

theorem monthly_fires_every_month:
  assumes "tryParseMonthlyPreset expr = Some p" "steady_between z c a b"
    and "a + 40 * 86400 \<le> fromMs div 1000" "fromMs div 1000 + 70 * 86400 \<le> b"
  shows "\<exists>t. nextCronOrMonthlyFire expr fromMs z = Inr t \<and> fromMs < t \<and> t \<le> fromMs + 64 * 86400000 \<and> t mod 60000 = 0
    \<and> monthly_matches p (wallClock t z)
    \<and> (\<forall>u. fromMs < u \<and> u < t \<and> u mod 60000 = 0 \<longrightarrow> \<not> monthly_matches p (wallClock u z))"
proof -
  obtain t where "nextMonthlyFire p fromMs z = Inr t" "fromMs < t" "t \<le> fromMs + 64 * 86400000" "t mod 60000 = 0"
    "monthly_matches p (wallClock t z)"
    "\<forall>u. fromMs < u \<and> u < t \<and> u mod 60000 = 0 \<longrightarrow> \<not> monthly_matches p (wallClock u z)"
    by (rule steady_zone.nextMonthlyFire_exact [OF assms(2) [folded steady_zone_iff]
        tryParseMonthlyPreset_ok [OF assms(1)] assms(3,4)])
  with assms(1) show ?thesis by (auto simp: nextCronOrMonthlyFire_def)
qed

lemma parse_last_day:
  "tryParseMonthlyPreset (js ''0 9 31 * *'') = Some \<lparr>mp_minute = 0, mp_hour = 9, mp_day = 31\<rparr>"
  "tryParseMonthlyPreset (js ''0 9 15 * *'') = Some \<lparr>mp_minute = 0, mp_hour = 9, mp_day = 15\<rparr>"
  by (simp_all add: tryParseMonthlyPreset_def trim_def trim_start_def is_space_def NUM_def is_digit_def decimal_value_def)

lemma monthly_fires_every_month_witness:
  "\<exists>t. nextCronOrMonthlyFire (js ''0 9 31 * *'') 1769821200000 (fixed_zone 28800) = Inr t \<and> 1769821200000 < t
    \<and> t \<le> 1769821200000 + 64 * 86400000"
  using monthly_fires_every_month [OF parse_last_day(1) steady_fixed_zone [of 0 28800 1775869200], of 1769821200000] by auto

section \<open>Clamping and plain cron\<close>

lemma digits_no_sign:
  assumes "NUM t"
  shows "t \<noteq> []" "42 \<notin> set t" "44 \<notin> set t" "45 \<notin> set t" "47 \<notin> set t"
  using assms by (auto simp: NUM_def list_all_iff is_digit_def dest!: bspec simp: word_le_nat_alt)

lemma parseField_numeral:
  assumes "NUM t" "fr_min r \<le> decimal_value t" "decimal_value t \<le> fr_max r" "fr_max r \<le> 59"
  shows "parseField t r False = Inr [decimal_value t]"
proof -
  note s = digits_no_sign [OF assms(1)]
  have "decimal_value t < 2 ^ 1024 - 2 ^ 970"
  proof -
    have "(59 :: int) < 2 ^ 1024 - 2 ^ 970" by simp
    with assms(3,4) show ?thesis by linarith
  qed
  then have p: "parseDecimalInteger t = Some (decimal_value t)"
    using assms(1) by (simp add: parseDecimalInteger_def NUM_def)
  have ps: "parse_segment r (fr_max r) t t = Inr (decimal_value t, decimal_value t, 1)"
    unfolding parse_segment_iff using p assms(2,3) by (intro cron_segment.Plain cron_range.Value)
  have "step_values (decimal_value t) (decimal_value t) 1 = [decimal_value t]"
    by (simp add: step_values.simps)
  then show ?thesis
    using s by (simp add: parseField_def split_on_none ps set_add_def)
qed

text \<open>A monthly preset is an expression of the cron parser, with one minute, one hour, one day and every month.\<close>

lemma preset_parses:
  assumes "tryParseMonthlyPreset expr = Some p"
  obtains cron where "parseCron expr = Inr cron" "pc_minute cron = [mp_minute p]" "pc_hour cron = [mp_hour p]"
    "pc_dayOfMonth cron = [mp_day p]" "pc_month cron = [1..12]" "pc_domRestricted cron" "\<not> pc_dowRestricted cron"
proof -
  obtain mm hh dm where parts: "split_space_runs (trim expr) = [mm, hh, dm, js ''*'', js ''*'']"
    and num: "NUM mm" "NUM hh" "NUM dm"
    and p: "p = \<lparr>mp_minute = decimal_value mm, mp_hour = decimal_value hh, mp_day = decimal_value dm\<rparr>"
    and r: "0 \<le> decimal_value mm" "decimal_value mm \<le> 59" "0 \<le> decimal_value hh" "decimal_value hh \<le> 23"
      "1 \<le> decimal_value dm" "decimal_value dm \<le> 31"
    using assms by (auto simp: tryParseMonthlyPreset_def Let_def split: list.splits if_splits)
  have f: "parseField mm range_minute False = Inr [decimal_value mm]" "parseField hh range_hour False = Inr [decimal_value hh]"
    "parseField dm range_dayOfMonth False = Inr [decimal_value dm]"
    using num r by (simp_all add: parseField_numeral field_ranges)
  have dm: "dm \<noteq> js ''*''" using digits_no_sign(2) [OF num(3)] by auto
  show ?thesis
  proof (rule that)
    show "parseCron expr = Inr \<lparr>pc_minute = [mp_minute p], pc_hour = [mp_hour p], pc_dayOfMonth = [mp_day p], pc_month = [1..12],
      pc_dayOfWeek = [0..6], pc_domRestricted = True, pc_dowRestricted = False, pc_expr = trim expr\<rparr>"
      unfolding parseCron_def Let_def parts list.case star_fields f sum.case using dm by (simp add: p)
  qed simp_all
qed

lemma cron_matches_preset:
  assumes "pc_minute cron = [mp_minute p]" "pc_hour cron = [mp_hour p]" "pc_dayOfMonth cron = [mp_day p]" "pc_month cron = [1..12]"
    "pc_domRestricted cron" "\<not> pc_dowRestricted cron" "mp_day p \<le> 28"
  shows "cron_matches cron (clock_of l) \<longleftrightarrow> monthly_matches p (clock_of l)"
  using assms clock_of_sel(1) [of l] month_length_bounds [of "wc_y (clock_of l)" "wc_mo (clock_of l)"]
  by (auto simp: cron_matches_def monthly_matches_def matchesDay_def valid_date_def min_def)

text \<open>
  C26: Away from changes of the clocks, clamping matters in short months only. When the clocks of the time zone do not change from 40 days
  before the instant until 70 days after it, the clamping algorithm returns for a day up to 28 what \<open>nextRun\<close> returns for the same
  expression. Around a change of the clocks the two can differ, as \<open>clamping_differs_at_clock_change\<close> shows below.
\<close>

theorem clamping_only_in_short_months:
  assumes "tryParseMonthlyPreset expr = Some p" "mp_day p \<le> 28" "steady_between z c a b"
    and "a + 40 * 86400 \<le> fromMs div 1000" "fromMs div 1000 + 70 * 86400 \<le> b"
  shows "\<exists>t. nextCronOrMonthlyFire expr fromMs z = Inr t \<and> nextRun expr fromMs z = Inr t"
proof -
  obtain t where t: "nextMonthlyFire p fromMs z = Inr t" "fromMs < t" "t \<le> fromMs + 64 * 86400000" "t mod 60000 = 0"
    "monthly_matches p (wallClock t z)"
    "\<forall>u. fromMs < u \<and> u < t \<and> u mod 60000 = 0 \<longrightarrow> \<not> monthly_matches p (wallClock u z)"
    by (rule steady_zone.nextMonthlyFire_exact [OF assms(3) [folded steady_zone_iff]
        tryParseMonthlyPreset_ok [OF assms(1)] assms(4,5)])
  obtain cron where cron: "parseCron expr = Inr cron" "pc_minute cron = [mp_minute p]" "pc_hour cron = [mp_hour p]"
    "pc_dayOfMonth cron = [mp_day p]" "pc_month cron = [1..12]" "pc_domRestricted cron" "\<not> pc_dowRestricted cron"
    using preset_parses [OF assms(1)] .
  have m: "cron_matches cron (wallClock u z) \<longleftrightarrow> monthly_matches p (wallClock u z)" for u
    unfolding wallClock_clock_of by (rule cron_matches_preset [OF cron(2-7) assms(2)])
  have "t div 1000 \<le> (fromMs + 64 * 86400000) div 1000" using t(3) by (rule zdiv_mono1) simp
  then have b: "t div 1000 + 172800 \<le> b" using assms(5) by simp
  have "nextRun expr fromMs z = Inr t"
  proof (rule steady_zone.nextRun_reaches [OF assms(3) [folded steady_zone_iff] cron(1) _ t(4,2)])
    show "cron_matches cron (wallClock t z)" unfolding m by (rule t(5))
    show "\<not> cron_matches cron (wallClock u z)" if "fromMs < u" "u < t" "u mod 60000 = 0" for u
      unfolding m using t(6) that by simp
    show "a + 172800 \<le> fromMs div 1000" using assms(4) by simp
    show "t div 1000 + 172800 \<le> b" by (rule b)
    show "t - fromMs \<le> 10000 * 86400000" using t(3) by simp
  qed
  with t(1) assms(1) show ?thesis by (auto simp: nextCronOrMonthlyFire_def)
qed

lemma clamping_only_in_short_months_witness:
  "\<exists>t. nextCronOrMonthlyFire (js ''0 9 15 * *'') 1769821200000 (fixed_zone 28800) = Inr t
    \<and> nextRun (js ''0 9 15 * *'') 1769821200000 (fixed_zone 28800) = Inr t"
  using clamping_only_in_short_months [OF parse_last_day(2) _ steady_fixed_zone [of 0 28800 1775869200], of 1769821200000] by simp

text \<open>
  The condition on the clocks is needed. On March 8, 2026 the clocks of New York skip the hour from 2:00: for half past two on the
  eighth of every month the clamping algorithm fires at 3:30 on that day, and \<open>nextRun\<close> does not, because 3:30 does not match the expression.
\<close>

lemma parse_half_past_two:
  "tryParseMonthlyPreset (js ''30 2 8 * *'') = Some \<lparr>mp_minute = 30, mp_hour = 2, mp_day = 8\<rparr>"
  by (simp add: tryParseMonthlyPreset_def trim_def trim_start_def is_space_def NUM_def is_digit_def decimal_value_def)

lemma march_8: "make_day 2026 2 8 = 20520" "valid_date 2026 3 8" "month_length 2026 3 = 31"
  by (simp_all add: make_day_def day_from_year_def leap_year_def month_starts_def Let_def numeral_nat valid_date_def month_length_def)

lemma march_clocks:
  "wallClock 1772946060000 new_york_2026 = \<lparr>wc_y = 2026, wc_mo = 3, wc_d = 8, wc_h = 0, wc_mi = 1, wc_s = 0, wc_dow = 0\<rparr>"
  "wallClock 1772951400000 new_york_2026 = \<lparr>wc_y = 2026, wc_mo = 3, wc_d = 8, wc_h = 1, wc_mi = 30, wc_s = 0, wc_dow = 0\<rparr>"
  "wallClock 1772955000000 new_york_2026 = \<lparr>wc_y = 2026, wc_mo = 3, wc_d = 8, wc_h = 3, wc_mi = 30, wc_s = 0, wc_dow = 0\<rparr>"
  by (subst wallClock_shows [where y = 2026 and mo = 3 and d = 8],
      simp_all (no_asm_simp) add: new_york_2026_def local_second_def march_8)+

lemma skipped_half_past_two: "fromWallClock 2026 3 8 2 30 new_york_2026 = 1772955000000"
proof -
  have "Date_UTC 2026 (3 - 1) 8 2 30 0 = 1772937000000" by (simp add: Date_UTC_def march_8)
  moreover have "tzOffsetMs 1772937000000 new_york_2026 = -18000000" "tzOffsetMs 1772955000000 new_york_2026 = -14400000"
    by (simp_all add: tzOffsetMs_offset new_york_2026_def)
  ultimately show ?thesis
    by (simp add: fromWallClock_def march_clocks wallClockEquals_def)
qed

lemma clamping_differs_at_clock_change:
  "nextCronOrMonthlyFire (js ''30 2 8 * *'') 1772946000000 new_york_2026 = Inr 1772955000000
    \<and> nextRun (js ''30 2 8 * *'') 1772946000000 new_york_2026 \<noteq> Inr 1772955000000"
proof
  have "daysInMonth 2026 3 = 31" by code_simp
  then show "nextCronOrMonthlyFire (js ''30 2 8 * *'') 1772946000000 new_york_2026 = Inr 1772955000000"
    unfolding nextCronOrMonthlyFire_def parse_half_past_two option.case nextMonthlyFire_def
    by (simp add: next_minute_def march_clocks eval_nat_numeral skipped_half_past_two)
  obtain cron where cron: "parseCron (js ''30 2 8 * *'') = Inr cron" "pc_hour cron = [2]"
    using preset_parses [OF parse_half_past_two] by auto
  show "nextRun (js ''30 2 8 * *'') 1772946000000 new_york_2026 \<noteq> Inr 1772955000000"
    using walk_loop_sound [of MAX_ITERATIONS _ cron new_york_2026 _ 1772955000000] cron
    unfolding nextRun_def cron(1) sum.case by (auto simp: cron_matches_def march_clocks)
qed

end
