(* ===== verification/CronText.thy ===== *)
theory CronText
  imports CronRun
begin

text \<open>
  \<open>cronToHuman\<close> of \<open>maker-scheduler/src/engine/cron.ts\<close>: the English description of an expression. An
  expression that does not parse is its own description.
\<close>

section \<open>The description\<close>

definition DOW_NAMES :: "jsstring list" where
  "DOW_NAMES = map js [''Sun'', ''Mon'', ''Tue'', ''Wed'', ''Thu'', ''Fri'', ''Sat'']"

definition MONTH_NAMES :: "jsstring list" where
  "MONTH_NAMES = map js [''Jan'', ''Feb'', ''Mar'', ''Apr'', ''May'', ''Jun'', ''Jul'', ''Aug'', ''Sep'', ''Oct'', ''Nov'', ''Dec'']"

text \<open>\<open>String(n)\<close> of a number of a field, which is not negative.\<close>

abbreviation number_text :: "int \<Rightarrow> jsstring" where
  "number_text n \<equiv> toString10 (nat n)"

definition pad2 :: "int \<Rightarrow> jsstring" where
  "pad2 n = padStart 2 48 (number_text n)"

definition formatList :: "int list \<Rightarrow> jsstring" where
  "formatList xs = (if length xs \<le> 4 then join_with 44 (map number_text xs)
     else number_text (hd xs) @ js '',...,'' @ number_text (last xs))"

definition time_part :: "parsed_cron \<Rightarrow> jsstring list" where
  "time_part cron =
     (let minStar = (length (pc_minute cron) = 60); hourStar = (length (pc_hour cron) = 24)
      in if length (pc_minute cron) = 1 \<and> length (pc_hour cron) = 1
         then [js ''At '' @ pad2 (hd (pc_hour cron)) @ js '':'' @ pad2 (hd (pc_minute cron))]
         else if \<not> minStar \<or> \<not> hourStar then
           (if length (pc_minute cron) = 1
            then [js ''At minute '' @ number_text (hd (pc_minute cron)) @ js '' of hour '' @ formatList (pc_hour cron)]
            else [js ''At minute '' @ formatList (pc_minute cron) @ js '' of hour '' @ formatList (pc_hour cron)])
         else [])"

definition day_parts :: "parsed_cron \<Rightarrow> jsstring list" where
  "day_parts cron =
     (if pc_dowRestricted cron then [js ''on '' @ join_with 44 (map (\<lambda>d. DOW_NAMES ! nat d) (pc_dayOfWeek cron))] else [])
     @ (if pc_domRestricted cron then [js ''on day-of-month '' @ formatList (pc_dayOfMonth cron)] else [])
     @ (if length (pc_month cron) \<noteq> 12 then [js ''in '' @ join_with 44 (map (\<lambda>m. MONTH_NAMES ! nat (m - 1)) (pc_month cron))]
        else [])"

definition common_pattern :: "jsstring \<Rightarrow> jsstring option" where
  "common_pattern trimmed = map_of
     [(js ''* * * * *'', js ''Every minute''), (js ''*/5 * * * *'', js ''Every 5 minutes''),
      (js ''*/10 * * * *'', js ''Every 10 minutes''), (js ''*/15 * * * *'', js ''Every 15 minutes''),
      (js ''*/30 * * * *'', js ''Every 30 minutes''), (js ''0 * * * *'', js ''Every hour'')] trimmed"

definition cronToHuman :: "jsstring \<Rightarrow> jsstring" where
  "cronToHuman expr = (case parseCron expr of
     Inl e \<Rightarrow> expr
   | Inr cron \<Rightarrow> (case common_pattern (trim expr) of
       Some s \<Rightarrow> s
     | None \<Rightarrow> (let parts = time_part cron @ day_parts cron
         in if parts = [] then js ''Every minute'' else join_with 32 parts)))"

section \<open>What is named exists\<close>

text \<open>Every day and month of an accepted expression has a name, and a time of day has two digits each.\<close>

lemma names_exist:
  assumes "parseCron expr = Inr cron"
  shows "\<forall>d \<in> set (pc_dayOfWeek cron). nat d < length DOW_NAMES"
    "\<forall>m \<in> set (pc_month cron). nat (m - 1) < length MONTH_NAMES"
  using parseCron_fields [OF assms] by (auto simp: cron_fields_ok_def DOW_NAMES_def MONTH_NAMES_def)

lemma toString10_two: "n < 10 \<Longrightarrow> toString10 n = [of_nat (48 + n)]"
  "10 \<le> n \<Longrightarrow> n < 100 \<Longrightarrow> toString10 n = [of_nat (48 + n div 10), of_nat (48 + n mod 10)]"
  by (simp_all add: toString10.simps [of n] toString10.simps [of "n div 10"] div_less_iff_less_mult)

lemma pad2_digits:
  assumes "0 \<le> n" "n < 100"
  shows "pad2 n = [of_nat (48 + nat n div 10), of_nat (48 + nat n mod 10)]"
  using assms by (cases "n < 10") (simp_all add: pad2_def padStart_def toString10_two nat_less_iff)

lemma time_of_day_described:
  assumes "parseCron expr = Inr cron" "pc_minute cron = [mi]" "pc_hour cron = [h]"
  shows "hd (time_part cron) = js ''At '' @ [of_nat (48 + nat h div 10), of_nat (48 + nat h mod 10)] @ js '':''
    @ [of_nat (48 + nat mi div 10), of_nat (48 + nat mi mod 10)]"
  using parseCron_fields [OF assms(1)] assms(2,3)
  by (simp add: time_part_def cron_fields_ok_def pad2_digits)

end
