(* ===== verification/Spec2Isabelle.thy ===== *)
theory Spec2Isabelle
  imports DictReconcile DictStoreWrites LayoutStore CommandWords LoopContracts LoopEvidence CronMonthly CronText
begin

text \<open>
  \<^bold>\<open>Lex: the replicated voice dictionary, the layout of the main window, the tool loop guard and the cron engine.\<close>

  Lex is a desktop and mobile client for coding agents. This library models the parts of it that
  decide something on their own, apart from the I/O around them, as executable HOL functions translated from the TypeScript
  sources, and proves what makes them correct.

  \<^bold>\<open>Voice dictionary\<close> (\<open>src/packages/voice-input-core/src/dictionary-sync\<close>). Every device keeps a replicated state:
  records of terms with incarnations, tombstones, per-node counters, aliases and suppressions, stamped by a hybrid logical clock. Local
  operations change a copy; copies are exchanged and merged.
    \<^item> \<open>Hlc\<close> -- \<open>hlc.ts\<close>: stamps; their text is canonical, reads back and sorts as the clock; ticking and observing.
    \<^item> \<open>DictText\<close> -- \<open>text.ts\<close>: terms and keys; normalisation equals words joined by blanks, cut.
    \<^item> \<open>DictTypes\<close> -- \<open>types.ts\<close>: the state and its readings.
    \<^item> \<open>Replication\<close>: the locales \<open>crdt\<close> (a join semilattice of well-formed states, convergence of replicas) and
      \<open>keyed_crdt\<close> (the same key by key); \<open>DictMerge\<close> -- \<open>merge.ts\<close> -- interprets them for counters, aliases,
      incarnations, tombstones, records, suppressions, vectors and states, and treats version vectors.
    \<^item> \<open>DictAlias\<close> -- \<open>alias-removal.ts\<close>, \<open>move-tag.ts\<close>, \<open>moved-aliases.ts\<close>: removal markers, renames and their resolution,
      with fuel for the chain of renames that the number of ancestors bounds.
    \<^item> \<open>DictMaterialize\<close> -- \<open>materialize.ts\<close>: the dictionary shown to the user.
    \<^item> \<open>DictMutate\<close> -- \<open>mutate.ts\<close>: the local operations; \<open>DictMutateLemmas\<close> their effect on well-formedness and totals;
      \<open>DictGuarantees\<close> what survives a merge (additions, deletions, renames); \<open>DictCollect\<close> promotion, pruning and collection.
    \<^item> \<open>DictReconcile\<close> -- \<open>reconcile.ts\<close>, \<open>dictionaryLearningPolicy.ts\<close>: reconciliation with an edited file.
    \<^item> \<open>DictValidate\<close> -- \<open>isValidSyncState\<close> of \<open>types.ts\<close> and the stored form in \<open>VoiceDictionarySyncStore.ts\<close>.
    \<^item> \<open>DictStore\<close>, \<open>DictStoreSafety\<close>, \<open>DictStoreWrites\<close> -- \<open>VoiceDictionarySyncStore.ts\<close> of the desktop main process: every method over
      a map from accounts to files; the locale \<open>store_invariant\<close> states what an invariant of the store has to
      satisfy and is interpreted for well-formedness, newer files, held data and other accounts' files.

  \<^bold>\<open>Layout\<close> (\<open>src/apps/desktop\<close>). The main window is a tree of panes and splits.
    \<^item> \<open>LayoutTree\<close> -- \<open>src/shared/layoutTree.ts\<close>: data, default, validation of a value of unknown shape, \<open>coerceLayout\<close>; the
      validation accepts exactly the values of well-formed layouts.
    \<^item> \<open>LayoutOps\<close> -- the operations of the same file, with every reason for a refusal; \<open>LayoutLaws\<close>: runs of operations keep
      layouts valid, rearranging keeps every pane; \<open>LayoutFractions\<close>: fractions set and transferred exactly, resets keep plugin panels.
    \<^item> \<open>LayoutStore\<close> -- \<open>src/main/layout/LayoutStore.ts\<close>: cache, file, failing writes and restarts; it refines two cells that always hold
      a well-formed layout.

  \<^bold>\<open>Shell launchers\<close> (\<open>src/packages/maker-shared/src/commandDisplay.ts\<close>). \<open>Js_Regex\<close> gives the regular expressions used a meaning;
  \<open>CommandDisplay\<close> models the readers of POSIX and Windows tokens; \<open>CommandWords\<close> states the words of a shell declaratively, proves the
  POSIX reader equivalent to it, and the round trip through quoting.

  \<^bold>\<open>Tool loop guard\<close> (\<open>src/packages/maker-core/src/agents/shared/loop-guard.ts\<close>). \<open>ToolFingerprint\<close>: the stable text of a call,
  which determines the call. \<open>LoopGuard\<close>: classification of errors, waiting tools (over \<open>CommandDisplay\<close>), evidence, and the class
  \<open>ToolLoopGuard\<close> with its state and every method. \<open>LoopGuardLaws\<close>: what is remembered, loops are stopped, waiting tools are
  invisible. \<open>LoopContracts\<close>: batches. \<open>LoopEvidence\<close>: what is cut.

  \<^bold>\<open>Cron engine\<close> (\<open>src/packages/maker-scheduler/src/engine\<close>). Scheduled tasks name their runs by five-field expressions in a time zone.
    \<^item> \<open>CivilTime\<close> -- the calendar of ECMA-262 and \<open>Date.UTC\<close>, which it proves to be an order isomorphism between days and dates, and the wall
      clocks of \<open>cron.ts\<close>. A time zone is the function from seconds to offsets that the host has for it. The locale \<open>steady_zone\<close> states
      that a zone changes no clock between two seconds; it is interpreted for UTC and for the summer of New York.
    \<^item> \<open>ClockChange\<close>: \<open>fromWallClock\<close> around one change of the clocks. \<open>CronParse\<close>: the parser of \<open>cron.ts\<close> and its grammar as inductive relations.
    \<^item> \<open>CronRun\<close> -- \<open>nextRun\<close>: one pass of its loop is \<open>walk\<close>, the loop has the iteration limit of the source as fuel. Every pass
      lowers \<open>walk_rank\<close>, twice the hours left plus one, so the limit of 527040 covers 30 years; no expression needs more than nine.
      \<open>CronLaws\<close>: the first match, and which expressions fire. \<open>CronChange\<close>: progress across changes of the clocks (locale \<open>clock_change\<close>) and where it fails.
    \<^item> \<open>CronMonthly\<close> -- \<open>monthlyClamp.ts\<close>: one run a month, on the last day of shorter months. \<open>CronText\<close>: \<open>cronToHuman\<close>.

  \<^bold>\<open>Conventions.\<close> A JavaScript string is the list of its UTF-16 code units, a finite number a rational (so arithmetic on doubles is
  exact here, which matters for the fractions of a layout only), an object used as a dictionary a finite map, a value
  of \<open>JSON.parse\<close> the datatype \<open>json\<close>. Errors are values of sums, options and result records. An operation reads the clock
  once. States are compared by value where the code compares references, or by \<open>isDeepStrictEqual\<close> (which also looks at prototypes, so the
  store may commit a state that the model finds unchanged), to see whether something changed.
  Loops are structural recursions where they can be; the others have a measure, or fuel that a lemma shows to be enough
  (the resolution of renamed terms, the search for a free id, repetitions of a regular expression).
  Parameters stand for the host: case tables and collation of the platform, the JSON and URI codec of removal markers, SHA-256 and the
  text of a number, and the offsets of a time zone. Instants are whole milliseconds, without the limit of \<open>Date\<close> at 8.64e15 and without the eras
  before year 1; numerals in cron expressions are exact, so above \<open>2 ^ 53\<close> a rejected field can name another reason. The digest of a
  fingerprint takes UTF-16 text, where the code encodes it as UTF-8 and maps lone surrogates to one character. A layout read from an unknown value
  has the members of its type only; the code keeps additional members in its copy. Of objects with an inherited
  member the model knows \<open>constructor\<close> and \<open>__proto__\<close> on records.

  \<^bold>\<open>Not modelled.\<close> Recognition and network sessions, the drivers of external agents, transports and proxies, windows and views,
  the mobile screens and native helpers: they are I/O, user interface or adapters of third-party protocols. Logging is left out
  everywhere. In the loop guard inputs are values of \<open>JSON.parse\<close>, so its branches for big integers, symbols, functions and cycles are not modelled.
\<close>

end
